(* ===== verification/JS_Prelude.thy ===== *)
theory JS_Prelude
  imports Complex_Main "HOL-Library.AList" "HOL-Library.Char_ord" "HOL-Library.List_Lexorder"
    "HOL-Library.Multiset"
begin

text \<open>
  What the JavaScript components share: the values of the language, its objects as
  insertion-ordered association lists, the string and number operations of its standard
  library that the sources call, and the generic lemmas the component proofs use.

  An object is an association list with distinct keys. Assigning to a property keeps the
  place of an existing key and appends a new one, \<^verbatim>\<open>delete\<close> removes it, and
  \<^verbatim>\<open>for (k in o)\<close> visits the keys in list order, which is the property order of the
  language for keys that are not array indices. Numbers are exact reals: rounding, infinities
  and the sign of zero are not modelled; not-a-number is a value of its own. Characters are
  the 8-bit characters of \<open>string\<close>.
\<close>

named_theorems js_simps \<open>evaluation of the JavaScript standard library\<close>
named_theorems obj_simps \<open>lookup and update of object properties\<close>

section \<open>Values\<close>

type_synonym 'v obj = "(string \<times> 'v) list"

datatype jsval =
    JUndefined
  | JNull
  | JBool bool
  | JNaN
  | JNum real
  | JStr string
  | JArr "jsval list"
  | JObj "(string \<times> jsval) list"
  | JFun string

type_synonym props = "jsval obj"

text \<open>The conversion of a value to a boolean, as in \<^verbatim>\<open>if (v)\<close>.\<close>

fun truthy :: "jsval \<Rightarrow> bool" where
  "truthy JUndefined = False"
| "truthy JNull = False"
| "truthy (JBool b) = b"
| "truthy JNaN = False"
| "truthy (JNum x) = (x \<noteq> 0)"
| "truthy (JStr s) = (s \<noteq> [])"
| "truthy (JArr _) = True"
| "truthy (JObj _) = True"
| "truthy (JFun _) = True"

text \<open>Reading a property of an object: a missing property reads as undefined.\<close>

definition prop_of :: "props \<Rightarrow> string \<Rightarrow> jsval" where
  "prop_of ps k = (case map_of ps k of None \<Rightarrow> JUndefined | Some v \<Rightarrow> v)"

fun get_prop :: "jsval \<Rightarrow> string \<Rightarrow> jsval" where
  "get_prop (JObj ps) k = prop_of ps k"
| "get_prop _ k = JUndefined"

text \<open>The operator \<^verbatim>\<open>a || b\<close> on values.\<close>

definition js_or :: "jsval \<Rightarrow> jsval \<Rightarrow> jsval" where
  "js_or a b = (if truthy a then a else b)"

text \<open>
  The number a value holds. The sources only do arithmetic on properties that hold numbers;
  other values do not occur there and read as zero.
\<close>

fun num_of :: "jsval \<Rightarrow> real" where
  "num_of (JNum x) = x"
| "num_of _ = 0"

section \<open>Numbers\<close>

text \<open>Truncation towards zero, and the remainder \<^verbatim>\<open>x % m\<close>, whose sign is the sign of \<open>x\<close>.\<close>

definition js_trunc :: "real \<Rightarrow> int" where
  "js_trunc x = (if x < 0 then \<lceil>x\<rceil> else \<lfloor>x\<rfloor>)"

definition js_mod :: "real \<Rightarrow> real \<Rightarrow> real" where
  "js_mod x m = x - m * of_int (js_trunc (x / m))"

text \<open>\<^verbatim>\<open>Math.round\<close> rounds halves upwards.\<close>

definition js_round :: "real \<Rightarrow> int" where
  "js_round x = \<lfloor>x + 1 / 2\<rfloor>"

section \<open>Strings\<close>

definition digit_char :: "nat \<Rightarrow> char" where
  "digit_char d = (if d < 10 then char_of (48 + d) else char_of (87 + d))"

text \<open>Digits of a natural number in a base, most significant first, as \<^verbatim>\<open>toString\<close> prints them.\<close>

fun digits_base :: "nat \<Rightarrow> nat \<Rightarrow> string" where
  "digits_base b n =
     (if b < 2 \<or> n < b then [digit_char n] else digits_base b (n div b) @ [digit_char (n mod b)])"

declare digits_base.simps [simp del]

definition int_to_string :: "int \<Rightarrow> string" where
  "int_to_string i = (if i < 0 then CHR ''-'' # digits_base 10 (nat (- i)) else digits_base 10 (nat i))"

text \<open>
  Printing a number: an integer prints its decimal digits, another number its decimal
  expansion, cut after seventeen fractional digits.
\<close>

fun frac_digits :: "nat \<Rightarrow> real \<Rightarrow> string" where
  "frac_digits 0 x = []"
| "frac_digits (Suc n) x =
     (if x = 0 then []
      else digit_char (nat \<lfloor>10 * x\<rfloor>) # frac_digits n (10 * x - of_int \<lfloor>10 * x\<rfloor>))"

definition num_to_string :: "real \<Rightarrow> string" where
  "num_to_string x =
     (if x = of_int \<lfloor>x\<rfloor> then int_to_string \<lfloor>x\<rfloor>
      else (if x < 0 then ''-'' else []) @ int_to_string \<lfloor>\<bar>x\<bar>\<rfloor> @ ''.''
           @ frac_digits 17 (\<bar>x\<bar> - of_int \<lfloor>\<bar>x\<bar>\<rfloor>))"

fun join :: "string \<Rightarrow> string list \<Rightarrow> string" where
  "join sep [] = []"
| "join sep [x] = x"
| "join sep (x # y # xs) = x @ sep @ join sep (y # xs)"

text \<open>The conversion of a value to a string, as in \<^verbatim>\<open>'' + v\<close>.\<close>

fun to_str :: "jsval \<Rightarrow> string" where
  "to_str JUndefined = ''undefined''"
| "to_str JNull = ''null''"
| "to_str (JBool b) = (if b then ''true'' else ''false'')"
| "to_str JNaN = ''NaN''"
| "to_str (JNum x) = num_to_string x"
| "to_str (JStr s) = s"
| "to_str (JArr vs) =
     join '','' (map (\<lambda>v. if v = JUndefined \<or> v = JNull then [] else to_str v) vs)"
| "to_str (JObj _) = ''[object Object]''"
| "to_str (JFun f) = f"

definition starts_with :: "string \<Rightarrow> string \<Rightarrow> bool" where
  "starts_with p s \<longleftrightarrow> take (length p) s = p"

text \<open>\<^verbatim>\<open>s.substr(from, len)\<close> for a start inside the string.\<close>

definition substr :: "string \<Rightarrow> nat \<Rightarrow> nat \<Rightarrow> string" where
  "substr s from len = take len (drop from s)"

text \<open>\<^verbatim>\<open>s.split(sep)\<close> for a separator that is not empty.\<close>

function split_aux :: "string \<Rightarrow> string \<Rightarrow> string \<Rightarrow> string list" where
  "split_aux sep acc s =
     (case s of [] \<Rightarrow> [acc]
      | c # cs \<Rightarrow>
          if sep \<noteq> [] \<and> starts_with sep s then acc # split_aux sep [] (drop (length sep) s)
          else split_aux sep (acc @ [c]) cs)"
  by pat_completeness auto
termination
  by (relation "measure (\<lambda>(sep, acc, s). length s)") auto

declare split_aux.simps [simp del]

definition split :: "string \<Rightarrow> string \<Rightarrow> string list" where
  "split sep s = split_aux sep [] s"

fun contains_str :: "string \<Rightarrow> string \<Rightarrow> bool" where
  "contains_str p [] = (p = [])"
| "contains_str p (c # cs) = (starts_with p (c # cs) \<or> contains_str p cs)"

definition in_range :: "string \<Rightarrow> char \<Rightarrow> bool" where
  "in_range r c \<longleftrightarrow> hd r \<le> c \<and> c \<le> last r"

text \<open>The word characters \<^verbatim>\<open>\w\<close> of regular expressions.\<close>

definition is_word_char :: "char \<Rightarrow> bool" where
  "is_word_char c \<longleftrightarrow> list_ex (\<lambda>r. in_range r c) [''az'', ''AZ'', ''09'', ''_'']"

definition to_upper :: "char \<Rightarrow> char" where
  "to_upper c = (if CHR ''a'' \<le> c \<and> c \<le> CHR ''z'' then char_of (of_char c - 32 :: nat) else c)"

definition to_upper_case :: "string \<Rightarrow> string" where
  "to_upper_case s = map to_upper s"

definition digit_value :: "char \<Rightarrow> nat option" where
  "digit_value c =
     (if CHR ''0'' \<le> c \<and> c \<le> CHR ''9'' then Some (of_char c - 48)
      else if CHR ''a'' \<le> c \<and> c \<le> CHR ''z'' then Some (of_char c - 87)
      else if CHR ''A'' \<le> c \<and> c \<le> CHR ''Z'' then Some (of_char c - 55)
      else None)"

fun parse_digits :: "nat \<Rightarrow> nat \<Rightarrow> string \<Rightarrow> nat" where
  "parse_digits b acc [] = acc"
| "parse_digits b acc (c # cs) =
     (case digit_value c of
        None \<Rightarrow> acc
      | Some d \<Rightarrow> if d < b then parse_digits b (acc * b + d) cs else acc)"

text \<open>\<^verbatim>\<open>parseInt(s, base)\<close> on a string without sign and leading blanks: the longest prefix of digits.\<close>

definition parse_nat :: "nat \<Rightarrow> string \<Rightarrow> nat option" where
  "parse_nat b s =
     (case s of [] \<Rightarrow> None
      | c # cs \<Rightarrow> (case digit_value c of None \<Rightarrow> None
                  | Some d \<Rightarrow> if d < b then Some (parse_digits b 0 s) else None))"

text \<open>
  \<^verbatim>\<open>s.replace(re, repl)\<close> for a pattern that matches one literal string: in the
  replacement text, \<^verbatim>\<open>$$\<close> stands for a dollar sign, \<^verbatim>\<open>$&\<close> for the match,
  \<^verbatim>\<open>$`\<close> and \<^verbatim>\<open>$'\<close> for the text before and after it.
\<close>

fun expand :: "string \<Rightarrow> string \<Rightarrow> string \<Rightarrow> string \<Rightarrow> string" where
  "expand m pre post [] = []"
| "expand m pre post [c] = [c]"
| "expand m pre post (c # d # r) =
     (if c = CHR ''$'' then
        if d = CHR ''$'' then CHR ''$'' # expand m pre post r
        else if d = CHR ''&'' then m @ expand m pre post r
        else if d = CHR 0x60 then pre @ expand m pre post r
        else if d = CHR 0x27 then post @ expand m pre post r
        else c # expand m pre post (d # r)
      else c # expand m pre post (d # r))"

text \<open>All occurrences, left to right and without overlaps, for a literal that is not empty.\<close>

function replace_global :: "string \<Rightarrow> string \<Rightarrow> string \<Rightarrow> string \<Rightarrow> string" where
  "replace_global pat repl pre s =
     (case s of [] \<Rightarrow> []
      | c # cs \<Rightarrow>
          if pat \<noteq> [] \<and> starts_with pat s then
            expand pat pre (drop (length pat) s) repl
            @ replace_global pat repl (pre @ pat) (drop (length pat) s)
          else c # replace_global pat repl (pre @ [c]) cs)"
  by pat_completeness auto
termination
  by (relation "measure (\<lambda>(pat, repl, pre, s). length s)") auto

declare replace_global.simps [simp del]

section \<open>Sorting by a comparator\<close>

text \<open>
  \<^verbatim>\<open>xs.sort(cmp)\<close>: the stable sort that puts \<open>x\<close> before \<open>y\<close> unless the comparator says
  it is greater.
\<close>

fun insert_by :: "('a \<Rightarrow> 'a \<Rightarrow> int) \<Rightarrow> 'a \<Rightarrow> 'a list \<Rightarrow> 'a list" where
  "insert_by cmp x [] = [x]"
| "insert_by cmp x (y # ys) = (if cmp x y \<le> 0 then x # y # ys else y # insert_by cmp x ys)"

fun sort_by :: "('a \<Rightarrow> 'a \<Rightarrow> int) \<Rightarrow> 'a list \<Rightarrow> 'a list" where
  "sort_by cmp [] = []"
| "sort_by cmp (x # xs) = insert_by cmp x (sort_by cmp xs)"

section \<open>Lemmas on objects\<close>

lemmas obj_update_lookup [obj_simps] = update_conv'
lemmas obj_delete_lookup [obj_simps] = delete_conv'

lemma prop_of_update [obj_simps]:
  "prop_of (AList.update k v ps) j = (if j = k then v else prop_of ps j)"
  by (simp add: prop_of_def update_conv')

lemma prop_of_delete [obj_simps]:
  "prop_of (AList.delete k ps) j = (if j = k then JUndefined else prop_of ps j)"
  by (simp add: prop_of_def delete_conv')

lemma prop_of_Nil [obj_simps, simp]: "prop_of [] k = JUndefined"
  by (simp add: prop_of_def)

lemma prop_of_Cons [obj_simps]: "prop_of ((k, v) # ps) j = (if j = k then v else prop_of ps j)"
  by (simp add: prop_of_def)

lemma keys_update [obj_simps]:
  "map fst (AList.update k v al) = (if k \<in> set (map fst al) then map fst al else map fst al @ [k])"
  by (simp add: update_keys)

lemma distinct_keys_update [intro]:
  "distinct (map fst al) \<Longrightarrow> distinct (map fst (AList.update k v al))"
  by (rule distinct_update)

lemma set_keys_update [simp]: "set (map fst (AList.update k v al)) = insert k (set (map fst al))"
  by (auto simp: update_keys)

lemma image_fst_update [simp]: "fst ` set (AList.update k v al) = insert k (fst ` set al)"
  using set_keys_update [of k v al] by simp

lemma image_fst_delete [simp]: "fst ` set (AList.delete k al) = fst ` set al - {k}"
  by (induction al) auto

lemma update_fresh: "k \<notin> set (map fst al) \<Longrightarrow> AList.update k v al = al @ [(k, v)]"
  by (induction al) auto

section \<open>Lemmas on the comparator sort\<close>

lemma mset_insert_by [simp]: "mset (insert_by cmp x xs) = add_mset x (mset xs)"
  by (induction xs) auto

lemma mset_sort_by [simp]: "mset (sort_by cmp xs) = mset xs"
  by (induction xs) auto

lemma set_sort_by [simp]: "set (sort_by cmp xs) = set xs"
  by (metis mset_sort_by set_mset_mset)

lemma length_sort_by [simp]: "length (sort_by cmp xs) = length xs"
  by (metis mset_sort_by size_mset)

lemma set_insert_by [simp]: "set (insert_by cmp x xs) = insert x (set xs)"
  by (induction xs) auto

text \<open>A comparator that orders the elements totally and consistently.\<close>

locale comparator =
  fixes cmp :: "'a \<Rightarrow> 'a \<Rightarrow> int" and carrier :: "'a set"
  assumes total: "x \<in> carrier \<Longrightarrow> y \<in> carrier \<Longrightarrow> \<not> cmp x y \<le> 0 \<Longrightarrow> cmp y x \<le> 0"
    and trans: "x \<in> carrier \<Longrightarrow> y \<in> carrier \<Longrightarrow> z \<in> carrier \<Longrightarrow>
      cmp x y \<le> 0 \<Longrightarrow> cmp y z \<le> 0 \<Longrightarrow> cmp x z \<le> 0"
begin

lemma sorted_insert_by:
  "sorted_wrt (\<lambda>x y. cmp x y \<le> 0) xs \<Longrightarrow> x \<in> carrier \<Longrightarrow> set xs \<subseteq> carrier \<Longrightarrow>
   sorted_wrt (\<lambda>x y. cmp x y \<le> 0) (insert_by cmp x xs)"
proof (induction xs)
  case Nil
  then show ?case by simp
next
  case (Cons y ys)
  show ?case
  proof (cases "cmp x y \<le> 0")
    case True
    with Cons.prems show ?thesis by (auto intro: trans [of x y])
  next
    case False
    with Cons.prems have "cmp y x \<le> 0" by (intro total) auto
    with Cons False show ?thesis by auto
  qed
qed

lemma sorted_sort_by: "set xs \<subseteq> carrier \<Longrightarrow> sorted_wrt (\<lambda>x y. cmp x y \<le> 0) (sort_by cmp xs)"
  by (induction xs) (auto intro!: sorted_insert_by)

end

section \<open>Lemmas on strings\<close>

lemma starts_with_Nil [simp]: "starts_with [] s"
  by (simp add: starts_with_def)

lemma starts_with_append [simp]: "starts_with p (p @ s)"
  by (simp add: starts_with_def)

lemma starts_with_iff: "starts_with p s \<longleftrightarrow> (\<exists>r. s = p @ r)"
  by (metis append_take_drop_id starts_with_append starts_with_def)

lemma expand_plain [simp]: "CHR ''$'' \<notin> set r \<Longrightarrow> expand m pre post r = r"
  by (induction m pre post r rule: expand.induct) auto

lemma replace_global_Nil [simp]: "replace_global pat repl pre [] = []"
  by (simp add: replace_global.simps)

text \<open>A pattern that starts with a character absent from the text is not found in it.\<close>

lemma replace_global_absent:
  "c \<notin> set s \<Longrightarrow> replace_global (c # p) repl pre s = s"
proof (induction s arbitrary: pre)
  case Nil
  then show ?case by simp
next
  case (Cons d s)
  then show ?case
    by (subst replace_global.simps) (auto simp: starts_with_def)
qed

text \<open>Text without the pattern's first character is copied through.\<close>

lemma replace_global_copy:
  "c \<notin> set s \<Longrightarrow>
   replace_global (c # p) repl pre (s @ t) = s @ replace_global (c # p) repl (pre @ s) t"
proof (induction s arbitrary: pre)
  case Nil
  then show ?case by simp
next
  case (Cons d s)
  then show ?case
    by (subst replace_global.simps) (auto simp: starts_with_def)
qed

lemma replace_global_match:
  "replace_global (c # p) repl pre (c # p @ t) =
     expand (c # p) pre t repl @ replace_global (c # p) repl (pre @ c # p) t"
  by (subst replace_global.simps) (simp add: starts_with_def)

lemma digits_base_neq_Nil [simp]: "digits_base b n \<noteq> []"
  by (subst digits_base.simps) simp

lemma set_update_subset: "set (AList.update k v al) \<subseteq> insert (k, v) (set al)"
  by (induction al) auto

end
