(* ===== verification/RF_Utils.thy ===== *)
theory RF_Utils
  imports JS_Prelude
begin

text \<open>
  The helper functions the web pages share (\<^verbatim>\<open>rfweb/js/rf/utils.js\<close>): recognising a
  RouteFlow virtual switch, hexadecimal printing, the literal replacement helpers, the row
  templates and the comparator the tables are sorted with. The lemmas show that filling a
  template is the simultaneous substitution of its holes when no value brings in a brace or
  a dollar sign, that printing and reading a hexadecimal number round-trip, and that the
  comparator orders the rows of the tables.
\<close>

section \<open>Definitions\<close>

definition RFVS_PREFIX :: string where
  "RFVS_PREFIX = ''0x72667673''"

definition is_rfvs :: "string \<Rightarrow> bool" where
  "is_rfvs dp_id = (substr dp_id 0 (length RFVS_PREFIX) = RFVS_PREFIX)"

text \<open>The padding loop of \<^verbatim>\<open>toHex\<close>: a hexadecimal digit holds four bits.\<close>

function pad_hex :: "real \<Rightarrow> string \<Rightarrow> string" where
  "pad_hex len n = (if real (length n) < len / 4 then pad_hex len (CHR ''0'' # n) else n)"
  by pat_completeness auto
termination
  by (relation "measure (\<lambda>(len, n). nat \<lceil>len / 4\<rceil> - length n)") (auto, linarith)

declare pad_hex.simps [simp del]

text \<open>\<^verbatim>\<open>toHex(n, len)\<close> for a natural number or, as \<open>None\<close>, not-a-number.\<close>

definition toHex :: "nat option \<Rightarrow> real \<Rightarrow> string" where
  "toHex n len =
     (case n of None \<Rightarrow> []
      | Some m \<Rightarrow> ''0x'' @ to_upper_case (pad_hex len (digits_base 16 m)))"

text \<open>The next two take patterns without metacharacters, which is how the pages call them.\<close>

definition replace_all :: "string \<Rightarrow> string \<Rightarrow> string \<Rightarrow> string" where
  "replace_all s old new = replace_global old new [] s"

definition rstrip :: "string \<Rightarrow> string \<Rightarrow> string" where
  "rstrip s terminal =
     (if starts_with (rev terminal) (rev s) then take (length s - length terminal) s else s)"

fun apply_template :: "string \<Rightarrow> props \<Rightarrow> string" where
  "apply_template code [] = code"
| "apply_template code ((attr, v) # data) =
     apply_template (replace_global (''{'' @ attr @ ''}'') (to_str v) [] code) data"

text \<open>The operator \<^verbatim>\<open><\<close> on two strings or two numbers; other pairs do not occur in the tables.\<close>

fun js_less :: "jsval \<Rightarrow> jsval \<Rightarrow> bool" where
  "js_less (JStr s) (JStr t) = (s < t)"
| "js_less (JNum x) (JNum y) = (x < y)"
| "js_less _ _ = False"

definition compare_objects :: "props \<Rightarrow> props \<Rightarrow> string \<Rightarrow> int" where
  "compare_objects a b key =
     (if js_less (prop_of a key) (prop_of b key) then -1
      else if js_less (prop_of b key) (prop_of a key) then 1 else 0)"

section \<open>The comparator\<close>

definition keyed_str :: "string \<Rightarrow> props set" where
  "keyed_str key = {a. \<exists>s. prop_of a key = JStr s}"

definition keyed_num :: "string \<Rightarrow> props set" where
  "keyed_num key = {a. \<exists>x. prop_of a key = JNum x}"

lemma comparator_str: "comparator (\<lambda>a b. compare_objects a b key) (keyed_str key)"
  by unfold_locales (auto simp: compare_objects_def keyed_str_def split: if_splits)

lemma comparator_num: "comparator (\<lambda>a b. compare_objects a b key) (keyed_num key)"
  by unfold_locales (auto simp: compare_objects_def keyed_num_def split: if_splits)

interpretation vm_id_order: comparator "\<lambda>a b. compare_objects a b ''vm_id''" "keyed_str ''vm_id''"
  by (rule comparator_str)

interpretation priority_order: comparator "\<lambda>a b. compare_objects a b ''priority''" "keyed_num ''priority''"
  by (rule comparator_num)

lemma compare_le_str:
  "prop_of a key = JStr s \<Longrightarrow> prop_of b key = JStr t \<Longrightarrow> compare_objects a b key \<le> 0 \<longleftrightarrow> s \<le> t"
  by (auto simp: compare_objects_def)

lemma compare_le_num:
  "prop_of a key = JNum x \<Longrightarrow> prop_of b key = JNum y \<Longrightarrow> compare_objects a b key \<le> 0 \<longleftrightarrow> x \<le> y"
  by (auto simp: compare_objects_def)

lemma compare_le_num_of:
  "a \<in> keyed_num key \<Longrightarrow> b \<in> keyed_num key \<Longrightarrow> compare_objects a b key \<le> 0 \<Longrightarrow>
   num_of (prop_of a key) \<le> num_of (prop_of b key)"
  by (auto simp: keyed_num_def compare_le_num)

section \<open>Templates\<close>

text \<open>
  A template is a sequence of literal pieces and holes; \<open>render\<close> prints it the way the pages
  write it and \<open>fill\<close> is what filling it should produce.
\<close>

datatype piece = Lit string | Hole string

fun render1 :: "piece \<Rightarrow> string" where
  "render1 (Lit s) = s"
| "render1 (Hole a) = ''{'' @ a @ ''}''"

definition render :: "piece list \<Rightarrow> string" where
  "render ps = concat (map render1 ps)"

fun plain_piece :: "piece \<Rightarrow> bool" where
  "plain_piece (Lit s) = (CHR ''{'' \<notin> set s)"
| "plain_piece (Hole a) = (CHR ''{'' \<notin> set a \<and> CHR ''}'' \<notin> set a)"

definition plain_attr :: "string \<Rightarrow> bool" where
  "plain_attr a \<longleftrightarrow> CHR ''{'' \<notin> set a \<and> CHR ''}'' \<notin> set a"

definition plain_value :: "jsval \<Rightarrow> bool" where
  "plain_value v \<longleftrightarrow> CHR ''{'' \<notin> set (to_str v) \<and> CHR ''$'' \<notin> set (to_str v)"

fun fill1 :: "props \<Rightarrow> piece \<Rightarrow> piece" where
  "fill1 data (Lit s) = Lit s"
| "fill1 data (Hole a) = (case map_of data a of None \<Rightarrow> Hole a | Some v \<Rightarrow> Lit (to_str v))"

definition fill :: "props \<Rightarrow> piece list \<Rightarrow> string" where
  "fill data ps = render (map (fill1 data) ps)"

lemma render_Nil [simp]: "render [] = []"
  by (simp add: render_def)

lemma render_Cons [simp]: "render (p # ps) = render1 p @ render ps"
  by (simp add: render_def)

lemma hole_prefix_eq:
  assumes "CHR ''}'' \<notin> set a" and "CHR ''}'' \<notin> set b"
    and "take (Suc (length a)) (b @ CHR ''}'' # t) = a @ ''}''"
  shows "a = b"
  using assms
proof (induction a arbitrary: b)
  case Nil
  then show ?case by (cases b) auto
next
  case (Cons c a)
  then show ?case by (cases b) auto
qed

lemma replace_other_hole:
  assumes "plain_attr a" and "plain_attr b" and "a \<noteq> b"
  shows "replace_global (''{'' @ a @ ''}'') v pre (''{'' @ b @ ''}'' @ t) =
         ''{'' @ b @ ''}'' @ replace_global (''{'' @ a @ ''}'') v (pre @ ''{'' @ b @ ''}'') t"
proof -
  have ns: "\<not> starts_with (''{'' @ a @ ''}'') (''{'' @ b @ ''}'' @ t)"
    using assms hole_prefix_eq [of a b t] by (auto simp: starts_with_def plain_attr_def)
  have "CHR ''{'' \<notin> set (b @ ''}'')"
    using assms(2) by (simp add: plain_attr_def)
  from replace_global_copy [OF this, of "a @ ''}''" v "pre @ ''{''" t] ns
  show ?thesis by (subst replace_global.simps) simp
qed

lemma replace_hole:
  assumes "plain_attr a" and "CHR ''$'' \<notin> set v"
  shows "replace_global (''{'' @ a @ ''}'') v pre (''{'' @ a @ ''}'' @ t) =
         v @ replace_global (''{'' @ a @ ''}'') v (pre @ ''{'' @ a @ ''}'') t"
  using assms replace_global_match [of "CHR ''{''" "a @ ''}''" v pre t] by simp

lemma replace_global_render:
  assumes "plain_attr a" and "plain_value v" and "list_all plain_piece ps"
  shows "replace_global (''{'' @ a @ ''}'') (to_str v) pre (render ps) =
         render (map (fill1 [(a, v)]) ps)"
  using assms(3)
proof (induction ps arbitrary: pre)
  case Nil
  then show ?case by simp
next
  case (Cons p ps)
  show ?case
  proof (cases p)
    case (Lit s)
    with Cons show ?thesis using replace_global_copy [of "CHR ''{''" s "a @ ''}''"] by simp
  next
    case (Hole b)
    show ?thesis
    proof (cases "a = b")
      case True
      with Cons Hole assms show ?thesis
        using replace_hole [of b "to_str v" pre "render ps"] by (simp add: plain_value_def)
    next
      case False
      moreover have "plain_attr b" using Cons.prems Hole by (simp add: plain_attr_def)
      ultimately show ?thesis
        using Cons Hole assms(1) replace_other_hole [of a b "to_str v" pre "render ps"] by simp
    qed
  qed
qed

lemma fill1_plain: "plain_value v \<Longrightarrow> plain_piece p \<Longrightarrow> plain_piece (fill1 [(a, v)] p)"
  by (cases p) (auto simp: plain_value_def)

lemma fill1_fill1:
  "a \<notin> set (map fst data) \<Longrightarrow> fill1 data (fill1 [(a, v)] p) = fill1 ((a, v) # data) p"
  by (cases p) (auto split: option.splits)

lemma fill1_Nil [simp]: "fill1 [] p = p"
  by (cases p) simp_all

lemma apply_template_fill_aux:
  "distinct (map fst data) \<Longrightarrow> \<forall>(a, v) \<in> set data. plain_attr a \<and> plain_value v \<Longrightarrow>
   list_all plain_piece ps \<Longrightarrow> apply_template (render ps) data = fill data ps"
proof (induction data arbitrary: ps)
  case Nil
  show ?case by (simp add: fill_def map_idI)
next
  case (Cons d data)
  obtain a v where d: "d = (a, v)" by (cases d)
  with Cons.prems have "plain_attr a" "plain_value v" by auto
  then have step: "apply_template (render ps) (d # data) =
      apply_template (render (map (fill1 [(a, v)]) ps)) data"
    using replace_global_render [of a v ps "[]"] Cons.prems(3) d by simp
  have "list_all plain_piece (map (fill1 [(a, v)]) ps)"
    using Cons.prems(3) \<open>plain_value v\<close> by (auto simp: list_all_iff fill1_plain)
  then have "apply_template (render (map (fill1 [(a, v)]) ps)) data =
      fill data (map (fill1 [(a, v)]) ps)"
    using Cons.prems by (intro Cons.IH) auto
  also have "\<dots> = fill (d # data) ps"
    using Cons.prems(1) d by (simp add: fill_def fill1_fill1 comp_def)
  finally show ?case using step by simp
qed

section \<open>Stripping and hexadecimal numbers\<close>

lemma rstrip_append [simp]: "rstrip (s @ t) t = s"
  by (simp add: rstrip_def)

lemma rstrip_cases: "rstrip s t = s \<or> s = rstrip s t @ t"
  by (auto simp: rstrip_def starts_with_iff) (metis append_eq_conv_conj length_append length_rev
      add_diff_cancel_right' rev_append rev_rev_ident)

lemma length_pad_hex: "real (length (pad_hex len n)) \<ge> len / 4"
  by (induction len n rule: pad_hex.induct) (subst pad_hex.simps, auto)

lemma pad_hex_zeros: "\<exists>k. pad_hex len n = replicate k (CHR ''0'') @ n"
proof (induction len n rule: pad_hex.induct)
  case (1 len n)
  show ?case
  proof (cases "real (length n) < len / 4")
    case True
    with 1 obtain k where "pad_hex len (CHR ''0'' # n) = replicate k (CHR ''0'') @ CHR ''0'' # n"
      by auto
    then have "pad_hex len n = replicate (Suc k) (CHR ''0'') @ n"
      using True by (subst pad_hex.simps) (simp add: replicate_app_Cons_same)
    then show ?thesis by blast
  next
    case False
    then have "pad_hex len n = replicate 0 (CHR ''0'') @ n" by (subst pad_hex.simps) simp
    then show ?thesis by blast
  qed
qed

lemma parse_digits_append:
  assumes "\<forall>c \<in> set s. \<exists>d. digit_value c = Some d \<and> d < b"
  shows "parse_digits b acc (s @ t) = parse_digits b (parse_digits b acc s) t"
  using assms by (induction s arbitrary: acc) auto

lemma digit_value_zero [simp]: "digit_value (CHR ''0'') = Some 0"
  by (simp add: digit_value_def)

lemma parse_digits_zeros [simp]: "2 \<le> b \<Longrightarrow> parse_digits b 0 (replicate k (CHR ''0'') @ s) = parse_digits b 0 s"
  by (induction k) auto

lemma digit_value_hex: "d < 16 \<Longrightarrow> digit_value (to_upper (digit_char d)) = Some d"
proof -
  have "\<forall>d \<in> set [0..<16]. digit_value (to_upper (digit_char d)) = Some d" by code_simp
  then show "d < 16 \<Longrightarrow> digit_value (to_upper (digit_char d)) = Some d" by auto
qed

lemma hex_digits_valid:
  "\<forall>c \<in> set (to_upper_case (digits_base 16 n)). \<exists>d. digit_value c = Some d \<and> d < 16"
proof (induction n rule: less_induct)
  case (less n)
  from less [of "n div 16"]
  show ?case
    by (subst digits_base.simps) (auto simp: to_upper_case_def digit_value_hex)
qed

lemma parse_hex_digits: "parse_digits 16 0 (to_upper_case (digits_base 16 n)) = n"
proof (induction n rule: less_induct)
  case (less n)
  show ?case
  proof (cases "n < 16")
    case True
    then show ?thesis by (subst digits_base.simps) (simp add: to_upper_case_def digit_value_hex)
  next
    case False
    let ?q = "to_upper_case (digits_base 16 (n div 16))"
    have "to_upper_case (digits_base 16 n) = ?q @ [to_upper (digit_char (n mod 16))]"
      using False by (subst digits_base.simps) (simp add: to_upper_case_def)
    then show ?thesis
      using less [of "n div 16"] False hex_digits_valid [of "n div 16"]
      by (simp add: parse_digits_append digit_value_hex)
  qed
qed

lemma to_upper_zero [simp]: "to_upper (CHR ''0'') = CHR ''0''"
  by (simp add: to_upper_def)

lemma parse_nat_Some:
  "digit_value c = Some d \<Longrightarrow> d < b \<Longrightarrow> parse_nat b (c # cs) = Some (parse_digits b 0 (c # cs))"
  by (simp add: parse_nat_def)

lemma parse_toHex_aux:
  "parse_nat 16 (to_upper_case (pad_hex len (digits_base 16 n))) = Some n"
proof -
  obtain k where k: "pad_hex len (digits_base 16 n) = replicate k (CHR ''0'') @ digits_base 16 n"
    using pad_hex_zeros by blast
  let ?s = "to_upper_case (pad_hex len (digits_base 16 n))"
  have s: "?s = replicate k (CHR ''0'') @ to_upper_case (digits_base 16 n)"
    by (simp add: k to_upper_case_def)
  have "?s \<noteq> []" unfolding s by (simp add: to_upper_case_def)
  then obtain c cs where c: "?s = c # cs" by (cases ?s) auto
  have "\<forall>c \<in> set ?s. \<exists>d. digit_value c = Some d \<and> d < 16"
    using hex_digits_valid [of n] by (auto simp: s digit_value_zero)
  with c obtain d where "digit_value c = Some d" "d < 16" by auto
  then have "parse_nat 16 ?s = Some (parse_digits 16 0 ?s)" using c by (metis parse_nat_Some)
  also have "parse_digits 16 0 ?s = n" unfolding s by (simp add: parse_hex_digits)
  finally show ?thesis .
qed

section \<open>Properties\<close>

text \<open>
  Filling a template replaces every hole by the text of its value, simultaneously: the
  substitutions the code makes one after the other do not disturb each other, provided no
  value contains an opening brace or a dollar sign and the attribute names are plain.
\<close>

lemma apply_template_fills:
  assumes "distinct (map fst data)"
    and "\<forall>(a, v) \<in> set data. plain_attr a \<and> plain_value v"
    and "list_all plain_piece ps"
  shows "apply_template (render ps) data = fill data ps"
  using assms by (rule apply_template_fill_aux)

text \<open>
  A number printed by \<^verbatim>\<open>toHex\<close> reads back as the same number, and the digits fill at
  least the requested number of bits.
\<close>

lemma toHex_roundtrip:
  "parse_nat 16 (drop 2 (toHex (Some n) len)) = Some n \<and>
   take 2 (toHex (Some n) len) = ''0x'' \<and> len / 4 \<le> real (length (toHex (Some n) len)) - 2"
  using length_pad_hex [of len "digits_base 16 n"] parse_toHex_aux [of len n]
  by (simp add: toHex_def to_upper_case_def)

end
