(* ===== verification/RF_Pages.thy ===== *)
theory RF_Pages
  imports RF_Utils
begin

text \<open>
  The table page (\<^verbatim>\<open>rfweb/js/rf/rftable.js\<close>) and the message page
  (\<^verbatim>\<open>rfweb/js/rf/messages.js\<close>). A page is the content of its elements and the state of
  its filter boxes; what the server sends is the argument of the success callbacks. The
  lemmas show that the table lists every entry once, ordered by client, that the rows are
  the filled templates, that a request is sent exactly when a filter is set, and that the
  details of a message toggle.
\<close>

section \<open>The RouteFlow table\<close>

definition table_rowtemplate :: string where
  \<open>table_rowtemplate =
     ''<tr class="bg{style}">'' @ ''<td>{vm_id}</td>'' @ ''<td>{vm_port}</td>'' @ ''<td>{ct_id}</td>''
     @ ''<td>{dp_id}</td>'' @ ''<td>{dp_port}</td>'' @ ''<td>{vs_id}</td>'' @ ''<td>{vs_port}</td>''
     @ ''</tr>''\<close>

text \<open>A loop index is a key, hence a string; \<^verbatim>\<open>i % 2\<close> converts it back to a number.\<close>

definition index_key :: "nat \<Rightarrow> string" where
  "index_key i = digits_base 10 i"

definition process_entry :: "nat \<Rightarrow> props \<Rightarrow> props" where
  "process_entry i msg =
     AList.update ''style'' (JNum (real (i mod 2))) (AList.update ''id'' (JStr (index_key i)) msg)"

fun table_rows :: "nat \<Rightarrow> props list \<Rightarrow> string \<Rightarrow> string" where
  "table_rows i [] html = html"
| "table_rows i (d # data) html =
     table_rows (Suc i) data (html @ apply_template table_rowtemplate (process_entry i d))"

text \<open>The success callback of \<^verbatim>\<open>rftable_init\<close>: sort by client, then append a row per entry.\<close>

definition rftable_init :: "string \<Rightarrow> props list \<Rightarrow> string" where
  "rftable_init html data =
     table_rows 0 (sort_by (\<lambda>a b. compare_objects a b ''vm_id'') data) html"

section \<open>Channels and messages\<close>

definition RFCLIENT_RFSERVER :: nat where "RFCLIENT_RFSERVER = 0"

definition RFSERVER_RFPROXY :: nat where "RFSERVER_RFPROXY = 1"

record msg_info =
  mi_name :: string
  mi_show :: bool

record channel =
  ch_id :: nat
  ch_name :: string
  html_id :: string
  messages :: "msg_info obj"

definition channels :: "channel list" where
  "channels =
     [\<lparr>ch_id = RFCLIENT_RFSERVER, ch_name = ''rfclient<->rfserver'', html_id = ''rfclient_rfserver'',
       messages = [(''0'', \<lparr>mi_name = ''PortRegister'', mi_show = True\<rparr>),
                   (''1'', \<lparr>mi_name = ''PortConfig'', mi_show = True\<rparr>),
                   (''6'', \<lparr>mi_name = ''RouteMod'', mi_show = False\<rparr>)]\<rparr>,
      \<lparr>ch_id = RFSERVER_RFPROXY, ch_name = ''rfserver<->rfproxy'', html_id = ''rfserver_rfproxy'',
       messages = [(''2'', \<lparr>mi_name = ''DatapathPortRegister'', mi_show = True\<rparr>),
                   (''3'', \<lparr>mi_name = ''DatapathDown'', mi_show = True\<rparr>),
                   (''4'', \<lparr>mi_name = ''VirtualPlaneMap'', mi_show = True\<rparr>),
                   (''5'', \<lparr>mi_name = ''DataPlaneMap'', mi_show = True\<rparr>),
                   (''6'', \<lparr>mi_name = ''RouteMod'', mi_show = False\<rparr>)]\<rparr>]"

definition msg_rowtemplate :: string where
  \<open>msg_rowtemplate =
     ''<tr class="row bg{style}">''
     @ ''<td class="expand_control" id="msg_{id}_expand" onclick="toggle('' @ [CHR 0x27] @ ''msg_{id}''
     @ [CHR 0x27] @ '')"><span class="ui-icon ui-icon-triangle-1-e">Details</span></td>''
     @ ''<td>{from}</td>'' @ ''<td>{to}</td>'' @ ''<td>{type}</td>'' @ ''<td>{status}</td>''
     @ ''<tr id="msg_{id}_content" class="hidden_msg_content">'' @ ''<td></td>''
     @ ''<td class="message_content_area" colspan="4">'' @ ''{content}'' @ ''</td>'' @ ''</tr>'' @ ''</tr>''\<close>

definition cbtemplate :: string where
  \<open>cbtemplate = ''<input type="checkbox" name="{type}" {checked} value="{value}">{name}<br />''\<close>

text \<open>\<^verbatim>\<open>process_message\<close>; \<open>None\<close> is the exception raised for a type the channel does not list.\<close>

definition process_message :: "nat \<Rightarrow> channel \<Rightarrow> props \<Rightarrow> props option" where
  "process_message i chan msg =
     (case map_of (messages chan) (to_str (prop_of msg ''type'')) of
        None \<Rightarrow> None
      | Some info \<Rightarrow>
          (let msg1 = AList.update ''id'' (JStr (html_id chan @ ''_msg_'' @ index_key i)) msg;
               msg2 = AList.update ''type'' (JStr (mi_name info)) msg1;
               msg3 = AList.update ''status''
                        (JStr (if truthy (prop_of msg2 ''read'') then ''read'' else ''unread'')) msg2;
               msg4 = AList.update ''content''
                        (JStr (''<pre class='' @ [CHR 0x27] @ ''message_content'' @ [CHR 0x27] @ ''>''
                               @ to_str (prop_of msg3 ''content'') @ ''</pre>'')) msg3
           in Some (AList.update ''style'' (JNum (real (i mod 2))) msg4)))"

text \<open>The success callback of \<^verbatim>\<open>update_table\<close>; an exception leaves the rows added so far.\<close>

fun message_rows :: "channel \<Rightarrow> nat \<Rightarrow> props list \<Rightarrow> string \<Rightarrow> string" where
  "message_rows chan i [] html = html"
| "message_rows chan i (d # data) html =
     (case process_message i chan d of
        None \<Rightarrow> html
      | Some m \<Rightarrow> message_rows chan (Suc i) data (html @ apply_template msg_rowtemplate m))"

record filter_box =
  fb_name :: string
  fb_value :: string
  fb_checked :: bool

record page =
  html_of :: "string obj"
  boxes :: "filter_box list"
  requests :: "string list"

definition elem_html :: "page \<Rightarrow> string \<Rightarrow> string" where
  "elem_html p i = (case map_of (html_of p) i of None \<Rightarrow> [] | Some h \<Rightarrow> h)"

definition set_elem_html :: "string \<Rightarrow> string \<Rightarrow> page \<Rightarrow> page" where
  "set_elem_html i h p = p\<lparr>html_of := AList.update i h (html_of p)\<rparr>"

definition checked_types :: "page \<Rightarrow> string \<Rightarrow> string list" where
  "checked_types p msgprefix =
     map fb_value (filter (\<lambda>b. fb_name b = msgprefix \<and> fb_checked b) (boxes p))"

definition update_table :: "channel \<Rightarrow> page \<Rightarrow> page" where
  "update_table chan p =
     (let msgprefix = html_id chan @ ''_type'';
          p1 = set_elem_html (html_id chan) [] p;
          msgtypes = checked_types p1 msgprefix
      in if join '','' msgtypes \<noteq> []
         then p1\<lparr>requests := requests p1
                   @ [''messages/'' @ ch_name chan @ ''?types='' @ join '','' msgtypes]\<rparr>
         else p1)"

definition on_messages :: "channel \<Rightarrow> props list \<Rightarrow> page \<Rightarrow> page" where
  "on_messages chan data p =
     set_elem_html (html_id chan) (message_rows chan 0 data (elem_html p (html_id chan))) p"

definition update :: "page \<Rightarrow> page" where
  "update p = fold update_table channels p"

record dom_pair =
  el_class :: string
  ex_html :: string

definition toggle :: "dom_pair \<Rightarrow> dom_pair" where
  \<open>toggle el =
     (if el_class el = ''hidden_msg_content''
      then \<lparr>el_class = ''msg_content'',
            ex_html = ''<span class="ui-icon ui-icon-triangle-1-s">Details</span>''\<rparr>
      else \<lparr>el_class = ''hidden_msg_content'',
            ex_html = ''<span class="ui-icon ui-icon-triangle-1-e">Details</span>''\<rparr>)\<close>

text \<open>One filter box of \<^verbatim>\<open>start\<close>: its markup, and the box the browser makes of it.\<close>

definition add_filter :: "channel \<Rightarrow> string \<times> msg_info \<Rightarrow> page \<Rightarrow> page" where
  \<open>add_filter chan = (\<lambda>(msg_id, message) p.
     let element = html_id chan @ ''_filters'';
         input_name = html_id chan @ ''_type'';
         checked = (if mi_show message then ''checked="checked"'' else []);
         row = apply_template cbtemplate [(''value'', JStr msg_id), (''name'', JStr (mi_name message)),
                 (''type'', JStr input_name), (''checked'', JStr checked)]
     in (set_elem_html element (elem_html p element @ row) p)
          \<lparr>boxes := boxes p @ [\<lparr>fb_name = input_name, fb_value = msg_id, fb_checked = mi_show message\<rparr>]\<rparr>)\<close>

definition start :: "page \<Rightarrow> page" where
  "start p = fold (\<lambda>chan. fold (add_filter chan) (messages chan)) channels p"

text \<open>A click on a filter box flips it and runs the handler \<^verbatim>\<open>update\<close>.\<close>

definition click_filter :: "nat \<Rightarrow> page \<Rightarrow> page" where
  "click_filter k p =
     (if k < length (boxes p)
      then update (p\<lparr>boxes := (boxes p)[k := (boxes p ! k)\<lparr>fb_checked := \<not> fb_checked (boxes p ! k)\<rparr>]\<rparr>)
      else p)"

definition messages_init :: "page \<Rightarrow> page" where
  "messages_init p = update (start p)"

section \<open>Lemmas\<close>

text \<open>The pieces of the row template of the table.\<close>

definition table_pieces :: "piece list" where
  \<open>table_pieces =
     [Lit ''<tr class="bg'', Hole ''style'', Lit ''"><td>'', Hole ''vm_id'', Lit ''</td><td>'',
      Hole ''vm_port'', Lit ''</td><td>'', Hole ''ct_id'', Lit ''</td><td>'', Hole ''dp_id'',
      Lit ''</td><td>'', Hole ''dp_port'', Lit ''</td><td>'', Hole ''vs_id'', Lit ''</td><td>'',
      Hole ''vs_port'', Lit ''</td></tr>'']\<close>

lemma render_table_pieces: "table_rowtemplate = render table_pieces"
  by (simp add: table_rowtemplate_def table_pieces_def)

lemma plain_table_pieces: "list_all plain_piece table_pieces"
  by (simp add: table_pieces_def)

lemma table_rows_concat:
  "table_rows i data html =
     html @ concat (map (\<lambda>(k, d). apply_template table_rowtemplate (process_entry k d))
                      (enumerate i data))"
  by (induction i data html rule: table_rows.induct) simp_all

text \<open>What the table page needs of an entry: plain texts under plain names, and a client name.\<close>

definition plain_entry :: "props \<Rightarrow> bool" where
  "plain_entry d \<longleftrightarrow> distinct (map fst d) \<and> (\<forall>(a, v) \<in> set d. plain_attr a \<and> plain_value v)"

lemma digits_base_10_plain:
  "c \<in> set (digits_base 10 n) \<Longrightarrow> c \<noteq> CHR ''{'' \<and> c \<noteq> CHR ''}'' \<and> c \<noteq> CHR ''$''"
proof (induction n rule: less_induct)
  case (less n)
  have small: "d < 10 \<Longrightarrow> digit_char d \<noteq> CHR ''{'' \<and> digit_char d \<noteq> CHR ''}'' \<and> digit_char d \<noteq> CHR ''$''"
    for d
  proof -
    have "\<forall>d \<in> set [0..<10]. digit_char d \<noteq> CHR ''{'' \<and> digit_char d \<noteq> CHR ''}'' \<and> digit_char d \<noteq> CHR ''$''"
      by code_simp
    then show "d < 10 \<Longrightarrow> ?thesis" by auto
  qed
  from less.prems less.IH [of "n div 10"] show ?case
    by (auto simp: digits_base.simps [of 10 n] small split: if_splits)
qed

lemma num_to_string_nat: "num_to_string (real n) = digits_base 10 n"
  by (simp add: num_to_string_def int_to_string_def)

lemma plain_entry_update:
  "plain_entry d \<Longrightarrow> plain_attr k \<Longrightarrow> plain_value v \<Longrightarrow> plain_entry (AList.update k v d)"
  using set_update_subset [of k v d] by (auto simp: plain_entry_def intro: distinct_update)

lemma plain_process_entry: "plain_entry d \<Longrightarrow> plain_entry (process_entry i d)"
  unfolding process_entry_def
  by (intro plain_entry_update)
     (auto simp: plain_attr_def plain_value_def num_to_string_nat index_key_def
       dest: digits_base_10_plain)

lemma row_fill:
  "plain_entry d \<Longrightarrow>
   apply_template table_rowtemplate (process_entry i d) = fill (process_entry i d) table_pieces"
  using plain_process_entry [of d i] plain_table_pieces
  by (auto simp: render_table_pieces plain_entry_def intro!: apply_template_fill_aux)

lemma update_table_requests:
  "requests (update_table chan p) = requests p @
     (if join '','' (checked_types p (html_id chan @ ''_type'')) = [] then []
      else [''messages/'' @ ch_name chan @ ''?types='' @ join '','' (checked_types p (html_id chan @ ''_type''))])"
  by (simp add: update_table_def Let_def set_elem_html_def checked_types_def)

lemma update_table_boxes [simp]: "boxes (update_table chan p) = boxes p"
  by (simp add: update_table_def Let_def set_elem_html_def)

lemma checked_types_update_table [simp]: "checked_types (update_table chan p) x = checked_types p x"
  by (simp add: checked_types_def)

lemma toggle_twice: "toggle (toggle (toggle el)) = toggle el"
  by (simp add: toggle_def)

section \<open>Properties\<close>

text \<open>
  The table page shows every entry the server sent exactly once, in the order of the
  client identifiers, one filled row per entry after the rows already there.
\<close>

lemma rftable_init_lists_entries:
  assumes "\<forall>d \<in> set data. plain_entry d \<and> d \<in> keyed_str ''vm_id''"
  shows "\<exists>es. mset es = mset data
    \<and> sorted_wrt (\<lambda>a b. to_str (prop_of a ''vm_id'') \<le> to_str (prop_of b ''vm_id'')) es
    \<and> rftable_init html data =
        html @ concat (map (\<lambda>(i, e). fill (process_entry i e) table_pieces) (enumerate 0 es))"
proof (intro exI conjI)
  let ?es = "sort_by (\<lambda>a b. compare_objects a b ''vm_id'') data"
  show "mset ?es = mset data" by simp
  have "sorted_wrt (\<lambda>a b. compare_objects a b ''vm_id'' \<le> 0) ?es"
    using assms by (intro vm_id_order.sorted_sort_by) auto
  then show "sorted_wrt (\<lambda>a b. to_str (prop_of a ''vm_id'') \<le> to_str (prop_of b ''vm_id'')) ?es"
    by (rule sorted_wrt_mono_rel [rotated])
       (use assms in \<open>auto simp: keyed_str_def dest!: compare_le_str [THEN iffD1, rotated 2]\<close>)
  have "map (\<lambda>(i, e). apply_template table_rowtemplate (process_entry i e)) (enumerate 0 ?es) =
        map (\<lambda>(i, e). fill (process_entry i e) table_pieces) (enumerate 0 ?es)"
    using assms by (auto simp: row_fill in_set_enumerate_eq intro!: map_cong)
      (metis nth_mem row_fill set_sort_by length_sort_by)
  then show "rftable_init html data =
      html @ concat (map (\<lambda>(i, e). fill (process_entry i e) table_pieces) (enumerate 0 ?es))"
    unfolding rftable_init_def table_rows_concat by (simp only:)
qed

text \<open>
  Clicking a filter of the message page, or opening the page, clears the message table of a
  channel and asks the server for the channel's messages exactly when one of its filters is
  set, naming the types of the filters that are set.
\<close>

lemma update_requests:
  "requests (update p) = requests p @ concat (map (\<lambda>chan.
     let types = checked_types p (html_id chan @ ''_type'')
     in if join '','' types = [] then []
        else [''messages/'' @ ch_name chan @ ''?types='' @ join '','' types]) channels)
   \<and> list_all (\<lambda>chan. elem_html (update p) (html_id chan) = []) channels"
  by (simp add: update_def channels_def update_table_requests Let_def elem_html_def
      update_table_def set_elem_html_def update_conv' checked_types_def)

end
