(* ===== verification/RF_Network.thy ===== *)
theory RF_Network
  imports RF_Utils
begin

text \<open>
  The parts of the network page (\<^verbatim>\<open>rfweb/js/rf/network.js\<close>) that turn what the server sends
  into what the page shows: the description of a node and its flow table, the text of a
  match and of an action list, and the preparation of the topology for the graph library.
  The lemmas show that the flow table lists every flow once by descending priority, what a
  match and an output action look like, and that the preparation keeps the topology.
\<close>

section \<open>Constants\<close>

definition ICON_SIZE :: real where "ICON_SIZE = 128"

definition LABEL_SIZE :: real where "LABEL_SIZE = 12"

definition SPACING :: real where "SPACING = 12"

section \<open>Matches and actions\<close>

text \<open>
  The code reads the values from the global variable \<^verbatim>\<open>flow\<close>, which \<^verbatim>\<open>show_info\<close> has
  just set to the flow whose match it passes.
\<close>

definition prettify_match :: "props \<Rightarrow> props \<Rightarrow> string" where
  "prettify_match flow_match match =
     (let s = concat (map (\<lambda>m. m @ '': '' @ to_str (prop_of flow_match m) @ '', '')
                        (filter (\<lambda>m. m \<noteq> ''wildcards'') (map fst match)))
      in rstrip (if s = [] then ''All'' else s) '', '')"

text \<open>The regular expression \<^verbatim>\<open>(\w*)\[([^\]]*)\]\<close>: at one position, then leftmost.\<close>

definition match_here :: "string \<Rightarrow> (string \<times> string) option" where
  "match_here s =
     (case dropWhile is_word_char s of
        [] \<Rightarrow> None
      | c # t \<Rightarrow>
          if c = CHR ''['' \<and> CHR '']'' \<in> set t
          then Some (takeWhile is_word_char s, takeWhile (\<lambda>d. d \<noteq> CHR '']'') t) else None)"

fun action_match :: "string \<Rightarrow> (string \<times> string) option" where
  "action_match [] = match_here []"
| "action_match (c # cs) =
     (case match_here (c # cs) of Some r \<Rightarrow> Some r | None \<Rightarrow> action_match cs)"

definition get_params_list :: "string \<Rightarrow> string list list" where
  "get_params_list params = map (split '': '') (split '', '' params)"

text \<open>An element of an array of strings as text; a missing element reads as undefined.\<close>

definition nth_str :: "string list \<Rightarrow> nat \<Rightarrow> string" where
  "nth_str xs i = (if i < length xs then xs ! i else ''undefined'')"

definition output_params :: "string list list \<Rightarrow> string" where
  "output_params ps =
     concat (map (\<lambda>p. if nth_str p 0 = ''port'' then ''port: '' @ nth_str p 1 @ '', '' else []) ps)"

fun dl_addr_step :: "string \<times> string \<Rightarrow> string list \<Rightarrow> string \<times> string" where
  "dl_addr_step (action, params) p =
     (let param = nth_str p 0; value = nth_str p 1
      in if param = ''type'' then
           (let type = parse_nat 10 value
            in (if type = Some 4 then ''SET_DL_SRC''
                else if type = Some 5 then ''SET_DL_DST'' else action, params))
         else if param = ''dl_addr'' then (action, params @ param @ '': '' @ value @ '', '')
         else (action, params))"

definition prettify_action :: "string \<Rightarrow> string" where
  "prettify_action a =
     (case action_match a of
        None \<Rightarrow> a @ '', ''
      | Some (action, params) \<Rightarrow>
          (let (action', params') =
             (if action = ''ofp_action_output''
              then (''OUTPUT'', output_params (get_params_list params))
              else if action = ''ofp_action_dl_addr''
              then foldl dl_addr_step ([], []) (get_params_list params)
              else (action, params))
           in to_upper_case action' @ ''('' @ rstrip params' '', '' @ '')'' @ '', ''))"

definition prettify_actions :: "string list \<Rightarrow> string" where
  "prettify_actions actions =
     (let s = concat (map prettify_action actions)
      in rstrip (if s = [] then ''DROP'' else s) '', '')"

section \<open>The description of a node\<close>

record flow =
  fl_match :: props
  fl_actions :: "string list"
  fl_priority :: jsval
  fl_packet_count :: jsval
  fl_byte_count :: jsval

definition flow_row :: "flow \<Rightarrow> props" where
  "flow_row f =
     [(''match'', JStr (prettify_match (fl_match f) (fl_match f))),
      (''actions'', JStr (prettify_actions (fl_actions f))),
      (''priority'', fl_priority f),
      (''packet_byte_count'', JStr (to_str (fl_packet_count f) @ ''/'' @ to_str (fl_byte_count f)))]"

definition flow_rows :: "flow list \<Rightarrow> props list" where
  "flow_rows flows = rev (sort_by (\<lambda>a b. compare_objects a b ''priority'') (map flow_row flows))"

definition flow_rowtemplate :: string where
  \<open>flow_rowtemplate =
     ''<tr class="bg{style}">'' @ ''<td>{match}</td>'' @ ''<td>{actions}</td>'' @ ''<td>{priority}</td>''
     @ ''<td>{packet_byte_count}</td>'' @ ''</tr>''\<close>

definition flow_table :: "flow list \<Rightarrow> string" where
  \<open>flow_table flows =
     ''<table>'' @ ''<tr class='' @ [CHR 0x27] @ ''header'' @ [CHR 0x27] @ ''>'' @ ''<td>Match</td>''
     @ ''<td>Actions</td>'' @ ''<td>Priority</td>'' @ ''<td>Packet/byte count</td>'' @ ''</tr>''
     @ concat (map (\<lambda>(i, r). apply_template flow_rowtemplate
                              (AList.update ''style'' (JNum (real (i mod 2))) r))
                 (enumerate 0 (flow_rows flows)))
     @ ''</table>''\<close>

definition quoted :: "string \<Rightarrow> string" where
  "quoted s = CHR 0x27 # s @ [CHR 0x27]"

definition subsection_html :: "string \<Rightarrow> string list \<Rightarrow> string" where
  \<open>subsection_html title items =
     ''<div class='' @ quoted ''subsection'' @ ''><div class='' @ quoted ''subsection_title'' @ ''>'' @ title
     @ ''</div><ul class="switchdesc"><li>'' @ join ''</li><li>'' items @ ''</li></ul></div>''\<close>

text \<open>The test \<^verbatim>\<open>v != undefined\<close>, which null fails too.\<close>

definition present :: "jsval \<Rightarrow> bool" where
  "present v \<longleftrightarrow> v \<noteq> JUndefined \<and> v \<noteq> JNull"

definition switch_info :: "props \<Rightarrow> string" where
  "switch_info data =
     (let d = prop_of data ''desc''; a = prop_of data ''aggregate'' in
     (if present d then
          subsection_html ''Description''
            [''Manufacturer: '' @ to_str (get_prop d ''mfr_desc''),
             ''Hardware descrpition: '' @ to_str (get_prop d ''hw_desc''),
             ''Software description: '' @ to_str (get_prop d ''sw_desc''),
             ''Serial number: '' @ to_str (get_prop d ''serial_num''),
             ''Datapath description: '' @ to_str (get_prop d ''dp_desc'')] else [])
     @ (if present a then
            subsection_html ''Aggregated statistics''
              [''Packet count: '' @ to_str (get_prop a ''packet_count''),
               ''Byte count: '' @ to_str (get_prop a ''byte_count''),
               ''Flow count: '' @ to_str (get_prop a ''flow_count'')] else []))"

record view_node =
  vn_id :: string
  vn_name :: string
  vn_type :: string

definition rfserver_info :: string where
  \<open>rfserver_info = ''<div class="tips"><p>The RouteFlow server manages all the associations between the virtual and physical environments.</p><p>It has full control over the FIB and RIB, and services can be built on top of it.</p></div>''\<close>

definition rfproxy_info :: string where
  \<open>rfproxy_info = ''<div class="tips"><p>The RouteFlow proxy is the controller application that configures basic flows in the switches and redirects routing traffic to the RouteFlow clients.</p><p>It also provides an interface so that the RouteFlow server can manage the flows.</p></div></div>''\<close>

definition rfvs_info :: string where
  \<open>rfvs_info = ''<div class="tips"><p>A RouteFlow virtual switch (RFVS) connects RouteFlow clients.</p></div>''\<close>

text \<open>\<^verbatim>\<open>show_info\<close>: the texts written into the elements \<^verbatim>\<open>switchinfo\<close> and \<^verbatim>\<open>flows\<close>.\<close>

definition show_info :: "view_node \<Rightarrow> props \<Rightarrow> flow list \<Rightarrow> string \<times> string" where
  "show_info node data flows =
     (let (info, table) =
        (if vn_type node = ''rfserver'' then (rfserver_info, [])
         else if vn_type node = ''rfproxy'' then (rfproxy_info, [])
         else if vn_type node = ''switch''
         then ((if is_rfvs (vn_id node) then rfvs_info else []) @ switch_info data, flow_table flows)
         else ([], []))
      in (''<div class='' @ quoted ''section'' @ ''><div class='' @ quoted ''section_title'' @ ''>''
          @ vn_name node @ ''</div>'' @ info @ ''</div>'', table))"

section \<open>Preparing the topology\<close>

definition prepare_node :: "props \<Rightarrow> props" where
  "prepare_node node =
     (let i = prop_of node ''id''; ty = prop_of node ''type'';
          n1 = AList.update ''name'' i node;
          n2 = (if ty = JStr ''rfserver'' then AList.update ''name'' (JStr ''RFServer'') n1
                else if ty = JStr ''rfproxy'' then AList.update ''name'' (JStr ''RFProxy'') n1
                else if is_rfvs (to_str i) then AList.update ''name'' (JStr ''RouteFlow virtual switch'') n1
                else n1);
          data = (if ty = JStr ''switch''
                  then [(''$height'', JNum (ICON_SIZE / 5 + SPACING + LABEL_SIZE))] else [])
                 @ [(''$type'', ty)];
          n3 = AList.delete ''type'' (AList.update ''data'' (JObj data) n2);
          n4 = AList.update ''adjacencies'' (prop_of n3 ''links'') n3
      in AList.delete ''links'' n4)"

text \<open>The loop: the prepared nodes, and the index of the last node whose identifier is \<^verbatim>\<open>rfproxy\<close>.\<close>

fun prepare_topology :: "nat \<Rightarrow> props list \<Rightarrow> nat \<Rightarrow> props list \<times> nat" where
  "prepare_topology i [] center = ([], center)"
| "prepare_topology i (node # data) center =
     (let center' = (if prop_of node ''id'' = JStr ''rfproxy'' then i else center);
          (nodes, c) = prepare_topology (Suc i) data center'
      in (prepare_node node # nodes, c))"

section \<open>Lemmas\<close>

lemma prop_of_flow_row_priority [simp]: "prop_of (flow_row f) ''priority'' = fl_priority f"
  by (simp add: flow_row_def prop_of_def)

lemma sorted_wrt_flow_rows:
  assumes "\<forall>f \<in> set flows. \<exists>x. fl_priority f = JNum x"
  shows "sorted_wrt (\<lambda>a b. num_of (prop_of b ''priority'') \<le> num_of (prop_of a ''priority''))
           (flow_rows flows)"
proof -
  have rows: "set (map flow_row flows) \<subseteq> keyed_num ''priority''"
    using assms by (auto simp: keyed_num_def)
  then have "sorted_wrt (\<lambda>a b. compare_objects a b ''priority'' \<le> 0)
      (sort_by (\<lambda>a b. compare_objects a b ''priority'') (map flow_row flows))"
    by (rule priority_order.sorted_sort_by)
  then have "sorted_wrt (\<lambda>a b. num_of (prop_of a ''priority'') \<le> num_of (prop_of b ''priority''))
      (sort_by (\<lambda>a b. compare_objects a b ''priority'') (map flow_row flows))"
    by (rule sorted_wrt_mono_rel [rotated])
       (use rows in \<open>auto intro!: compare_le_num_of simp del: prop_of_flow_row_priority\<close>)
  then show ?thesis by (simp add: flow_rows_def sorted_wrt_rev)
qed

lemma starts_with_absent: "c \<notin> set s \<Longrightarrow> \<not> starts_with (c # p) s"
  by (auto simp: starts_with_iff)

lemma split_aux_absent: "c \<notin> set s \<Longrightarrow> split_aux (c # p) acc s = [acc @ s]"
proof (induction s arbitrary: acc)
  case Nil
  then show ?case by (simp add: split_aux.simps)
next
  case (Cons d s)
  then show ?case
    by (subst split_aux.simps) (auto simp: starts_with_def)
qed

lemma split_aux_once:
  "c \<notin> set s \<Longrightarrow> c \<notin> set t \<Longrightarrow> split_aux (c # p) acc (s @ (c # p) @ t) = [acc @ s, t]"
proof (induction s arbitrary: acc)
  case Nil
  then show ?case
    by (subst split_aux.simps) (simp add: starts_with_def split_aux_absent)
next
  case (Cons d s)
  then show ?case
    by (subst split_aux.simps) (auto simp: starts_with_def)
qed

lemma takeWhile_prefix: "c \<notin> set s \<Longrightarrow> takeWhile (\<lambda>d. d \<noteq> c) (s @ c # t) = s"
  by (induction s) auto

lemma match_here_prefix:
  assumes "\<forall>c \<in> set w. is_word_char c" and "CHR '']'' \<notin> set p"
  shows "match_here (w @ ''['' @ p @ '']'' @ t) = Some (w, p)"
proof -
  have "\<not> is_word_char (CHR ''['')" by (simp add: is_word_char_def in_range_def)
  then have "takeWhile is_word_char (w @ ''['' @ p @ '']'' @ t) = w"
    and "dropWhile is_word_char (w @ ''['' @ p @ '']'' @ t) = ''['' @ p @ '']'' @ t"
    using assms(1) by (induction w) auto
  then show ?thesis using takeWhile_prefix [OF assms(2)] by (simp add: match_here_def)
qed

lemma action_match_here: "match_here s = Some r \<Longrightarrow> action_match s = Some r"
  by (cases s) auto

lemma word_ofp_action_output: "\<forall>c \<in> set ''ofp_action_output''. is_word_char c"
  by (simp add: is_word_char_def in_range_def)

lemma prettify_output_action:
  assumes "CHR '']'' \<notin> set v" and "CHR '','' \<notin> set v" and "CHR '':'' \<notin> set v"
  shows "prettify_action (''ofp_action_output[port: '' @ v @ '']'') = ''OUTPUT(port: '' @ v @ ''), ''"
proof -
  have "match_here (''ofp_action_output'' @ ''['' @ (''port: '' @ v) @ '']'' @ []) =
      Some (''ofp_action_output'', ''port: '' @ v)"
    using word_ofp_action_output assms(1) by (intro match_here_prefix) auto
  then have am: "action_match (''ofp_action_output[port: '' @ v @ '']'') =
      Some (''ofp_action_output'', ''port: '' @ v)"
    by (intro action_match_here) simp
  have "split '', '' (''port: '' @ v) = [''port: '' @ v]"
    using assms(2) split_aux_absent [of "CHR '',''" "''port: '' @ v" "'' ''" "[]"]
    by (simp add: split_def)
  moreover have "split '': '' (''port'' @ '': '' @ v) = [''port'', v]"
    using assms(3) split_aux_once [of "CHR '':''" "''port''" v "'' ''" "[]"] by (simp add: split_def)
  ultimately have pl: "get_params_list (''port: '' @ v) = [[''port'', v]]"
    by (simp add: get_params_list_def)
  have "rstrip ((''port: '' @ v) @ '', '') '', '' = ''port: '' @ v" by (rule rstrip_append)
  then show ?thesis
    using am pl
    by (simp add: prettify_action_def output_params_def nth_str_def to_upper_case_def to_upper_def)
qed

lemma fst_prepare_topology: "fst (prepare_topology i data c) = map prepare_node data"
  by (induction i data c rule: prepare_topology.induct) (simp_all add: Let_def case_prod_beta)

lemma snd_prepare_topology:
  "snd (prepare_topology i data c) =
     (if \<exists>d \<in> set data. prop_of d ''id'' = JStr ''rfproxy'' then snd (prepare_topology i data c) else c)"
  by (induction i data c rule: prepare_topology.induct) (auto simp: Let_def case_prod_beta)

lemma prepare_topology_center:
  "\<exists>d \<in> set data. prop_of d ''id'' = JStr ''rfproxy'' \<Longrightarrow>
   i \<le> snd (prepare_topology i data c) \<and> snd (prepare_topology i data c) < i + length data
   \<and> prop_of (data ! (snd (prepare_topology i data c) - i)) ''id'' = JStr ''rfproxy''"
proof (induction i data c rule: prepare_topology.induct)
  case (1 i c)
  then show ?case by simp
next
  case (2 i node data c)
  let ?c = "if prop_of node ''id'' = JStr ''rfproxy'' then i else c"
  let ?r = "snd (prepare_topology (Suc i) data ?c)"
  have r: "snd (prepare_topology i (node # data) c) = ?r" by (simp add: Let_def case_prod_beta)
  show ?case
  proof (cases "\<exists>d \<in> set data. prop_of d ''id'' = JStr ''rfproxy''")
    case True
    define r' where "r' = ?r"
    from True 2 have IH: "Suc i \<le> r' \<and> r' < Suc i + length data
        \<and> prop_of (data ! (r' - Suc i)) ''id'' = JStr ''rfproxy''" unfolding r'_def by simp
    then have "r' - i = Suc (r' - Suc i)" by linarith
    with IH show ?thesis unfolding r r'_def [symmetric] by simp
  next
    case False
    with 2 have "prop_of node ''id'' = JStr ''rfproxy''" by auto
    moreover have "?r = ?c" using snd_prepare_topology [of "Suc i" data ?c] False by metis
    ultimately show ?thesis unfolding r by simp
  qed
qed

lemmas prepare_node_simps = prepare_node_def Let_def prop_of_update prop_of_delete

lemma prepare_node_id [simp]: "prop_of (prepare_node node) ''id'' = prop_of node ''id''"
  by (simp add: prepare_node_simps)

lemma prepare_node_adjacencies [simp]:
  "prop_of (prepare_node node) ''adjacencies'' = prop_of node ''links''"
  by (simp add: prepare_node_simps)

lemma prepare_node_type [simp]:
  "prop_of (prepare_node node) ''type'' = JUndefined"
  "get_prop (prop_of (prepare_node node) ''data'') ''$type'' = prop_of node ''type''"
  by (simp_all add: prepare_node_simps) (simp add: prop_of_def)

section \<open>Properties\<close>

text \<open>
  The flow table of a switch lists every flow the server reported exactly once, by
  descending priority.
\<close>

lemma flow_rows_by_priority:
  assumes "\<forall>f \<in> set flows. \<exists>x. fl_priority f = JNum x"
  shows "mset (flow_rows flows) = mset (map flow_row flows)
    \<and> sorted_wrt (\<lambda>a b. num_of (prop_of b ''priority'') \<le> num_of (prop_of a ''priority''))
        (flow_rows flows)"
  using sorted_wrt_flow_rows [OF assms] by (simp add: flow_rows_def)

text \<open>
  An output action is shown with the number of its port, whatever the port is. In
  particular the controller port 65533 is shown as a number: the code stores the name
  CONTROLLER in a variable that nothing reads.
\<close>

lemma prettify_output_port:
  assumes "CHR '']'' \<notin> set v" and "CHR '','' \<notin> set v" and "CHR '':'' \<notin> set v"
  shows "prettify_actions [''ofp_action_output[port: '' @ v @ '']''] = ''OUTPUT(port: '' @ v @ '')''"
proof -
  let ?out = "''OUTPUT(port: '' @ v @ '')''"
  have "concat (map prettify_action [''ofp_action_output[port: '' @ v @ '']'']) = ?out @ '', ''"
    by (simp only: list.map concat.simps prettify_output_action [OF assms]) simp
  moreover have "?out @ '', '' \<noteq> []" by simp
  ultimately show ?thesis
    unfolding prettify_actions_def Let_def by (simp only: if_False rstrip_append)
qed

text \<open>
  Preparing the topology keeps the nodes in order with their identifiers, makes their
  links the adjacencies of the graph library and their type its node type, and, when a
  node is the proxy, selects the proxy as the centre.
\<close>

lemma prepare_topology_keeps:
  assumes "prepare_topology 0 data 0 = (nodes, center)"
  shows "map (\<lambda>n. prop_of n ''id'') nodes = map (\<lambda>n. prop_of n ''id'') data
    \<and> map (\<lambda>n. prop_of n ''adjacencies'') nodes = map (\<lambda>n. prop_of n ''links'') data
    \<and> map (\<lambda>n. get_prop (prop_of n ''data'') ''$type'') nodes = map (\<lambda>n. prop_of n ''type'') data
    \<and> ((\<exists>d \<in> set data. prop_of d ''id'' = JStr ''rfproxy'') \<longrightarrow>
         center < length data \<and> prop_of (data ! center) ''id'' = JStr ''rfproxy'')"
  using fst_prepare_topology [of 0 data 0] prepare_topology_center [of data 0 0] assms
  by (auto simp: comp_def)

end
