(* ===== verification/Jit_Core.thy ===== *)
theory Jit_Core
  imports JS_Prelude
begin

text \<open>
  The utilities of the graph library the network page draws with
  (\<^verbatim>\<open>rfweb/js/jit/jit.js\<close>, file Core.js and the option groups): property copying and
  deep merging, the array helpers, colours, class names and element positions, the JSON tree
  functions, and the default options of the visualizations. The lemmas show what a merge
  keeps of its arguments, that the colour conversions are inverse, and what pruning a tree
  leaves of it.
\<close>

section \<open>Objects and arrays\<close>

definition js_extend :: "props \<Rightarrow> props \<Rightarrow> props" where
  "js_extend original extended = foldl (\<lambda>o1 (key, v). AList.update key v o1) original extended"

definition js_type :: "jsval \<Rightarrow> string" where
  "js_type elem =
     (case elem of
        JUndefined \<Rightarrow> ''undefined''
      | JNull \<Rightarrow> ''null''
      | JBool _ \<Rightarrow> ''boolean''
      | JNaN \<Rightarrow> ''number''
      | JNum _ \<Rightarrow> ''number''
      | JStr _ \<Rightarrow> ''string''
      | JArr _ \<Rightarrow> ''array''
      | JFun _ \<Rightarrow> ''function''
      | JObj ps \<Rightarrow>
          if truthy (prop_of ps ''$$family'') then to_str (prop_of ps ''$$family'')
          else if truthy (prop_of ps ''nodeName'') \<and> prop_of ps ''nodeType'' = JNum 1
          then ''element'' else ''object'')"

definition splat :: "jsval \<Rightarrow> jsval list" where
  "splat v =
     (let type = js_type v
      in if type \<noteq> [] then (case v of JArr vs \<Rightarrow> vs | _ \<Rightarrow> [v]) else [])"

text \<open>The pairs of element and key that \<^verbatim>\<open>$.each\<close> passes to its function, in order.\<close>

definition each :: "jsval \<Rightarrow> (jsval \<times> string) list" where
  "each iterable =
     (case iterable of
        JObj ps \<Rightarrow> map (\<lambda>(k, v). (v, k)) ps
      | JArr vs \<Rightarrow> map (\<lambda>(i, v). (v, digits_base 10 i)) (enumerate 0 vs)
      | _ \<Rightarrow> [])"

fun indexOf_from :: "nat \<Rightarrow> 'a list \<Rightarrow> 'a \<Rightarrow> int" where
  "indexOf_from i [] item = -1"
| "indexOf_from i (x # xs) item = (if x = item then int i else indexOf_from (Suc i) xs item)"

definition indexOf :: "'a list \<Rightarrow> 'a \<Rightarrow> int" where
  "indexOf array item = indexOf_from 0 array item"

definition js_map :: "'a list \<Rightarrow> ('a \<Rightarrow> nat \<Rightarrow> 'b) \<Rightarrow> 'b list" where
  "js_map array f = map (\<lambda>(i, elem). f elem i) (enumerate 0 array)"

text \<open>\<^verbatim>\<open>$.reduce\<close> with and without its third argument; it runs from the last element to the first.\<close>

definition reduce :: "'a list \<Rightarrow> ('b \<Rightarrow> 'a \<Rightarrow> 'b) \<Rightarrow> 'b \<Rightarrow> 'b" where
  "reduce array f opt = foldl f opt (rev array)"

definition reduce1 :: "'a list \<Rightarrow> ('a \<Rightarrow> 'a \<Rightarrow> 'a) \<Rightarrow> 'a option" where
  "reduce1 array f = (if array = [] then None else Some (foldl f (last array) (rev (butlast array))))"

primrec unlink :: "jsval \<Rightarrow> jsval" where
  "unlink JUndefined = JUndefined"
| "unlink JNull = JNull"
| "unlink (JBool b) = JBool b"
| "unlink JNaN = JNaN"
| "unlink (JNum x) = JNum x"
| "unlink (JStr s) = JStr s"
| "unlink (JArr vs) = JArr (map unlink vs)"
| "unlink (JObj ps) = JObj (map (map_prod id unlink) ps)"
| "unlink (JFun f) = JFun f"

definition is_obj :: "jsval \<Rightarrow> bool" where
  "is_obj v \<longleftrightarrow> js_type v = ''object''"

fun obj_props :: "jsval \<Rightarrow> props" where
  "obj_props (JObj ps) = ps"
| "obj_props _ = []"

text \<open>
  The inner loop of \<^verbatim>\<open>$.merge\<close> adds the properties of an object to the result built so
  far. Where both hold an object under a key, the code calls \<^verbatim>\<open>$.merge(mp, op)\<close>, which
  copies \<open>mp\<close> into an empty object (a copy, as the keys of an object are distinct) and then
  adds the properties of \<open>op\<close>.
\<close>

lemma size_obj_props: "size_list (size_prod (\<lambda>_. 0) size) (obj_props v) \<le> size v"
  by (cases v) auto

function mergeProps :: "props \<Rightarrow> props \<Rightarrow> props" where
  "mergeProps mix [] = mix"
| "mergeProps mix ((key, v) # ps) =
     (let mp = prop_of mix key;
          merged = (if truthy mp \<and> is_obj v \<and> is_obj mp
                    then JObj (mergeProps (obj_props (unlink mp)) (obj_props v))
                    else unlink v)
      in mergeProps (AList.update key merged mix) ps)"
  by pat_completeness auto
termination
proof (relation "measure (\<lambda>(mix, ps). size_list (size_prod (\<lambda>_. 0) size) ps)")
  fix mix :: props and key v ps mp
  show "((obj_props (unlink mp), obj_props v), mix, (key, v) # ps)
      \<in> measure (\<lambda>(mix, ps). size_list (size_prod (\<lambda>_. 0) size) ps)"
    using size_obj_props [of v] by simp
qed auto

declare mergeProps.simps(2) [simp del]

definition merge :: "jsval list \<Rightarrow> props" where
  "merge args = foldl (\<lambda>mix v. if is_obj v then mergeProps mix (obj_props v) else mix) [] args"

text \<open>\<^verbatim>\<open>$.zip\<close>: as many rows as its first argument is long; a missing element is undefined.\<close>

definition js_zip :: "jsval list list \<Rightarrow> jsval list list" where
  "js_zip args =
     (case args of [] \<Rightarrow> []
      | a # _ \<Rightarrow> map (\<lambda>j. map (\<lambda>r. if j < length r then r ! j else JUndefined) args) [0..<length a])"

section \<open>Colours\<close>

text \<open>\<^verbatim>\<open>rgbToHex\<close> without and with its second argument; the components are natural numbers.\<close>

definition hex_byte :: "nat \<Rightarrow> string" where
  "hex_byte n = (let bit = digits_base 16 n in if length bit = 1 then ''0'' @ bit else bit)"

definition rgbToHex :: "nat list \<Rightarrow> string option" where
  "rgbToHex srcArray =
     (if length srcArray < 3 then None
      else if length srcArray = 4 \<and> srcArray ! 3 = 0 then Some ''transparent''
      else Some (''#'' @ concat (map hex_byte (take 3 srcArray))))"

definition rgbToHex_array :: "nat list \<Rightarrow> string list option" where
  "rgbToHex_array srcArray =
     (if length srcArray < 3 then None else Some (map hex_byte (take 3 srcArray)))"

text \<open>
  The pattern of three groups of one or two word characters: the greedy split of the text
  after an optional hash sign, \<open>None\<close> where the pattern does not match.
\<close>

definition short_groups :: "string \<Rightarrow> string list option" where
  "short_groups hex =
     (let w = (case hex of c # cs \<Rightarrow> if c = CHR ''#'' then cs else hex | [] \<Rightarrow> []);
          n = length w
      in if \<not> list_all is_word_char w then None
         else if n = 3 then Some [take 1 w, take 1 (drop 1 w), drop 2 w]
         else if n = 4 then Some [take 2 w, take 1 (drop 2 w), drop 3 w]
         else if n = 5 then Some [take 2 w, take 2 (drop 2 w), drop 4 w]
         else if n = 6 then Some [take 2 w, take 2 (drop 2 w), drop 4 w]
         else None)"

text \<open>
  \<^verbatim>\<open>hexToRgb\<close>: the exception of a text that does not match is the outer \<open>None\<close>; a component
  that is no number is the inner one.
\<close>

definition hexToRgb :: "string \<Rightarrow> nat option list option" where
  "hexToRgb hex =
     (if length hex \<noteq> 7
      then map_option (map (\<lambda>value. parse_nat 16 (if length value = 1 then value @ value else value)))
             (short_groups hex)
      else (case parse_nat 16 (drop 1 hex) of
              None \<Rightarrow> Some [Some 0, Some 0, Some 0]
            | Some h \<Rightarrow> Some [Some (h div 2 ^ 16), Some (h div 2 ^ 8 mod 256), Some (h mod 256)]))"

section \<open>Class names\<close>

definition hasClass :: "string \<Rightarrow> string \<Rightarrow> bool" where
  "hasClass className klass = contains_str ('' '' @ klass @ '' '') ('' '' @ className @ '' '')"

definition addClass :: "string \<Rightarrow> string \<Rightarrow> string" where
  "addClass className klass =
     (if \<not> hasClass className klass then className @ '' '' @ klass else className)"

definition is_space :: "char \<Rightarrow> bool" where
  "is_space c \<longleftrightarrow> c = CHR '' '' \<or> c = CHR 0x09 \<or> c = CHR 0x0A \<or> c = CHR 0x0D"

text \<open>Removing the class name at this position, when it stands here as a whole word.\<close>

definition remove_here :: "string \<Rightarrow> string \<Rightarrow> string option" where
  "remove_here klass s =
     (if starts_with klass s then
        (case drop (length klass) s of
           [] \<Rightarrow> Some []
         | c # cs \<Rightarrow> if is_space c then Some cs else None)
      else None)"

fun remove_after_space :: "string \<Rightarrow> string \<Rightarrow> string" where
  "remove_after_space klass [] = []"
| "remove_after_space klass (c # cs) =
     (if is_space c then
        (case remove_here klass cs of
           Some r \<Rightarrow> c # r
         | None \<Rightarrow> c # remove_after_space klass cs)
      else c # remove_after_space klass cs)"

definition removeClass :: "string \<Rightarrow> string \<Rightarrow> string" where
  "removeClass className klass =
     (case remove_here klass className of
        Some r \<Rightarrow> r
      | None \<Rightarrow> remove_after_space klass className)"

section \<open>Positions of elements and events\<close>

text \<open>An element on the way to the body: its own offsets and scroll amounts.\<close>

record dom_elem =
  tagName :: string
  offsetLeft :: real
  offsetTop :: real
  scrollLeft :: real
  scrollTop :: real

record point =
  px :: real
  py :: real

definition lower :: "char \<Rightarrow> char" where
  "lower c = (if CHR ''A'' \<le> c \<and> c \<le> CHR ''Z'' then char_of (of_char c + 32 :: nat) else c)"

definition isBody :: "dom_elem \<Rightarrow> bool" where
  "isBody e \<longleftrightarrow> map lower (tagName e) = ''body'' \<or> map lower (tagName e) = ''html''"

fun getOffsets :: "dom_elem list \<Rightarrow> point \<Rightarrow> point" where
  "getOffsets [] position = position"
| "getOffsets (e # es) position =
     (if isBody e then position
      else getOffsets es \<lparr>px = px position + offsetLeft e, py = py position + offsetTop e\<rparr>)"

fun getScrolls :: "dom_elem list \<Rightarrow> point \<Rightarrow> point" where
  "getScrolls [] position = position"
| "getScrolls (e # es) position =
     (if isBody e then position
      else getScrolls es \<lparr>px = px position + scrollLeft e, py = py position + scrollTop e\<rparr>)"

text \<open>\<^verbatim>\<open>$.getPos\<close> over the chain of offset parents and the chain of parents of an element.\<close>

definition getPos :: "dom_elem list \<Rightarrow> dom_elem list \<Rightarrow> point" where
  "getPos offset_chain parent_chain =
     (let offset = getOffsets offset_chain \<lparr>px = 0, py = 0\<rparr>;
          scroll = getScrolls parent_chain \<lparr>px = 0, py = 0\<rparr>
      in \<lparr>px = px offset - px scroll, py = py offset - py scroll\<rparr>)"

definition event_getWheel :: "real \<Rightarrow> real \<Rightarrow> real" where
  "event_getWheel wheelDelta detail = (if wheelDelta \<noteq> 0 then wheelDelta / 120 else - detail / 3)"

definition event_isRightClick :: "nat \<Rightarrow> nat \<Rightarrow> bool" where
  "event_isRightClick which button = (which = 3 \<or> button = 2)"

record mouse_event =
  pageX :: real
  pageY :: real
  clientX :: real
  clientY :: real

definition event_getPos :: "mouse_event \<Rightarrow> mouse_event list \<Rightarrow> point \<Rightarrow> point" where
  "event_getPos e touches scroll =
     (let e' = (case touches of [] \<Rightarrow> e | t # _ \<Rightarrow> t)
      in \<lparr>px = (if pageX e' \<noteq> 0 then pageX e' else clientX e' + px scroll),
          py = (if pageY e' \<noteq> 0 then pageY e' else clientY e' + py scroll)\<rparr>)"

section \<open>JSON trees\<close>

datatype jtree =
  JNode (jid: string) (jname: string) (jdata: props) (jkids: "jtree list option")

datatype json_error = TypeError

fun prune :: "nat \<Rightarrow> nat \<Rightarrow> jtree \<Rightarrow> jtree" where
  "prune maxLevel i (JNode x n d c) =
     (case c of
        None \<Rightarrow> JNode x n d None
      | Some ch \<Rightarrow>
          if i = maxLevel then JNode x n d (Some [])
          else JNode x n d (Some (map (prune maxLevel (Suc i)) ch)))"

text \<open>\<open>None\<close> is the result false.\<close>

fun getParent :: "string \<Rightarrow> jtree \<Rightarrow> jtree option"
  and getParent_loop :: "string \<Rightarrow> jtree \<Rightarrow> jtree list \<Rightarrow> jtree option" where
  "getParent x (JNode i n d c) =
     (if i = x then None
      else (case c of None \<Rightarrow> None
            | Some ch \<Rightarrow> getParent_loop x (JNode i n d c) ch))"
| "getParent_loop x p [] = None"
| "getParent_loop x p (t # ts) =
     (if jid t = x then Some p
      else (case getParent x t of Some a \<Rightarrow> Some a | None \<Rightarrow> getParent_loop x p ts))"

text \<open>\<open>Inr None\<close> is the result null; reading the length of missing children raises.\<close>

fun getSubtree :: "string \<Rightarrow> jtree \<Rightarrow> json_error + jtree option"
  and getSubtree_loop :: "string \<Rightarrow> jtree list \<Rightarrow> json_error + jtree option" where
  "getSubtree x (JNode i n d c) =
     (if i = x then Inr (Some (JNode i n d c))
      else (case c of None \<Rightarrow> Inl TypeError | Some ch \<Rightarrow> getSubtree_loop x ch))"
| "getSubtree_loop x [] = Inr None"
| "getSubtree_loop x (t # ts) =
     (case getSubtree x t of
        Inl e \<Rightarrow> Inl e
      | Inr (Some s) \<Rightarrow> Inr (Some s)
      | Inr None \<Rightarrow> getSubtree_loop x ts)"

text \<open>The calls of the action, in order, as pairs of node and level.\<close>

fun eachLevel_json :: "nat \<Rightarrow> nat \<Rightarrow> jtree \<Rightarrow> (jtree \<times> nat) list" where
  "eachLevel_json initLevel toLevel (JNode i n d c) =
     (if initLevel \<le> toLevel
      then (JNode i n d c, initLevel) #
           (case c of None \<Rightarrow> []
            | Some ch \<Rightarrow> concat (map (eachLevel_json (Suc initLevel) toLevel) ch))
      else [])"

text \<open>\<^verbatim>\<open>each\<close> passes the largest number as the last level, which no tree reaches: all nodes.\<close>

fun each_json :: "nat \<Rightarrow> jtree \<Rightarrow> (jtree \<times> nat) list" where
  "each_json level (JNode i n d c) =
     (JNode i n d c, level) #
       (case c of None \<Rightarrow> [] | Some ch \<Rightarrow> concat (map (each_json (Suc level)) ch))"

section \<open>Default options\<close>

abbreviation empty_fn :: jsval where "empty_fn \<equiv> JFun ''empty''"

definition Options_AreaChart :: props where
  "Options_AreaChart =
     [(''$extend'', JBool True), (''animate'', JBool True), (''labelOffset'', JNum 3),
      (''type'', JStr ''stacked''),
      (''Tips'', JObj [(''enable'', JBool False), (''onShow'', empty_fn), (''onHide'', empty_fn)]),
      (''Events'', JObj [(''enable'', JBool False), (''onClick'', empty_fn)]),
      (''selectOnHover'', JBool True), (''showAggregates'', JBool True), (''showLabels'', JBool True),
      (''filterOnClick'', JBool False), (''restoreOnRightClick'', JBool False)]"

definition Options_Margin :: props where
  "Options_Margin =
     [(''$extend'', JBool False), (''top'', JNum 0), (''left'', JNum 0), (''right'', JNum 0),
      (''bottom'', JNum 0)]"

definition Options_Canvas :: props where
  "Options_Canvas =
     [(''$extend'', JBool True), (''injectInto'', JStr ''id''), (''width'', JBool False),
      (''height'', JBool False), (''useCanvas'', JBool False), (''withLabels'', JBool True),
      (''background'', JBool False)]"

definition Options_Tree :: props where
  "Options_Tree =
     [(''$extend'', JBool True), (''orientation'', JStr ''left''), (''subtreeOffset'', JNum 8),
      (''siblingOffset'', JNum 5), (''indent'', JNum 10), (''multitree'', JBool False),
      (''align'', JStr ''center'')]"

definition Options_Node :: props where
  "Options_Node =
     [(''$extend'', JBool False), (''overridable'', JBool False), (''type'', JStr ''circle''),
      (''color'', JStr ''#ccb''), (''alpha'', JNum 1), (''dim'', JNum 3), (''height'', JNum 20),
      (''width'', JNum 90), (''autoHeight'', JBool False), (''autoWidth'', JBool False),
      (''lineWidth'', JNum 1), (''transform'', JBool True), (''align'', JStr ''center''),
      (''angularWidth'', JNum 1), (''span'', JNum 1), (''CanvasStyles'', JObj [])]"

definition Options_Edge :: props where
  "Options_Edge =
     [(''$extend'', JBool False), (''overridable'', JBool False), (''type'', JStr ''line''),
      (''color'', JStr ''#ccb''), (''lineWidth'', JNum 1), (''dim'', JNum 15), (''alpha'', JNum 1),
      (''epsilon'', JNum 7), (''CanvasStyles'', JObj [])]"

definition Options_Fx :: props where
  "Options_Fx =
     [(''$extend'', JBool True), (''fps'', JNum 40), (''duration'', JNum 2500),
      (''transition'', JFun ''Quart.easeInOut''), (''clearCanvas'', JBool True)]"

definition Options_Label :: props where
  "Options_Label =
     [(''$extend'', JBool False), (''overridable'', JBool False), (''type'', JStr ''HTML''),
      (''style'', JStr '' ''), (''size'', JNum 10), (''family'', JStr ''sans-serif''),
      (''textAlign'', JStr ''center''), (''textBaseline'', JStr ''alphabetic''),
      (''color'', JStr ''#fff'')]"

definition Options_Tips :: props where
  "Options_Tips =
     [(''$extend'', JBool False), (''enable'', JBool False), (''type'', JStr ''auto''),
      (''offsetX'', JNum 20), (''offsetY'', JNum 20), (''force'', JBool False),
      (''onShow'', empty_fn), (''onHide'', empty_fn)]"

definition Options_NodeStyles :: props where
  "Options_NodeStyles =
     [(''$extend'', JBool False), (''enable'', JBool False), (''type'', JStr ''auto''),
      (''stylesHover'', JBool False), (''stylesClick'', JBool False)]"

definition Options_Events :: props where
  "Options_Events =
     [(''$extend'', JBool False), (''enable'', JBool False), (''enableForEdges'', JBool False),
      (''type'', JStr ''auto''), (''onClick'', empty_fn), (''onRightClick'', empty_fn),
      (''onMouseMove'', empty_fn), (''onMouseEnter'', empty_fn), (''onMouseLeave'', empty_fn),
      (''onDragStart'', empty_fn), (''onDragMove'', empty_fn), (''onDragCancel'', empty_fn),
      (''onDragEnd'', empty_fn), (''onTouchStart'', empty_fn), (''onTouchMove'', empty_fn),
      (''onTouchEnd'', empty_fn), (''onMouseWheel'', empty_fn)]"

definition Options_Navigation :: props where
  "Options_Navigation =
     [(''$extend'', JBool False), (''enable'', JBool False), (''type'', JStr ''auto''),
      (''panning'', JBool False), (''zooming'', JBool False)]"

definition Options_Controller :: props where
  "Options_Controller =
     [(''$extend'', JBool True), (''onBeforeCompute'', empty_fn), (''onAfterCompute'', empty_fn),
      (''onCreateLabel'', empty_fn), (''onPlaceLabel'', empty_fn), (''onComplete'', empty_fn),
      (''onBeforePlotLine'', empty_fn), (''onAfterPlotLine'', empty_fn),
      (''onBeforePlotNode'', empty_fn), (''onAfterPlotNode'', empty_fn), (''request'', JBool False)]"

definition options_table :: "props obj" where
  "options_table =
     [(''AreaChart'', Options_AreaChart), (''Margin'', Options_Margin), (''Canvas'', Options_Canvas),
      (''Tree'', Options_Tree), (''Node'', Options_Node), (''Edge'', Options_Edge), (''Fx'', Options_Fx),
      (''Label'', Options_Label), (''Tips'', Options_Tips), (''NodeStyles'', Options_NodeStyles),
      (''Events'', Options_Events), (''Navigation'', Options_Navigation),
      (''Controller'', Options_Controller)]"

text \<open>\<^verbatim>\<open>Options(names)\<close>: an extending group is copied in, another is nested under its name.\<close>

definition Options :: "string list \<Rightarrow> props" where
  "Options args =
     foldl (\<lambda>ans a. let opt = (case map_of options_table a of None \<Rightarrow> [] | Some ps \<Rightarrow> ps)
                     in if truthy (prop_of opt ''$extend'') then js_extend ans opt
                        else AList.update a (JObj opt) ans) [] args"

section \<open>Lemmas\<close>

lemma unlink_id [simp]: "unlink v = v"
proof (induction v)
  case (JArr x)
  then show ?case by (simp add: map_idI)
next
  case (JObj x)
  then show ?case by (auto intro!: map_idI simp: map_prod_def split_beta snds.simps)
qed simp_all

lemma js_extend_prop:
  "distinct (map fst e) \<Longrightarrow>
   prop_of (js_extend o1 e) k = (if k \<in> set (map fst e) then prop_of e k else prop_of o1 k)"
proof (induction e arbitrary: o1)
  case Nil
  then show ?case by (simp add: js_extend_def)
next
  case (Cons p e)
  obtain k' v where p: "p = (k', v)" by (cases p)
  have "js_extend o1 (p # e) = js_extend (AList.update k' v o1) e" by (simp add: js_extend_def p)
  then show ?case using Cons p by (auto simp: prop_of_update prop_of_Cons)
qed

text \<open>What the merge of two values under one key is.\<close>

definition merge_value :: "jsval \<Rightarrow> jsval \<Rightarrow> jsval" where
  "merge_value mp v =
     (if truthy mp \<and> is_obj v \<and> is_obj mp then JObj (mergeProps (obj_props mp) (obj_props v)) else v)"

lemma mergeProps_Cons:
  "mergeProps mix ((k, v) # ps) = mergeProps (AList.update k (merge_value (prop_of mix k) v) mix) ps"
  by (simp add: merge_value_def Let_def mergeProps.simps(2))

lemma mergeProps_prop:
  "distinct (map fst ps) \<Longrightarrow>
   prop_of (mergeProps mix ps) k =
     (case map_of ps k of None \<Rightarrow> prop_of mix k | Some v \<Rightarrow> merge_value (prop_of mix k) v)"
proof (induction ps arbitrary: mix)
  case Nil
  then show ?case by simp
next
  case (Cons p ps)
  obtain k' v where p: "p = (k', v)" by (cases p)
  with Cons.prems have "map_of ps k' = None" by (simp add: map_of_eq_None_iff)
  then show ?case
    using Cons p by (simp add: mergeProps_Cons prop_of_update split: option.splits)
qed

lemma mergeProps_keys: "fst ` set (mergeProps mix ps) = fst ` set mix \<union> fst ` set ps"
proof (induction ps arbitrary: mix)
  case (Cons p ps)
  then show ?case by (cases p) (auto simp: mergeProps_Cons dom_update)
qed simp

lemma mergeProps_distinct: "distinct (map fst mix) \<Longrightarrow> distinct (map fst (mergeProps mix ps))"
proof (induction ps arbitrary: mix)
  case (Cons p ps)
  then show ?case by (cases p) (auto simp: mergeProps_Cons intro: distinct_update)
qed simp

lemma mergeProps_Nil_left: "distinct (map fst ps) \<Longrightarrow> mergeProps [] ps = ps"
proof -
  have "distinct (map fst (mix @ ps)) \<Longrightarrow> mergeProps mix ps = mix @ ps" for mix
  proof (induction ps arbitrary: mix)
    case (Cons p ps)
    obtain k v where p: "p = (k, v)" by (cases p)
    with Cons.prems have k: "k \<notin> set (map fst mix)" by auto
    then have "map_of mix k = None" by (simp add: map_of_eq_None_iff)
    then have "merge_value (prop_of mix k) v = v" by (simp add: merge_value_def prop_of_def)
    with Cons p k show ?case by (simp add: mergeProps_Cons update_fresh)
  qed simp
  then show "distinct (map fst ps) \<Longrightarrow> mergeProps [] ps = ps" by fastforce
qed

lemma digit_value_char: "d < 16 \<Longrightarrow> digit_value (digit_char d) = Some d"
proof -
  have "\<forall>d \<in> set [0..<16]. digit_value (digit_char d) = Some d" by code_simp
  then show "d < 16 \<Longrightarrow> digit_value (digit_char d) = Some d" by auto
qed

lemma digit_char_0: "digit_char 0 = CHR ''0''"
  by code_simp

lemma hex_byte_eq: "n < 256 \<Longrightarrow> hex_byte n = [digit_char (n div 16), digit_char (n mod 16)]"
  by (auto simp: hex_byte_def Let_def digits_base.simps [of 16] digit_char_0)

lemma rgbToHex_hexToRgb_aux:
  assumes "r < 256" "g < 256" "b < 256"
  shows "map_option hexToRgb (rgbToHex [r, g, b]) = Some (Some [Some r, Some g, Some b])"
proof -
  have d: "n < 256 \<Longrightarrow> n div 16 < 16" for n :: nat by simp
  let ?h = "((((r div 16) * 16 + r mod 16) * 16 + g div 16) * 16 + g mod 16) * 256
      + (b div 16) * 16 + b mod 16"
  have "parse_nat 16 (concat (map hex_byte [r, g, b])) = Some ?h"
    using assms by (simp add: parse_nat_def hex_byte_eq digit_value_char d)
  moreover have "?h = b + (g + r * 256) * 256" by simp
  moreover have "(b + (g + r * 256) * 256) div 2 ^ 16 = r" using assms by simp
  moreover have "(b + (g + r * 256) * 256) div 2 ^ 8 = g + r * 256"
    using assms by simp
  moreover have "(b + (g + r * 256) * 256) mod 256 = b mod 256" by (rule mod_mult_self1)
  ultimately show ?thesis using assms by (simp add: rgbToHex_def hexToRgb_def hex_byte_eq)
qed

lemma prune_levels:
  "i \<le> m \<Longrightarrow>
   map (\<lambda>(s, l). (jid s, l)) (each_json i (prune m i t)) = map (\<lambda>(s, l). (jid s, l)) (eachLevel_json i m t)"
proof (induction m i t rule: prune.induct)
  case (1 m i x n d c)
  show ?case
  proof (cases c)
    case None
    with 1 show ?thesis by simp
  next
    case (Some ch)
    show ?thesis
    proof (cases "i = m")
      case True
      have "eachLevel_json (Suc m) m t = []" for t by (cases t) simp
      with Some True show ?thesis by simp
    next
      case False
      with 1 Some have "t \<in> set ch \<Longrightarrow>
          map (\<lambda>(s, l). (jid s, l)) (each_json (Suc i) (prune m (Suc i) t)) =
          map (\<lambda>(s, l). (jid s, l)) (eachLevel_json (Suc i) m t)" for t by simp
      then show ?thesis
        using Some False 1(2) by (simp add: map_concat comp_def cong: map_cong)
    qed
  qed
qed

lemma eachLevel_json_filter:
  "eachLevel_json i m t = filter (\<lambda>(s, l). l \<le> m) (each_json i t)"
proof (induction i t rule: each_json.induct)
  case (1 i x n d c)
  have deep: "(s, l) \<in> set (each_json j u) \<Longrightarrow> j \<le> l" for s l j u
    by (induction j u rule: each_json.induct) (fastforce split: option.splits)
  show ?case
  proof (cases c)
    case None
    then show ?thesis by simp
  next
    case (Some ch)
    have "\<not> i \<le> m \<Longrightarrow> filter (\<lambda>(s, l). l \<le> m) (concat (map (each_json (Suc i)) ch)) = []"
      by (force simp: filter_empty_conv dest!: deep)
    with 1 Some show ?thesis by (auto simp: filter_concat comp_def cong: map_cong)
  qed
qed

lemma getParent_has_child:
  "getParent x t = Some p \<Longrightarrow> \<exists>ch. jkids p = Some ch \<and> x \<in> jid ` set ch"
  "getParent_loop x q ts = Some p \<Longrightarrow> jkids q = Some (pre @ ts) \<Longrightarrow>
     \<exists>ch. jkids p = Some ch \<and> x \<in> jid ` set ch"
proof (induction x t and x q ts arbitrary: p and p pre rule: getParent_getParent_loop.induct)
  case (1 x i n d c)
  then show ?case by (auto split: if_splits option.splits)
next
  case (2 x q)
  then show ?case by simp
next
  case (3 x q t ts)
  show ?case
  proof (cases "jid t = x")
    case True
    with 3 show ?thesis by auto
  next
    case False
    show ?thesis
    proof (cases "getParent x t")
      case None
      with 3(2) [OF False None, of p "pre @ [t]"] 3(3,4) False show ?thesis by simp
    next
      case (Some a)
      with 3 False show ?thesis by simp
    qed
  qed
qed

section \<open>Properties\<close>

text \<open>
  Merging two objects keeps every property: a key of the second argument has the second
  value, except that two objects under one key are merged in turn; a key only the first
  argument has keeps its value; and there are no other keys.
\<close>

lemma merge_two:
  assumes "distinct (map fst a)" and "distinct (map fst b)"
    and "is_obj (JObj a)" and "is_obj (JObj b)"
  shows "prop_of (merge [JObj a, JObj b]) k =
      (if k \<notin> set (map fst b) then prop_of a k
       else if truthy (prop_of a k) \<and> is_obj (prop_of a k) \<and> is_obj (prop_of b k)
       then JObj (mergeProps (obj_props (prop_of a k)) (obj_props (prop_of b k)))
       else prop_of b k)
    \<and> set (map fst (merge [JObj a, JObj b])) = set (map fst a) \<union> set (map fst b)
    \<and> distinct (map fst (merge [JObj a, JObj b]))"
proof -
  have m: "merge [JObj a, JObj b] = mergeProps a b"
    using assms by (simp add: merge_def mergeProps_Nil_left)
  show ?thesis
  proof (cases "map_of b k")
    case None
    then have "k \<notin> set (map fst b)" by (simp add: map_of_eq_None_iff)
    with None m assms show ?thesis
      by (simp add: mergeProps_prop mergeProps_keys mergeProps_distinct)
  next
    case (Some v)
    then have "k \<in> set (map fst b)" and "prop_of b k = v"
      by (force simp: prop_of_def dest: map_of_SomeD)+
    with Some m assms show ?thesis
      by (simp add: mergeProps_prop mergeProps_keys mergeProps_distinct merge_value_def)
  qed
qed

text \<open>
  A colour printed in hexadecimal reads back as the same components.
\<close>

lemma rgb_hex_roundtrip:
  assumes "r < 256" "g < 256" "b < 256"
  shows "map_option hexToRgb (rgbToHex [r, g, b]) = Some (Some [Some r, Some g, Some b])"
  using assms by (rule rgbToHex_hexToRgb_aux)

text \<open>
  Pruning a tree leaves exactly the nodes whose depth does not exceed the limit, in the
  order they had.
\<close>

lemma prune_keeps_levels:
  "map (\<lambda>(s, l). (jid s, l)) (each_json 0 (prune m 0 t)) =
   map (\<lambda>(s, l). (jid s, l)) (filter (\<lambda>(s, l). l \<le> m) (each_json 0 t))"
  using prune_levels [of 0 m t] eachLevel_json_filter [of 0 m t] by simp

end
