(* ===== verification/Jit_Anim.thy ===== *)
theory Jit_Anim
  imports JS_Prelude
begin

text \<open>
  The transitions and the animation clock of the graph library (\<^verbatim>\<open>rfweb/js/jit/jit.js\<close>,
  \<^verbatim>\<open>$jit.Trans\<close> and \<^verbatim>\<open>Animation\<close>). A transition maps the elapsed fraction of an animation to
  its progress; an animation is a timer that calls its \<^verbatim>\<open>compute\<close> function with the progress
  and its \<^verbatim>\<open>complete\<close> function at the end. The model keeps the list of progress values passed
  to \<^verbatim>\<open>compute\<close> and the number of calls of \<^verbatim>\<open>complete\<close>, and takes the clock as an argument.
  The interfaces \<open>easing\<close> and \<open>mono_easing\<close> state what a transition promises; their lemmas give
  the laws of the derived variants once, and the transitions of the library interpret them.
\<close>

section \<open>Transitions\<close>

definition linear :: "real \<Rightarrow> real" where
  "linear p = p"

text \<open>The variants \<^verbatim>\<open>makeTrans\<close> derives from a transition.\<close>

definition easeIn :: "(real \<Rightarrow> real) \<Rightarrow> real \<Rightarrow> real" where
  "easeIn transition pos = transition pos"

definition easeOut :: "(real \<Rightarrow> real) \<Rightarrow> real \<Rightarrow> real" where
  "easeOut transition pos = 1 - transition (1 - pos)"

definition easeInOut :: "(real \<Rightarrow> real) \<Rightarrow> real \<Rightarrow> real" where
  "easeInOut transition pos =
     (if pos \<le> 1 / 2 then transition (2 * pos) / 2 else (2 - transition (2 * (1 - pos))) / 2)"

text \<open>A parameter or its default: \<^verbatim>\<open>x[0] || d\<close>.\<close>

definition param_or :: "real list \<Rightarrow> real \<Rightarrow> real" where
  "param_or x d = (case x of [] \<Rightarrow> d | v # _ \<Rightarrow> if v = 0 then d else v)"

text \<open>\<^verbatim>\<open>Math.pow\<close>.\<close>

definition js_pow :: "real \<Rightarrow> real \<Rightarrow> real" where
  "js_pow p e = (if e = of_int \<lfloor>e\<rfloor> then p powi \<lfloor>e\<rfloor> else p powr e)"

definition Trans_Pow :: "real list \<Rightarrow> real \<Rightarrow> real" where
  "Trans_Pow x p = js_pow p (param_or x 6)"

definition Trans_Expo :: "real \<Rightarrow> real" where
  "Trans_Expo p = 2 powr (8 * (p - 1))"

definition Trans_Circ :: "real \<Rightarrow> real" where
  "Trans_Circ p = 1 - sin (arccos p)"

definition Trans_Sine :: "real \<Rightarrow> real" where
  "Trans_Sine p = 1 - sin ((1 - p) * pi / 2)"

definition Trans_Back :: "real list \<Rightarrow> real \<Rightarrow> real" where
  "Trans_Back x p = (let x' = param_or x (1618 / 1000) in p ^ 2 * ((x' + 1) * p - x'))"

text \<open>The loop of \<^verbatim>\<open>Bounce\<close> does not end for every number, so it may return nothing.\<close>

partial_function (option) Trans_Bounce_loop :: "real \<Rightarrow> real \<Rightarrow> real \<Rightarrow> real option" where
  "Trans_Bounce_loop p a b =
     (if p \<ge> (7 - 4 * a) / 11 then Some (b * b - ((11 - 6 * a - 11 * p) / 4) ^ 2)
      else Trans_Bounce_loop p (a + b) (b / 2))"

definition Trans_Bounce :: "real \<Rightarrow> real option" where
  "Trans_Bounce p = Trans_Bounce_loop p 0 1"

definition Trans_Elastic :: "real list \<Rightarrow> real \<Rightarrow> real" where
  "Trans_Elastic x p =
     (let p' = p - 1 in 2 powr (10 * p') * cos (20 * p' * pi * param_or x 1 / 3))"

text \<open>The family \<^verbatim>\<open>Quad\<close>, \<^verbatim>\<open>Cubic\<close>, \<^verbatim>\<open>Quart\<close>, \<^verbatim>\<open>Quint\<close>, numbered from zero.\<close>

definition Trans_family :: "nat \<Rightarrow> real \<Rightarrow> real" where
  "Trans_family i p = p ^ (i + 2)"

definition Quart_easeInOut :: "real \<Rightarrow> real" where
  "Quart_easeInOut = easeInOut (Trans_family 2)"

section \<open>Animations\<close>

record anim_opt =
  an_duration :: real
  an_fps :: real
  an_transition :: "real \<Rightarrow> real"
  an_link :: string

record anim =
  an_opt :: anim_opt
  an_time :: real
  an_timer :: bool
  an_deltas :: "real list"
  an_completed :: nat

definition default_anim_opt :: anim_opt where
  "default_anim_opt =
     \<lparr>an_duration = 2500, an_fps = 40, an_transition = Quart_easeInOut, an_link = ''ignore''\<rparr>"

text \<open>The options given replace the defaults; the argument says how.\<close>

definition anim_setOptions :: "(anim_opt \<Rightarrow> anim_opt) \<Rightarrow> anim \<Rightarrow> anim" where
  "anim_setOptions options a = a\<lparr>an_opt := options default_anim_opt\<rparr>"

definition anim_initialize :: "(anim_opt \<Rightarrow> anim_opt) \<Rightarrow> anim" where
  "anim_initialize options =
     anim_setOptions options
       \<lparr>an_opt = default_anim_opt, an_time = 0, an_timer = False, an_deltas = [], an_completed = 0\<rparr>"

definition compute_delta :: "real \<Rightarrow> anim \<Rightarrow> anim" where
  "compute_delta d a = a\<lparr>an_deltas := an_deltas a @ [d]\<rparr>"

definition anim_step :: "real \<Rightarrow> anim \<Rightarrow> anim" where
  "anim_step now a =
     (let opt = an_opt a
      in if now < an_time a + an_duration opt
         then compute_delta (an_transition opt ((now - an_time a) / an_duration opt)) a
         else (compute_delta 1 (a\<lparr>an_timer := False\<rparr>))\<lparr>an_completed := an_completed a + 1\<rparr>)"

definition anim_startTimer :: "real \<Rightarrow> anim \<Rightarrow> anim \<times> bool" where
  "anim_startTimer now a =
     (if an_timer a then (a, False)
      else (a\<lparr>an_time := now - an_time a, an_timer := True\<rparr>, True))"

definition anim_stopTimer :: "real \<Rightarrow> anim \<Rightarrow> anim \<times> bool" where
  "anim_stopTimer now a =
     (if \<not> an_timer a then (a, False)
      else (a\<lparr>an_time := now - an_time a, an_timer := False\<rparr>, True))"

definition anim_check :: "real \<Rightarrow> anim \<Rightarrow> anim \<times> bool" where
  "anim_check now a =
     (if \<not> an_timer a then (a, True)
      else if an_link (an_opt a) = ''cancel'' then (fst (anim_stopTimer now a), True)
      else (a, False))"

definition anim_start :: "real \<Rightarrow> anim \<Rightarrow> anim" where
  "anim_start now a =
     (case anim_check now a of
        (a', False) \<Rightarrow> a'
      | (a', True) \<Rightarrow> fst (anim_startTimer now (a'\<lparr>an_time := 0\<rparr>)))"

definition anim_pause :: "real \<Rightarrow> anim \<Rightarrow> anim" where
  "anim_pause now a = fst (anim_stopTimer now a)"

definition anim_resume :: "real \<Rightarrow> anim \<Rightarrow> anim" where
  "anim_resume now a = fst (anim_startTimer now a)"

text \<open>The interval timer calls \<^verbatim>\<open>step\<close> at the given times while it is set.\<close>

definition anim_tick :: "real \<Rightarrow> anim \<Rightarrow> anim" where
  "anim_tick now a = (if an_timer a then anim_step now a else a)"

definition anim_ticks :: "real list \<Rightarrow> anim \<Rightarrow> anim" where
  "anim_ticks ts a = fold anim_tick ts a"

section \<open>The interface of a transition\<close>

locale easing =
  fixes f :: "real \<Rightarrow> real"
  assumes zero: "f 0 = 0"
    and one: "f 1 = 1"
begin

lemma easeOut_ends: "easeOut f 0 = 0" "easeOut f 1 = 1"
  by (simp_all add: easeOut_def zero one)

lemma easeInOut_ends: "easeInOut f 0 = 0" "easeInOut f 1 = 1"
  by (simp_all add: easeInOut_def zero)

lemma easeInOut_half: "easeInOut f (1 / 2) = 1 / 2"
  by (simp add: easeInOut_def one)

text \<open>The second half of the movement mirrors the first.\<close>

lemma easeInOut_mirror: "easeInOut f (1 - p) = 1 - easeInOut f p"
proof (cases "p = 1 / 2")
  case True
  have "1 - easeInOut f (1 / 2) = 1 / 2" by (simp add: easeInOut_half)
  moreover have "1 - p = 1 / 2" by (simp add: True)
  ultimately show ?thesis using True easeInOut_half by metis
next
  case False
  then show ?thesis by (auto simp: easeInOut_def field_simps)
qed

end

locale mono_easing = easing +
  assumes mono: "0 \<le> p \<Longrightarrow> p \<le> q \<Longrightarrow> q \<le> 1 \<Longrightarrow> f p \<le> f q"
begin

lemma range: "0 \<le> p \<Longrightarrow> p \<le> 1 \<Longrightarrow> 0 \<le> f p \<and> f p \<le> 1"
  using mono [of 0 p] mono [of p 1] by (simp add: zero one)

lemma easeInOut_range:
  assumes "0 \<le> p" and "p \<le> 1"
  shows "0 \<le> easeInOut f p \<and> easeInOut f p \<le> 1"
  using assms range [of "2 * p"] range [of "2 * (1 - p)"] by (auto simp: easeInOut_def)

lemma easeInOut_mono:
  assumes "0 \<le> p" and "p \<le> q" and "q \<le> 1"
  shows "easeInOut f p \<le> easeInOut f q"
proof -
  consider "q \<le> 1 / 2" | "p \<le> 1 / 2" "1 / 2 < q" | "1 / 2 < p" by linarith
  then show ?thesis
  proof cases
    case 1
    with assms mono [of "2 * p" "2 * q"] show ?thesis by (simp add: easeInOut_def)
  next
    case 2
    with assms range [of "2 * p"] range [of "2 * (1 - q)"] show ?thesis by (simp add: easeInOut_def)
  next
    case 3
    with assms mono [of "2 * (1 - q)" "2 * (1 - p)"] show ?thesis by (simp add: easeInOut_def)
  qed
qed

lemma easeOut_mono:
  assumes "0 \<le> p" and "p \<le> q" and "q \<le> 1"
  shows "easeOut f p \<le> easeOut f q"
  using assms mono [of "1 - q" "1 - p"] by (simp add: easeOut_def)

end

interpretation linear: mono_easing linear
  by unfold_locales (simp_all add: linear_def)

interpretation family: mono_easing "Trans_family i"
  by unfold_locales (auto simp: Trans_family_def simp del: power_Suc intro: power_mono)

interpretation sine: mono_easing Trans_Sine
proof
  fix p q :: real
  assume "0 \<le> p" "p \<le> q" "q \<le> 1"
  then have "- (pi / 2) \<le> (1 - q) * pi / 2" "(1 - q) * pi / 2 \<le> (1 - p) * pi / 2"
    "(1 - p) * pi / 2 \<le> pi / 2"
    by (auto simp: mult_right_mono intro: order_trans [of _ 0])
  then have "sin ((1 - q) * pi / 2) \<le> sin ((1 - p) * pi / 2)" by (intro sin_monotone_2pi_le)
  then show "Trans_Sine p \<le> Trans_Sine q" by (simp add: Trans_Sine_def)
qed (simp_all add: Trans_Sine_def)

interpretation circ: mono_easing Trans_Circ
proof
  fix p q :: real
  assume "0 \<le> p" "p \<le> q" "q \<le> 1"
  then have "sin (arccos q) \<le> sin (arccos p)"
    by (simp add: sin_arccos power_mono)
  then show "Trans_Circ p \<le> Trans_Circ q" by (simp add: Trans_Circ_def)
qed (simp_all add: Trans_Circ_def)

interpretation pow6: mono_easing "Trans_Pow []"
  by unfold_locales (simp_all add: Trans_Pow_def param_or_def js_pow_def power_mono)

interpretation back_ease: easing "Trans_Back x"
  by unfold_locales (simp_all add: Trans_Back_def Let_def)

section \<open>Lemmas on animations\<close>

lemma anim_tick_stopped: "\<not> an_timer a \<Longrightarrow> anim_ticks ts a = a"
  by (induction ts) (simp_all add: anim_ticks_def anim_tick_def)

lemma anim_ticks_Cons: "anim_ticks (t # ts) a = anim_ticks ts (anim_tick t a)"
  by (simp add: anim_ticks_def)

lemma anim_ticks_running:
  assumes "an_timer a" and "\<forall>t \<in> set ts. t < an_time a + an_duration (an_opt a)"
  shows "anim_ticks ts a =
    a\<lparr>an_deltas := an_deltas a
        @ map (\<lambda>t. an_transition (an_opt a) ((t - an_time a) / an_duration (an_opt a))) ts\<rparr>"
  using assms
proof (induction ts arbitrary: a)
  case Nil
  then show ?case by (simp add: anim_ticks_def)
next
  case (Cons t ts)
  then show ?case
    by (simp add: anim_ticks_Cons anim_tick_def anim_step_def compute_delta_def Let_def)
qed

lemma anim_ticks_append: "anim_ticks (ts @ us) a = anim_ticks us (anim_ticks ts a)"
  by (simp add: anim_ticks_def)

lemma anim_ticks_finish:
  assumes "an_timer a" and "\<forall>t \<in> set ts. t < an_time a + an_duration (an_opt a)"
    and "an_time a + an_duration (an_opt a) \<le> u"
  shows "anim_ticks (ts @ u # us) a =
    a\<lparr>an_timer := False, an_completed := an_completed a + 1,
      an_deltas := an_deltas a
        @ map (\<lambda>t. an_transition (an_opt a) ((t - an_time a) / an_duration (an_opt a))) ts @ [1]\<rparr>"
proof -
  let ?b = "anim_ticks ts a"
  have b: "?b = a\<lparr>an_deltas := an_deltas a
        @ map (\<lambda>t. an_transition (an_opt a) ((t - an_time a) / an_duration (an_opt a))) ts\<rparr>"
    using assms(1,2) by (rule anim_ticks_running)
  have "\<not> an_timer (anim_tick u ?b)"
    using assms(1,3) by (simp add: b anim_tick_def anim_step_def compute_delta_def Let_def)
  then have "anim_ticks us (anim_tick u ?b) = anim_tick u ?b" by (rule anim_tick_stopped)
  then show ?thesis
    using assms(1,3)
    by (simp add: anim_ticks_append anim_ticks_Cons b anim_tick_def anim_step_def compute_delta_def Let_def)
qed

lemma anim_start_running:
  "\<not> an_timer a \<Longrightarrow> anim_start now a = a\<lparr>an_time := now, an_timer := True\<rparr>"
  by (simp add: anim_start_def anim_check_def anim_startTimer_def)

lemma bounce_step:
  "p < (7 - 4 * a) / 11 \<Longrightarrow> Trans_Bounce_loop p a b = Trans_Bounce_loop p (a + b) (b / 2)"
  by (subst Trans_Bounce_loop.simps) simp

lemma bounce_stop:
  "(7 - 4 * a) / 11 \<le> p \<Longrightarrow>
   Trans_Bounce_loop p a b = Some (b * b - ((11 - 6 * a - 11 * p) / 4) ^ 2)"
  by (subst Trans_Bounce_loop.simps) simp

text \<open>For a progress that is not negative, the loop of \<^verbatim>\<open>Bounce\<close> ends within four rounds.\<close>

lemma bounce_cases:
  assumes "0 \<le> p"
  obtains "Trans_Bounce p = Some (1 - ((11 - 11 * p) / 4) ^ 2)" "7 / 11 \<le> p"
  | "Trans_Bounce p = Some (1 / 4 - ((5 - 11 * p) / 4) ^ 2)" "3 / 11 \<le> p" "p < 7 / 11"
  | "Trans_Bounce p = Some (1 / 16 - ((2 - 11 * p) / 4) ^ 2)" "1 / 11 \<le> p" "p < 3 / 11"
  | "Trans_Bounce p = Some (1 / 64 - ((1 / 2 - 11 * p) / 4) ^ 2)" "p < 1 / 11"
proof -
  consider "7 / 11 \<le> p" | "3 / 11 \<le> p" "p < 7 / 11" | "1 / 11 \<le> p" "p < 3 / 11" | "p < 1 / 11"
    by linarith
  then show ?thesis
  proof cases
    case 1
    then show ?thesis using that(1) by (simp add: Trans_Bounce_def bounce_stop)
  next
    case 2
    then show ?thesis using that(2) by (simp add: Trans_Bounce_def bounce_step bounce_stop)
  next
    case 3
    then show ?thesis using that(3) by (simp add: Trans_Bounce_def bounce_step bounce_stop)
  next
    case 4
    then show ?thesis
      using that(4) assms by (simp add: Trans_Bounce_def bounce_step bounce_stop)
  qed
qed

section \<open>Properties\<close>

text \<open>
  The default transition of every animation goes from 0 to 1 without ever moving back,
  stays between 0 and 1, and its second half mirrors the first.
\<close>

lemma default_transition_progress:
  assumes "0 \<le> p" and "p \<le> q" and "q \<le> 1"
  shows "Quart_easeInOut 0 = 0 \<and> Quart_easeInOut 1 = 1
    \<and> 0 \<le> Quart_easeInOut p \<and> Quart_easeInOut p \<le> Quart_easeInOut q \<and> Quart_easeInOut q \<le> 1
    \<and> Quart_easeInOut (1 - p) = 1 - Quart_easeInOut p"
  unfolding Quart_easeInOut_def
  using assms family.easeInOut_ends [of 2] family.easeInOut_mono [of p q 2]
    family.easeInOut_range [of p 2] family.easeInOut_range [of q 2] family.easeInOut_mirror [of 2 p]
  by auto

text \<open>
  C35: an animation started at a time runs as long as the ticks of its timer come before its
  duration is over, passing the transition of the elapsed fraction to its compute function;
  the first later tick passes exactly 1, completes the animation once and stops the timer,
  and no tick after it has any effect.
\<close>

theorem animation_run:
  assumes "\<not> an_timer a" and "\<forall>t \<in> set ts. t < now + an_duration (an_opt a)"
    and "now + an_duration (an_opt a) \<le> u"
  shows "anim_ticks (ts @ u # us) (anim_start now a) =
    a\<lparr>an_time := now, an_timer := False, an_completed := an_completed a + 1,
      an_deltas := an_deltas a
        @ map (\<lambda>t. an_transition (an_opt a) ((t - now) / an_duration (an_opt a))) ts @ [1]\<rparr>"
  using assms by (simp add: anim_start_running anim_ticks_finish)

theorem animation_run_witness:
  "an_deltas (anim_ticks [1000, 2600, 2700]
     (anim_start 0 (anim_initialize (\<lambda>opt. opt\<lparr>an_transition := linear\<rparr>)))) = [2 / 5, 1]"
  using animation_run [of "anim_initialize (\<lambda>opt. opt\<lparr>an_transition := linear\<rparr>)" "[1000]" 0 2600 "[2700]"]
  by (simp add: anim_initialize_def anim_setOptions_def default_anim_opt_def linear_def)

text \<open>
  Pausing an animation and resuming it later keeps its elapsed time: a tick after the
  pause sees the progress it would have seen had the clock stood still in between.
\<close>

lemma pause_resume_elapsed:
  assumes "an_timer a"
  shows "an_timer (anim_resume t2 (anim_pause t1 a))
    \<and> t - an_time (anim_resume t2 (anim_pause t1 a)) = (t1 - an_time a) + (t - t2)
    \<and> an_deltas (anim_resume t2 (anim_pause t1 a)) = an_deltas a"
  using assms by (simp add: anim_resume_def anim_pause_def anim_startTimer_def anim_stopTimer_def)

text \<open>
  The bouncing transition ends for every progress from 0 to 1, goes from 0 to 1 and never
  leaves the interval between them.
\<close>

lemma bounce_total:
  assumes "0 \<le> p" and "p \<le> 1"
  shows "\<exists>v. Trans_Bounce p = Some v \<and> 0 \<le> v \<and> v \<le> 1 \<and> (p = 0 \<longrightarrow> v = 0) \<and> (p = 1 \<longrightarrow> v = 1)"
proof (rule bounce_cases [OF assms(1)])
  have sq: "0 \<le> c ^ 2 - x ^ 2 \<and> c ^ 2 - x ^ 2 \<le> 1" if "\<bar>x\<bar> \<le> c" "c \<le> 1" for x c :: real
  proof -
    have "x ^ 2 \<le> c ^ 2" using that(1) by (simp add: power2_le_iff_abs_le)
    moreover have "c ^ 2 \<le> 1" using that by (simp add: power_le_one)
    ultimately show ?thesis using zero_le_power2 [of x] by linarith
  qed
  show ?thesis if "Trans_Bounce p = Some (1 - ((11 - 11 * p) / 4) ^ 2)" "7 / 11 \<le> p"
    using that assms sq [of "(11 - 11 * p) / 4" 1] by auto
  show ?thesis if "Trans_Bounce p = Some (1 / 4 - ((5 - 11 * p) / 4) ^ 2)" "3 / 11 \<le> p" "p < 7 / 11"
    using that sq [of "(5 - 11 * p) / 4" "1 / 2"] by (auto simp: power_divide)
  show ?thesis if "Trans_Bounce p = Some (1 / 16 - ((2 - 11 * p) / 4) ^ 2)" "1 / 11 \<le> p" "p < 3 / 11"
    using that sq [of "(2 - 11 * p) / 4" "1 / 4"] by (auto simp: power_divide)
  show ?thesis if "Trans_Bounce p = Some (1 / 64 - ((1 / 2 - 11 * p) / 4) ^ 2)" "p < 1 / 11"
  proof -
    have "\<bar>(1 / 2 - 11 * p) / 4\<bar> \<le> 1 / 8" using that(2) assms(1) by (intro abs_leI) (simp_all add: field_simps)
    from sq [OF this] show ?thesis using that by (auto simp: power_divide)
  qed
qed

end
