(* ===== verification/Jit_Geometry.thy ===== *)
theory Jit_Geometry
  imports JS_Prelude
begin

text \<open>
  The two coordinate classes of the graph library (\<^verbatim>\<open>rfweb/js/jit/jit.js\<close>, \<^verbatim>\<open>Polar\<close> and
  \<^verbatim>\<open>Complex\<close>) and the Moebius transformation of the hyperbolic layout. A node position is an
  object of either class, and the layouts and animations use it through the methods the two
  share; the interface \<open>position\<close> states the laws of those methods, and both classes
  interpret it. Complex coordinates refine the complex numbers of the library: each operation
  commutes with the abstraction \<open>to_C\<close>. A method that changes its receiver returns the
  changed object.
\<close>

named_theorems geometry_simps \<open>the methods of the coordinate classes\<close>

section \<open>The classes\<close>

record polar =
  p_theta :: real
  p_rho :: real

record cpx =
  c_x :: real
  c_y :: real

abbreviation mkP :: "real \<Rightarrow> real \<Rightarrow> polar" where
  "mkP a b \<equiv> \<lparr>p_theta = a, p_rho = b\<rparr>"

abbreviation mkC :: "real \<Rightarrow> real \<Rightarrow> cpx" where
  "mkC a b \<equiv> \<lparr>c_x = a, c_y = b\<rparr>"

definition Polar_KER :: polar where
  "Polar_KER = mkP 0 0"

definition Complex_KER :: cpx where
  "Complex_KER = mkC 0 0"

text \<open>\<^verbatim>\<open>Math.atan2\<close>, for coordinates whose zeros carry no sign.\<close>

definition atan2 :: "real \<Rightarrow> real \<Rightarrow> real" where
  "atan2 y x =
     (if 0 < x then arctan (y / x)
      else if x < 0 then (if 0 \<le> y then arctan (y / x) + pi else arctan (y / x) - pi)
      else if 0 < y then pi / 2 else if y < 0 then - pi / 2 else 0)"

section \<open>Complex coordinates\<close>

definition complex_getc :: "cpx \<Rightarrow> cpx" where
  "complex_getc c = c"

definition squaredNorm :: "cpx \<Rightarrow> real" where
  "squaredNorm c = c_x c * c_x c + c_y c * c_y c"

definition norm :: "cpx \<Rightarrow> real" where
  "norm c = sqrt (squaredNorm c)"

definition toPolar :: "cpx \<Rightarrow> polar" where
  "toPolar c =
     (let rho = norm c;
          atan = atan2 (c_y c) (c_x c);
          atan' = (if atan < 0 then atan + pi * 2 else atan)
      in mkP atan' rho)"

definition complex_getp :: "cpx \<Rightarrow> polar" where
  "complex_getp c = toPolar c"

definition complex_setc :: "cpx \<Rightarrow> real \<Rightarrow> real \<Rightarrow> cpx" where
  "complex_setc c x y = c\<lparr>c_x := x, c_y := y\<rparr>"

definition complex_setp :: "cpx \<Rightarrow> real \<Rightarrow> real \<Rightarrow> cpx" where
  "complex_setp c theta rho = c\<lparr>c_x := cos theta * rho, c_y := sin theta * rho\<rparr>"

definition complex_clone :: "cpx \<Rightarrow> cpx" where
  "complex_clone c = mkC (c_x c) (c_y c)"

definition complex_add :: "cpx \<Rightarrow> cpx \<Rightarrow> cpx" where
  "complex_add c pos = mkC (c_x c + c_x pos) (c_y c + c_y pos)"

definition prod :: "cpx \<Rightarrow> cpx \<Rightarrow> cpx" where
  "prod c pos = mkC (c_x c * c_x pos - c_y c * c_y pos) (c_y c * c_x pos + c_x c * c_y pos)"

definition conjugate :: "cpx \<Rightarrow> cpx" where
  "conjugate c = mkC (c_x c) (- c_y c)"

definition complex_scale :: "cpx \<Rightarrow> real \<Rightarrow> cpx" where
  "complex_scale c factor = mkC (c_x c * factor) (c_y c * factor)"

definition complex_equals :: "cpx \<Rightarrow> cpx \<Rightarrow> bool" where
  "complex_equals c d \<longleftrightarrow> c_x c = c_x d \<and> c_y c = c_y d"

definition complex_m_add :: "cpx \<Rightarrow> cpx \<Rightarrow> cpx" where
  "complex_m_add c pos = c\<lparr>c_x := c_x c + c_x pos, c_y := c_y c + c_y pos\<rparr>"

definition complex_m_prod :: "cpx \<Rightarrow> cpx \<Rightarrow> cpx" where
  "complex_m_prod c pos =
     (let x = c_x c; y = c_y c
      in c\<lparr>c_x := x * c_x pos - y * c_y pos, c_y := y * c_x pos + x * c_y pos\<rparr>)"

definition complex_m_conjugate :: "cpx \<Rightarrow> cpx" where
  "complex_m_conjugate c = c\<lparr>c_y := - c_y c\<rparr>"

definition complex_m_scale :: "cpx \<Rightarrow> real \<Rightarrow> cpx" where
  "complex_m_scale c factor = c\<lparr>c_x := c_x c * factor, c_y := c_y c * factor\<rparr>"

definition complex_m_div :: "cpx \<Rightarrow> cpx \<Rightarrow> cpx" where
  "complex_m_div c pos =
     (let x = c_x c; y = c_y c; sq = squaredNorm pos
      in complex_m_scale (c\<lparr>c_x := x * c_x pos + y * c_y pos, c_y := y * c_x pos - x * c_y pos\<rparr>) (1 / sq))"

text \<open>
  The transformation conjugates and multiplies its argument in place, so the argument is
  changed for the caller: the second component is what is left of it.
\<close>

definition moebiusTransformation :: "cpx \<Rightarrow> cpx \<Rightarrow> cpx \<times> cpx" where
  "moebiusTransformation z c =
     (let num = complex_add z c;
          den = complex_m_prod (complex_m_conjugate c) z;
          den' = den\<lparr>c_x := c_x den + 1\<rparr>
      in (complex_m_div num den', den'))"

section \<open>Polar coordinates\<close>

definition toComplex :: "polar \<Rightarrow> cpx" where
  "toComplex p = (let x = cos (p_theta p) * p_rho p; y = sin (p_theta p) * p_rho p in mkC x y)"

definition polar_getc :: "polar \<Rightarrow> cpx" where
  "polar_getc p = toComplex p"

definition polar_getp :: "polar \<Rightarrow> polar" where
  "polar_getp p = p"

definition polar_setc :: "polar \<Rightarrow> real \<Rightarrow> real \<Rightarrow> polar" where
  "polar_setc p x y =
     (let p1 = p\<lparr>p_rho := sqrt (x * x + y * y), p_theta := atan2 y x\<rparr>
      in if p_theta p1 < 0 then p1\<lparr>p_theta := p_theta p1 + pi * 2\<rparr> else p1)"

definition polar_setp :: "polar \<Rightarrow> real \<Rightarrow> real \<Rightarrow> polar" where
  "polar_setp p theta rho = p\<lparr>p_theta := theta, p_rho := rho\<rparr>"

definition polar_clone :: "polar \<Rightarrow> polar" where
  "polar_clone p = mkP (p_theta p) (p_rho p)"

definition polar_add :: "polar \<Rightarrow> polar \<Rightarrow> polar" where
  "polar_add p polar = mkP (p_theta p + p_theta polar) (p_rho p + p_rho polar)"

definition polar_scale :: "polar \<Rightarrow> real \<Rightarrow> polar" where
  "polar_scale p number = mkP (p_theta p) (p_rho p * number)"

definition polar_equals :: "polar \<Rightarrow> polar \<Rightarrow> bool" where
  "polar_equals p c \<longleftrightarrow> p_theta p = p_theta c \<and> p_rho p = p_rho c"

definition polar_m_add :: "polar \<Rightarrow> polar \<Rightarrow> polar" where
  "polar_m_add p polar = p\<lparr>p_theta := p_theta p + p_theta polar, p_rho := p_rho p + p_rho polar\<rparr>"

definition polar_m_madd :: "polar \<Rightarrow> polar \<Rightarrow> polar" where
  "polar_m_madd p polar =
     p\<lparr>p_theta := js_mod (p_theta p + p_theta polar) (pi * 2), p_rho := p_rho p + p_rho polar\<rparr>"

definition polar_m_scale :: "polar \<Rightarrow> real \<Rightarrow> polar" where
  "polar_m_scale p number = p\<lparr>p_rho := p_rho p * number\<rparr>"

definition interpolate_ch :: "real \<Rightarrow> real" where
  "interpolate_ch t = (if t < 0 then js_mod t (pi * 2) + pi * 2 else js_mod t (pi * 2))"

definition polar_interpolate :: "polar \<Rightarrow> polar \<Rightarrow> real \<Rightarrow> polar" where
  "polar_interpolate p elem delta =
     (let pi2 = pi * 2; ch = interpolate_ch;
          tt = p_theta p; et = p_theta elem;
          diff = \<bar>tt - et\<bar>;
          sum =
            (if diff = pi then
               if tt > et then ch (et + ((tt - pi2) - et) * delta)
               else ch (et - pi2 + (tt - et) * delta)
             else if diff \<ge> pi then
               if tt > et then ch (et + ((tt - pi2) - et) * delta)
               else ch (et - pi2 + (tt - (et - pi2)) * delta)
             else ch (et + (tt - et) * delta));
          r = (p_rho p - p_rho elem) * delta + p_rho elem
      in mkP sum r)"

section \<open>Positions of either class\<close>

datatype pos = PosP polar | PosC cpx

fun getc :: "pos \<Rightarrow> cpx" where
  "getc (PosP p) = polar_getc p"
| "getc (PosC c) = complex_getc c"

fun getp :: "pos \<Rightarrow> polar" where
  "getp (PosP p) = polar_getp p"
| "getp (PosC c) = complex_getp c"

fun setc :: "pos \<Rightarrow> real \<Rightarrow> real \<Rightarrow> pos" where
  "setc (PosP p) x y = PosP (polar_setc p x y)"
| "setc (PosC c) x y = PosC (complex_setc c x y)"

fun setp :: "pos \<Rightarrow> real \<Rightarrow> real \<Rightarrow> pos" where
  "setp (PosP p) theta rho = PosP (polar_setp p theta rho)"
| "setp (PosC c) theta rho = PosC (complex_setp c theta rho)"

definition polar_set :: "polar \<Rightarrow> pos \<Rightarrow> polar" where
  "polar_set p v = (let v' = getp v in p\<lparr>p_theta := p_theta v', p_rho := p_rho v'\<rparr>)"

definition complex_set :: "cpx \<Rightarrow> pos \<Rightarrow> cpx" where
  "complex_set c v = (let v' = getc v in c\<lparr>c_x := c_x v', c_y := c_y v'\<rparr>)"

fun set_pos :: "pos \<Rightarrow> pos \<Rightarrow> pos" where
  "set_pos (PosP p) v = PosP (polar_set p v)"
| "set_pos (PosC c) v = PosC (complex_set c v)"

fun clone :: "pos \<Rightarrow> pos" where
  "clone (PosP p) = PosP (polar_clone p)"
| "clone (PosC c) = PosC (complex_clone c)"

lemmas complex_ops [geometry_simps] =
  complex_getc_def complex_setc_def complex_setp_def complex_clone_def complex_add_def prod_def
  conjugate_def complex_scale_def complex_equals_def complex_m_add_def complex_m_prod_def
  complex_m_conjugate_def complex_m_scale_def complex_m_div_def squaredNorm_def

lemmas polar_ops [geometry_simps] =
  toComplex_def polar_getc_def polar_getp_def polar_setp_def polar_clone_def polar_add_def
  polar_scale_def polar_equals_def polar_m_add_def polar_m_madd_def polar_m_scale_def

section \<open>The angle of a point\<close>

lemma sqrt_factor: "sqrt (x * x + y * y) = \<bar>x\<bar> * sqrt (1 + (y / x) ^ 2)" if "x \<noteq> (0 :: real)"
proof -
  have "x * x + y * y = x ^ 2 * (1 + (y / x) ^ 2)"
    using that by (simp add: power2_eq_square field_simps)
  then show ?thesis by (simp add: real_sqrt_mult)
qed

lemma atan2_cos: "cos (atan2 y x) * sqrt (x * x + y * y) = x"
proof (cases "x = 0")
  case True
  then show ?thesis by (simp add: atan2_def)
next
  case False
  have pos: "0 < 1 + (y / x) ^ 2" by (simp add: add_pos_nonneg)
  have "cos (atan2 y x) = (if 0 < x then 1 else -1) / sqrt (1 + (y / x) ^ 2)"
    using False by (auto simp: atan2_def cos_arctan)
  then show ?thesis using False pos by (auto simp: sqrt_factor)
qed

lemma atan2_sin: "sin (atan2 y x) * sqrt (x * x + y * y) = y"
proof (cases "x = 0")
  case True
  then show ?thesis by (auto simp: atan2_def)
next
  case False
  have pos: "0 < 1 + (y / x) ^ 2" by (simp add: add_pos_nonneg)
  have "sin (atan2 y x) = (if 0 < x then 1 else -1) * (y / x) / sqrt (1 + (y / x) ^ 2)"
    using False by (auto simp: atan2_def sin_arctan)
  then show ?thesis using False pos by (auto simp: sqrt_factor)
qed

lemma atan2_bounds: "- pi < atan2 y x" "atan2 y x \<le> pi"
proof -
  have "- (pi / 2) < arctan (y / x)" "arctan (y / x) < pi / 2" 
    using arctan_bounded [of "y / x"] by auto
  moreover have "0 \<le> y \<Longrightarrow> x < 0 \<Longrightarrow> arctan (y / x) \<le> 0"
    by (simp add: divide_nonneg_neg)
  moreover have "y < 0 \<Longrightarrow> x < 0 \<Longrightarrow> 0 < arctan (y / x)" by (simp add: divide_neg_neg)
  ultimately show "- pi < atan2 y x" "atan2 y x \<le> pi"
    by (auto simp: atan2_def pi_gt_zero)
qed

text \<open>The angle both classes store, turned into the range from 0 to a full turn.\<close>

definition angle :: "real \<Rightarrow> real \<Rightarrow> real" where
  "angle x y = (if atan2 y x < 0 then atan2 y x + pi * 2 else atan2 y x)"

lemma angle_bounds: "0 \<le> angle x y \<and> angle x y < 2 * pi"
  using atan2_bounds [of y x] pi_gt_zero by (auto simp: angle_def)

lemma cos_angle: "cos (angle x y) * sqrt (x * x + y * y) = x"
  using atan2_cos [of y x] by (simp add: angle_def mult.commute [of pi])

lemma sin_angle: "sin (angle x y) * sqrt (x * x + y * y) = y"
  using atan2_sin [of y x] by (simp add: angle_def mult.commute [of pi])

lemma toPolar_angle: "toPolar c = mkP (angle (c_x c) (c_y c)) (sqrt (c_x c * c_x c + c_y c * c_y c))"
  by (simp add: toPolar_def angle_def norm_def squaredNorm_def Let_def)

lemma polar_setc_angle: "polar_setc p x y = mkP (angle x y) (sqrt (x * x + y * y))"
  by (cases p) (simp add: polar_setc_def angle_def Let_def)

lemma toComplex_toPolar [simp]: "toComplex (toPolar c) = c"
  by (cases c) (simp add: toPolar_angle toComplex_def cos_angle sin_angle)

lemma toComplex_polar_setc [simp]: "toComplex (polar_setc p x y) = mkC x y"
  by (simp add: polar_setc_angle toComplex_def cos_angle sin_angle)

text \<open>Angles in the same turn with the same cosine and sine are equal.\<close>

lemma angle_unique:
  assumes "0 \<le> s" "s < 2 * pi" "0 \<le> t" "t < 2 * pi" "cos s = cos t" "sin s = sin t"
  shows "s = t"
proof -
  have "cos (s - t) = 1" using assms(5,6) sin_cos_squared_add3 [of t] by (simp add: cos_diff)
  then obtain n :: int where n: "s - t = of_int n * 2 * pi" by (metis cos_one_2pi_int)
  then have "\<bar>real_of_int n * 2 * pi\<bar> < 2 * pi" using assms by linarith
  then have "\<bar>real_of_int n\<bar> < 1" by (simp add: abs_mult)
  then have "n = 0" by linarith
  with n show ?thesis by simp
qed

section \<open>The interface of a position\<close>

text \<open>What the layouts and animations rely on, whatever the class of a position.\<close>

locale position =
  fixes getc' :: "'p \<Rightarrow> cpx"
    and getp' :: "'p \<Rightarrow> polar"
    and setc' :: "'p \<Rightarrow> real \<Rightarrow> real \<Rightarrow> 'p"
    and setp' :: "'p \<Rightarrow> real \<Rightarrow> real \<Rightarrow> 'p"
    and set' :: "'p \<Rightarrow> pos \<Rightarrow> 'p"
    and clone' :: "'p \<Rightarrow> 'p"
  assumes getc_setc: "getc' (setc' p x y) = mkC x y"
    and getc_setp: "getc' (setp' p t r) = mkC (cos t * r) (sin t * r)"
    and getc_set: "getc' (set' p v) = getc v"
    and getp_getc: "toComplex (getp' p) = getc' p"
    and clone_id: "clone' p = p"
begin

text \<open>Writing the coordinates a position reads leaves the place where it is.\<close>

lemma setc_getc: "getc' (setc' p (c_x (getc' p)) (c_y (getc' p))) = getc' p"
  by (simp add: getc_setc)

lemma setp_getp: "getc' (setp' q (p_theta (getp' p)) (p_rho (getp' p))) = getc' p"
  using getp_getc [of p] by (simp add: getc_setp toComplex_def)

lemma getp_setc: "toComplex (getp' (setc' p x y)) = mkC x y"
  by (simp add: getp_getc getc_setc)

lemma set_set: "getc' (set' (set' p u) v) = getc' (set' p v)"
  by (simp add: getc_set)

end

interpretation polar_position: position polar_getc polar_getp polar_setc polar_setp polar_set polar_clone
proof
  fix p :: polar and v
  have "polar_set p v = getp v" by (cases p) (simp add: polar_set_def Let_def)
  then show "polar_getc (polar_set p v) = getc v"
    by (cases v) (simp_all add: polar_getc_def polar_getp_def complex_getc_def complex_getp_def)
qed (simp_all add: polar_getc_def polar_setp_def polar_getp_def polar_clone_def toComplex_def
    polar_setc_angle cos_angle sin_angle)

interpretation complex_position:
  position complex_getc complex_getp complex_setc complex_setp complex_set complex_clone
  by unfold_locales
    (simp_all add: complex_getc_def complex_setc_def complex_setp_def complex_set_def complex_getp_def
      complex_clone_def Let_def)

interpretation node_position: position getc getp setc setp set_pos clone
proof
  fix p :: pos and x y t r :: real and v
  show "getc (setc p x y) = mkC x y"
    by (cases p) (simp_all add: polar_position.getc_setc complex_position.getc_setc)
  show "getc (setp p t r) = mkC (cos t * r) (sin t * r)"
    by (cases p) (simp_all add: polar_position.getc_setp complex_position.getc_setp)
  show "getc (set_pos p v) = getc v"
    by (cases p) (simp_all add: polar_position.getc_set complex_position.getc_set)
  show "toComplex (getp p) = getc p"
    by (cases p) (simp_all add: polar_position.getp_getc complex_position.getp_getc)
  show "clone p = p"
    by (cases p) (simp_all add: polar_position.clone_id complex_position.clone_id)
qed

section \<open>Complex coordinates refine the complex numbers\<close>

definition to_C :: "cpx \<Rightarrow> complex" where
  "to_C c = Complex (c_x c) (c_y c)"

lemma to_C_inject [simp]: "to_C c = to_C d \<longleftrightarrow> c = d"
  by (cases c, cases d) (simp add: to_C_def)

lemma to_C_add: "to_C (complex_add c d) = to_C c + to_C d" "to_C (complex_m_add c d) = to_C c + to_C d"
  by (simp_all add: to_C_def geometry_simps complex_eq_iff)

lemma to_C_prod: "to_C (prod c d) = to_C c * to_C d" "to_C (complex_m_prod c d) = to_C c * to_C d"
  by (simp_all add: to_C_def geometry_simps complex_eq_iff Let_def)

lemma to_C_conjugate: "to_C (conjugate c) = cnj (to_C c)" "to_C (complex_m_conjugate c) = cnj (to_C c)"
  by (simp_all add: to_C_def geometry_simps complex_eq_iff)

lemma to_C_scale:
  "to_C (complex_scale c r) = r *\<^sub>R to_C c" "to_C (complex_m_scale c r) = r *\<^sub>R to_C c"
  by (simp_all add: to_C_def geometry_simps complex_eq_iff)

lemma to_C_norm: "norm c = cmod (to_C c)"
  by (simp add: to_C_def norm_def squaredNorm_def cmod_def power2_eq_square)

lemma to_C_div: "to_C (complex_m_div c d) = to_C c / to_C d"
  by (simp add: to_C_def geometry_simps complex_eq_iff Let_def Re_divide Im_divide power2_eq_square)

lemma to_C_KER: "to_C Complex_KER = 0"
  by (simp add: to_C_def Complex_KER_def complex_eq_iff)

lemmas to_C_simps = to_C_add to_C_prod to_C_conjugate to_C_scale to_C_norm to_C_div to_C_KER

lemma to_C_moebius:
  "to_C (fst (moebiusTransformation z c)) = (to_C z + to_C c) / (1 + cnj (to_C c) * to_C z)"
proof -
  have "to_C (d\<lparr>c_x := c_x d + 1\<rparr>) = 1 + to_C d" for d by (simp add: to_C_def complex_eq_iff)
  then show ?thesis by (simp add: moebiusTransformation_def Let_def to_C_simps)
qed

lemma moebius_denominator: "1 + cnj c * z \<noteq> 0" if "cmod c < 1" "cmod z < 1" for c z :: complex
proof
  assume "1 + cnj c * z = 0"
  then have "cmod (cnj c * z) = 1" by (metis add.inverse_inverse minus_unique norm_minus_cancel norm_one)
  moreover have "cmod (cnj c * z) < 1"
    using that mult_strict_mono' [of "cmod c" 1 "cmod z" 1] by (simp add: norm_mult)
  ultimately show False by simp
qed

lemma moebius_disc:
  fixes c z :: complex
  assumes "cmod c < 1" "cmod z < 1"
  shows "cmod ((z + c) / (1 + cnj c * z)) < 1"
proof -
  have "(1 - (cmod c)\<^sup>2) * (1 - (cmod z)\<^sup>2) = (cmod (1 + cnj c * z))\<^sup>2 - (cmod (z + c))\<^sup>2"
    unfolding cmod_power2 by (simp add: algebra_simps power2_eq_square)
  moreover have "0 < (1 - (cmod c)\<^sup>2) * (1 - (cmod z)\<^sup>2)"
    using assms by (intro mult_pos_pos) (simp_all add: abs_square_less_1)
  ultimately have "(cmod (z + c))\<^sup>2 < (cmod (1 + cnj c * z))\<^sup>2" by simp
  then have "cmod (z + c) < cmod (1 + cnj c * z)" by (rule power_less_imp_less_base) simp
  then show ?thesis by (simp add: norm_divide divide_less_eq_1)
qed

lemma moebius_inverse:
  fixes c z :: complex
  assumes "cmod c < 1" "cmod z < 1"
  shows "((z + c) / (1 + cnj c * z) - c) / (1 - cnj c * ((z + c) / (1 + cnj c * z))) = z"
proof -
  let ?d = "1 + cnj c * z"
  have d: "?d \<noteq> 0" using assms by (rule moebius_denominator)
  have k: "1 - cnj c * c \<noteq> 0"
    using moebius_denominator [of c "- c"] assms by simp
  have "(z + c) / ?d - c = z * (1 - cnj c * c) / ?d"
    "1 - cnj c * ((z + c) / ?d) = (1 - cnj c * c) / ?d"
    using d by (simp_all add: field_simps)
  then show ?thesis using d k by simp
qed

section \<open>Interpolation of angles\<close>

lemma js_mod_bounds:
  assumes "0 < m"
  shows "0 \<le> x \<Longrightarrow> 0 \<le> js_mod x m \<and> js_mod x m < m"
    and "x < 0 \<Longrightarrow> - m < js_mod x m \<and> js_mod x m \<le> 0"
proof -
  have eq: "js_mod x m = m * (x / m - of_int (js_trunc (x / m)))"
    using assms by (simp add: js_mod_def right_diff_distrib)
  show "0 \<le> js_mod x m \<and> js_mod x m < m" if "0 \<le> x"
  proof -
    have "0 \<le> x / m" using that assms by simp
    then have "js_trunc (x / m) = \<lfloor>x / m\<rfloor>" by (simp add: js_trunc_def)
    then have "0 \<le> x / m - of_int (js_trunc (x / m))" "x / m - of_int (js_trunc (x / m)) < 1"
      by linarith+
    then show ?thesis using assms by (simp add: eq)
  qed
  show "- m < js_mod x m \<and> js_mod x m \<le> 0" if "x < 0"
  proof -
    have "x / m < 0" using that assms by (simp add: divide_neg_pos)
    then have "js_trunc (x / m) = \<lceil>x / m\<rceil>" by (simp add: js_trunc_def)
    then have "-1 < x / m - of_int (js_trunc (x / m))" "x / m - of_int (js_trunc (x / m)) \<le> 0"
      by linarith+
    then show ?thesis
      using assms mult_strict_left_mono [of "-1" "x / m - of_int (js_trunc (x / m))" m]
      by (simp add: eq mult_nonneg_nonpos)
  qed
qed

lemma interpolate_ch_bounds: "0 \<le> interpolate_ch t \<and> interpolate_ch t \<le> 2 * pi"
  using js_mod_bounds [of "pi * 2" t] pi_gt_zero by (auto simp: interpolate_ch_def not_less)

lemma interpolate_ch_turns: "\<exists>k :: int. interpolate_ch t = t + 2 * pi * of_int k"
proof -
  have "interpolate_ch t = t + 2 * pi * of_int (if t < 0 then 1 - js_trunc (t / (pi * 2)) else - js_trunc (t / (pi * 2)))"
    by (simp add: interpolate_ch_def js_mod_def algebra_simps)
  then show ?thesis by blast
qed

text \<open>The angle the interpolation moves by: the shortest way around the circle.\<close>

lemma interpolate_arc:
  assumes "\<bar>p_theta p - p_theta e\<bar> \<le> 2 * pi"
  obtains s and k :: int where "\<bar>s\<bar> \<le> pi" "s = p_theta p - p_theta e + 2 * pi * of_int k"
    "\<And>d. \<exists>j :: int. p_theta (polar_interpolate p e d) = p_theta e + s * d + 2 * pi * of_int j"
proof -
  let ?tt = "p_theta p" and ?et = "p_theta e"
  have turn: "\<exists>j :: int. interpolate_ch (u + 2 * pi * of_int i) = u + 2 * pi * of_int j" for u and i :: int
  proof -
    obtain k :: int where "interpolate_ch (u + 2 * pi * of_int i) = u + 2 * pi * of_int i + 2 * pi * of_int k"
      using interpolate_ch_turns by blast
    then have "interpolate_ch (u + 2 * pi * of_int i) = u + 2 * pi * of_int (i + k)"
      by (simp add: algebra_simps)
    then show ?thesis by blast
  qed
  consider (down) "pi \<le> \<bar>?tt - ?et\<bar>" "?tt > ?et" | (half) "\<bar>?tt - ?et\<bar> = pi" "?tt \<le> ?et"
    | (up) "pi < \<bar>?tt - ?et\<bar>" "?tt \<le> ?et" | (near) "\<bar>?tt - ?et\<bar> < pi" by linarith
  then show ?thesis
  proof cases
    case down
    then have "p_theta (polar_interpolate p e d) = interpolate_ch (?et + (?tt - pi * 2 - ?et) * d)" for d
      by (simp add: polar_interpolate_def Let_def)
    with turn [of "?et + (?tt - pi * 2 - ?et) * _" 0]
    show ?thesis using down assms by (intro that [of "?tt - pi * 2 - ?et" "-1"]) auto
  next
    case half
    then have "p_theta (polar_interpolate p e d) = interpolate_ch (?et + (?tt - ?et) * d + 2 * pi * of_int (-1))" for d
      by (simp add: polar_interpolate_def Let_def algebra_simps)
    with turn [of "?et + (?tt - ?et) * _" "-1"]
    show ?thesis using half by (intro that [of "?tt - ?et" 0]) auto
  next
    case up
    then have "p_theta (polar_interpolate p e d)
        = interpolate_ch (?et + (?tt - (?et - pi * 2)) * d + 2 * pi * of_int (-1))" for d
      by (simp add: polar_interpolate_def Let_def algebra_simps)
    with turn [of "?et + (?tt - (?et - pi * 2)) * _" "-1"]
    show ?thesis using up assms by (intro that [of "?tt - (?et - pi * 2)" 1]) auto
  next
    case near
    then have "p_theta (polar_interpolate p e d) = interpolate_ch (?et + (?tt - ?et) * d)" for d
      by (simp add: polar_interpolate_def Let_def)
    with turn [of "?et + (?tt - ?et) * _" 0] show ?thesis
      using near by (intro that [of "?tt - ?et" 0]) auto
  qed
qed

lemma interpolate_rho: "p_rho (polar_interpolate p e d) = (p_rho p - p_rho e) * d + p_rho e"
  by (simp add: polar_interpolate_def Let_def)

lemma convex_between:
  fixes a b d :: real
  assumes "0 \<le> d" "d \<le> 1"
  shows "min a b \<le> (a - b) * d + b \<and> (a - b) * d + b \<le> max a b"
proof -
  have "(a - b) * d + b = d * a + (1 - d) * b" by (simp add: algebra_simps)
  moreover have "d * min a b + (1 - d) * min a b \<le> d * a + (1 - d) * b"
    using assms by (intro add_mono mult_left_mono) auto
  moreover have "d * a + (1 - d) * b \<le> d * max a b + (1 - d) * max a b"
    using assms by (intro add_mono mult_left_mono) auto
  ultimately show ?thesis by (simp add: algebra_simps)
qed

lemma squaredNorm_toComplex: "squaredNorm (toComplex p) = (p_rho p)\<^sup>2"
proof -
  have "squaredNorm (toComplex p)
      = (p_rho p)\<^sup>2 * ((cos (p_theta p))\<^sup>2 + (sin (p_theta p))\<^sup>2)"
    unfolding distrib_left by (simp add: squaredNorm_def toComplex_def power2_eq_square)
  then show ?thesis by simp
qed

lemma toComplex_eqD:
  "toComplex q = toComplex p \<Longrightarrow>
   cos (p_theta q) * p_rho q = cos (p_theta p) * p_rho p \<and> sin (p_theta q) * p_rho q = sin (p_theta p) * p_rho p"
  by (simp add: toComplex_def)

section \<open>Properties\<close>

text \<open>
  The two coordinate classes convert into each other without loss: a complex position
  converted to polar and back is the same, and so is a polar position with an angle within
  one turn and a positive radius; the polar angle stays within one turn.
\<close>

lemma coordinates_roundtrip:
  assumes "0 \<le> p_theta p" and "p_theta p < 2 * pi" and "0 < p_rho p"
  shows "toComplex (toPolar c) = c \<and> toPolar (toComplex p) = p
    \<and> 0 \<le> p_theta (toPolar c) \<and> p_theta (toPolar c) < 2 * pi"
proof -
  have in_turn: "0 \<le> p_theta (toPolar u) \<and> p_theta (toPolar u) < 2 * pi" for u
    using angle_bounds by (simp add: toPolar_angle)
  obtain q where q: "q = toPolar (toComplex p)" by simp
  have rho: "p_rho q = p_rho p"
    unfolding q using assms(3) by (simp add: toPolar_def norm_def Let_def squaredNorm_toComplex)
  have eq: "toComplex q = toComplex p" unfolding q by simp
  have "cos (p_theta q) = cos (p_theta p)" "sin (p_theta q) = sin (p_theta p)"
    using toComplex_eqD [OF eq] assms(3) rho by auto
  moreover have "0 \<le> p_theta q" "p_theta q < 2 * pi" unfolding q using in_turn by auto
  ultimately have "p_theta q = p_theta p" using assms(1,2) by (metis angle_unique)
  with rho have "q = p" by (intro polar.equality) simp_all
  with q in_turn show ?thesis by (metis toComplex_toPolar)
qed

text \<open>
  C32: interpolating between two polar positions whose angles lie within one turn goes along
  the shorter arc: the angle starts at the angle of the second, moves linearly by at most half
  a turn and ends at the angle of the first, up to full turns; the result is an angle within
  one turn, and the radius stays between the two radii.
\<close>

theorem interpolate_shortest_arc:
  assumes "\<bar>p_theta p - p_theta e\<bar> \<le> 2 * pi" and "0 \<le> d" and "d \<le> 1"
  shows "\<exists>s (k :: int) (j :: int). \<bar>s\<bar> \<le> pi \<and> s = p_theta p - p_theta e + 2 * pi * of_int k
    \<and> p_theta (polar_interpolate p e d) = p_theta e + s * d + 2 * pi * of_int j
    \<and> 0 \<le> p_theta (polar_interpolate p e d) \<and> p_theta (polar_interpolate p e d) \<le> 2 * pi
    \<and> min (p_rho p) (p_rho e) \<le> p_rho (polar_interpolate p e d)
    \<and> p_rho (polar_interpolate p e d) \<le> max (p_rho p) (p_rho e)"
proof (rule interpolate_arc [OF assms(1)])
  fix s and k :: int
  assume s: "\<bar>s\<bar> \<le> pi" "s = p_theta p - p_theta e + 2 * pi * of_int k"
    and "\<And>d. \<exists>j :: int. p_theta (polar_interpolate p e d) = p_theta e + s * d + 2 * pi * of_int j"
  then obtain j :: int where j: "p_theta (polar_interpolate p e d) = p_theta e + s * d + 2 * pi * of_int j"
    by blast
  have range: "0 \<le> p_theta (polar_interpolate p e d) \<and> p_theta (polar_interpolate p e d) \<le> 2 * pi"
    using interpolate_ch_bounds by (auto simp: polar_interpolate_def Let_def)
  show ?thesis
    using s j range convex_between [OF assms(2,3)] by (intro exI [of _ s] exI [of _ k] exI [of _ j])
      (simp add: interpolate_rho)
qed

theorem interpolate_shortest_arc_witness:
  "\<exists>s :: real. \<bar>s\<bar> \<le> pi \<and> min 1 3 \<le> p_rho (polar_interpolate (mkP (3 * pi / 2) 1) (mkP 0 3) (1 / 2))"
proof -
  have "\<bar>p_theta (mkP (3 * pi / 2) 1) - p_theta (mkP 0 3)\<bar> \<le> 2 * pi" by simp
  from interpolate_shortest_arc [OF this, of "1 / 2"] show ?thesis by auto
qed

text \<open>
  C34: the transformation of the hyperbolic layout keeps every point of the unit disc in the
  disc, moves the point it is centred on to the origin, and is undone by the transformation
  with the opposite centre.
\<close>

theorem moebius_disc_automorphism:
  assumes "squaredNorm c < 1" and "squaredNorm z < 1"
  shows "squaredNorm (fst (moebiusTransformation z c)) < 1
    \<and> fst (moebiusTransformation c (complex_scale c (-1))) = Complex_KER
    \<and> fst (moebiusTransformation (fst (moebiusTransformation z c)) (complex_scale c (-1))) = z"
proof -
  have sq: "squaredNorm u < 1 \<longleftrightarrow> cmod (to_C u) < 1" for u
    by (metis norm_def real_sqrt_lt_1_iff to_C_norm)
  have c: "cmod (to_C c) < 1" and z: "cmod (to_C z) < 1" using assms by (simp_all add: sq)
  have "to_C (fst (moebiusTransformation c (complex_scale c (-1)))) = to_C Complex_KER"
    by (simp add: to_C_moebius to_C_simps)
  moreover have "to_C (fst (moebiusTransformation (fst (moebiusTransformation z c)) (complex_scale c (-1)))) = to_C z"
    using moebius_inverse [OF c z] by (simp add: to_C_moebius to_C_simps)
  ultimately show ?thesis
    unfolding to_C_inject using moebius_disc [OF c z] by (simp add: sq to_C_moebius)
qed

theorem moebius_disc_automorphism_witness:
  "squaredNorm (fst (moebiusTransformation (mkC (1 / 2) 0) (mkC 0 (1 / 2)))) < 1"
  using moebius_disc_automorphism [of "mkC 0 (1 / 2)" "mkC (1 / 2) 0"] by (simp add: squaredNorm_def)

end
