(* ===== verification/Jit_Helpers.thy ===== *)
theory Jit_Helpers
  imports Jit_Geometry
begin

text \<open>
  The drawing helpers of the graph library (\<^verbatim>\<open>rfweb/js/jit/jit.js\<close>, \<^verbatim>\<open>NodeHelper\<close> and
  \<^verbatim>\<open>EdgeHelper\<close>): for each shape what it draws, as the list of calls on the drawing context,
  and which points it contains. The interface \<open>hit_area\<close> states what a containment test
  promises to the event handlers that look for the node under the mouse; the shapes interpret
  it. The lemmas on edges show that the points of a segment are found, that the head of an
  arrow is symmetric, and that the arc of a hyperbolic edge passes through both its ends.
\<close>

section \<open>The calls on the drawing context\<close>

datatype ctx_cmd =
    BeginPath
  | ClosePath
  | MoveTo real real
  | LineTo real real
  | Arc real real real real real bool
  | Save
  | Restore
  | CtxScale real real
  | CtxTranslate real real
  | CtxRotate real
  | Paint string
  | PaintRect string real real real real
  | FillText string real real
  | DrawImage string "real list"
  | SetProp string jsval

section \<open>Node shapes\<close>

definition none_render :: "ctx_cmd list" where
  "none_render = []"

definition none_contains :: "cpx \<Rightarrow> cpx \<Rightarrow> bool" where
  "none_contains npos pos = False"

definition circle_render :: "string \<Rightarrow> cpx \<Rightarrow> real \<Rightarrow> ctx_cmd list" where
  "circle_render type pos radius =
     [BeginPath, Arc (c_x pos) (c_y pos) radius 0 (pi * 2) True, ClosePath, Paint type]"

definition circle_contains :: "cpx \<Rightarrow> cpx \<Rightarrow> real \<Rightarrow> bool" where
  "circle_contains npos pos radius \<longleftrightarrow>
     (let diffx = c_x npos - c_x pos; diffy = c_y npos - c_y pos;
          diff = diffx * diffx + diffy * diffy
      in diff \<le> radius * radius)"

definition ellipse_render :: "string \<Rightarrow> cpx \<Rightarrow> real \<Rightarrow> real \<Rightarrow> ctx_cmd list" where
  "ellipse_render type pos width height =
     (let height = height / 2; width = width / 2
      in [Save, CtxScale (width / height) (height / width), BeginPath,
          Arc (c_x pos * (height / width)) (c_y pos * (width / height)) height 0 (pi * 2) True,
          ClosePath, Paint type, Restore])"

definition ellipse_contains :: "cpx \<Rightarrow> cpx \<Rightarrow> real \<Rightarrow> real \<Rightarrow> bool" where
  "ellipse_contains npos pos width height \<longleftrightarrow>
     (let width = width / 2; height = height / 2;
          dist = (width + height) / 2;
          diffx = c_x npos - c_x pos; diffy = c_y npos - c_y pos;
          diff = diffx * diffx + diffy * diffy
      in diff \<le> dist * dist)"

definition square_render :: "string \<Rightarrow> cpx \<Rightarrow> real \<Rightarrow> ctx_cmd list" where
  "square_render type pos dimen = [PaintRect (type @ ''Rect'') (c_x pos - dimen) (c_y pos - dimen) (2 * dimen) (2 * dimen)]"

definition square_contains :: "cpx \<Rightarrow> cpx \<Rightarrow> real \<Rightarrow> bool" where
  "square_contains npos pos dimen \<longleftrightarrow> \<bar>c_x pos - c_x npos\<bar> \<le> dimen \<and> \<bar>c_y pos - c_y npos\<bar> \<le> dimen"

definition rectangle_render :: "string \<Rightarrow> cpx \<Rightarrow> real \<Rightarrow> real \<Rightarrow> ctx_cmd list" where
  "rectangle_render type pos width height =
     [PaintRect (type @ ''Rect'') (c_x pos - width / 2) (c_y pos - height / 2) width height]"

definition rectangle_contains :: "cpx \<Rightarrow> cpx \<Rightarrow> real \<Rightarrow> real \<Rightarrow> bool" where
  "rectangle_contains npos pos width height \<longleftrightarrow>
     \<bar>c_x pos - c_x npos\<bar> \<le> width / 2 \<and> \<bar>c_y pos - c_y npos\<bar> \<le> height / 2"

definition triangle_render :: "string \<Rightarrow> cpx \<Rightarrow> real \<Rightarrow> ctx_cmd list" where
  "triangle_render type pos dimen =
     (let c1x = c_x pos; c1y = c_y pos - dimen; c2x = c1x - dimen; c2y = c_y pos + dimen;
          c3x = c1x + dimen; c3y = c2y
      in [BeginPath, MoveTo c1x c1y, LineTo c2x c2y, LineTo c3x c3y, ClosePath, Paint type])"

definition triangle_contains :: "cpx \<Rightarrow> cpx \<Rightarrow> real \<Rightarrow> bool" where
  "triangle_contains npos pos dimen = circle_contains npos pos dimen"

definition star_render :: "string \<Rightarrow> cpx \<Rightarrow> real \<Rightarrow> ctx_cmd list" where
  "star_render type pos dimen =
     (let pi5 = pi / 5
      in [Save, CtxTranslate (c_x pos) (c_y pos), BeginPath, MoveTo dimen 0]
         @ concat (map (\<lambda>i. [CtxRotate pi5,
                             if i mod 2 = 0 then LineTo ((dimen / (525731 / 1000000)) * (200811 / 1000000)) 0
                             else LineTo dimen 0]) [0..<9])
         @ [ClosePath, Paint type, Restore])"

definition star_contains :: "cpx \<Rightarrow> cpx \<Rightarrow> real \<Rightarrow> bool" where
  "star_contains npos pos dimen = circle_contains npos pos dimen"

section \<open>Edge shapes\<close>

definition line_render :: "cpx \<Rightarrow> cpx \<Rightarrow> ctx_cmd list" where
  "line_render from to = [BeginPath, MoveTo (c_x from) (c_y from), LineTo (c_x to) (c_y to), Paint ''stroke'']"

definition line_contains :: "cpx \<Rightarrow> cpx \<Rightarrow> cpx \<Rightarrow> real \<Rightarrow> bool" where
  "line_contains posFrom posTo pos epsilon \<longleftrightarrow>
     (let minPosX = min (c_x posFrom) (c_x posTo); maxPosX = max (c_x posFrom) (c_x posTo);
          minPosY = min (c_y posFrom) (c_y posTo); maxPosY = max (c_y posFrom) (c_y posTo)
      in if c_x pos \<ge> minPosX \<and> c_x pos \<le> maxPosX \<and> c_y pos \<ge> minPosY \<and> c_y pos \<le> maxPosY then
           if \<bar>c_x posTo - c_x posFrom\<bar> \<le> epsilon then True
           else
             (let dist = (c_y posTo - c_y posFrom) / (c_x posTo - c_x posFrom) * (c_x pos - c_x posFrom)
                         + c_y posFrom
              in \<bar>dist - c_y pos\<bar> \<le> epsilon)
         else False)"

text \<open>The corners of the head of an arrow, the base first.\<close>

definition arrow_head :: "cpx \<Rightarrow> cpx \<Rightarrow> real \<Rightarrow> cpx \<times> cpx" where
  "arrow_head from to dimen =
     (let vect = mkC (c_x to - c_x from) (c_y to - c_y from);
          vect = complex_m_scale vect (dimen / norm vect);
          intermediatePoint = mkC (c_x to - c_x vect) (c_y to - c_y vect);
          normal = mkC (- c_y vect / 2) (c_x vect / 2);
          v1 = complex_add intermediatePoint normal;
          v2 = complex_m_add intermediatePoint (complex_m_scale normal (-1))
      in (v1, v2))"

definition arrow_render :: "cpx \<Rightarrow> cpx \<Rightarrow> real \<Rightarrow> bool \<Rightarrow> ctx_cmd list" where
  "arrow_render from to dimen swap =
     (let (from, to) = (if swap then (to, from) else (from, to));
          (v1, v2) = arrow_head from to dimen
      in [BeginPath, MoveTo (c_x from) (c_y from), LineTo (c_x to) (c_y to), Paint ''stroke'',
          BeginPath, MoveTo (c_x v1) (c_y v1), LineTo (c_x v2) (c_y v2), LineTo (c_x to) (c_y to),
          ClosePath, Paint ''fill''])"

definition arrow_contains :: "cpx \<Rightarrow> cpx \<Rightarrow> cpx \<Rightarrow> real \<Rightarrow> bool" where
  "arrow_contains posFrom posTo pos epsilon = line_contains posFrom posTo pos epsilon"

text \<open>The circle through two points; the coefficients are missing in the degenerate cases.\<close>

record arc_circle =
  ac_x :: real
  ac_y :: real
  ac_ratio :: real
  ac_a :: "real option"
  ac_b :: "real option"

definition computeArcThroughTwoPoints :: "cpx \<Rightarrow> cpx \<Rightarrow> arc_circle" where
  "computeArcThroughTwoPoints p1 p2 =
     (let aDen = c_x p1 * c_y p2 - c_y p1 * c_x p2; bDen = aDen;
          sq1 = squaredNorm p1; sq2 = squaredNorm p2
      in if aDen = 0 then \<lparr>ac_x = 0, ac_y = 0, ac_ratio = -1, ac_a = None, ac_b = None\<rparr>
         else
           (let a = (c_y p1 * sq2 - c_y p2 * sq1 + c_y p1 - c_y p2) / aDen;
                b = (c_x p2 * sq1 - c_x p1 * sq2 + c_x p2 - c_x p1) / bDen;
                x = - a / 2; y = - b / 2;
                squaredRatio = (a * a + b * b) / 4 - 1
            in if squaredRatio < 0
               then \<lparr>ac_x = 0, ac_y = 0, ac_ratio = -1, ac_a = None, ac_b = None\<rparr>
               else
                 (let ratio = sqrt squaredRatio
                  in \<lparr>ac_x = x, ac_y = y, ac_ratio = (if ratio > 1000 then -1 else ratio),
                      ac_a = Some a, ac_b = Some b\<rparr>)))"

definition sense :: "real \<Rightarrow> real \<Rightarrow> bool" where
  "sense angleBegin angleEnd =
     (if angleBegin < angleEnd then (if angleBegin + pi > angleEnd then False else True)
      else (if angleEnd + pi > angleBegin then True else False))"

text \<open>The comparison of a missing coefficient with a number is false.\<close>

definition hyperline_render :: "cpx \<Rightarrow> cpx \<Rightarrow> real \<Rightarrow> ctx_cmd list" where
  "hyperline_render from to r =
     (let centerOfCircle = computeArcThroughTwoPoints from to;
          above = (\<lambda>v. case v of None \<Rightarrow> False | Some q \<Rightarrow> q > 1000)
      in if above (ac_a centerOfCircle) \<or> above (ac_b centerOfCircle) \<or> ac_ratio centerOfCircle < 0
         then [BeginPath, MoveTo (c_x from * r) (c_y from * r), LineTo (c_x to * r) (c_y to * r),
               Paint ''stroke'']
         else
           (let angleBegin = atan2 (c_y to - ac_y centerOfCircle) (c_x to - ac_x centerOfCircle);
                angleEnd = atan2 (c_y from - ac_y centerOfCircle) (c_x from - ac_x centerOfCircle);
                sense = sense angleBegin angleEnd
            in [BeginPath,
                Arc (ac_x centerOfCircle * r) (ac_y centerOfCircle * r) (ac_ratio centerOfCircle * r)
                  angleBegin angleEnd sense,
                Paint ''stroke'']))"

definition hyperline_contains :: "cpx \<Rightarrow> cpx \<Rightarrow> bool" where
  "hyperline_contains npos pos = False"

section \<open>The interface of a containment test\<close>

text \<open>
  A test with the size of the shape filled in, and the radius of a disc the shape fits in: it
  finds the centre, does not depend on where the shape is, and finds nothing outside the disc.
\<close>

locale hit_area =
  fixes contains :: "cpx \<Rightarrow> cpx \<Rightarrow> bool" and radius :: real
  assumes centre: "contains p p"
    and shifted: "contains (complex_add p v) (complex_add q v) \<longleftrightarrow> contains p q"
    and bounded: "contains p q \<Longrightarrow> norm (mkC (c_x p - c_x q) (c_y p - c_y q)) \<le> radius"
begin

lemma radius_nonneg: "0 \<le> radius"
  using bounded [OF centre, of Complex_KER] by (simp add: norm_def squaredNorm_def)

text \<open>Two shapes whose centres are further apart than both radii share no point.\<close>

lemma disjoint:
  assumes "contains p q" and "contains p' q"
  shows "norm (mkC (c_x p - c_x p') (c_y p - c_y p')) \<le> 2 * radius"
proof -
  let ?u = "mkC (c_x p - c_x q) (c_y p - c_y q)" and ?v = "mkC (c_x p' - c_x q) (c_y p' - c_y q)"
  have "to_C (mkC (c_x p - c_x p') (c_y p - c_y p')) = to_C ?u - to_C ?v"
    by (simp add: to_C_def complex_eq_iff)
  then have "norm (mkC (c_x p - c_x p') (c_y p - c_y p')) \<le> norm ?u + norm ?v"
    unfolding to_C_norm using norm_triangle_ineq4 [of "to_C ?u" "to_C ?v"] by simp
  then show ?thesis using bounded [OF assms(1)] bounded [OF assms(2)] by simp
qed

end

lemma circle_contains_norm:
  "0 \<le> r \<Longrightarrow> circle_contains p q r \<longleftrightarrow> norm (mkC (c_x p - c_x q) (c_y p - c_y q)) \<le> r"
  using real_sqrt_le_iff [of _ "r * r"]
  by (simp add: circle_contains_def norm_def squaredNorm_def Let_def)

lemma circle_hit_area: "0 \<le> r \<Longrightarrow> hit_area (\<lambda>p q. circle_contains p q r) r"
  by unfold_locales
    (simp_all add: circle_contains_norm complex_add_def norm_def squaredNorm_def)

interpretation circle_area: hit_area "\<lambda>p q. circle_contains p q \<bar>r\<bar>" "\<bar>r\<bar>" for r
  by (rule circle_hit_area) simp

interpretation triangle_area: hit_area "\<lambda>p q. triangle_contains p q \<bar>r\<bar>" "\<bar>r\<bar>" for r
  using circle_area.hit_area_axioms by (simp add: triangle_contains_def)

interpretation star_area: hit_area "\<lambda>p q. star_contains p q \<bar>r\<bar>" "\<bar>r\<bar>" for r
  using circle_area.hit_area_axioms by (simp add: star_contains_def)

interpretation ellipse_area:
  hit_area "\<lambda>p q. ellipse_contains p q w h" "\<bar>(w / 2 + h / 2) / 2\<bar>" for w h
proof -
  have "ellipse_contains p q w h = circle_contains p q \<bar>(w / 2 + h / 2) / 2\<bar>" for p q
    by (simp add: ellipse_contains_def circle_contains_def Let_def)
  then show "hit_area (\<lambda>p q. ellipse_contains p q w h) \<bar>(w / 2 + h / 2) / 2\<bar>"
    using circle_area.hit_area_axioms [of "(w / 2 + h / 2) / 2"] by simp
qed

lemma box_norm:
  assumes "\<bar>x\<bar> \<le> a" and "\<bar>y\<bar> \<le> b"
  shows "norm (mkC x y) \<le> sqrt (a * a + b * b)"
proof -
  have "x * x \<le> a * a" "y * y \<le> b * b"
    using assms abs_le_square_iff [of x a] abs_le_square_iff [of y b]
    by (simp_all add: power2_eq_square)
  then show ?thesis by (simp add: norm_def squaredNorm_def)
qed

text \<open>A box around the centre fits in the disc through its corners.\<close>

lemma box_hit_area:
  assumes "0 \<le> a" and "0 \<le> b"
  shows "hit_area (\<lambda>p q. \<bar>c_x q - c_x p\<bar> \<le> a \<and> \<bar>c_y q - c_y p\<bar> \<le> b) (sqrt (a * a + b * b))"
proof
  fix p q
  assume "\<bar>c_x q - c_x p\<bar> \<le> a \<and> \<bar>c_y q - c_y p\<bar> \<le> b"
  then show "norm (mkC (c_x p - c_x q) (c_y p - c_y q)) \<le> sqrt (a * a + b * b)"
    by (intro box_norm) (simp_all only: abs_minus_commute [of "c_x p"] abs_minus_commute [of "c_y p"])
qed (use assms in \<open>simp_all add: complex_add_def\<close>)

interpretation square_area: hit_area "\<lambda>p q. square_contains p q \<bar>d\<bar>" "sqrt (\<bar>d\<bar> * \<bar>d\<bar> + \<bar>d\<bar> * \<bar>d\<bar>)" for d
  unfolding square_contains_def by (rule box_hit_area) simp_all

interpretation rectangle_area:
  hit_area "\<lambda>p q. rectangle_contains p q \<bar>w\<bar> \<bar>h\<bar>" "sqrt (\<bar>w\<bar> / 2 * (\<bar>w\<bar> / 2) + \<bar>h\<bar> / 2 * (\<bar>h\<bar> / 2))" for w h
  unfolding rectangle_contains_def by (rule box_hit_area) simp_all

section \<open>Lemmas on edges\<close>

lemma segment_between:
  fixes a b t :: real
  assumes "0 \<le> t" and "t \<le> 1"
  shows "min a b \<le> a + t * (b - a) \<and> a + t * (b - a) \<le> max a b"
  using convex_between [OF assms, of b a] by (simp add: mult.commute min.commute max.commute add.commute)

lemma norm_C_scale: "norm (mkC x y) \<noteq> 0 \<Longrightarrow>
  norm (complex_m_scale (mkC x y) (d / norm (mkC x y))) = \<bar>d\<bar>"
  unfolding to_C_norm to_C_scale by simp

section \<open>Properties\<close>

text \<open>
  The test of a line finds every point of the segment between its ends, and a point it
  finds lies in the box of the two ends and, unless the line is almost vertical, within the
  tolerance of the line.
\<close>

lemma line_contains_segment:
  assumes "0 \<le> epsilon" and "0 \<le> t" and "t \<le> 1"
  shows "line_contains p q (mkC (c_x p + t * (c_x q - c_x p)) (c_y p + t * (c_y q - c_y p))) epsilon
    \<and> (line_contains p q r epsilon \<and> epsilon < \<bar>c_x q - c_x p\<bar> \<longrightarrow>
        (\<exists>s. 0 \<le> s \<and> s \<le> 1 \<and> c_x r = c_x p + s * (c_x q - c_x p)
          \<and> \<bar>c_y r - (c_y p + s * (c_y q - c_y p))\<bar> \<le> epsilon))"
proof (intro conjI impI)
  let ?x = "c_x q - c_x p" and ?y = "c_y q - c_y p"
  show "line_contains p q (mkC (c_x p + t * ?x) (c_y p + t * ?y)) epsilon"
    using assms segment_between [OF assms(2,3), of "c_x p" "c_x q"]
      segment_between [OF assms(2,3), of "c_y p" "c_y q"]
    by (auto simp: line_contains_def Let_def)
  assume *: "line_contains p q r epsilon \<and> epsilon < \<bar>?x\<bar>"
  then have r: "min (c_x p) (c_x q) \<le> c_x r" "c_x r \<le> max (c_x p) (c_x q)"
    "\<bar>?y / ?x * (c_x r - c_x p) + c_y p - c_y r\<bar> \<le> epsilon"
    by (auto simp: line_contains_def Let_def split: if_splits)
  from * assms(1) have x: "?x \<noteq> 0" by auto
  let ?s = "(c_x r - c_x p) / ?x"
  have "0 \<le> ?s \<and> ?s \<le> 1" using r(1,2) x
    by (cases "0 < ?x") (auto simp: min_def max_def divide_simps split: if_splits)
  moreover have "c_x r = c_x p + ?s * ?x" using x by simp
  moreover have "\<bar>c_y r - (c_y p + ?s * ?y)\<bar> \<le> epsilon" using r(3) by (simp add: abs_minus_commute mult.commute)
  ultimately show "\<exists>s. 0 \<le> s \<and> s \<le> 1 \<and> c_x r = c_x p + s * ?x \<and> \<bar>c_y r - (c_y p + s * ?y)\<bar> \<le> epsilon"
    by blast
qed

text \<open>
  The head of an arrow between two different points is a symmetric triangle: both corners
  of its base are equally far from the tip, their middle lies on the line to the tip at the
  distance given as its size, and the base is as wide as the head is long.
\<close>

lemma arrow_head_symmetric:
  assumes "p \<noteq> q" and "arrow_head p q d = (v1, v2)"
  shows "squaredNorm (mkC (c_x v1 - c_x q) (c_y v1 - c_y q)) = squaredNorm (mkC (c_x v2 - c_x q) (c_y v2 - c_y q))
    \<and> norm (mkC (c_x q - (c_x v1 + c_x v2) / 2) (c_y q - (c_y v1 + c_y v2) / 2)) = \<bar>d\<bar>
    \<and> norm (mkC (c_x v1 - c_x v2) (c_y v1 - c_y v2)) = \<bar>d\<bar>"
proof -
  obtain u where u: "u = complex_m_scale (mkC (c_x q - c_x p) (c_y q - c_y p)) (d / norm (mkC (c_x q - c_x p) (c_y q - c_y p)))"
    by simp
  have "mkC (c_x q - c_x p) (c_y q - c_y p) \<noteq> mkC 0 0" using assms(1) by (cases p, cases q) auto
  then have "norm (mkC (c_x q - c_x p) (c_y q - c_y p)) \<noteq> 0"
    by (simp add: norm_def squaredNorm_def sum_squares_eq_zero_iff)
  then have n: "norm u = \<bar>d\<bar>" unfolding u by (rule norm_C_scale)
  have v: "v1 = mkC (c_x q - c_x u - c_y u / 2) (c_y q - c_y u + c_x u / 2)"
    "v2 = mkC (c_x q - c_x u + c_y u / 2) (c_y q - c_y u - c_x u / 2)"
    using assms(2) unfolding u [symmetric] arrow_head_def Let_def by (auto simp: geometry_simps)
  have "mkC (c_x q - (c_x v1 + c_x v2) / 2) (c_y q - (c_y v1 + c_y v2) / 2) = u"
    by (cases u) (simp add: v field_simps)
  moreover have "norm (mkC (c_x v1 - c_x v2) (c_y v1 - c_y v2)) = norm u"
    by (simp add: v norm_def squaredNorm_def add.commute)
  moreover have "squaredNorm (mkC (c_x v1 - c_x q) (c_y v1 - c_y q)) = squaredNorm (mkC (c_x v2 - c_x q) (c_y v2 - c_y q))"
    by (simp add: v squaredNorm_def algebra_simps)
  ultimately show ?thesis using n by simp
qed

text \<open>
  When an arc is drawn for a hyperbolic edge, its circle passes through both ends of the
  edge and meets the unit circle at a right angle, so the arc is the hyperbolic line through
  the two points.
\<close>

lemma arc_through_two_points:
  assumes "0 \<le> ac_ratio (computeArcThroughTwoPoints p1 p2)"
  shows "(c_x p1 - ac_x (computeArcThroughTwoPoints p1 p2))\<^sup>2 + (c_y p1 - ac_y (computeArcThroughTwoPoints p1 p2))\<^sup>2
      = (ac_ratio (computeArcThroughTwoPoints p1 p2))\<^sup>2
    \<and> (c_x p2 - ac_x (computeArcThroughTwoPoints p1 p2))\<^sup>2 + (c_y p2 - ac_y (computeArcThroughTwoPoints p1 p2))\<^sup>2
      = (ac_ratio (computeArcThroughTwoPoints p1 p2))\<^sup>2
    \<and> (ac_x (computeArcThroughTwoPoints p1 p2))\<^sup>2 + (ac_y (computeArcThroughTwoPoints p1 p2))\<^sup>2
      = 1 + (ac_ratio (computeArcThroughTwoPoints p1 p2))\<^sup>2"
proof -
  obtain x1 y1 x2 y2 where p: "p1 = mkC x1 y1" "p2 = mkC x2 y2" by (cases p1, cases p2) auto
  let ?D = "x1 * y2 - y1 * x2" and ?s1 = "x1 * x1 + y1 * y1" and ?s2 = "x2 * x2 + y2 * y2"
  let ?A = "(y1 * ?s2 - y2 * ?s1 + y1 - y2)" and ?B = "(x2 * ?s1 - x1 * ?s2 + x2 - x1)"
  define a where "a = ?A / ?D"
  define b where "b = ?B / ?D"
  let ?q = "(a * a + b * b) / 4 - 1"
  have D: "?D \<noteq> 0" and q: "0 \<le> ?q" "sqrt ?q \<le> 1000"
    and c: "computeArcThroughTwoPoints p1 p2
      = \<lparr>ac_x = - a / 2, ac_y = - b / 2, ac_ratio = sqrt ?q, ac_a = Some a, ac_b = Some b\<rparr>"
    using assms unfolding computeArcThroughTwoPoints_def p Let_def a_def b_def squaredNorm_def
    by (auto split: if_splits)
  have "a * ?D = ?A" "b * ?D = ?B" using D by (simp_all add: a_def b_def)
  then have "(x1 * x1 + y1 * y1 + a * x1 + b * y1 + 1) * ?D = 0"
    "(x2 * x2 + y2 * y2 + a * x2 + b * y2 + 1) * ?D = 0"
    by algebra+
  with D have on: "x1 * x1 + y1 * y1 + a * x1 + b * y1 + 1 = 0" "x2 * x2 + y2 * y2 + a * x2 + b * y2 + 1 = 0"
    by simp_all
  have "(x1 + a / 2)\<^sup>2 + (y1 + b / 2)\<^sup>2 = ?q" "(x2 + a / 2)\<^sup>2 + (y2 + b / 2)\<^sup>2 = ?q"
    using on by (simp_all add: power2_eq_square algebra_simps)
  then show ?thesis using q(1) unfolding c by (simp add: p power2_eq_square)
qed

end
