(* ===== verification/Jit_Graph.thy ===== *)
theory Jit_Graph
  imports Jit_Core Jit_Geometry
begin

text \<open>
  The graph of the library (\<^verbatim>\<open>rfweb/js/jit/jit.js\<close>, \<^verbatim>\<open>Graph\<close>, \<^verbatim>\<open>Graph.Node\<close>,
  \<^verbatim>\<open>Graph.Adjacence\<close> and their data accessors). A graph keeps its nodes and its adjacencies
  by identifier. An adjacence object is shared by its two directions, and traversals turn it
  around in place, so adjacencies are kept in a store and the two directions hold the same
  reference; \<^verbatim>\<open>node.adjacencies\<close> is the object \<^verbatim>\<open>edges[id]\<close> itself and is read there. A node
  object is reached through its identifier: removing a node removes all its adjacencies, so
  no reference to a removed node object is left (\<open>wf_graph\<close>).

  The lemmas show that every operation keeps the graph well formed and implements the
  operation of the same name on abstract undirected graphs, a set of vertices and a set of
  edges. The interface \<open>data_store\<close> states the laws of the accessors; the three families of
  accessors interpret it.
\<close>

named_theorems graph_simps \<open>reading the parts of an updated graph\<close>

section \<open>Data of nodes and adjacencies\<close>

record datastore =
  ds_data :: props
  ds_startData :: props
  ds_endData :: props

text \<open>The data object a type names; another type names none.\<close>

definition data_of_type :: "datastore \<Rightarrow> string \<Rightarrow> props option" where
  "data_of_type s type =
     (if type = ''current'' then Some (ds_data s)
      else if type = ''start'' then Some (ds_startData s)
      else if type = ''end'' then Some (ds_endData s)
      else None)"

definition type_or_current :: "string \<Rightarrow> string" where
  "type_or_current type = (if type = [] then ''current'' else type)"

definition data_key :: "string \<Rightarrow> string \<Rightarrow> string" where
  "data_key prefix prop = ''$'' @ (if prefix = [] then [] else prefix @ ''-'') @ prop"

text \<open>
  Reading a property: \<open>None\<close> stands for the exception raised when the type names no data
  object. The configuration of the object says whether its data may override it.
\<close>

definition getDataInternal ::
  "props \<Rightarrow> datastore \<Rightarrow> string \<Rightarrow> string \<Rightarrow> string \<Rightarrow> bool \<Rightarrow> props \<Rightarrow> jsval option" where
  "getDataInternal Config s prefix prop type force prefixConfig =
     (let data = data_of_type s (type_or_current type);
          dollar = data_key prefix prop;
          default = js_or (prop_of prefixConfig prop) (JNum 0)
      in if force then map_option (\<lambda>d. prop_of d dollar) data
         else if \<not> truthy (prop_of Config ''overridable'') then Some default
         else (case data of
                 None \<Rightarrow> None
               | Some d \<Rightarrow>
                   Some (if dollar \<in> set (map fst d) then prop_of d dollar
                         else if dollar \<in> set (map fst (ds_data s)) then prop_of (ds_data s) dollar
                         else default)))"

definition setDataInternal ::
  "datastore \<Rightarrow> string \<Rightarrow> string \<Rightarrow> jsval \<Rightarrow> string \<Rightarrow> datastore option" where
  "setDataInternal s prefix prop value type =
     (let type = type_or_current type; key = data_key prefix prop
      in if type = ''current'' then Some (s\<lparr>ds_data := AList.update key value (ds_data s)\<rparr>)
         else if type = ''start'' then Some (s\<lparr>ds_startData := AList.update key value (ds_startData s)\<rparr>)
         else if type = ''end'' then Some (s\<lparr>ds_endData := AList.update key value (ds_endData s)\<rparr>)
         else None)"

definition removeDataInternal :: "datastore \<Rightarrow> string \<Rightarrow> string list \<Rightarrow> datastore" where
  "removeDataInternal s prefix properties =
     foldl (\<lambda>s prop. let pref = data_key prefix prop
              in s\<lparr>ds_data := AList.delete pref (ds_data s), ds_endData := AList.delete pref (ds_endData s),
                   ds_startData := AList.delete pref (ds_startData s)\<rparr>) s properties"

text \<open>
  The accessors a node or an adjacence has, given its configuration. The array forms set the
  values in order; a value list shorter than the list of types gives undefined values.
\<close>

definition getData :: "props \<Rightarrow> datastore \<Rightarrow> string \<Rightarrow> string \<Rightarrow> bool \<Rightarrow> jsval option" where
  "getData Config s prop type force = getDataInternal Config s [] prop type force Config"

definition setData :: "datastore \<Rightarrow> string \<Rightarrow> jsval \<Rightarrow> string \<Rightarrow> datastore option" where
  "setData s prop value type = setDataInternal s [] prop value type"

definition set_all ::
  "(datastore \<Rightarrow> string \<Rightarrow> jsval \<Rightarrow> string \<Rightarrow> datastore option) \<Rightarrow> datastore \<Rightarrow> string list \<Rightarrow> props
    \<Rightarrow> datastore option" where
  "set_all setter s types obj =
     foldl (\<lambda>acc (attr, v).
        let val = splat v
        in foldl (\<lambda>acc (i, type).
             case acc of None \<Rightarrow> None
             | Some s \<Rightarrow> setter s attr (if i < length val then val ! i else JUndefined) type)
           acc (enumerate 0 types)) (Some s) obj"

definition setDataset :: "datastore \<Rightarrow> string list \<Rightarrow> props \<Rightarrow> datastore option" where
  "setDataset s types obj = set_all setData s types obj"

definition removeData :: "datastore \<Rightarrow> string list \<Rightarrow> datastore" where
  "removeData s properties = removeDataInternal s [] properties"

definition getCanvasStyle :: "props \<Rightarrow> datastore \<Rightarrow> string \<Rightarrow> string \<Rightarrow> bool \<Rightarrow> jsval option" where
  "getCanvasStyle Config s prop type force =
     getDataInternal Config s ''canvas'' prop type force (obj_props (prop_of Config ''CanvasStyles''))"

definition setCanvasStyle :: "datastore \<Rightarrow> string \<Rightarrow> jsval \<Rightarrow> string \<Rightarrow> datastore option" where
  "setCanvasStyle s prop value type = setDataInternal s ''canvas'' prop value type"

definition setCanvasStyles :: "datastore \<Rightarrow> string list \<Rightarrow> props \<Rightarrow> datastore option" where
  "setCanvasStyles s types obj = set_all setCanvasStyle s types obj"

definition removeCanvasStyle :: "datastore \<Rightarrow> string list \<Rightarrow> datastore" where
  "removeCanvasStyle s properties = removeDataInternal s ''canvas'' properties"

definition getLabelData :: "props \<Rightarrow> props \<Rightarrow> datastore \<Rightarrow> string \<Rightarrow> string \<Rightarrow> bool \<Rightarrow> jsval option" where
  "getLabelData Config Label s prop type force =
     getDataInternal Config s ''label'' prop type force Label"

definition setLabelData :: "datastore \<Rightarrow> string \<Rightarrow> jsval \<Rightarrow> string \<Rightarrow> datastore option" where
  "setLabelData s prop value type = setDataInternal s ''label'' prop value type"

definition setLabelDataset :: "datastore \<Rightarrow> string list \<Rightarrow> props \<Rightarrow> datastore option" where
  "setLabelDataset s types obj = set_all setLabelData s types obj"

definition removeLabelData :: "datastore \<Rightarrow> string list \<Rightarrow> datastore" where
  "removeLabelData s properties = removeDataInternal s ''label'' properties"

section \<open>Nodes, adjacencies and graphs\<close>

type_synonym id = string

text \<open>
  A node: \<open>n_flag\<close> and \<open>n_depth\<close> are the properties \<^verbatim>\<open>_flag\<close> and \<^verbatim>\<open>_depth\<close> the traversals set,
  undefined before the first one; \<open>n_ext\<close> holds the properties the visualizations add.
\<close>

record gnode =
  n_id :: id
  n_name :: string
  n_store :: datastore
  n_selected :: bool
  n_drawn :: bool
  n_exist :: bool
  n_ignore :: bool
  n_angleSpan :: "real \<times> real"
  n_pos :: pos
  n_startPos :: pos
  n_endPos :: pos
  n_flag :: "bool option"
  n_depth :: "int option"
  n_ext :: props

record adjacence =
  a_nodeFrom :: id
  a_nodeTo :: id
  a_store :: datastore
  a_ext :: props

record graph_opt =
  go_complex :: bool
  go_Node :: props

record graph =
  g_opt :: graph_opt
  g_Node :: props
  g_Edge :: props
  g_Label :: props
  g_nodes :: "gnode obj"
  g_edges :: "nat obj obj"
  g_adjs :: "adjacence list"

text \<open>The object a node is added from.\<close>

record node_spec =
  s_id :: id
  s_name :: string
  s_data :: props

definition initialize :: "graph_opt \<Rightarrow> props \<Rightarrow> props \<Rightarrow> props \<Rightarrow> graph" where
  "initialize opt Node Edge Label =
     \<lparr>g_opt = opt, g_Node = Node, g_Edge = Edge, g_Label = Label, g_nodes = [], g_edges = [], g_adjs = []\<rparr>"

text \<open>Setting a property of a node by name, as \<^verbatim>\<open>$.extend\<close> does with the node options.\<close>

definition node_set_prop :: "string \<Rightarrow> jsval \<Rightarrow> gnode \<Rightarrow> gnode" where
  "node_set_prop key v n =
     (if key = ''selected'' then n\<lparr>n_selected := truthy v\<rparr>
      else if key = ''drawn'' then n\<lparr>n_drawn := truthy v\<rparr>
      else if key = ''exist'' then n\<lparr>n_exist := truthy v\<rparr>
      else if key = ''ignore'' then n\<lparr>n_ignore := truthy v\<rparr>
      else n\<lparr>n_ext := AList.update key v (n_ext n)\<rparr>)"

definition node_initialize :: "graph_opt \<Rightarrow> node_spec \<Rightarrow> gnode" where
  "node_initialize opt obj =
     (let zero = (if go_complex opt then PosC (mkC 0 0) else PosP (mkP 0 0));
          inner = \<lparr>n_id = s_id obj, n_name = s_name obj,
             n_store = \<lparr>ds_data = merge [JObj (s_data obj), JObj []], ds_startData = [], ds_endData = []\<rparr>,
             n_selected = False, n_drawn = False, n_exist = False, n_ignore = False,
             n_angleSpan = (0, 0), n_pos = zero, n_startPos = zero, n_endPos = zero,
             n_flag = None, n_depth = None, n_ext = []\<rparr>
      in foldl (\<lambda>n (key, v). node_set_prop key v n) inner (go_Node opt))"

definition adjacence_initialize :: "id \<Rightarrow> id \<Rightarrow> props \<Rightarrow> adjacence" where
  "adjacence_initialize nodeFrom nodeTo data =
     \<lparr>a_nodeFrom = nodeFrom, a_nodeTo = nodeTo,
      a_store = \<lparr>ds_data = data, ds_startData = [], ds_endData = []\<rparr>, a_ext = []\<rparr>"

definition hasNode :: "graph \<Rightarrow> id \<Rightarrow> bool" where
  "hasNode g nid \<longleftrightarrow> nid \<in> set (map fst (g_nodes g))"

definition getNode :: "graph \<Rightarrow> id \<Rightarrow> gnode option" where
  "getNode g nid = map_of (g_nodes g) nid"

definition getByName :: "graph \<Rightarrow> string \<Rightarrow> gnode option" where
  "getByName g name = find (\<lambda>n. n_name n = name) (map snd (g_nodes g))"

definition adjacencies :: "graph \<Rightarrow> id \<Rightarrow> nat obj" where
  "adjacencies g nid = (case map_of (g_edges g) nid of None \<Rightarrow> [] | Some es \<Rightarrow> es)"

definition getAdjacence :: "graph \<Rightarrow> id \<Rightarrow> id \<Rightarrow> nat option" where
  "getAdjacence g nid id2 = map_of (adjacencies g nid) id2"

definition adjacentTo :: "graph \<Rightarrow> id \<Rightarrow> id \<Rightarrow> bool" where
  "adjacentTo g node id2 \<longleftrightarrow> id2 \<in> set (map fst (adjacencies g node))"

definition getAdjacency :: "graph \<Rightarrow> id \<Rightarrow> id \<Rightarrow> nat option" where
  "getAdjacency g node id2 = map_of (adjacencies g node) id2"

definition addNode :: "node_spec \<Rightarrow> graph \<Rightarrow> graph" where
  "addNode obj g =
     (if hasNode g (s_id obj) then g
      else g\<lparr>g_edges := AList.update (s_id obj) [] (g_edges g),
             g_nodes := AList.update (s_id obj) (node_initialize (g_opt g) obj) (g_nodes g)\<rparr>)"

definition set_adj :: "id \<Rightarrow> id \<Rightarrow> nat \<Rightarrow> graph \<Rightarrow> graph" where
  "set_adj a b r g = g\<lparr>g_edges := AList.update a (AList.update b r (adjacencies g a)) (g_edges g)\<rparr>"

text \<open>Adding an adjacence returns the reference of the adjacence between the two nodes.\<close>

definition addAdjacence :: "node_spec \<Rightarrow> node_spec \<Rightarrow> props \<Rightarrow> graph \<Rightarrow> graph \<times> nat option" where
  "addAdjacence obj obj2 data g =
     (let g = (if hasNode g (s_id obj) then g else addNode obj g);
          g = (if hasNode g (s_id obj2) then g else addNode obj2 g);
          a = s_id obj; b = s_id obj2
      in if \<not> adjacentTo g a b then
           (let r = length (g_adjs g);
                g = g\<lparr>g_adjs := g_adjs g @ [adjacence_initialize a b data]\<rparr>;
                g = set_adj a b r (set_adj b a r g)
            in (g, getAdjacence g a b))
         else (g, getAdjacence g a b))"

definition del_adj :: "id \<Rightarrow> id \<Rightarrow> graph \<Rightarrow> graph" where
  "del_adj a b g =
     (case map_of (g_edges g) a of
        None \<Rightarrow> g
      | Some es \<Rightarrow> g\<lparr>g_edges := AList.update a (AList.delete b es) (g_edges g)\<rparr>)"

definition removeNode :: "id \<Rightarrow> graph \<Rightarrow> graph" where
  "removeNode nid g =
     (if hasNode g nid then
        (let g = g\<lparr>g_nodes := AList.delete nid (g_nodes g)\<rparr>;
             adjs = adjacencies g nid;
             g = foldl (\<lambda>g to. del_adj to nid g) g (map fst adjs)
         in g\<lparr>g_edges := AList.delete nid (g_edges g)\<rparr>)
      else g)"

text \<open>Removing an adjacence of an unknown node raises an exception.\<close>

definition removeAdjacence :: "id \<Rightarrow> id \<Rightarrow> graph \<Rightarrow> graph option" where
  "removeAdjacence id1 id2 g =
     (if id1 \<in> set (map fst (g_edges g)) \<and> id2 \<in> set (map fst (g_edges g))
      then Some (del_adj id2 id1 (del_adj id1 id2 g))
      else None)"

definition empty :: "graph \<Rightarrow> graph" where
  "empty g = g\<lparr>g_nodes := [], g_edges := []\<rparr>"

text \<open>The position of a node by type; another type names none.\<close>

definition node_getPos :: "gnode \<Rightarrow> string \<Rightarrow> pos option" where
  "node_getPos n type =
     (let type = type_or_current type
      in if type = ''current'' then Some (n_pos n)
         else if type = ''end'' then Some (n_endPos n)
         else if type = ''start'' then Some (n_startPos n)
         else None)"

definition node_setPos :: "pos \<Rightarrow> string \<Rightarrow> gnode \<Rightarrow> gnode option" where
  "node_setPos value type n =
     (let type = type_or_current type
      in if type = ''current'' then Some (n\<lparr>n_pos := set_pos (n_pos n) value\<rparr>)
         else if type = ''end'' then Some (n\<lparr>n_endPos := set_pos (n_endPos n) value\<rparr>)
         else if type = ''start'' then Some (n\<lparr>n_startPos := set_pos (n_startPos n) value\<rparr>)
         else None)"

text \<open>Updating a node, if it is there.\<close>

definition upd_node :: "id \<Rightarrow> (gnode \<Rightarrow> gnode) \<Rightarrow> graph \<Rightarrow> graph" where
  "upd_node nid f g = g\<lparr>g_nodes := map (\<lambda>(k, n). (k, if k = nid then f n else n)) (g_nodes g)\<rparr>"

section \<open>Well-formed graphs\<close>

text \<open>
  Every node has its entry of adjacencies and is stored under its identifier; an adjacence
  joins the two nodes it is stored under, and is the same object in both directions.
\<close>

definition adj_ok :: "graph \<Rightarrow> id \<Rightarrow> id \<Rightarrow> nat \<Rightarrow> bool" where
  "adj_ok g a b r \<longleftrightarrow>
     r < length (g_adjs g) \<and> getAdjacence g b a = Some r \<and> hasNode g b
     \<and> (a_nodeFrom (g_adjs g ! r) = a \<and> a_nodeTo (g_adjs g ! r) = b
        \<or> a_nodeFrom (g_adjs g ! r) = b \<and> a_nodeTo (g_adjs g ! r) = a)"

definition wf_graph :: "graph \<Rightarrow> bool" where
  "wf_graph g \<longleftrightarrow>
     distinct (map fst (g_nodes g)) \<and> distinct (map fst (g_edges g))
     \<and> set (map fst (g_edges g)) = set (map fst (g_nodes g))
     \<and> list_all (\<lambda>(k, n). n_id n = k) (g_nodes g)
     \<and> list_all (\<lambda>(a, es). distinct (map fst es) \<and> list_all (\<lambda>(b, r). adj_ok g a b r) es) (g_edges g)"

section \<open>Lemmas on lookups\<close>

lemma map_of_in_keys: "map_of al k = Some v \<Longrightarrow> k \<in> set (map fst al)"
  by (induction al) (auto split: if_splits)

lemma keys_map_of: "k \<in> set (map fst al) \<longleftrightarrow> map_of al k \<noteq> None"
  by (simp add: map_of_eq_None_iff)

lemma getAdjacence_edges:
  "getAdjacence g a b = (case map_of (g_edges g) a of None \<Rightarrow> None | Some es \<Rightarrow> map_of es b)"
  by (simp add: getAdjacence_def adjacencies_def split: option.splits)

lemma adjacencies_set_adj [graph_simps]:
  "adjacencies (set_adj a b r g) x = (if x = a then AList.update b r (adjacencies g a) else adjacencies g x)"
  by (simp add: adjacencies_def set_adj_def update_conv')

lemma getAdjacence_set_adj [graph_simps]:
  "getAdjacence (set_adj a b r g) x y = (if x = a \<and> y = b then Some r else getAdjacence g x y)"
  by (simp add: getAdjacence_def adjacencies_set_adj update_conv')

lemma adjacencies_del_adj [graph_simps]:
  "adjacencies (del_adj a b g) x = (if x = a then AList.delete b (adjacencies g a) else adjacencies g x)"
  by (auto simp: adjacencies_def del_adj_def update_conv' split: option.splits)

lemma getAdjacence_del_adj [graph_simps]:
  "getAdjacence (del_adj a b g) x y = (if x = a \<and> y = b then None else getAdjacence g x y)"
  by (simp add: getAdjacence_def adjacencies_del_adj delete_conv')

lemma set_adj_parts [graph_simps, simp]:
  "g_nodes (set_adj a b r g) = g_nodes g" "g_adjs (set_adj a b r g) = g_adjs g"
  "hasNode (set_adj a b r g) x = hasNode g x"
  by (simp_all add: set_adj_def hasNode_def)

lemma del_adj_parts [graph_simps, simp]:
  "g_nodes (del_adj a b g) = g_nodes g" "g_adjs (del_adj a b g) = g_adjs g"
  "hasNode (del_adj a b g) x = hasNode g x"
  by (simp_all add: del_adj_def hasNode_def split: option.splits)

lemma keys_set_adj [graph_simps]: "set (map fst (g_edges (set_adj a b r g))) = insert a (set (map fst (g_edges g)))"
  by (simp add: set_adj_def)

lemma keys_del_adj [graph_simps]: "map fst (g_edges (del_adj a b g)) = map fst (g_edges g)"
  using map_of_in_keys by (force simp: del_adj_def update_keys split: option.splits)

lemma distinct_set_adj [graph_simps]:
  "distinct (map fst (g_edges g)) \<Longrightarrow> distinct (map fst (g_edges (set_adj a b r g)))"
  by (simp add: set_adj_def distinct_update)

text \<open>Well-formedness in terms of lookups.\<close>

lemma wf_graph_iff:
  "wf_graph g \<longleftrightarrow>
     distinct (map fst (g_nodes g)) \<and> distinct (map fst (g_edges g))
     \<and> set (map fst (g_edges g)) = set (map fst (g_nodes g))
     \<and> (\<forall>k n. getNode g k = Some n \<longrightarrow> n_id n = k)
     \<and> (\<forall>a. distinct (map fst (adjacencies g a)))
     \<and> (\<forall>a b r. getAdjacence g a b = Some r \<longrightarrow> adj_ok g a b r)"
proof (cases "distinct (map fst (g_nodes g)) \<and> distinct (map fst (g_edges g))")
  case True
  have nodes: "list_all (\<lambda>(k, n). n_id n = k) (g_nodes g) \<longleftrightarrow> (\<forall>k n. getNode g k = Some n \<longrightarrow> n_id n = k)"
    using True by (auto simp: list_all_iff getNode_def)
  have edges: "list_all (\<lambda>(a, es). P a es) (g_edges g) \<longleftrightarrow> (\<forall>a es. map_of (g_edges g) a = Some es \<longrightarrow> P a es)" for P
    using True by (auto simp: list_all_iff)
  have "(\<forall>a es. map_of (g_edges g) a = Some es \<longrightarrow> distinct (map fst es) \<and> list_all (\<lambda>(b, r). adj_ok g a b r) es)
    \<longleftrightarrow> (\<forall>a. distinct (map fst (adjacencies g a))) \<and> (\<forall>a b r. getAdjacence g a b = Some r \<longrightarrow> adj_ok g a b r)"
    by (force simp: adjacencies_def getAdjacence_edges list_all_iff split: option.splits)
  then show ?thesis using True nodes by (simp add: wf_graph_def edges)
qed (auto simp: wf_graph_def)

lemma wf_adj_ok: "wf_graph g \<Longrightarrow> getAdjacence g a b = Some r \<Longrightarrow> adj_ok g a b r"
  by (simp add: wf_graph_iff)

lemma wf_adj_sym: "wf_graph g \<Longrightarrow> getAdjacence g a b = getAdjacence g b a"
  by (metis adj_ok_def not_None_eq wf_adj_ok)

lemma wf_hasNode: "wf_graph g \<Longrightarrow> getAdjacence g a b = Some r \<Longrightarrow> hasNode g a \<and> hasNode g b"
  by (metis adj_ok_def wf_adj_ok)

lemma wf_edges_keys: "wf_graph g \<Longrightarrow> x \<in> set (map fst (g_edges g)) \<longleftrightarrow> hasNode g x"
  by (simp add: wf_graph_def hasNode_def)

lemma hasNode_getNode: "hasNode g x \<longleftrightarrow> getNode g x \<noteq> None"
  unfolding hasNode_def getNode_def by (rule keys_map_of)

section \<open>Every operation keeps the graph well formed\<close>

lemma node_set_prop_id [simp]: "n_id (node_set_prop k v n) = n_id n"
  by (simp add: node_set_prop_def)

lemma foldl_node_set_prop_id [simp]: "n_id (foldl (\<lambda>n (k, v). node_set_prop k v n) n ps) = n_id n"
  by (induction ps arbitrary: n) auto

lemma node_initialize_id [simp]: "n_id (node_initialize opt obj) = s_id obj"
  by (simp add: node_initialize_def Let_def)

lemma wf_initialize: "wf_graph (initialize opt Node Edge Label)"
  by (simp add: wf_graph_def initialize_def)

lemma wf_empty: "wf_graph (empty g)"
  by (simp add: wf_graph_def empty_def)

lemma addNode_lookups:
  assumes "wf_graph g" and "\<not> hasNode g (s_id obj)"
  shows "getAdjacence (addNode obj g) a b = getAdjacence g a b"
    and "adjacencies (addNode obj g) a = adjacencies g a"
    and "getNode (addNode obj g) a = (if a = s_id obj then Some (node_initialize (g_opt g) obj) else getNode g a)"
    and "hasNode (addNode obj g) a \<longleftrightarrow> a = s_id obj \<or> hasNode g a"
    and "g_adjs (addNode obj g) = g_adjs g"
proof -
  have "map_of (g_edges g) (s_id obj) = None"
    using assms wf_edges_keys by (metis keys_map_of)
  then show "adjacencies (addNode obj g) a = adjacencies g a" for a
    using assms(2) by (simp add: adjacencies_def addNode_def update_conv')
  then show "getAdjacence (addNode obj g) a b = getAdjacence g a b" by (simp add: getAdjacence_def)
qed (use assms(2) in \<open>auto simp: addNode_def getNode_def hasNode_def update_conv' simp flip: keys_map_of\<close>)

lemma wf_addNode:
  assumes wf: "wf_graph g"
  shows "wf_graph (addNode obj g)"
proof (cases "hasNode g (s_id obj)")
  case False
  note lookups = addNode_lookups [OF wf False]
  show ?thesis
    unfolding wf_graph_iff
  proof (intro conjI allI impI)
    show "distinct (map fst (g_nodes (addNode obj g)))" "distinct (map fst (g_edges (addNode obj g)))"
      "set (map fst (g_edges (addNode obj g))) = set (map fst (g_nodes (addNode obj g)))"
      using wf False by (simp_all add: addNode_def distinct_update wf_graph_def)
    show "n_id n = k" if "getNode (addNode obj g) k = Some n" for k n
      using that wf by (auto simp: lookups(3) wf_graph_iff split: if_splits)
    show "distinct (map fst (adjacencies (addNode obj g) a))" for a
      using wf by (simp only: lookups(2) wf_graph_iff)
    show "adj_ok (addNode obj g) a b r" if "getAdjacence (addNode obj g) a b = Some r" for a b r
    proof -
      have "adj_ok g a b r" using that wf by (intro wf_adj_ok) (simp_all only: lookups(1))
      then show ?thesis unfolding adj_ok_def lookups(1,4,5) by blast
    qed
  qed
qed (use wf in \<open>simp add: addNode_def\<close>)

text \<open>Linking two nodes that are not linked yet by a new adjacence.\<close>

definition link :: "id \<Rightarrow> id \<Rightarrow> props \<Rightarrow> graph \<Rightarrow> graph" where
  "link a b data g =
     set_adj a b (length (g_adjs g)) (set_adj b a (length (g_adjs g))
       (g\<lparr>g_adjs := g_adjs g @ [adjacence_initialize a b data]\<rparr>))"

lemma adjacencies_adjs [simp]: "adjacencies (g\<lparr>g_adjs := as\<rparr>) x = adjacencies g x"
  by (simp add: adjacencies_def)

lemma adjacencies_nodes [simp]: "adjacencies (g\<lparr>g_nodes := ns\<rparr>) x = adjacencies g x"
  by (simp add: adjacencies_def)

lemma getAdjacence_adjs [simp]: "getAdjacence (g\<lparr>g_adjs := as\<rparr>) x y = getAdjacence g x y"
  by (simp add: getAdjacence_def)

lemma hasNode_adjs [simp]: "hasNode (g\<lparr>g_adjs := as\<rparr>) x = hasNode g x"
  by (simp add: hasNode_def)

lemma link_lookups:
  "getAdjacence (link a b data g) x y =
     (if (x = a \<and> y = b) \<or> (x = b \<and> y = a) then Some (length (g_adjs g)) else getAdjacence g x y)"
  "g_adjs (link a b data g) = g_adjs g @ [adjacence_initialize a b data]"
  "hasNode (link a b data g) x = hasNode g x"
  "g_nodes (link a b data g) = g_nodes g"
  subgoal unfolding link_def getAdjacence_set_adj getAdjacence_adjs by argo
  by (simp_all add: link_def)

lemma wf_link:
  assumes wf: "wf_graph g" and "hasNode g a" and "hasNode g b"
  shows "wf_graph (link a b data g)"
  unfolding wf_graph_iff
proof (intro conjI allI impI)
  show "distinct (map fst (g_nodes (link a b data g)))" "distinct (map fst (g_edges (link a b data g)))"
    using wf by (simp_all add: link_def distinct_set_adj wf_graph_def)
  show "set (map fst (g_edges (link a b data g))) = set (map fst (g_nodes (link a b data g)))"
    using assms by (auto simp: link_def set_adj_def wf_graph_def hasNode_def)
  show "n_id n = k" if "getNode (link a b data g) k = Some n" for k n
    using that wf by (simp add: wf_graph_iff getNode_def link_lookups)
  show "distinct (map fst (adjacencies (link a b data g) x))" for x
    using wf by (simp add: link_def adjacencies_set_adj distinct_update wf_graph_iff)
  show "adj_ok (link a b data g) x y r" if "getAdjacence (link a b data g) x y = Some r" for x y r
  proof (cases "(x = a \<and> y = b) \<or> (x = b \<and> y = a)")
    case True
    then have "r = length (g_adjs g)" "getAdjacence (link a b data g) y x = Some (length (g_adjs g))"
      using that unfolding link_lookups(1) by (metis option.inject, metis)
    then show ?thesis using True assms(2,3)
      unfolding adj_ok_def link_lookups(2,3)
      by (auto simp: adjacence_initialize_def)
  next
    case False
    then have new: "getAdjacence (link a b data g) x y = getAdjacence g x y"
      "getAdjacence (link a b data g) y x = getAdjacence g y x"
      unfolding link_lookups(1) by argo+
    then have "adj_ok g x y r" using that wf by (metis wf_adj_ok)
    then show ?thesis unfolding adj_ok_def new link_lookups(2,3) by (simp add: nth_append)
  qed
qed

lemma addNode_hasNode: "hasNode g (s_id obj) \<Longrightarrow> addNode obj g = g"
  by (simp add: addNode_def)

lemma hasNode_addNode [simp]: "hasNode (addNode obj g) x \<longleftrightarrow> x = s_id obj \<or> hasNode g x"
  by (auto simp: addNode_def hasNode_def)

lemma getAdjacence_addNode: "wf_graph g \<Longrightarrow> getAdjacence (addNode obj g) a b = getAdjacence g a b"
  by (cases "hasNode g (s_id obj)") (simp_all add: addNode_hasNode addNode_lookups)

lemma adjacentTo_iff: "adjacentTo g a b \<longleftrightarrow> getAdjacence g a b \<noteq> None"
  unfolding adjacentTo_def getAdjacence_def by (rule keys_map_of)

lemma addAdjacence_link:
  "fst (addAdjacence obj obj2 data g) =
     (let g1 = addNode obj2 (addNode obj g)
      in if getAdjacence g1 (s_id obj) (s_id obj2) = None then link (s_id obj) (s_id obj2) data g1 else g1)"
proof -
  have [simp]: "(if hasNode g (s_id ob) then g else addNode ob g) = addNode ob g" for ob and g :: graph
    by (simp add: addNode_def)
  show ?thesis by (simp add: addAdjacence_def adjacentTo_iff link_def Let_def)
qed

lemma addAdjacence_snd:
  "snd (addAdjacence obj obj2 data g) = getAdjacence (fst (addAdjacence obj obj2 data g)) (s_id obj) (s_id obj2)"
  by (simp add: addAdjacence_def Let_def)

lemma wf_addAdjacence: "wf_graph g \<Longrightarrow> wf_graph (fst (addAdjacence obj obj2 data g))"
  by (simp add: addAdjacence_link Let_def wf_addNode wf_link)

lemma distinct_del_adj:
  "distinct (map fst (adjacencies g x)) \<Longrightarrow> distinct (map fst (adjacencies (del_adj a b g) x))"
  by (auto simp: adjacencies_del_adj intro: distinct_delete)

lemma removal_fold:
  defines "del \<equiv> \<lambda>v g to. del_adj to v g"
  shows "getAdjacence (foldl (del v) g vs) x y = (if x \<in> set vs \<and> y = v then None else getAdjacence g x y)"
    and "map fst (g_edges (foldl (del v) g vs)) = map fst (g_edges g)"
    and "g_nodes (foldl (del v) g vs) = g_nodes g"
    and "g_adjs (foldl (del v) g vs) = g_adjs g"
    and "distinct (map fst (adjacencies g x)) \<Longrightarrow> distinct (map fst (adjacencies (foldl (del v) g vs) x))"
  by (induction vs arbitrary: g)
    (auto simp: del_def getAdjacence_del_adj keys_del_adj distinct_del_adj)

lemma removeNode_lookups:
  assumes wf: "wf_graph g"
  shows "getAdjacence (removeNode v g) a b = (if a = v \<or> b = v then None else getAdjacence g a b)"
    and "getNode (removeNode v g) a = (if a = v then None else getNode g a)"
    and "hasNode (removeNode v g) a \<longleftrightarrow> a \<noteq> v \<and> hasNode g a"
    and "g_adjs (removeNode v g) = g_adjs g"
proof -
  let ?g = "g\<lparr>g_nodes := AList.delete v (g_nodes g)\<rparr>"
  let ?h = "foldl (\<lambda>g to. del_adj to v g) ?g (map fst (adjacencies g v))"
  have rem: "removeNode v g = ?h\<lparr>g_edges := AList.delete v (g_edges ?h)\<rparr>" if "hasNode g v"
    using that by (simp add: removeNode_def Let_def)
  have h: "getAdjacence ?h a b = (if a \<in> set (map fst (adjacencies g v)) \<and> b = v then None else getAdjacence g a b)" for a b
    unfolding removal_fold(1) by (simp add: getAdjacence_def)
  have none: "getAdjacence g a b = None" if "\<not> hasNode g a \<or> \<not> hasNode g b" for a b
    using that wf_hasNode [OF wf] by (metis not_None_eq)
  have to_v: "a \<in> set (map fst (adjacencies g v)) \<longleftrightarrow> getAdjacence g a v \<noteq> None" for a
    unfolding keys_map_of using wf_adj_sym [OF wf] by (simp add: getAdjacence_def)
  show "getAdjacence (removeNode v g) a b = (if a = v \<or> b = v then None else getAdjacence g a b)"
  proof (cases "hasNode g v")
    case True
    have "getAdjacence (removeNode v g) a b = (if a = v then None else getAdjacence ?h a b)"
      unfolding rem [OF True] by (simp add: getAdjacence_edges delete_conv')
    then show ?thesis using to_v [of a] unfolding h by auto
  qed (auto simp: removeNode_def none)
  show "getNode (removeNode v g) a = (if a = v then None else getNode g a)"
  proof (cases "hasNode g v")
    case True
    then show ?thesis unfolding rem [OF True] by (simp add: getNode_def removal_fold(3) delete_conv')
  qed (auto simp: removeNode_def hasNode_getNode)
  then show "hasNode (removeNode v g) a \<longleftrightarrow> a \<noteq> v \<and> hasNode g a" by (simp add: hasNode_getNode)
  show "g_adjs (removeNode v g) = g_adjs g"
    by (cases "hasNode g v") (simp_all add: rem removal_fold(4), simp add: removeNode_def)
qed

lemma wf_removeNode:
  assumes wf: "wf_graph g"
  shows "wf_graph (removeNode v g)"
proof (cases "hasNode g v")
  case True
  note lookups = removeNode_lookups [OF wf, of v]
  let ?g = "g\<lparr>g_nodes := AList.delete v (g_nodes g)\<rparr>"
  let ?h = "foldl (\<lambda>g to. del_adj to v g) ?g (map fst (adjacencies g v))"
  have rem: "removeNode v g = ?h\<lparr>g_edges := AList.delete v (g_edges ?h)\<rparr>"
    using True by (simp add: removeNode_def Let_def)
  have keys: "map fst (g_edges ?h) = map fst (g_edges g)" unfolding removal_fold(2) by simp
  then have keys': "fst ` set (g_edges ?h) = fst ` set (g_edges g)" by (metis set_map)
  show ?thesis
    unfolding wf_graph_iff
  proof (intro conjI allI impI)
    show "distinct (map fst (g_nodes (removeNode v g)))" "distinct (map fst (g_edges (removeNode v g)))"
      using wf by (simp_all add: rem removal_fold(3) distinct_delete keys wf_graph_def)
    show "set (map fst (g_edges (removeNode v g))) = set (map fst (g_nodes (removeNode v g)))"
      using wf by (simp add: rem removal_fold(3) keys' wf_graph_def)
    show "n_id n = k" if "getNode (removeNode v g) k = Some n" for k n
      using that wf by (auto simp: lookups(2) wf_graph_iff split: if_splits)
    have "distinct (map fst (adjacencies ?h a))" for a
      by (rule removal_fold(5)) (use wf in \<open>simp add: wf_graph_iff\<close>)
    then show "distinct (map fst (adjacencies (removeNode v g) a))" for a
      by (simp add: rem adjacencies_def delete_conv' split: option.splits)
    show "adj_ok (removeNode v g) a b r" if "getAdjacence (removeNode v g) a b = Some r" for a b r
    proof -
      have ab: "a \<noteq> v" "b \<noteq> v" "getAdjacence g a b = Some r"
        using that by (auto simp: lookups(1) split: if_splits)
      then have "adj_ok g a b r" using wf by (metis wf_adj_ok)
      with ab show ?thesis unfolding adj_ok_def lookups by simp
    qed
  qed
qed (use wf in \<open>simp add: removeNode_def\<close>)

lemma removeAdjacence_lookups:
  assumes "removeAdjacence v w g = Some h"
  shows "getAdjacence h a b = (if (a = v \<and> b = w) \<or> (a = w \<and> b = v) then None else getAdjacence g a b)"
    and "g_nodes h = g_nodes g" and "g_adjs h = g_adjs g"
    and "map fst (g_edges h) = map fst (g_edges g)"
    and "distinct (map fst (adjacencies g a)) \<Longrightarrow> distinct (map fst (adjacencies h a))"
proof -
  have h: "h = del_adj w v (del_adj v w g)"
    using assms unfolding removeAdjacence_def by (metis option.distinct(1) option.inject)
  show "getAdjacence h a b = (if (a = v \<and> b = w) \<or> (a = w \<and> b = v) then None else getAdjacence g a b)"
    unfolding h getAdjacence_del_adj by argo
  show "distinct (map fst (adjacencies g a)) \<Longrightarrow> distinct (map fst (adjacencies h a))"
    unfolding h by (intro distinct_del_adj)
  show "g_nodes h = g_nodes g" "g_adjs h = g_adjs g" "map fst (g_edges h) = map fst (g_edges g)"
    by (simp_all add: h keys_del_adj)
qed

lemma wf_removeAdjacence:
  assumes wf: "wf_graph g" and rem: "removeAdjacence v w g = Some h"
  shows "wf_graph h"
  unfolding wf_graph_iff
proof (intro conjI allI impI)
  note lookups = removeAdjacence_lookups [OF rem]
  show "distinct (map fst (g_nodes h))" "distinct (map fst (g_edges h))"
    "set (map fst (g_edges h)) = set (map fst (g_nodes h))"
    using wf unfolding lookups(2,4) wf_graph_def by simp_all
  show "n_id n = k" if "getNode h k = Some n" for k n
    using that wf by (simp add: getNode_def lookups(2) wf_graph_iff)
  show "distinct (map fst (adjacencies h a))" for a using wf by (intro lookups(5)) (simp add: wf_graph_iff)
  show "adj_ok h a b r" if "getAdjacence h a b = Some r" for a b r
  proof -
    have ab: "\<not> ((a = v \<and> b = w) \<or> (a = w \<and> b = v))" using that lookups(1) by (metis option.distinct(1))
    then have new: "getAdjacence h a b = getAdjacence g a b" "getAdjacence h b a = getAdjacence g b a"
      unfolding lookups(1) by argo+
    then have "adj_ok g a b r" using that wf by (metis wf_adj_ok)
    then show ?thesis unfolding adj_ok_def new hasNode_def lookups(2,3) .
  qed
qed

section \<open>Abstract undirected graphs\<close>

type_synonym ugraph = "id set \<times> id set set"

definition abs_graph :: "graph \<Rightarrow> ugraph" where
  "abs_graph g = ({a. hasNode g a}, {e. \<exists>a b. e = {a, b} \<and> getAdjacence g a b \<noteq> None})"

datatype graph_op =
    AddNode node_spec
  | AddAdjacence node_spec node_spec props
  | RemoveNode id
  | RemoveAdjacence id id
  | Empty

text \<open>An operation that raises an exception leaves the graph as it is.\<close>

fun graph_step :: "graph_op \<Rightarrow> graph \<Rightarrow> graph" where
  "graph_step (AddNode obj) g = addNode obj g"
| "graph_step (AddAdjacence obj obj2 data) g = fst (addAdjacence obj obj2 data g)"
| "graph_step (RemoveNode v) g = removeNode v g"
| "graph_step (RemoveAdjacence v w) g = (case removeAdjacence v w g of None \<Rightarrow> g | Some h \<Rightarrow> h)"
| "graph_step Empty g = empty g"

fun ugraph_step :: "graph_op \<Rightarrow> ugraph \<Rightarrow> ugraph" where
  "ugraph_step (AddNode obj) (V, E) = (insert (s_id obj) V, E)"
| "ugraph_step (AddAdjacence obj obj2 data) (V, E) =
     (insert (s_id obj) (insert (s_id obj2) V), insert {s_id obj, s_id obj2} E)"
| "ugraph_step (RemoveNode v) (V, E) = (V - {v}, {e \<in> E. v \<notin> e})"
| "ugraph_step (RemoveAdjacence v w) (V, E) = (V, E - {{v, w}})"
| "ugraph_step Empty (V, E) = ({}, {})"

text \<open>
  The interface of an implementation: an invariant every operation keeps, and an abstraction
  under which every operation is the abstract one. What holds of one operation then holds of
  every sequence of operations.
\<close>

locale implementation =
  fixes step :: "'op \<Rightarrow> 's \<Rightarrow> 's" and astep :: "'op \<Rightarrow> 'a \<Rightarrow> 'a"
    and inv :: "'s \<Rightarrow> bool" and abs :: "'s \<Rightarrow> 'a"
  assumes step_inv: "inv s \<Longrightarrow> inv (step p s)"
    and step_abs: "inv s \<Longrightarrow> abs (step p s) = astep p (abs s)"
begin

lemma run_inv: "inv s \<Longrightarrow> inv (fold step ps s)"
  by (induction ps arbitrary: s) (simp_all add: step_inv)

lemma run_abs: "inv s \<Longrightarrow> abs (fold step ps s) = fold astep ps (abs s)"
  by (induction ps arbitrary: s) (simp_all add: step_inv step_abs)

end

lemma abs_addNode: "wf_graph g \<Longrightarrow> abs_graph (addNode obj g) = ugraph_step (AddNode obj) (abs_graph g)"
  by (auto simp: abs_graph_def getAdjacence_addNode)

lemma link_edge:
  "getAdjacence (link a b data g) x y \<noteq> None \<longleftrightarrow> {x, y} = {a, b} \<or> getAdjacence g x y \<noteq> None"
  unfolding link_lookups(1) doubleton_eq_iff
  by (cases "(x = a \<and> y = b) \<or> (x = b \<and> y = a)") (simp_all only: if_True if_False, simp_all)

text \<open>The edges that satisfy a condition, from a condition on their ends.\<close>

lemma edges_filter:
  "{e. \<exists>a b. e = {a, b} \<and> (P {a, b} \<and> Q a b)} = {e \<in> {e. \<exists>a b. e = {a, b} \<and> Q a b}. P e}"
  by blast

lemma abs_link:
  "abs_graph (link a b data g) = (fst (abs_graph g), insert {a, b} (snd (abs_graph g)))"
  unfolding abs_graph_def link_edge link_lookups(3) by auto

lemma abs_edge: "getAdjacence g a b = Some r \<Longrightarrow> {a, b} \<in> snd (abs_graph g)"
  by (auto simp: abs_graph_def)

lemma abs_addAdjacence:
  assumes wf: "wf_graph g"
  shows "abs_graph (fst (addAdjacence obj obj2 data g)) = ugraph_step (AddAdjacence obj obj2 data) (abs_graph g)"
proof -
  let ?g = "addNode obj2 (addNode obj g)"
  have "abs_graph ?g = (insert (s_id obj2) (insert (s_id obj) (fst (abs_graph g))), snd (abs_graph g))"
    using wf by (cases "abs_graph g") (simp add: abs_addNode wf_addNode)
  then show ?thesis
    unfolding addAdjacence_link Let_def using abs_edge [of ?g "s_id obj" "s_id obj2"]
    by (cases "abs_graph g") (auto simp: abs_link)
qed

lemma abs_removeNode: "wf_graph g \<Longrightarrow> abs_graph (removeNode v g) = ugraph_step (RemoveNode v) (abs_graph g)"
proof -
  assume wf: "wf_graph g"
  have eq: "getAdjacence (removeNode v g) a b \<noteq> None \<longleftrightarrow> v \<notin> {a, b} \<and> getAdjacence g a b \<noteq> None" for a b
    by (auto simp: removeNode_lookups(1) [OF wf])
  show ?thesis
    unfolding abs_graph_def eq edges_filter removeNode_lookups(3) [OF wf] by auto
qed

lemma abs_removeAdjacence:
  assumes wf: "wf_graph g"
  shows "abs_graph (graph_step (RemoveAdjacence v w) g) = ugraph_step (RemoveAdjacence v w) (abs_graph g)"
proof (cases "removeAdjacence v w g")
  case None
  then have "\<not> hasNode g v \<or> \<not> hasNode g w"
    unfolding removeAdjacence_def wf_edges_keys [OF wf] by (metis option.distinct(1))
  then have "getAdjacence g a b = None" if "{a, b} = {v, w}" for a b
    using that wf_hasNode [OF wf] by (metis doubleton_eq_iff not_None_eq)
  then show ?thesis using None by (auto simp: abs_graph_def)
next
  case (Some h)
  have eq: "getAdjacence h a b \<noteq> None \<longleftrightarrow> {a, b} \<noteq> {v, w} \<and> getAdjacence g a b \<noteq> None" for a b
    unfolding removeAdjacence_lookups(1) [OF Some] doubleton_eq_iff by metis
  have "abs_graph h = ({a. hasNode g a}, {e \<in> snd (abs_graph g). e \<noteq> {v, w}})"
    unfolding abs_graph_def eq edges_filter hasNode_def removeAdjacence_lookups(2) [OF Some] snd_conv by blast
  then show ?thesis using Some by (auto simp: abs_graph_def)
qed

interpretation graph_impl: implementation graph_step ugraph_step wf_graph abs_graph
proof
  show "wf_graph (graph_step p g)" if "wf_graph g" for p g
    using that by (cases p)
      (auto simp: wf_addNode wf_addAdjacence wf_removeNode wf_empty wf_removeAdjacence split: option.splits)
  show "abs_graph (graph_step p g) = ugraph_step p (abs_graph g)" if "wf_graph g" for p g
  proof (cases p)
    case Empty
    then show ?thesis
      by (cases "abs_graph g") (simp add: abs_graph_def empty_def hasNode_def getAdjacence_edges)
  next
    case (RemoveAdjacence v w)
    then show ?thesis using abs_removeAdjacence [OF that] by simp
  qed (simp_all add: abs_addNode [OF that] abs_addAdjacence [OF that] abs_removeNode [OF that])
qed

section \<open>The interface of the accessors\<close>

text \<open>
  A family of accessors, with the type filled in: what was set is read back, and setting one
  property does not change another.
\<close>

locale data_store =
  fixes get' :: "datastore \<Rightarrow> string \<Rightarrow> jsval" and set' :: "datastore \<Rightarrow> string \<Rightarrow> jsval \<Rightarrow> datastore"
    and remove' :: "datastore \<Rightarrow> string list \<Rightarrow> datastore"
  assumes get_set: "get' (set' s k v) j = (if j = k then v else get' s j)"
    and get_remove: "j \<notin> set ks \<Longrightarrow> get' (remove' s ks) j = get' s j"
    and get_removed: "j \<in> set ks \<Longrightarrow> get' (remove' s ks) j = JUndefined"
begin

lemma last_write: "get' (set' (set' s k v) k w) j = get' (set' s k w) j"
  by (simp add: get_set)

lemma set_remove: "k \<in> set ks \<Longrightarrow> get' (remove' (set' s k v) ks) j = get' (remove' s ks) j"
  by (cases "j \<in> set ks") (auto simp: get_removed get_remove get_set)

lemma writes: "get' (foldl (\<lambda>s (k, v). set' s k v) s ps) j =
   (case map_of (rev ps) j of None \<Rightarrow> get' s j | Some v \<Rightarrow> v)"
  by (induction ps arbitrary: s) (auto simp: get_set map_add_def split: option.splits)

end

lemma data_key_inject [simp]: "data_key p j = data_key p k \<longleftrightarrow> j = k"
  by (simp add: data_key_def)

lemma removeDataInternal_get:
  "prop_of (ds_data (removeDataInternal s prefix ks)) (data_key prefix j) =
     (if j \<in> set ks then JUndefined else prop_of (ds_data s) (data_key prefix j))"
  by (induction ks arbitrary: s) (auto simp: removeDataInternal_def prop_of_delete Let_def)

definition get_forced :: "string \<Rightarrow> datastore \<Rightarrow> string \<Rightarrow> jsval" where
  "get_forced prefix s k = the (getDataInternal [] s prefix k ''current'' True [])"

lemma get_forced_prop: "get_forced prefix s k = prop_of (ds_data s) (data_key prefix k)"
  by (simp add: get_forced_def getDataInternal_def data_of_type_def type_or_current_def Let_def)

lemma current_store:
  "data_store (get_forced prefix) (\<lambda>s k v. the (setDataInternal s prefix k v ''current''))
     (\<lambda>s ks. removeDataInternal s prefix ks)"
  by unfold_locales
    (auto simp: get_forced_prop setDataInternal_def type_or_current_def prop_of_update
      removeDataInternal_get Let_def)

interpretation current_data:
  data_store "get_forced []" "\<lambda>s k v. the (setData s k v ''current'')" removeData
  using current_store [of "[]"] by (simp add: setData_def removeData_def [abs_def])

interpretation current_style:
  data_store "get_forced ''canvas''" "\<lambda>s k v. the (setCanvasStyle s k v ''current'')" removeCanvasStyle
  using current_store [of "''canvas''"] by (simp add: setCanvasStyle_def removeCanvasStyle_def [abs_def])

interpretation current_label:
  data_store "get_forced ''label''" "\<lambda>s k v. the (setLabelData s k v ''current'')" removeLabelData
  using current_store [of "''label''"] by (simp add: setLabelData_def removeLabelData_def [abs_def])

section \<open>Properties\<close>

text \<open>
  C8: every sequence of graph operations leads from the empty graph to a well-formed one, in
  which each adjacence is one object shared by its two directions and joins existing nodes,
  and has the vertices and edges that the same operations give on an abstract undirected
  graph.
\<close>

theorem graph_operations_refine:
  "wf_graph (fold graph_step ops (initialize opt Node Edge Label))
   \<and> abs_graph (fold graph_step ops (initialize opt Node Edge Label)) = fold ugraph_step ops ({}, {})"
proof -
  have "abs_graph (initialize opt Node Edge Label) = ({}, {})"
    by (simp add: abs_graph_def initialize_def hasNode_def getAdjacence_edges)
  then show ?thesis
    using graph_impl.run_inv graph_impl.run_abs wf_initialize by metis
qed

text \<open>
  Adding an adjacence makes it available in both directions under one reference; an
  adjacence that is already there is kept with its data, a new one gets the data given, and
  no other pair of nodes is affected.
\<close>

lemma addAdjacence_getAdjacence:
  assumes "wf_graph g" and "addAdjacence obj obj2 data g = (h, r)"
  shows "r = getAdjacence h (s_id obj) (s_id obj2) \<and> r = getAdjacence h (s_id obj2) (s_id obj) \<and> r \<noteq> None
    \<and> (getAdjacence g (s_id obj) (s_id obj2) = None \<longrightarrow>
        ds_data (a_store (g_adjs h ! the r)) = data)
    \<and> (getAdjacence g (s_id obj) (s_id obj2) \<noteq> None \<longrightarrow>
        r = getAdjacence g (s_id obj) (s_id obj2) \<and> g_adjs h = g_adjs g)
    \<and> ({a, b} \<noteq> {s_id obj, s_id obj2} \<longrightarrow> getAdjacence h a b = getAdjacence g a b)"
proof -
  let ?a = "s_id obj" and ?b = "s_id obj2" and ?g = "addNode obj2 (addNode obj g)"
  have old: "getAdjacence ?g x y = getAdjacence g x y" for x y
    using assms(1) by (simp add: getAdjacence_addNode wf_addNode)
  have adjs: "g_adjs ?g = g_adjs g" by (simp add: addNode_def)
  have h: "h = (if getAdjacence g ?a ?b = None then link ?a ?b data ?g else ?g)"
    using addAdjacence_link [of obj obj2 data g] assms(2) by (simp add: Let_def old)
  have r: "r = getAdjacence h ?a ?b" using addAdjacence_snd [of obj obj2 data g] assms(2) by simp
  have "wf_graph h" using wf_addAdjacence [OF assms(1), of obj obj2 data] assms(2) by simp
  then have sym: "getAdjacence h ?a ?b = getAdjacence h ?b ?a" by (rule wf_adj_sym)
  have other: "getAdjacence (link ?a ?b data ?g) a b = getAdjacence g a b" if "{a, b} \<noteq> {?a, ?b}"
    using that unfolding link_lookups(1) old by (metis insert_commute)
  show ?thesis
  proof (cases "getAdjacence g ?a ?b = None")
    case True
    then have h: "h = link ?a ?b data ?g" using h by simp
    then have new: "r = Some (length (g_adjs g))" by (simp add: r link_lookups(1) adjs)
    have "ds_data (a_store (g_adjs h ! the r)) = data"
      unfolding new h link_lookups(2) adjs by (simp add: adjacence_initialize_def)
    moreover have "getAdjacence h a b = getAdjacence g a b" if "{a, b} \<noteq> {?a, ?b}"
      unfolding h using that by (rule other)
    ultimately show ?thesis using True r sym new by (metis option.distinct(1))
  next
    case False
    then have "h = ?g" using h by argo
    then show ?thesis using False r sym by (auto simp: old adjs)
  qed
qed

text \<open>
  Removing a node removes it and every adjacence from or to it, and nothing else.
\<close>

lemma removeNode_removes:
  assumes "wf_graph g"
  shows "getNode (removeNode v g) v = None \<and> getAdjacence (removeNode v g) v x = None
    \<and> getAdjacence (removeNode v g) x v = None
    \<and> (a \<noteq> v \<and> b \<noteq> v \<longrightarrow> getNode (removeNode v g) a = getNode g a
        \<and> getAdjacence (removeNode v g) a b = getAdjacence g a b)"
  using removeNode_lookups [OF assms] by simp

text \<open>
  With an overridable configuration, a property set on the data, on a canvas style or on
  label data is read back, for each of the three data objects; a property of the start or end
  data that was never set falls back to the current data.
\<close>

lemma getData_setData:
  assumes "truthy (prop_of Config ''overridable'')" and "type \<in> {''current'', ''start'', ''end''}"
  shows "Option.bind (setData s k v type) (\<lambda>s. getData Config s k type False) = Some v
    \<and> Option.bind (setCanvasStyle s k v type) (\<lambda>s. getCanvasStyle Config s k type False) = Some v
    \<and> Option.bind (setLabelData s k v type) (\<lambda>s. getLabelData Config Label s k type False) = Some v
    \<and> (data_key [] k \<notin> set (map fst (the (data_of_type s type))) \<longrightarrow>
        Option.bind (setData s k v ''current'') (\<lambda>s. getData Config s k type False) = Some v)"
proof -
  have "Option.bind (setDataInternal s p k v type) (\<lambda>s. getDataInternal Config s p k type False pc) = Some v" for p pc
    using assms by (auto simp: setDataInternal_def getDataInternal_def type_or_current_def
        data_of_type_def Let_def prop_of_update)
  moreover have "data_key [] k \<notin> set (map fst (the (data_of_type s type))) \<longrightarrow>
      Option.bind (setData s k v ''current'') (\<lambda>s. getData Config s k type False) = Some v"
    using assms by (auto simp: setData_def getData_def setDataInternal_def getDataInternal_def
        type_or_current_def data_of_type_def Let_def prop_of_update)
  ultimately show ?thesis
    by (simp add: setData_def getData_def setCanvasStyle_def getCanvasStyle_def setLabelData_def getLabelData_def)
qed

end
