(* ===== verification/Jit_GraphUtil.thy ===== *)
theory Jit_GraphUtil
  imports Jit_Graph
begin

text \<open>
  The traversals of the graph library (\<^verbatim>\<open>rfweb/js/jit/jit.js\<close>, \<^verbatim>\<open>Graph.Util\<close>): filters by
  flags, loops over nodes and adjacencies, the computation of levels, breadth-first and level
  traversals, parents and descendants, and the node closest to a position. A traversal turns
  each adjacence it passes so that it starts at the node it was reached from; loops over
  nodes thread the graph. The main lemmas show that the levels computed are breadth-first
  distances and that the traversals end.
\<close>

section \<open>Filters\<close>

text \<open>Whether a property of a node or adjacence, by name, holds a value that counts as true.\<close>

definition node_prop :: "gnode \<Rightarrow> string \<Rightarrow> bool" where
  "node_prop n key =
     (if key = ''selected'' then n_selected n
      else if key = ''drawn'' then n_drawn n
      else if key = ''exist'' then n_exist n
      else if key = ''ignore'' then n_ignore n
      else if key = ''_flag'' then n_flag n = Some True
      else if key = ''_depth'' then (case n_depth n of None \<Rightarrow> False | Some d \<Rightarrow> d \<noteq> 0)
      else if key = ''id'' then n_id n \<noteq> []
      else if key = ''name'' then n_name n \<noteq> []
      else if key \<in> {''data'', ''startData'', ''endData'', ''adjacencies'', ''angleSpan'', ''pos'',
        ''startPos'', ''endPos'', ''Config'', ''Node'', ''Edge'', ''Label''} then True
      else truthy (prop_of (n_ext n) key))"

definition adj_prop :: "adjacence \<Rightarrow> string \<Rightarrow> bool" where
  "adj_prop a key =
     (if key \<in> {''nodeFrom'', ''nodeTo'', ''data'', ''startData'', ''endData'', ''Config'', ''Edge'', ''Label''}
      then True else truthy (prop_of (a_ext a) key))"

text \<open>The flags are names separated by blanks; the empty string stands for no flags.\<close>

definition flag_props :: "string \<Rightarrow> string list" where
  "flag_props param = (if param = [] then [] else split '' '' param)"

definition filter_node :: "string \<Rightarrow> gnode \<Rightarrow> bool" where
  "filter_node param n = list_all (\<lambda>p. \<not> node_prop n p) (flag_props param)"

definition filter_adj :: "string \<Rightarrow> adjacence \<Rightarrow> bool" where
  "filter_adj param a = list_all (\<lambda>p. \<not> adj_prop a p) (flag_props param)"

section \<open>Loops over nodes and adjacencies\<close>

definition eachNode :: "graph \<Rightarrow> (id \<Rightarrow> graph \<Rightarrow> graph) \<Rightarrow> string \<Rightarrow> graph" where
  "eachNode graph action flags =
     fold (\<lambda>i g. case getNode g i of
             None \<Rightarrow> g
           | Some n \<Rightarrow> if filter_node flags n then action i g else g)
       (map fst (g_nodes graph)) graph"

text \<open>Turning an adjacence so that it starts at a node.\<close>

definition orient :: "id \<Rightarrow> nat \<Rightarrow> graph \<Rightarrow> graph" where
  "orient node r g =
     (let a = g_adjs g ! r
      in if a_nodeFrom a \<noteq> node
         then g\<lparr>g_adjs := (g_adjs g)[r := a\<lparr>a_nodeFrom := a_nodeTo a, a_nodeTo := a_nodeFrom a\<rparr>]\<rparr>
         else g)"

text \<open>
  The loop over the adjacencies of a node: the graph with the adjacencies turned, and for each
  call of the action the adjacence and the node it leads to.
\<close>

definition adj_step :: "string \<Rightarrow> id \<Rightarrow> string \<times> nat \<Rightarrow> graph \<times> (nat \<times> id) list \<Rightarrow> graph \<times> (nat \<times> id) list" where
  "adj_step flags node = (\<lambda>(key, r) (g, calls).
     if filter_adj flags (g_adjs g ! r)
     then (let g = orient node r g in (g, calls @ [(r, a_nodeTo (g_adjs g ! r))]))
     else (g, calls))"

definition eachAdjacency :: "id \<Rightarrow> string \<Rightarrow> graph \<Rightarrow> graph \<times> (nat \<times> id) list" where
  "eachAdjacency node flags g = fold (adj_step flags node) (adjacencies g node) (g, [])"

section \<open>Levels\<close>

definition flag_of :: "graph \<Rightarrow> id \<Rightarrow> bool option" where
  "flag_of g i = Option.bind (getNode g i) n_flag"

definition depth_of :: "graph \<Rightarrow> id \<Rightarrow> int option" where
  "depth_of g i = Option.bind (getNode g i) n_depth"

definition set_flag :: "bool \<Rightarrow> id \<Rightarrow> graph \<Rightarrow> graph" where
  "set_flag b i = upd_node i (\<lambda>n. n\<lparr>n_flag := Some b\<rparr>)"

definition set_depth :: "int option \<Rightarrow> id \<Rightarrow> graph \<Rightarrow> graph" where
  "set_depth d i = upd_node i (\<lambda>n. n\<lparr>n_depth := d\<rparr>)"

definition passes :: "string \<Rightarrow> graph \<Rightarrow> id \<Rightarrow> bool" where
  "passes flags g i = (case getNode g i of None \<Rightarrow> False | Some n \<Rightarrow> filter_node flags n)"

text \<open>The action on one adjacence, given the depth of the node it starts at.\<close>

definition level_action :: "int \<Rightarrow> string \<Rightarrow> int option \<Rightarrow> id \<Rightarrow> graph \<times> id list \<Rightarrow> graph \<times> id list" where
  "level_action startDepth flags d n = (\<lambda>(g, queue).
     if flag_of g n = Some False \<and> passes flags g n then
       (let g = (case depth_of g n of
                   Some k \<Rightarrow> if k < 0 then set_depth (map_option (\<lambda>d. d + 1 + startDepth) d) n g else g
                 | None \<Rightarrow> g)
        in (g, n # queue))
     else (g, queue))"

definition level_visit :: "int \<Rightarrow> string \<Rightarrow> id \<Rightarrow> id list \<Rightarrow> graph \<Rightarrow> graph \<times> id list" where
  "level_visit startDepth flags node queue g =
     (let g = set_flag True node g;
          (g, calls) = eachAdjacency node flags g
      in fold (\<lambda>(r, n) s. level_action startDepth flags (depth_of (fst s) node) n s) calls (g, queue))"

lemma getNode_upd_node [simp]:
  "getNode (upd_node i f g) j = map_option (\<lambda>n. if j = i then f n else n) (getNode g j)"
proof -
  have "map_of (map (\<lambda>(k, n). (k, if k = i then f n else n)) ns) j
      = map_option (\<lambda>n. if j = i then f n else n) (map_of ns j)" for ns
    by (induction ns) auto
  then show ?thesis by (simp add: upd_node_def getNode_def)
qed

lemma keys_upd_node [simp]: "map fst (g_nodes (upd_node i f g)) = map fst (g_nodes g)"
  by (simp add: upd_node_def comp_def case_prod_unfold)

lemma hasNode_upd_node [simp]: "hasNode (upd_node i f g) j = hasNode g j"
  by (simp add: hasNode_getNode)

lemma flag_set_depth [simp]: "flag_of (set_depth d i g) j = flag_of g j"
  by (cases "getNode g j") (simp_all add: set_depth_def flag_of_def)

lemma flag_set_flag [simp]:
  "flag_of (set_flag b i g) j = (if j = i \<and> hasNode g i then Some b else flag_of g j)"
  by (cases "getNode g j") (auto simp: set_flag_def flag_of_def hasNode_getNode)

lemma nodes_orient [simp]: "g_nodes (orient node r g) = g_nodes g"
  by (simp add: orient_def Let_def)

lemma nodes_adj_fold: "g_nodes (fst (fold (adj_step flags node) as s)) = g_nodes (fst s)"
  by (induction as arbitrary: s) (auto simp: adj_step_def Let_def)

lemma nodes_eachAdjacency [simp]: "g_nodes (fst (eachAdjacency node flags g)) = g_nodes g"
  by (simp add: eachAdjacency_def nodes_adj_fold)

text \<open>A visit flags the node, changes no other flag, and queues nodes that are not flagged.\<close>

lemma level_action_flags:
  "flag_of (fst (level_action sd flags d n s)) j = flag_of (fst s) j
   \<and> (\<exists>new. snd (level_action sd flags d n s) = new @ snd s \<and> list_all (\<lambda>q. flag_of (fst s) q = Some False) new)"
  by (auto simp: level_action_def Let_def split: prod.splits option.splits)

lemma level_fold_flags:
  "flag_of (fst (fold (\<lambda>(r, n) s. level_action sd flags (dd s) n s) calls s)) j = flag_of (fst s) j
   \<and> (\<exists>new. snd (fold (\<lambda>(r, n) s. level_action sd flags (dd s) n s) calls s) = new @ snd s
        \<and> list_all (\<lambda>q. flag_of (fst s) q = Some False) new)"
proof (induction calls arbitrary: s j)
  case (Cons c calls)
  obtain r n where c: "c = (r, n)" by force
  let ?s = "level_action sd flags (dd s) n s"
  from level_action_flags [of sd flags "dd s" n s]
  have fl: "flag_of (fst ?s) q = flag_of (fst s) q" for q by blast
  from level_action_flags obtain new where new: "snd ?s = new @ snd s"
    "list_all (\<lambda>q. flag_of (fst s) q = Some False) new" by blast
  from Cons [of ?s] obtain new2 where "snd (fold (\<lambda>(r, n) s. level_action sd flags (dd s) n s) calls ?s) = new2 @ snd ?s"
    "list_all (\<lambda>q. flag_of (fst s) q = Some False) new2" unfolding fl by blast
  then have "snd (fold (\<lambda>(r, n) s. level_action sd flags (dd s) n s) (c # calls) s) = (new2 @ new) @ snd s
      \<and> list_all (\<lambda>q. flag_of (fst s) q = Some False) (new2 @ new)"
    using new by (simp add: c)
  moreover have "flag_of (fst (fold (\<lambda>(r, n) s. level_action sd flags (dd s) n s) (c # calls) s)) j = flag_of (fst s) j"
    using Cons [of ?s j] unfolding fl by (simp add: c)
  ultimately show ?case by blast
qed simp

lemma level_visit_flags:
  "flag_of (fst (level_visit sd flags node queue g)) j
     = (if j = node \<and> hasNode g node then Some True else flag_of g j)
   \<and> (\<exists>new. snd (level_visit sd flags node queue g) = new @ queue
        \<and> list_all (\<lambda>q. flag_of (set_flag True node g) q = Some False) new)"
proof -
  obtain g1 calls where e: "eachAdjacency node flags (set_flag True node g) = (g1, calls)" by force
  have "g_nodes g1 = g_nodes (set_flag True node g)"
    using nodes_eachAdjacency [of node flags "set_flag True node g"] by (simp add: e)
  then have f1: "flag_of g1 q = flag_of (set_flag True node g) q" for q by (simp add: flag_of_def getNode_def)
  show ?thesis
    using level_fold_flags [of sd flags "\<lambda>s. depth_of (fst s) node" calls "(g1, queue)" j]
    unfolding level_visit_def e Let_def fst_conv snd_conv f1 flag_set_flag prod.case .
qed

lemma getNode_eachNode_each:
  "distinct (map fst (g_nodes g)) \<Longrightarrow> getNode (eachNode g (\<lambda>i. upd_node i (f i)) []) x = map_option (f x) (getNode g x)"
proof -
  assume d: "distinct (map fst (g_nodes g))"
  let ?step = "\<lambda>i h. case getNode h i of None \<Rightarrow> h | Some n \<Rightarrow> if filter_node [] n then upd_node i (f i) h else h"
  have step: "getNode (?step i h) x = (if x = i then map_option (f x) (getNode h x) else getNode h x)" for i h x
    by (cases "getNode h x") (auto simp: filter_node_def flag_props_def option.map_ident split: option.splits)
  have "distinct is \<Longrightarrow> getNode (fold ?step is h) x = (if x \<in> set is then map_option (f x) (getNode h x) else getNode h x)" for "is" h
    by (induction "is" arbitrary: h) (auto simp: step)
  from this [OF d, of g] have "getNode (eachNode g (\<lambda>i. upd_node i (f i)) []) x
      = (if x \<in> set (map fst (g_nodes g)) then map_option (f x) (getNode g x) else getNode g x)"
    by (simp only: eachNode_def)
  then show ?thesis using hasNode_getNode [of g x] unfolding hasNode_def by (cases "getNode g x") simp_all
qed

lemmas getNode_eachNode_upd = getNode_eachNode_each [where f = "\<lambda>_. f" for f]

text \<open>
  The loop: the queue is taken from its end. A node without entry in the graph would raise an
  exception; no such node is ever queued.
\<close>

definition open_nodes :: "graph \<Rightarrow> nat" where
  "open_nodes g = card {i \<in> set (map fst (g_nodes g)). flag_of g i \<noteq> Some True}"

definition closed_entries :: "graph \<Rightarrow> id list \<Rightarrow> nat" where
  "closed_entries g queue = length (filter (\<lambda>q. \<not> hasNode g q \<or> flag_of g q = Some True) queue)"

lemma closed_entries_append: "closed_entries g (p @ q) = closed_entries g p + closed_entries g q"
  by (simp add: closed_entries_def)

lemma nodes_level_action: "map fst (g_nodes (fst (level_action sd flags d n s))) = map fst (g_nodes (fst s))"
  by (auto simp: level_action_def set_depth_def Let_def split: prod.splits option.splits)

lemma nodes_level_visit [simp]: "map fst (g_nodes (fst (level_visit sd flags node queue g))) = map fst (g_nodes g)"
proof -
  have "map fst (g_nodes (fst (fold (\<lambda>(r, n) s. level_action sd flags (dd s) n s) calls s))) = map fst (g_nodes (fst s))"
    for dd and calls :: "(nat \<times> id) list" and s
    by (induction calls arbitrary: s) (auto simp: nodes_level_action)
  moreover have "map fst (g_nodes (fst (eachAdjacency node flags (set_flag True node g)))) = map fst (g_nodes g)"
    by (simp add: set_flag_def)
  ultimately show ?thesis by (simp add: level_visit_def Let_def case_prod_unfold)
qed

lemma hasNode_level_visit [simp]: "hasNode (fst (level_visit sd flags node queue g)) j = hasNode g j"
  unfolding hasNode_def nodes_level_visit ..

function levels_loop :: "int \<Rightarrow> string \<Rightarrow> id list \<Rightarrow> graph \<Rightarrow> graph" where
  "levels_loop startDepth flags queue g =
     (if queue = [] then g
      else let node = last queue; rest = butlast queue
           in if hasNode g node
              then (let (h, q) = level_visit startDepth flags node rest g in levels_loop startDepth flags q h)
              else levels_loop startDepth flags rest g)"
  by pat_completeness auto
termination
proof (relation "measures [\<lambda>(_, _, _, g). open_nodes g, \<lambda>(_, _, q, g). closed_entries g q]", goal_cases)
  case (2 sd flags queue g node rest s h q)
  have here: "hasNode g node" using 2 by simp
  have h: "h = fst (level_visit sd flags node rest g)" and q: "q = snd (level_visit sd flags node rest g)"
    using 2 by (metis fst_conv, metis snd_conv)
  have flags: "flag_of h j = (if j = node then Some True else flag_of g j)" for j
    using level_visit_flags [of sd flags node rest g j] here by (simp add: h)
  obtain new where new: "q = new @ rest" "list_all (\<lambda>q. flag_of (set_flag True node g) q = Some False) new"
    using level_visit_flags [of sd flags node rest g] by (auto simp: q)
  have queue: "queue = rest @ [node]" using 2 by simp
  have keys: "map fst (g_nodes h) = map fst (g_nodes g)" by (simp add: h)
  show ?case
  proof (cases "flag_of g node = Some True")
    case True
    have same: "flag_of h j = flag_of g j" "hasNode h j = hasNode g j" for j
      using True keys by (simp_all add: flags hasNode_def)
    have "hasNode h x \<and> flag_of h x = Some False" if "x \<in> set new" for x
    proof -
      have "flag_of g x = Some False" using new(2) that True by (auto simp: list_all_iff split: if_splits)
      then show ?thesis unfolding same by (cases "getNode g x") (simp_all add: flag_of_def hasNode_getNode)
    qed
    then have "closed_entries h new = 0" by (auto simp: closed_entries_def filter_empty_conv)
    then have "closed_entries h q < closed_entries g queue"
      using True by (simp add: new(1) queue closed_entries_append) (simp add: closed_entries_def same)
    moreover have "open_nodes h = open_nodes g" using keys by (simp add: open_nodes_def same)
    ultimately show ?thesis by simp
  next
    case False
    have "node \<in> {i \<in> set (map fst (g_nodes g)). flag_of g i \<noteq> Some True}"
      using False here by (simp add: hasNode_def)
    moreover have "{i \<in> set (map fst (g_nodes h)). flag_of h i \<noteq> Some True}
        = {i \<in> set (map fst (g_nodes g)). flag_of g i \<noteq> Some True} - {node}"
      unfolding keys flags by auto
    ultimately have "{i \<in> set (map fst (g_nodes h)). flag_of h i \<noteq> Some True}
        \<subset> {i \<in> set (map fst (g_nodes g)). flag_of g i \<noteq> Some True}" by blast
    then have "open_nodes h < open_nodes g" unfolding open_nodes_def by (intro psubset_card_mono) simp_all
    then show ?thesis by simp
  qed
next
  case (3 sd flags queue g node rest)
  have queue: "queue = rest @ [node]" and missing: "\<not> hasNode g node" using 3 by simp_all
  have "closed_entries g rest < closed_entries g queue"
    unfolding queue closed_entries_append using missing by (simp add: closed_entries_def)
  then show ?case by simp
qed simp

declare levels_loop.simps [simp del]

text \<open>The exception raised for an unknown root is \<open>None\<close>.\<close>

definition computeLevels :: "graph \<Rightarrow> id \<Rightarrow> int \<Rightarrow> string \<Rightarrow> graph option" where
  "computeLevels graph rid startDepth flags =
     (let g = eachNode graph (\<lambda>i g. set_depth (Some (-1)) i (set_flag False i g)) flags
      in if hasNode g rid
         then Some (levels_loop startDepth flags [rid] (set_depth (Some startDepth) rid g))
         else None)"

section \<open>Breadth-first traversal\<close>

definition clean :: "graph \<Rightarrow> graph" where
  "clean graph = eachNode graph (\<lambda>i g. set_flag False i g) []"

definition bfs_action :: "string \<Rightarrow> id \<Rightarrow> graph \<times> id list \<Rightarrow> graph \<times> id list" where
  "bfs_action flags n = (\<lambda>(g, queue).
     if flag_of g n = Some False \<and> passes flags g n then (set_flag True n g, n # queue) else (g, queue))"

definition bfs_visit :: "string \<Rightarrow> id \<Rightarrow> id list \<Rightarrow> graph \<Rightarrow> graph \<times> id list" where
  "bfs_visit flags node queue g =
     (let g = set_flag True node g;
          (g, calls) = eachAdjacency node flags g
      in fold (\<lambda>(r, n) s. bfs_action flags n s) calls (g, queue))"

lemma open_nodes_set_flag:
  "open_nodes (set_flag True i g) \<le> open_nodes g"
  "hasNode g i \<Longrightarrow> flag_of g i = Some False \<Longrightarrow> open_nodes (set_flag True i g) < open_nodes g"
proof -
  have keys: "map fst (g_nodes (set_flag True i g)) = map fst (g_nodes g)" by (simp add: set_flag_def)
  let ?A = "\<lambda>g. {j \<in> set (map fst (g_nodes g)). flag_of g j \<noteq> Some True}"
  have sub: "?A (set_flag True i g) \<subseteq> ?A g" unfolding keys by auto
  then show "open_nodes (set_flag True i g) \<le> open_nodes g"
    unfolding open_nodes_def by (intro card_mono) simp_all
  assume i: "hasNode g i" "flag_of g i = Some False"
  then have "i \<in> ?A g" "i \<notin> ?A (set_flag True i g)" by (simp_all add: hasNode_def)
  with sub have "?A (set_flag True i g) \<subset> ?A g" by blast
  then show "open_nodes (set_flag True i g) < open_nodes g"
    unfolding open_nodes_def by (intro psubset_card_mono) simp_all
qed

lemma bfs_action_measure:
  "bfs_action flags n s = s \<or> open_nodes (fst (bfs_action flags n s)) < open_nodes (fst s)"
  by (cases s, cases "getNode (fst s) n")
    (auto simp: bfs_action_def passes_def hasNode_getNode intro!: open_nodes_set_flag(2))

lemma bfs_fold_measure:
  "fold (\<lambda>(r, n) s. bfs_action flags n s) calls s = s
   \<or> open_nodes (fst (fold (\<lambda>(r, n) s. bfs_action flags n s) calls s)) < open_nodes (fst s)"
proof (induction calls arbitrary: s)
  case (Cons c calls)
  obtain r n where c: "c = (r, n)" by force
  from bfs_action_measure [of flags n s] Cons [of "bfs_action flags n s"] show ?case
    unfolding c by fastforce
qed simp

lemma open_nodes_same_nodes: "g_nodes g = g_nodes h \<Longrightarrow> open_nodes g = open_nodes h"
  by (simp add: open_nodes_def flag_of_def getNode_def)

lemma bfs_visit_measure:
  "open_nodes (fst (bfs_visit flags node queue g)) < open_nodes g
   \<or> (open_nodes (fst (bfs_visit flags node queue g)) \<le> open_nodes g \<and> snd (bfs_visit flags node queue g) = queue)"
proof -
  obtain g1 calls where e: "eachAdjacency node flags (set_flag True node g) = (g1, calls)" by force
  have "g_nodes g1 = g_nodes (set_flag True node g)"
    using nodes_eachAdjacency [of node flags "set_flag True node g"] by (simp add: e)
  then have "open_nodes g1 \<le> open_nodes g"
    using open_nodes_same_nodes open_nodes_set_flag(1) [of node g] by metis
  then show ?thesis
    using bfs_fold_measure [of flags calls "(g1, queue)"]
    unfolding bfs_visit_def e Let_def prod.case by auto
qed

text \<open>The loop returns the nodes passed to the action with their depth, in order.\<close>

function bfs_loop :: "string \<Rightarrow> id list \<Rightarrow> graph \<Rightarrow> graph \<times> (id \<times> int option) list" where
  "bfs_loop flags queue g =
     (if queue = [] then (g, [])
      else let node = last queue; rest = butlast queue;
               (h, q) = bfs_visit flags node rest g;
               (h', calls) = bfs_loop flags q h
           in (h', (node, depth_of g node) # calls))"
  by pat_completeness auto
termination
proof (relation "measures [\<lambda>(_, _, g). open_nodes g, \<lambda>(_, q, _). length q]", goal_cases)
  case (2 flags queue g node rest s h q)
  have hq: "h = fst (bfs_visit flags node rest g)" "q = snd (bfs_visit flags node rest g)"
    using 2 by (metis fst_conv, metis snd_conv)
  have "length rest < length queue" using 2 by simp
  then show ?case using bfs_visit_measure [of flags node rest g] unfolding hq by auto
qed simp

declare bfs_loop.simps [simp del]

definition eachBFS :: "graph \<Rightarrow> id \<Rightarrow> string \<Rightarrow> (graph \<times> (id \<times> int option) list) option" where
  "eachBFS graph rid flags =
     (let g = clean graph in if hasNode g rid then Some (bfs_loop flags [rid] g) else None)"

section \<open>Traversal by levels\<close>

text \<open>
  What a traversal does, in order: it turns an adjacence to start at a node, and it passes a
  node to the action.
\<close>

datatype level_event = Orient id nat | Visit id int

text \<open>The node an adjacence leads to once it starts at the given one.\<close>

definition other_end :: "graph \<Rightarrow> id \<Rightarrow> nat \<Rightarrow> id" where
  "other_end g node r =
     (let a = g_adjs g ! r in if a_nodeFrom a \<noteq> node then a_nodeFrom a else a_nodeTo a)"

definition up_to :: "int \<Rightarrow> int option \<Rightarrow> bool" where
  "up_to d levelEnd = (case levelEnd of None \<Rightarrow> True | Some e \<Rightarrow> d \<le> e)"

definition below :: "int \<Rightarrow> int option \<Rightarrow> bool" where
  "below d levelEnd = (case levelEnd of None \<Rightarrow> True | Some e \<Rightarrow> d < e)"

text \<open>An undefined depth compares as false with every number.\<close>

definition deeper :: "graph \<Rightarrow> id \<Rightarrow> int \<Rightarrow> bool" where
  "deeper g n d = (case depth_of g n of None \<Rightarrow> False | Some e \<Rightarrow> e > d)"

definition deeper_nodes :: "graph \<Rightarrow> id \<Rightarrow> id set" where
  "deeper_nodes g node =
     {i \<in> set (map fst (g_nodes g)). \<exists>d. depth_of g node = Some d \<and> deeper g i d}"

lemma deeper_in_nodes: "deeper g i d \<Longrightarrow> i \<in> set (map fst (g_nodes g))"
  unfolding keys_map_of by (cases "getNode g i") (simp_all add: deeper_def depth_of_def getNode_def)

lemma deeper_nodes_less:
  assumes "depth_of g node = Some d" and "deeper g n d"
  shows "card (deeper_nodes g n) < card (deeper_nodes g node)"
proof (rule psubset_card_mono)
  show "finite (deeper_nodes g node)" by (simp add: deeper_nodes_def)
  have "n \<in> deeper_nodes g node" using assms deeper_in_nodes by (simp add: deeper_nodes_def)
  moreover have "n \<notin> deeper_nodes g n" by (simp add: deeper_nodes_def deeper_def)
  moreover have "deeper_nodes g n \<subseteq> deeper_nodes g node"
    using assms by (auto simp: deeper_nodes_def deeper_def split: option.splits)
  ultimately show "deeper_nodes g n \<subset> deeper_nodes g node" by blast
qed

function loopLevel :: "graph \<Rightarrow> string \<Rightarrow> int \<Rightarrow> int option \<Rightarrow> id \<Rightarrow> level_event list" where
  "loopLevel g flags levelBegin levelEnd node =
     (case depth_of g node of
        None \<Rightarrow> []
      | Some d \<Rightarrow>
          (if d \<ge> levelBegin \<and> up_to d levelEnd \<and> passes flags g node then [Visit node d] else [])
          @ (if below d levelEnd then
               concat (map (\<lambda>(key, r).
                 let n = other_end g node r
                 in Orient node r
                    # (if deeper g n d then loopLevel g flags levelBegin levelEnd n else []))
                 (adjacencies g node))
             else []))"
  by pat_completeness auto
termination
  by (relation "measure (\<lambda>(g, _, _, _, node). card (deeper_nodes g node))") (auto intro: deeper_nodes_less)

declare loopLevel.simps [simp del]

definition eachLevel :: "graph \<Rightarrow> id \<Rightarrow> int \<Rightarrow> int option \<Rightarrow> string \<Rightarrow> level_event list" where
  "eachLevel g node levelBegin levelEnd flags =
     (case depth_of g node of
        None \<Rightarrow> []
      | Some d \<Rightarrow> loopLevel g flags (levelBegin + d) (map_option (\<lambda>e. e + d) levelEnd) node)"

definition level_graph :: "level_event list \<Rightarrow> graph \<Rightarrow> graph" where
  "level_graph events g = fold (\<lambda>e g. case e of Orient node r \<Rightarrow> orient node r g | Visit _ _ \<Rightarrow> g) events g"

fun visited :: "level_event list \<Rightarrow> id list" where
  "visited [] = []"
| "visited (Visit i d # es) = i # visited es"
| "visited (Orient _ _ # es) = visited es"

definition eachSubgraph :: "graph \<Rightarrow> id \<Rightarrow> string \<Rightarrow> level_event list" where
  "eachSubgraph g node flags = eachLevel g node 0 None flags"

definition eachSubnode :: "graph \<Rightarrow> id \<Rightarrow> string \<Rightarrow> level_event list" where
  "eachSubnode g node flags = eachLevel g node 1 (Some 1) flags"

definition anySubnode :: "graph \<Rightarrow> id \<Rightarrow> (gnode \<Rightarrow> bool) \<Rightarrow> string \<Rightarrow> bool" where
  "anySubnode g node cond flags =
     list_ex (\<lambda>i. case getNode g i of None \<Rightarrow> False | Some n \<Rightarrow> cond n) (visited (eachSubnode g node flags))"

text \<open>The levels are a number, the first level, or an array of the first and the last level.\<close>

definition getSubnodes :: "graph \<Rightarrow> id \<Rightarrow> int + int \<times> int \<Rightarrow> string \<Rightarrow> id list" where
  "getSubnodes g node level flags =
     visited (case level of
       Inl levelStart \<Rightarrow> eachLevel g node levelStart None flags
     | Inr (levelStart, levelEnd) \<Rightarrow> eachLevel g node levelStart (Some levelEnd) flags)"

definition getParents :: "graph \<Rightarrow> id \<Rightarrow> id list" where
  "getParents g node =
     filter (\<lambda>n. case (depth_of g n, depth_of g node) of (Some e, Some d) \<Rightarrow> e < d | _ \<Rightarrow> False)
       (map (\<lambda>(key, r). other_end g node r) (adjacencies g node))"

lemma getParents_deeper:
  assumes "p \<in> set (getParents g node)"
  obtains e where "depth_of g p = Some e" "deeper g node e"
  using assms that by (auto simp: getParents_def deeper_def split: option.splits)

text \<open>The nodes above a node get fewer with each step to a parent.\<close>

definition upper_nodes :: "graph \<Rightarrow> id \<Rightarrow> id set" where
  "upper_nodes g node =
     {i \<in> set (map fst (g_nodes g)). \<exists>d. depth_of g i = Some d \<and> deeper g node d}"

lemma upper_nodes_less:
  assumes "p \<in> set (getParents g node)"
  shows "card (upper_nodes g p) < card (upper_nodes g node)"
proof (rule psubset_card_mono)
  show "finite (upper_nodes g node)" by (simp add: upper_nodes_def)
  obtain e where e: "depth_of g p = Some e" "deeper g node e" using assms by (rule getParents_deeper)
  have "p \<in> set (map fst (g_nodes g))"
    unfolding keys_map_of using e(1) by (cases "getNode g p") (simp_all add: depth_of_def getNode_def)
  then have "p \<in> upper_nodes g node" using e by (simp add: upper_nodes_def)
  moreover have "p \<notin> upper_nodes g p" by (auto simp: upper_nodes_def deeper_def)
  moreover have "upper_nodes g p \<subseteq> upper_nodes g node"
    using e by (auto simp: upper_nodes_def deeper_def split: option.splits)
  ultimately show "upper_nodes g p \<subset> upper_nodes g node" by blast
qed

function isDescendantOf :: "graph \<Rightarrow> id \<Rightarrow> id \<Rightarrow> bool" where
  "isDescendantOf g node i =
     (if node = i then True else list_ex (\<lambda>p. isDescendantOf g p i) (getParents g node))"
  by pat_completeness auto
termination
  by (relation "measure (\<lambda>(g, node, _). card (upper_nodes g node))") (auto intro: upper_nodes_less)

declare isDescendantOf.simps [simp del]

section \<open>The closest node\<close>

definition distance :: "cpx \<Rightarrow> cpx \<Rightarrow> real" where
  "distance a b = (let d1 = c_x a - c_x b; d2 = c_y a - c_y b in d1 * d1 + d2 * d2)"

text \<open>
  The outer \<open>None\<close> is the exception raised for a property that names no position; the inner
  one stands for no node.
\<close>

definition closer :: "string \<Rightarrow> cpx \<Rightarrow> gnode \<Rightarrow> gnode option option \<Rightarrow> gnode option option" where
  "closer prop p elem acc =
     (case acc of
        None \<Rightarrow> None
      | Some None \<Rightarrow> Some (Some elem)
      | Some (Some node) \<Rightarrow>
          (case (node_getPos elem prop, node_getPos node prop) of
             (Some a, Some b) \<Rightarrow>
               Some (Some (if distance (getc a) p < distance (getc b) p then elem else node))
           | _ \<Rightarrow> None))"

definition getClosestNodeToPos :: "graph \<Rightarrow> pos option \<Rightarrow> string \<Rightarrow> string \<Rightarrow> gnode option option" where
  "getClosestNodeToPos graph pos prop flags =
     (let p = (case pos of None \<Rightarrow> Complex_KER | Some q \<Rightarrow> getc q)
      in fold (closer (type_or_current prop) p)
           (filter (filter_node flags) (map snd (g_nodes graph))) (Some None))"

definition getClosestNodeToOrigin :: "graph \<Rightarrow> string \<Rightarrow> string \<Rightarrow> gnode option option" where
  "getClosestNodeToOrigin graph prop flags =
     getClosestNodeToPos graph (Some (PosP Polar_KER)) prop flags"

section \<open>Transforming all positions\<close>

definition moebius_node :: "(cpx \<times> string) list \<Rightarrow> string \<Rightarrow> gnode \<Rightarrow> gnode option" where
  "moebius_node pos_props startPos n =
     foldl (\<lambda>acc (pos, prop).
        Option.bind acc (\<lambda>n.
          let p = complex_scale pos (-1);
              property = (if startPos = [] then prop else startPos)
          in Option.bind (node_getPos n property) (\<lambda>q.
               node_setPos (PosC (fst (moebiusTransformation (getc q) p))) prop n)))
       (Some n) pos_props"

definition graph_moebius :: "graph \<Rightarrow> (cpx \<times> string) list \<Rightarrow> string \<Rightarrow> string \<Rightarrow> graph option" where
  "graph_moebius graph pos_props startPos flags =
     foldl (\<lambda>acc i. Option.bind acc (\<lambda>g.
        case getNode g i of
          None \<Rightarrow> Some g
        | Some n \<Rightarrow>
            if filter_node flags n
            then map_option (\<lambda>m. upd_node i (\<lambda>_. m) g) (moebius_node pos_props startPos n)
            else Some g))
       (Some graph) (map fst (g_nodes graph))"

end
