(* ===== verification/Jit_Levels.thy ===== *)
theory Jit_Levels
  imports Jit_GraphUtil
begin

text \<open>
  The levels \<^verbatim>\<open>Graph.Util.computeLevels\<close> gives the nodes of a graph
  (\<^verbatim>\<open>rfweb/js/jit/jit.js\<close>) are breadth-first distances from its root. The locale
  \<open>level_search\<close> holds the argument for any set of nodes with a neighbour function: its queue
  may hold a node several times, but the first time a node is taken from it is in order of the
  distances. The graph of the library interprets it.
\<close>

section \<open>Breadth-first search with repeated queue entries\<close>

fun layer :: "(id \<Rightarrow> id list) \<Rightarrow> id \<Rightarrow> nat \<Rightarrow> id list" where
  "layer nb r 0 = [r]"
| "layer nb r (Suc k) = concat (map nb (layer nb r k))"

lemma remdups_append: "remdups (xs @ ys) = [x \<leftarrow> remdups xs. x \<notin> set ys] @ remdups ys"
  by (induction xs) auto

lemma remdups_filter': "remdups (filter p xs) = filter p (remdups xs)"
  by (simp add: remdups_filter)

text \<open>The entries of the queue that still have to be visited, the next one last.\<close>

definition pending :: "(id \<Rightarrow> bool) \<Rightarrow> id list \<Rightarrow> id list" where
  "pending fl queue = remdups (filter (\<lambda>x. \<not> fl x) queue)"

locale level_search =
  fixes ok :: "id \<Rightarrow> bool" and nb :: "id \<Rightarrow> id list" and r :: id and sd :: int
  assumes ok_root: "ok r"
    and ok_nb: "y \<in> set (nb x) \<Longrightarrow> ok y"
    and sd_nonneg: "0 \<le> sd"
begin

text \<open>The nodes with a depth are those visited or queued.\<close>

definition labelled :: "(id \<Rightarrow> bool) \<Rightarrow> (id \<Rightarrow> int) \<Rightarrow> id list \<Rightarrow> bool" where
  "labelled fl dep queue \<longleftrightarrow>
     (\<forall>x \<in> set queue. ok x) \<and> (\<forall>x. ok x \<longrightarrow> (fl x \<or> x \<in> set queue \<longleftrightarrow> 0 \<le> dep x))"

text \<open>A depth is the length of a path from the root.\<close>

definition sound :: "(id \<Rightarrow> int) \<Rightarrow> bool" where
  "sound dep \<longleftrightarrow>
     dep r = sd \<and> (\<forall>x. ok x \<longrightarrow> dep x < 0 \<longrightarrow> dep x = -1)
     \<and> (\<forall>x. ok x \<longrightarrow> 0 \<le> dep x \<longrightarrow> (\<exists>k. x \<in> set (layer nb r k) \<and> dep x = sd + int k * (1 + sd)))"

text \<open>The neighbours of a visited node are at most one level deeper.\<close>

definition closed :: "(id \<Rightarrow> bool) \<Rightarrow> (id \<Rightarrow> int) \<Rightarrow> bool" where
  "closed fl dep \<longleftrightarrow>
     (\<forall>x y. ok x \<longrightarrow> fl x \<longrightarrow> y \<in> set (nb x) \<longrightarrow> 0 \<le> dep y \<and> dep y \<le> dep x + 1 + sd)"

text \<open>Nodes are visited in the order of their depths, which span at most two levels in the queue.\<close>

definition ordered :: "(id \<Rightarrow> bool) \<Rightarrow> (id \<Rightarrow> int) \<Rightarrow> id list \<Rightarrow> bool" where
  "ordered fl dep pend \<longleftrightarrow>
     sorted_wrt (\<lambda>a b. dep b \<le> dep a) pend
     \<and> (\<forall>y \<in> set pend. dep y \<le> dep (last pend) + 1 + sd)
     \<and> (\<forall>x. \<forall>y \<in> set pend. ok x \<longrightarrow> fl x \<longrightarrow> dep x \<le> dep y)"

definition search_inv :: "(id \<Rightarrow> bool) \<Rightarrow> (id \<Rightarrow> int) \<Rightarrow> id list \<Rightarrow> bool" where
  "search_inv fl dep queue \<longleftrightarrow>
     labelled fl dep queue \<and> sound dep \<and> closed fl dep \<and> ordered fl dep (pending fl queue)"

text \<open>Taking a node that was visited before queues nodes that are queued already.\<close>

lemma inv_flagged:
  assumes inv: "search_inv fl dep (q @ [x])" and "fl x"
  shows "search_inv fl dep (rev [y \<leftarrow> nb x. \<not> fl y] @ q)"
proof -
  let ?new = "rev [y \<leftarrow> nb x. \<not> fl y]"
  have lab: "labelled fl dep (q @ [x])" and cl: "closed fl dep" using inv by (auto simp: search_inv_def)
  then have "ok x" by (simp add: labelled_def)
  have new: "y \<in> set q" if "y \<in> set ?new" for y
  proof -
    from that have y: "y \<in> set (nb x)" "\<not> fl y" by auto
    then have "0 \<le> dep y" using cl \<open>ok x\<close> assms(2) by (auto simp: closed_def)
    then have "fl y \<or> y \<in> set (q @ [x])" using lab ok_nb y(1) unfolding labelled_def by blast
    then show ?thesis using y(2) assms(2) by auto
  qed
  have "pending fl (?new @ q) = pending fl q"
    using new by (auto simp: pending_def remdups_append filter_empty_conv)
  moreover have "pending fl (q @ [x]) = pending fl q" using assms(2) by (simp add: pending_def)
  moreover have "labelled fl dep (?new @ q)"
    using lab new assms(2) unfolding labelled_def by auto
  ultimately show ?thesis using inv by (simp add: search_inv_def)
qed

text \<open>Visiting a node gives the neighbours that have no depth yet the next one.\<close>

definition visit_dep :: "(id \<Rightarrow> bool) \<Rightarrow> (id \<Rightarrow> int) \<Rightarrow> id \<Rightarrow> id \<Rightarrow> int" where
  "visit_dep fl dep x y = (if y \<in> set (nb x) \<and> \<not> fl y \<and> dep y < 0 then dep x + 1 + sd else dep y)"

lemma visit_dep_old: "0 \<le> dep y \<Longrightarrow> visit_dep fl dep x y = dep y"
  by (simp add: visit_dep_def)

lemma open_labelled:
  assumes lab: "labelled fl dep (q @ [x])" and "0 \<le> dep x"
  defines "fl' \<equiv> fl(x := True)"
  shows "labelled fl' (visit_dep fl' dep x) (rev [y \<leftarrow> nb x. \<not> fl' y] @ q)"
  unfolding labelled_def
proof (intro conjI allI impI)
  show "\<forall>z \<in> set (rev [y \<leftarrow> nb x. \<not> fl' y] @ q). ok z" using lab ok_nb by (auto simp: labelled_def)
  fix z
  assume "ok z"
  then have z: "fl z \<or> z \<in> set (q @ [x]) \<longleftrightarrow> 0 \<le> dep z" using lab unfolding labelled_def by blast
  show "fl' z \<or> z \<in> set (rev [y \<leftarrow> nb x. \<not> fl' y] @ q) \<longleftrightarrow> 0 \<le> visit_dep fl' dep x z"
  proof (cases "z \<in> set (nb x) \<and> \<not> fl' z \<and> dep z < 0")
    case True
    then show ?thesis using assms(2) sd_nonneg by (auto simp: visit_dep_def)
  next
    case False
    then have "visit_dep fl' dep x z = dep z" by (auto simp: visit_dep_def)
    then show ?thesis using z False by (auto simp: fl'_def split: if_splits)
  qed
qed

lemma open_sound:
  assumes sound: "sound dep" and "0 \<le> dep x" and "ok x"
  shows "sound (visit_dep fl' dep x)"
  unfolding sound_def
proof (intro conjI allI impI)
  show "visit_dep fl' dep x r = sd" using sound sd_nonneg by (simp add: sound_def visit_dep_old)
  show "visit_dep fl' dep x z = -1" if "ok z" "visit_dep fl' dep x z < 0" for z
    using that sound assms(2) sd_nonneg by (auto simp: sound_def visit_dep_def split: if_splits)
  obtain k where k: "x \<in> set (layer nb r k)" "dep x = sd + int k * (1 + sd)"
    using sound assms(2,3) unfolding sound_def by blast
  show "\<exists>k. z \<in> set (layer nb r k) \<and> visit_dep fl' dep x z = sd + int k * (1 + sd)"
    if "ok z" "0 \<le> visit_dep fl' dep x z" for z
  proof (cases "z \<in> set (nb x) \<and> \<not> fl' z \<and> dep z < 0")
    case True
    then have "z \<in> set (layer nb r (Suc k))" using k(1) by auto
    moreover have "visit_dep fl' dep x z = sd + int (Suc k) * (1 + sd)"
      using True by (simp add: visit_dep_def k(2) algebra_simps)
    ultimately show ?thesis by blast
  next
    case False
    then have "visit_dep fl' dep x z = dep z" by (auto simp: visit_dep_def)
    then show ?thesis using that sound by (simp add: sound_def)
  qed
qed

text \<open>What the pending entries are before and after the visit.\<close>

lemma pending_before:
  "\<not> fl x \<Longrightarrow> pending fl (q @ [x]) = pending (fl(x := True)) q @ [x]"
proof -
  assume "\<not> fl x"
  have "filter (\<lambda>y. \<not> (fl(x := True)) y) q = filter (\<lambda>y. y \<noteq> x) (filter (\<lambda>y. \<not> fl y) q)"
    by (auto intro!: filter_cong)
  then show ?thesis using \<open>\<not> fl x\<close> by (simp add: pending_def remdups_append remdups_filter')
qed

lemma pending_after:
  "pending fl' (rev [y \<leftarrow> nb x. \<not> fl' y] @ q) =
     [y \<leftarrow> remdups (rev [y \<leftarrow> nb x. \<not> fl' y]). y \<notin> set q] @ pending fl' q"
proof -
  let ?new = "rev [y \<leftarrow> nb x. \<not> fl' y]"
  have "filter (\<lambda>y. \<not> fl' y) ?new = ?new" by (auto simp: filter_id_conv)
  moreover have "[y \<leftarrow> remdups ?new. y \<notin> set (filter (\<lambda>y. \<not> fl' y) q)] = [y \<leftarrow> remdups ?new. y \<notin> set q]"
    by (rule filter_cong) auto
  ultimately show ?thesis by (simp add: pending_def remdups_append)
qed

text \<open>The depths around a visited node: of the nodes visited before, waiting, and new.\<close>

lemma visit_levels:
  assumes lab: "labelled fl dep (q @ [x])" and ord: "ordered fl dep (pending fl (q @ [x]))" and "\<not> fl x"
  defines "fl' \<equiv> fl(x := True)"
  shows "ok z \<Longrightarrow> fl' z \<Longrightarrow> 0 \<le> dep z \<and> dep z \<le> dep x"
    and "z \<in> set q \<Longrightarrow> \<not> fl' z \<Longrightarrow> dep x \<le> dep z \<and> dep z \<le> dep x + 1 + sd \<and> visit_dep fl' dep x z = dep z"
    and "z \<in> set (nb x) \<Longrightarrow> \<not> fl' z \<Longrightarrow> z \<notin> set q \<Longrightarrow> visit_dep fl' dep x z = dep x + 1 + sd"
proof -
  have x: "ok x" "0 \<le> dep x" using lab by (auto simp: labelled_def)
  note ord' = ord [unfolded pending_before [of fl x, OF assms(3)] ordered_def, folded fl'_def]
  show "0 \<le> dep z \<and> dep z \<le> dep x" if "ok z" "fl' z"
  proof (cases "z = x")
    case False
    then have "fl z" using that by (simp add: fl'_def)
    moreover from this have "0 \<le> dep z" using lab that unfolding labelled_def by blast
    ultimately show ?thesis using ord' that(1) by simp
  qed (use x in simp)
  show "dep x \<le> dep z \<and> dep z \<le> dep x + 1 + sd \<and> visit_dep fl' dep x z = dep z" if "z \<in> set q" "\<not> fl' z"
  proof -
    have "z \<in> set (pending fl' q)" using that by (simp add: pending_def)
    then have "dep x \<le> dep z" "dep z \<le> dep x + 1 + sd" using ord' by (auto simp: sorted_wrt_append)
    then show ?thesis using x by (simp add: visit_dep_old)
  qed
  show "visit_dep fl' dep x z = dep x + 1 + sd" if z: "z \<in> set (nb x)" "\<not> fl' z" "z \<notin> set q"
  proof -
    have "\<not> (fl z \<or> z \<in> set (q @ [x]))" using z by (auto simp: fl'_def split: if_splits)
    then have "dep z < 0" using lab ok_nb [OF z(1)] unfolding labelled_def by (metis linorder_not_less)
    then show ?thesis using z by (simp add: visit_dep_def)
  qed
qed

lemma open_closed:
  assumes lab: "labelled fl dep (q @ [x])" and ord: "ordered fl dep (pending fl (q @ [x]))" and "\<not> fl x"
    and cl: "closed fl dep"
  defines "fl' \<equiv> fl(x := True)"
  shows "closed fl' (visit_dep fl' dep x)"
  unfolding closed_def
proof (intro allI impI)
  fix z y
  assume zy: "ok z" "fl' z" "y \<in> set (nb z)"
  note levels = visit_levels [OF lab ord assms(3), folded fl'_def]
  let ?d = "visit_dep fl' dep x"
  have z: "?d z = dep z" "dep z \<le> dep x" using levels(1) [OF zy(1,2)] by (auto simp: visit_dep_old)
  have x: "0 \<le> dep x" using lab by (auto simp: labelled_def)
  show "0 \<le> ?d y \<and> ?d y \<le> ?d z + 1 + sd"
  proof (cases "z = x")
    case True
    consider "fl' y" | "\<not> fl' y" "y \<in> set q" | "\<not> fl' y" "y \<notin> set q" by blast
    then show ?thesis
    proof cases
      case 1
      then show ?thesis using levels(1) [OF ok_nb [OF zy(3)]] sd_nonneg z True by (auto simp: visit_dep_old)
    next
      case 2
      then show ?thesis using levels(2) [of y] x z True by simp
    next
      case 3
      then show ?thesis using levels(3) [of y] zy(3) x sd_nonneg z True by simp
    qed
  next
    case False
    then have "fl z" using zy(2) by (simp add: fl'_def)
    then have "0 \<le> dep y \<and> dep y \<le> dep z + 1 + sd" using cl zy unfolding closed_def by blast
    then show ?thesis using z by (simp add: visit_dep_old)
  qed
qed

lemma open_ordered:
  assumes lab: "labelled fl dep (q @ [x])" and ord: "ordered fl dep (pending fl (q @ [x]))" and "\<not> fl x"
  defines "fl' \<equiv> fl(x := True)"
  shows "ordered fl' (visit_dep fl' dep x) (pending fl' (rev [y \<leftarrow> nb x. \<not> fl' y] @ q))"
proof -
  note levels = visit_levels [OF lab ord assms(3), folded fl'_def]
  let ?d = "visit_dep fl' dep x"
  let ?N = "[y \<leftarrow> remdups (rev [y \<leftarrow> nb x. \<not> fl' y]). y \<notin> set q]" and ?P = "pending fl' q"
  have N: "?d y = dep x + 1 + sd" if "y \<in> set ?N" for y using that levels(3) by simp
  have P: "dep x \<le> ?d y" "?d y \<le> dep x + 1 + sd" "?d y = dep y" if "y \<in> set ?P" for y
    using that levels(2) [of y] by (auto simp: pending_def)
  have all: "dep x \<le> ?d y \<and> ?d y \<le> dep x + 1 + sd" if "y \<in> set (?N @ ?P)" for y
    using that N [of y] P [of y] sd_nonneg by (auto simp del: set_filter)
  have "sorted_wrt (\<lambda>a b. dep b \<le> dep a) ?P"
    using ord unfolding pending_before [of fl x, OF assms(3)] ordered_def fl'_def by (simp add: sorted_wrt_append)
  then have "sorted_wrt (\<lambda>a b. ?d b \<le> ?d a) ?P"
    by (rule sorted_wrt_mono_rel [rotated]) (simp add: P(3))
  moreover have "sorted_wrt (\<lambda>a b. ?d b \<le> ?d a) ?N"
    by (auto simp: sorted_wrt_iff_nth_less N nth_mem simp del: set_filter)
  ultimately have "sorted_wrt (\<lambda>a b. ?d b \<le> ?d a) (?N @ ?P)"
    unfolding sorted_wrt_append using N P(2) by (simp del: set_filter)
  moreover have "?d y \<le> ?d (last (?N @ ?P)) + 1 + sd" if "y \<in> set (?N @ ?P)" for y
    using all [OF that] all [OF last_in_set] that by fastforce
  moreover have "?d z \<le> ?d y" if "y \<in> set (?N @ ?P)" "ok z" "fl' z" for y z
    using all [OF that(1)] levels(1) [OF that(2,3)] by (simp add: visit_dep_old)
  ultimately show ?thesis unfolding pending_after ordered_def by blast
qed

lemma inv_open:
  assumes inv: "search_inv fl dep (q @ [x])" and "\<not> fl x"
  defines "fl' \<equiv> fl(x := True)"
  shows "search_inv fl' (visit_dep fl' dep x) (rev [y \<leftarrow> nb x. \<not> fl' y] @ q)"
proof -
  have parts: "labelled fl dep (q @ [x])" "sound dep" "closed fl dep" "ordered fl dep (pending fl (q @ [x]))"
    using inv by (auto simp: search_inv_def)
  then have x: "ok x" "0 \<le> dep x" by (auto simp: labelled_def)
  show ?thesis
    unfolding search_inv_def fl'_def
    using open_labelled [OF parts(1) x(2)] open_sound [OF parts(2) x(2,1)]
      open_closed [OF parts(1,4) assms(2) parts(3)] open_ordered [OF parts(1,4) assms(2)] by blast
qed

text \<open>When the queue is empty, the depths are the distances from the root.\<close>

lemma inv_end:
  assumes inv: "search_inv fl dep []" and "ok x"
  shows "x \<in> set (layer nb r k) \<Longrightarrow> (\<And>j. j < k \<Longrightarrow> x \<notin> set (layer nb r j)) \<Longrightarrow> dep x = sd + int k * (1 + sd)"
    and "(\<And>k. x \<notin> set (layer nb r k)) \<Longrightarrow> dep x = -1"
proof -
  have parts: "labelled fl dep []" "sound dep" "closed fl dep" using inv by (auto simp: search_inv_def)
  have bound: "ok y \<and> 0 \<le> dep y \<and> dep y \<le> sd + int k * (1 + sd)" if "y \<in> set (layer nb r k)" for y k
    using that
  proof (induction k arbitrary: y)
    case 0
    then show ?case using parts(2) ok_root sd_nonneg by (auto simp: sound_def)
  next
    case (Suc k)
    then obtain z where z: "z \<in> set (layer nb r k)" "y \<in> set (nb z)" by auto
    from Suc.IH [OF z(1)] have "ok z" "0 \<le> dep z" "dep z \<le> sd + int k * (1 + sd)" by auto
    moreover from this have "fl z" using parts(1) by (auto simp: labelled_def)
    ultimately have "0 \<le> dep y \<and> dep y \<le> dep z + 1 + sd" using parts(3) z(2) unfolding closed_def by blast
    with \<open>dep z \<le> _\<close> show ?case using ok_nb [OF z(2)] by (auto simp: algebra_simps)
  qed
  have lev: "\<exists>j. x \<in> set (layer nb r j) \<and> dep x = sd + int j * (1 + sd)" if "0 \<le> dep x"
    using parts(2) assms(2) that unfolding sound_def by blast
  show "dep x = sd + int k * (1 + sd)" if x: "x \<in> set (layer nb r k)" "\<And>j. j < k \<Longrightarrow> x \<notin> set (layer nb r j)"
  proof -
    have b: "0 \<le> dep x" "dep x \<le> sd + int k * (1 + sd)" using bound [OF x(1)] by auto
    obtain j where j: "x \<in> set (layer nb r j)" "dep x = sd + int j * (1 + sd)" using lev [OF b(1)] by blast
    have "int j * (1 + sd) \<le> int k * (1 + sd)" using b(2) j(2) by simp
    then have "j \<le> k" using sd_nonneg by simp
    moreover have "\<not> j < k" using x(2) j(1) by blast
    ultimately show ?thesis using j(2) by simp
  qed
  show "dep x = -1" if "\<And>k. x \<notin> set (layer nb r k)"
    using lev that parts(2) assms(2) unfolding sound_def by (metis linorder_not_less)
qed

end

section \<open>What a traversal leaves unchanged\<close>

text \<open>
  Two graphs that differ only in the flags and depths of their nodes and in the direction of
  their adjacencies.
\<close>

definition same_node :: "gnode \<Rightarrow> gnode \<Rightarrow> bool" where
  "same_node n m \<longleftrightarrow> m = n\<lparr>n_flag := n_flag m, n_depth := n_depth m\<rparr>"

definition same_adj :: "adjacence \<Rightarrow> adjacence \<Rightarrow> bool" where
  "same_adj a b \<longleftrightarrow> a_ext a = a_ext b
     \<and> (a_nodeFrom a = a_nodeFrom b \<and> a_nodeTo a = a_nodeTo b \<or> a_nodeFrom a = a_nodeTo b \<and> a_nodeTo a = a_nodeFrom b)"

definition marks_only :: "graph \<Rightarrow> graph \<Rightarrow> bool" where
  "marks_only g h \<longleftrightarrow>
     g_edges h = g_edges g \<and> list_all2 same_adj (g_adjs g) (g_adjs h)
     \<and> map fst (g_nodes h) = map fst (g_nodes g)
     \<and> (\<forall>i. rel_option same_node (getNode g i) (getNode h i))"

lemma same_node_refl [simp]: "same_node n n"
  by (simp add: same_node_def)

lemma same_node_id: "same_node n m \<Longrightarrow> n_id m = n_id n"
  unfolding same_node_def by (drule arg_cong [of _ _ n_id]) simp

lemma same_node_trans: "same_node a b \<Longrightarrow> same_node b c \<Longrightarrow> same_node a c"
  by (cases a, cases b, cases c) (simp add: same_node_def)

lemma same_adj_refl [simp]: "same_adj a a"
  by (simp add: same_adj_def)

lemma same_adj_trans: "same_adj a b \<Longrightarrow> same_adj b c \<Longrightarrow> same_adj a c"
  by (auto simp: same_adj_def)

lemma marks_only_refl [simp]: "marks_only g g"
  by (simp add: marks_only_def list_all2_refl option.rel_refl)

lemma marks_only_trans: "marks_only g h \<Longrightarrow> marks_only h k \<Longrightarrow> marks_only g k"
proof -
  assume gh: "marks_only g h" and hk: "marks_only h k"
  have "rel_option same_node (getNode g i) (getNode k i)" for i
  proof -
    have "rel_option same_node (getNode g i) (getNode h i)" "rel_option same_node (getNode h i) (getNode k i)"
      using gh hk by (simp_all add: marks_only_def)
    then show ?thesis
      by (cases "getNode g i"; cases "getNode h i"; cases "getNode k i") (auto intro: same_node_trans)
  qed
  moreover have "list_all2 same_adj (g_adjs g) (g_adjs k)"
    using gh hk by (auto simp: marks_only_def intro: list_all2_trans [OF same_adj_trans])
  ultimately show ?thesis using gh hk by (simp add: marks_only_def)
qed

lemma upd_node_parts [simp]:
  "g_edges (upd_node i f g) = g_edges g" "g_adjs (upd_node i f g) = g_adjs g"
  by (simp_all add: upd_node_def)

lemma marks_only_upd_node: "(\<And>n. same_node n (f n)) \<Longrightarrow> marks_only g (upd_node i f g)"
  by (simp add: marks_only_def list_all2_refl option.rel_map option.rel_refl)

lemma marks_only_set [simp]: "marks_only g (set_flag b i g)" "marks_only g (set_depth d i g)"
  by (simp_all add: set_flag_def set_depth_def marks_only_upd_node same_node_def)

lemma marks_only_orient [simp]: "marks_only g (orient node r g)"
proof (cases "r < length (g_adjs g)")
  case True
  let ?a = "g_adjs g ! r"
  have "list_all2 same_adj (g_adjs g) ((g_adjs g)[r := ?a\<lparr>a_nodeFrom := a_nodeTo ?a, a_nodeTo := a_nodeFrom ?a\<rparr>])"
    using True by (simp add: list_all2_conv_all_nth nth_list_update same_adj_def)
  then show ?thesis
    by (simp add: orient_def Let_def marks_only_def getNode_def option.rel_refl list_all2_refl)
qed (simp add: orient_def Let_def marks_only_def getNode_def option.rel_refl list_all2_refl list_update_beyond)

text \<open>Lookups that only depend on what is left unchanged.\<close>

lemma marks_only_lookups:
  assumes "marks_only g h"
  shows "adjacencies h i = adjacencies g i" "getAdjacence h i j = getAdjacence g i j" "hasNode h i = hasNode g i"
  using assms by (simp_all add: marks_only_def adjacencies_def getAdjacence_def hasNode_def flip: set_map)

lemma marks_only_filter_adj:
  "marks_only g h \<Longrightarrow> r < length (g_adjs g) \<Longrightarrow> filter_adj flags (g_adjs h ! r) = filter_adj flags (g_adjs g ! r)"
  by (auto simp: marks_only_def list_all2_conv_all_nth filter_adj_def adj_prop_def [abs_def] same_adj_def)

text \<open>Flags that do not name the marks of the traversals.\<close>

definition plain_flags :: "string \<Rightarrow> bool" where
  "plain_flags flags \<longleftrightarrow> ''_flag'' \<notin> set (flag_props flags) \<and> ''_depth'' \<notin> set (flag_props flags)"

lemma same_node_filter:
  assumes "same_node n m" and "plain_flags flags"
  shows "filter_node flags m = filter_node flags n"
proof -
  have "node_prop m p = node_prop n p" if "p \<in> set (flag_props flags)" for p
  proof -
    have "p \<noteq> ''_flag''" "p \<noteq> ''_depth''" using that assms(2) by (auto simp: plain_flags_def)
    then show ?thesis using assms(1) unfolding node_prop_def same_node_def
      by (cases m, cases n) simp
  qed
  then show ?thesis by (simp add: filter_node_def list_all_iff)
qed

lemma marks_only_passes:
  assumes "marks_only g h" and "plain_flags flags"
  shows "passes flags h i = passes flags g i"
proof -
  have "rel_option same_node (getNode g i) (getNode h i)" using assms(1) by (simp add: marks_only_def)
  then show ?thesis
    using assms(2) by (cases "getNode g i"; cases "getNode h i") (auto simp: passes_def same_node_filter)
qed

lemma wf_same_links:
  assumes wf: "wf_graph g"
    and edges: "g_edges h = g_edges g" and adjs: "list_all2 same_adj (g_adjs g) (g_adjs h)"
    and keys: "map fst (g_nodes h) = map fst (g_nodes g)"
    and ids: "\<forall>i. rel_option (\<lambda>n m. n_id m = n_id n) (getNode g i) (getNode h i)"
  shows "wf_graph h"
  unfolding wf_graph_iff
proof (intro conjI allI impI)
  have look: "adjacencies h a = adjacencies g a" "getAdjacence h a b = getAdjacence g a b" "hasNode h a = hasNode g a" for a b
    using edges keys by (simp_all add: adjacencies_def getAdjacence_def hasNode_def flip: set_map)
  show "distinct (map fst (g_nodes h))" "distinct (map fst (g_edges h))"
    "set (map fst (g_edges h)) = set (map fst (g_nodes h))"
    using wf edges keys by (auto simp: wf_graph_def)
  show "n_id n = i" if "getNode h i = Some n" for i n
  proof -
    have "rel_option (\<lambda>n m. n_id m = n_id n) (getNode g i) (Some n)" using ids that by metis
    then obtain n' where "getNode g i = Some n'" "n_id n = n_id n'" by (cases "getNode g i") auto
    then show ?thesis using wf by (metis wf_graph_iff)
  qed
  show "distinct (map fst (adjacencies h a))" for a
    using wf by (simp add: look wf_graph_iff)
  show "adj_ok h a b r" if "getAdjacence h a b = Some r" for a b r
  proof -
    have ok: "adj_ok g a b r" using that wf by (metis look(2) wf_adj_ok)
    then have "same_adj (g_adjs g ! r) (g_adjs h ! r)" "length (g_adjs h) = length (g_adjs g)"
      using adjs by (auto simp: adj_ok_def list_all2_conv_all_nth)
    then show ?thesis using ok unfolding adj_ok_def look same_adj_def by metis
  qed
qed

lemma marks_only_wf:
  assumes "wf_graph g" "marks_only g h"
  shows "wf_graph h"
proof -
  have "rel_option (\<lambda>n m. n_id m = n_id n) (getNode g i) (getNode h i)" for i
    using assms(2) by (auto simp: marks_only_def dest: same_node_id intro: option.rel_mono_strong [of same_node])
  then show ?thesis using assms(2) by (intro wf_same_links [OF assms(1)]) (simp_all add: marks_only_def)
qed

section \<open>The neighbours a traversal visits\<close>

definition linked :: "string \<Rightarrow> graph \<Rightarrow> id \<Rightarrow> id list" where
  "linked flags g node = map fst (filter (\<lambda>(k, r). filter_adj flags (g_adjs g ! r)) (adjacencies g node))"

definition neighbours :: "string \<Rightarrow> graph \<Rightarrow> id \<Rightarrow> id list" where
  "neighbours flags g node = filter (passes flags g) (linked flags g node)"

lemma orient_target:
  assumes "wf_graph g" and "getAdjacence g node k = Some r"
  shows "a_nodeTo (g_adjs (orient node r g) ! r) = k"
proof -
  have "adj_ok g node k r" using assms by (rule wf_adj_ok)
  then have r: "r < length (g_adjs g)" and ends: "a_nodeFrom (g_adjs g ! r) = node \<and> a_nodeTo (g_adjs g ! r) = k
      \<or> a_nodeFrom (g_adjs g ! r) = k \<and> a_nodeTo (g_adjs g ! r) = node"
    by (auto simp: adj_ok_def)
  show ?thesis
  proof (cases "a_nodeFrom (g_adjs g ! r) = node")
    case True
    then show ?thesis using ends by (auto simp: orient_def Let_def)
  next
    case False
    then show ?thesis using ends r by (simp add: orient_def Let_def)
  qed
qed

lemma adj_fold:
  assumes "wf_graph g0" and "\<forall>(k, r) \<in> set as. getAdjacence g0 node k = Some r" and "marks_only g0 g"
  shows "marks_only g0 (fst (fold (adj_step flags node) as (g, calls)))
    \<and> map snd (snd (fold (adj_step flags node) as (g, calls)))
      = map snd calls @ map fst (filter (\<lambda>(k, r). filter_adj flags (g_adjs g0 ! r)) as)"
  using assms(2,3)
proof (induction as arbitrary: g calls)
  case (Cons kr as)
  obtain k r where kr: "kr = (k, r)" by force
  have adj: "getAdjacence g0 node k = Some r" using Cons.prems(1) by (simp add: kr)
  have r: "r < length (g_adjs g0)" using wf_adj_ok [OF assms(1) adj] by (simp add: adj_ok_def)
  have g: "wf_graph g" "getAdjacence g node k = Some r"
    using marks_only_wf [OF assms(1) Cons.prems(2)] adj by (simp_all add: marks_only_lookups(2) [OF Cons.prems(2)])
  have flt: "filter_adj flags (g_adjs g ! r) = filter_adj flags (g_adjs g0 ! r)"
    using Cons.prems(2) r by (rule marks_only_filter_adj)
  have m: "marks_only g0 (orient node r g)"
    using Cons.prems(2) marks_only_orient by (rule marks_only_trans)
  have step: "adj_step flags node kr (g, calls) =
      (if filter_adj flags (g_adjs g0 ! r) then (orient node r g, calls @ [(r, k)]) else (g, calls))"
    using orient_target [OF g] by (simp add: adj_step_def kr flt Let_def)
  have rest: "\<forall>(k, r) \<in> set as. getAdjacence g0 node k = Some r" using Cons.prems(1) by simp
  show ?case
    using Cons.IH [OF rest m, of "calls @ [(r, k)]"] Cons.IH [OF rest Cons.prems(2), of calls]
    unfolding fold_Cons comp_apply step by (simp add: kr)
qed simp

lemma eachAdjacency_linked:
  assumes wf: "wf_graph g"
  shows "marks_only g (fst (eachAdjacency node flags g))"
    and "map snd (snd (eachAdjacency node flags g)) = linked flags g node"
proof -
  have "distinct (map fst (adjacencies g node))" using wf by (simp add: wf_graph_iff)
  then have "\<forall>(k, r) \<in> set (adjacencies g node). getAdjacence g node k = Some r"
    by (auto simp: getAdjacence_def)
  from adj_fold [OF wf this marks_only_refl, of flags "[]"]
  show "marks_only g (fst (eachAdjacency node flags g))"
    "map snd (snd (eachAdjacency node flags g)) = linked flags g node"
    by (simp_all add: eachAdjacency_def linked_def)
qed

interpretation level_bfs:
  level_search "\<lambda>x. x = rid \<or> passes flags g x" "neighbours flags g" rid "int sd" for g flags rid sd
  by unfold_locales (auto simp: neighbours_def)

abbreviation graph_inv :: "graph \<Rightarrow> string \<Rightarrow> id \<Rightarrow> nat \<Rightarrow> (id \<Rightarrow> bool) \<Rightarrow> (id \<Rightarrow> int) \<Rightarrow> id list \<Rightarrow> bool" where
  "graph_inv g flags rid sd \<equiv>
     level_search.search_inv (\<lambda>x. x = rid \<or> passes flags g x) (neighbours flags g) rid (int sd)"

section \<open>One visit\<close>

text \<open>The nodes a visit queues.\<close>

definition cand :: "string \<Rightarrow> graph \<Rightarrow> id \<Rightarrow> bool" where
  "cand flags g n \<longleftrightarrow> flag_of g n = Some False \<and> passes flags g n"

definition negative :: "graph \<Rightarrow> id \<Rightarrow> bool" where
  "negative g x \<longleftrightarrow> (\<exists>k. depth_of g x = Some k \<and> k < 0)"

definition next_depth :: "int \<Rightarrow> graph \<Rightarrow> id \<Rightarrow> int option" where
  "next_depth sd g node = map_option (\<lambda>d. d + 1 + sd) (depth_of g node)"

lemma depth_set_depth:
  "depth_of (set_depth d i g) j = (if j = i \<and> hasNode g i then d else depth_of g j)"
  by (cases "getNode g j") (auto simp: set_depth_def depth_of_def hasNode_getNode)

lemma depth_set_flag [simp]: "depth_of (set_flag b i g) j = depth_of g j"
  by (cases "getNode g j") (auto simp: set_flag_def depth_of_def)

lemma hasNode_set_flag [simp]: "hasNode (set_flag b i g) j = hasNode g j"
  by (simp add: set_flag_def)

lemma passes_hasNode: "passes flags g n \<Longrightarrow> hasNode g n"
  by (auto simp: passes_def hasNode_getNode split: option.splits)

lemma level_action_step:
  fixes g :: graph and q :: "id list" and sd :: int and flags :: string and node n :: id
  defines "h \<equiv> fst (level_action sd flags (depth_of g node) n (g, q))"
  shows "marks_only g h" and "flag_of h x = flag_of g x"
    and "snd (level_action sd flags (depth_of g node) n (g, q)) = (if cand flags g n then [n] else []) @ q"
    and "depth_of h x = (if x = n \<and> cand flags g n \<and> negative g n then next_depth sd g node else depth_of g x)"
  using passes_hasNode [of flags g n]
  by (auto simp: h_def level_action_def cand_def negative_def next_depth_def depth_set_depth Let_def
      split: option.splits)

lemma cand_marks:
  assumes "marks_only g h" and "plain_flags flags" and "\<And>x. flag_of h x = flag_of g x"
  shows "cand flags h n = cand flags g n"
  using assms by (simp add: cand_def marks_only_passes)

lemma level_fold:
  fixes g :: graph and sd :: int and flags :: string and node :: id
  assumes "flag_of g node = Some True" and plain: "plain_flags flags"
  defines "res \<equiv> \<lambda>calls s. fold (\<lambda>(r :: nat, n) s. level_action sd flags (depth_of (fst s) node) n s) calls s"
  shows "marks_only g (fst (res calls (g, q))) \<and> (\<forall>x. flag_of (fst (res calls (g, q))) x = flag_of g x)
    \<and> snd (res calls (g, q)) = rev (filter (cand flags g) (map snd calls)) @ q
    \<and> (\<forall>x. depth_of (fst (res calls (g, q))) x =
         (if x \<in> set (map snd calls) \<and> cand flags g x \<and> negative g x then next_depth sd g node else depth_of g x))"
  using assms(1)
proof (induction calls arbitrary: g q)
  case Nil
  then show ?case by (simp add: res_def)
next
  case (Cons c calls)
  obtain r n where c: "c = (r, n)" by force
  obtain h p where hp: "level_action sd flags (depth_of g node) n (g, q) = (h, p)" by force
  note step = level_action_step [where g = g and sd = sd and flags = flags and node = node and n = n and q = q, unfolded hp fst_conv snd_conv]
  have cand: "cand flags h = cand flags g" using cand_marks [OF step(1) plain step(2)] by blast
  have node: "depth_of h node = depth_of g node" "flag_of h node = Some True"
    using Cons.prems by (auto simp: step(2,4) cand_def)
  have unfold: "res (c # calls) (g, q) = res calls (h, p)" by (simp add: res_def c hp)
  note IH = Cons.IH [OF node(2), of p, folded unfold, unfolded cand]
  show ?case
  proof (intro conjI allI)
    show "marks_only g (fst (res (c # calls) (g, q)))" using IH step(1) marks_only_trans by blast
    show "flag_of (fst (res (c # calls) (g, q))) x = flag_of g x" for x using IH step(2) by simp
    show "snd (res (c # calls) (g, q)) = rev (filter (cand flags g) (map snd (c # calls))) @ q"
      using IH by (simp add: step(3) c)
    have nd: "next_depth sd h node = next_depth sd g node" by (simp add: next_depth_def node)
    have neg: "negative h x = negative g x" if "x \<noteq> n" for x using that by (simp add: negative_def step(4))
    show "depth_of (fst (res (c # calls) (g, q))) x =
        (if x \<in> set (map snd (c # calls)) \<and> cand flags g x \<and> negative g x then next_depth sd g node else depth_of g x)" for x
      using IH unfolding nd by (cases "x = n") (auto simp: neg step(4) c negative_def)
  qed
qed

lemma level_visit_spec:
  fixes g :: graph and sd :: int and flags :: string and node :: id and rest :: "id list"
  assumes wf: "wf_graph g" and plain: "plain_flags flags" and "hasNode g node"
  defines "h \<equiv> fst (level_visit sd flags node rest g)"
  defines "open' \<equiv> \<lambda>x. x \<noteq> node \<and> flag_of g x = Some False"
  shows "marks_only g h" and "flag_of h x = (if x = node then Some True else flag_of g x)"
    and "snd (level_visit sd flags node rest g) = rev (filter open' (neighbours flags g node)) @ rest"
    and "depth_of h x = (if x \<in> set (neighbours flags g node) \<and> open' x \<and> negative g x
      then next_depth sd g node else depth_of g x)"
proof -
  let ?g1 = "set_flag True node g"
  obtain g2 calls where e: "eachAdjacency node flags ?g1 = (g2, calls)" by force
  have wf1: "wf_graph ?g1" using wf marks_only_set(1) by (rule marks_only_wf)
  note adj = eachAdjacency_linked [OF wf1, of node flags, unfolded e fst_conv snd_conv]
  have nodes: "g_nodes g2 = g_nodes ?g1" using nodes_eachAdjacency [of node flags ?g1] by (simp add: e)
  have m: "marks_only g g2" using marks_only_set(1) adj(1) by (rule marks_only_trans)
  have fl: "flag_of g2 x = (if x = node then Some True else flag_of g x)" for x
    using nodes assms(3) flag_set_flag [of True node g x] by (simp add: flag_of_def getNode_def)
  have dep: "depth_of g2 x = depth_of g x" for x
    using nodes depth_set_flag [of True node g x] by (simp add: depth_of_def getNode_def)
  have linked: "linked flags ?g1 node = linked flags g node"
    by (simp add: linked_def set_flag_def adjacencies_def)
  have cand: "cand flags g2 x \<longleftrightarrow> open' x \<and> passes flags g x" for x
    by (simp add: cand_def fl marks_only_passes [OF m plain] open'_def)
  have neg: "negative g2 x = negative g x" "next_depth sd g2 node = next_depth sd g node" for x
    by (simp_all add: negative_def next_depth_def dep)
  have visit: "level_visit sd flags node rest g
      = fold (\<lambda>(r :: nat, n) s. level_action sd flags (depth_of (fst s) node) n s) calls (g2, rest)"
    by (simp add: level_visit_def e)
  have "flag_of g2 node = Some True" by (simp add: fl)
  note fold = level_fold [OF this plain, of sd calls rest, folded visit, unfolded adj(2) linked neg dep]
  show "marks_only g h" unfolding h_def using fold m marks_only_trans by blast
  show "flag_of h x = (if x = node then Some True else flag_of g x)" unfolding h_def using fold fl by simp
  have "filter (cand flags g2) (linked flags g node) = filter open' (neighbours flags g node)"
    unfolding neighbours_def by (auto simp: cand intro!: filter_cong)
  then show "snd (level_visit sd flags node rest g) = rev (filter open' (neighbours flags g node)) @ rest"
    using fold by simp
  show "depth_of h x = (if x \<in> set (neighbours flags g node) \<and> open' x \<and> negative g x
      then next_depth sd g node else depth_of g x)"
    unfolding h_def using fold by (auto simp: cand neighbours_def)
qed

section \<open>The whole search\<close>

text \<open>Every node that takes part has a flag and a depth.\<close>

definition marked :: "string \<Rightarrow> graph \<Rightarrow> graph \<Rightarrow> bool" where
  "marked flags g0 g \<longleftrightarrow>
     marks_only g0 g \<and> (\<forall>x. passes flags g0 x \<longrightarrow> flag_of g x \<noteq> None \<and> depth_of g x \<noteq> None)"

abbreviation flagged :: "graph \<Rightarrow> id \<Rightarrow> bool" where
  "flagged g \<equiv> \<lambda>x. flag_of g x = Some True"

abbreviation dep :: "graph \<Rightarrow> id \<Rightarrow> int" where
  "dep g \<equiv> \<lambda>x. the (depth_of g x)"

lemma neighbours_marks:
  assumes wf: "wf_graph g0" and m: "marks_only g0 g" and plain: "plain_flags flags"
  shows "neighbours flags g x = neighbours flags g0 x"
proof -
  have "distinct (map fst (adjacencies g0 x))" using wf by (simp add: wf_graph_iff)
  then have "r < length (g_adjs g0)" if "(k, r) \<in> set (adjacencies g0 x)" for k r
    using that wf_adj_ok [OF wf, of x k r] by (simp add: getAdjacence_def adj_ok_def)
  then have "linked flags g x = linked flags g0 x"
    unfolding linked_def marks_only_lookups(1) [OF m]
    by (intro arg_cong [of _ _ "map fst"] filter_cong refl) (auto simp: marks_only_filter_adj [OF m])
  then show ?thesis by (simp add: neighbours_def marks_only_passes [OF m plain, abs_def])
qed

lemma visit_inv:
  assumes wf: "wf_graph g0" and plain: "plain_flags flags" and rid: "passes flags g0 rid"
    and marked: "marked flags g0 g" and inv: "graph_inv g0 flags rid sd (flagged g) (dep g) (q @ [x])"
    and visit: "level_visit (int sd) flags x q g = (h, q')"
  shows "marked flags g0 h \<and> graph_inv g0 flags rid sd (flagged h) (dep h) q'"
proof -
  have m: "marks_only g0 g" using marked by (simp add: marked_def)
  have ok: "y = rid \<or> passes flags g0 y \<longleftrightarrow> passes flags g0 y" for y using rid by auto
  have inv': "level_search.labelled (\<lambda>x. x = rid \<or> passes flags g0 x) (flagged g) (dep g) (q @ [x])"
    "level_search.closed (\<lambda>x. x = rid \<or> passes flags g0 x) (neighbours flags g0) (int sd) (flagged g) (dep g)"
    using inv by (auto simp: level_bfs.search_inv_def)
  then have okx: "passes flags g0 x" using rid by (auto simp: level_bfs.labelled_def)
  then have has: "hasNode g x" using passes_hasNode marks_only_lookups(3) [OF m] by blast
  note spec = level_visit_spec [OF marks_only_wf [OF wf m] plain has, of "int sd" q,
      unfolded visit fst_conv snd_conv neighbours_marks [OF wf m plain]]
  have mk: "(flag_of g y = Some True \<or> flag_of g y = Some False) \<and> depth_of g y \<noteq> None"
    if "y = x \<or> y \<in> set (neighbours flags g0 x)" for y
    using that okx marked by (cases "flag_of g y") (auto simp: marked_def neighbours_def)
  have nx: "next_depth (int sd) g x = Some (dep g x + 1 + int sd)"
    using mk [of x] by (auto simp: next_depth_def)
  have "marked flags g0 h"
    using marked spec(2,4) nx marks_only_trans [OF m spec(1)] by (auto simp: marked_def)
  moreover have fl: "flagged h = (flagged g)(x := True)" by (auto simp: spec(2))
  moreover have q': "q' = rev [y \<leftarrow> neighbours flags g0 x. \<not> (flagged h) y] @ q"
    using mk unfolding spec(3) by (auto simp: spec(2) intro!: filter_cong)
  moreover have dp: "dep h = level_search.visit_dep (neighbours flags g0) (int sd) (flagged h) (dep g) x"
  proof (rule ext)
    fix y
    show "dep h y = level_search.visit_dep (neighbours flags g0) (int sd) (flagged h) (dep g) x y"
    proof (cases "y \<in> set (neighbours flags g0 x)")
      case True
      then obtain e where "depth_of g y = Some e" using mk [of y] by blast
      then show ?thesis
        using mk [of y] nx True unfolding level_bfs.visit_dep_def spec(2,4) negative_def by auto
    qed (simp add: level_bfs.visit_dep_def spec(4))
  qed
  moreover have "graph_inv g0 flags rid sd (flagged h) (dep h) q'"
  proof (cases "flagged g x")
    case True
    then have same: "flagged h = flagged g" unfolding fl by (intro fun_upd_idem) simp
    have "level_search.visit_dep (neighbours flags g0) (int sd) (flagged g) (dep g) x = dep g"
      using inv'(2) okx True unfolding level_bfs.visit_dep_def level_bfs.closed_def by fastforce
    then show ?thesis
      using level_bfs.inv_flagged [OF inv True] unfolding q' dp same fun_cong [OF same] by simp
  next
    case False
    show ?thesis using level_bfs.inv_open [OF inv False] unfolding q' dp fl fun_cong [OF fl] .
  qed
  ultimately show ?thesis by blast
qed

lemma levels_loop_inv:
  assumes wf: "wf_graph g0" and "plain_flags flags" and "passes flags g0 rid"
    and "marked flags g0 g" and "graph_inv g0 flags rid sd (flagged g) (dep g) queue"
  shows "marked flags g0 (levels_loop (int sd) flags queue g)
    \<and> graph_inv g0 flags rid sd (flagged (levels_loop (int sd) flags queue g)) (dep (levels_loop (int sd) flags queue g)) []"
  using assms(2-5)
proof (induction "int sd" flags queue g rule: levels_loop.induct)
  case (1 flags queue g)
  show ?case
  proof (cases "queue = []")
    case True
    then show ?thesis using "1.prems" by (simp add: levels_loop.simps)
  next
    case False
    let ?x = "last queue" and ?q = "butlast queue"
    have queue: "queue = ?q @ [?x]" using False by simp
    have inv: "graph_inv g0 flags rid sd (flagged g) (dep g) (?q @ [?x])" using "1.prems"(4) queue by simp
    then have "passes flags g0 ?x" using "1.prems"(2) by (auto simp: level_bfs.search_inv_def level_bfs.labelled_def)
    then have has: "hasNode g ?x"
      using passes_hasNode "1.prems"(3) marks_only_lookups(3) by (metis marked_def)
    obtain h q' where v: "level_visit (int sd) flags ?x ?q g = (h, q')" by force
    have "levels_loop (int sd) flags queue g = levels_loop (int sd) flags q' h"
      using False has by (subst levels_loop.simps) (simp add: v Let_def)
    moreover have "marked flags g0 h \<and> graph_inv g0 flags rid sd (flagged h) (dep h) q'"
      using wf "1.prems"(1-3) inv v by (rule visit_inv)
    ultimately show ?thesis
      using "1.hyps"(1) [OF False refl refl has v [symmetric] refl "1.prems"(1,2)] by simp
  qed
qed

lemma reset_fold:
  assumes plain: "plain_flags flags" and "marks_only g0 g"
  defines "step \<equiv> \<lambda>i g. case getNode g i of None \<Rightarrow> g
    | Some n \<Rightarrow> if filter_node flags n then set_depth (Some (-1)) i (set_flag False i g) else g"
  shows "marks_only g0 (fold step is g)
    \<and> (\<forall>x. flag_of (fold step is g) x = (if x \<in> set is \<and> passes flags g0 x then Some False else flag_of g x))
    \<and> (\<forall>x. depth_of (fold step is g) x = (if x \<in> set is \<and> passes flags g0 x then Some (-1) else depth_of g x))"
  using assms(2)
proof (induction "is" arbitrary: g)
  case (Cons i "is")
  have p: "passes flags g i = passes flags g0 i" using Cons.prems plain by (rule marks_only_passes)
  have step: "step i g = (if passes flags g i then set_depth (Some (-1)) i (set_flag False i g) else g)"
    by (simp add: step_def passes_def split: option.splits)
  have m: "marks_only g0 (step i g)"
  proof (cases "passes flags g i")
    case True
    have "marks_only g0 (set_depth (Some (-1)) i (set_flag False i g))"
      by (rule marks_only_trans [OF marks_only_trans [OF Cons.prems marks_only_set(1)] marks_only_set(2)])
    then show ?thesis using True by (simp add: step)
  qed (use Cons.prems in \<open>simp add: step\<close>)
  have has: "hasNode g i" if "passes flags g0 i" using that p passes_hasNode by blast
  have fl: "flag_of (step i g) x = (if x = i \<and> passes flags g0 i then Some False else flag_of g x)" for x
    using has by (auto simp: step p)
  have dp: "depth_of (step i g) x = (if x = i \<and> passes flags g0 i then Some (-1) else depth_of g x)" for x
    using has by (auto simp: step p depth_set_depth)
  show ?case using Cons.IH [OF m] by (auto simp: fl dp)
qed simp

lemma reset_marks:
  assumes "plain_flags flags"
  defines "g' g \<equiv> eachNode g (\<lambda>i g. set_depth (Some (-1)) i (set_flag False i g)) flags"
  shows "marks_only g (g' g)"
    and "passes flags g x \<Longrightarrow> flag_of (g' g) x = Some False \<and> depth_of (g' g) x = Some (-1)"
  using reset_fold [OF assms(1) marks_only_refl, of g "map fst (g_nodes g)"] passes_hasNode [of flags g x]
  by (simp_all add: g'_def eachNode_def hasNode_def)

lemma search_start:
  assumes "passes flags g0 rid" and "marked flags g0 g"
    and "\<And>x. passes flags g0 x \<Longrightarrow> flag_of g x = Some False"
    and "\<And>x. passes flags g0 x \<Longrightarrow> dep g x = (if x = rid then int sd else -1)"
  shows "graph_inv g0 flags rid sd (flagged g) (dep g) [rid]"
proof -
  have "rid \<in> set (layer (neighbours flags g0) rid 0)" by simp
  then have "\<exists>k. rid \<in> set (layer (neighbours flags g0) rid k) \<and> int sd = int sd + int k * (1 + int sd)"
    by (intro exI [of _ 0]) simp
  then show ?thesis
    using assms unfolding level_bfs.search_inv_def level_bfs.labelled_def level_bfs.sound_def
      level_bfs.closed_def level_bfs.ordered_def by (auto simp: pending_def)
qed

section \<open>Traversal of the levels below a node\<close>

text \<open>The step from a node to an adjacent one that is deeper.\<close>

definition child :: "graph \<Rightarrow> (id \<times> id) set" where
  "child g = {(a, b). \<exists>d. depth_of g a = Some d \<and> deeper g b d
     \<and> (\<exists>k r. (k, r) \<in> set (adjacencies g a) \<and> b = other_end g a r)}"

lemma visited_append [simp]: "visited (es @ fs) = visited es @ visited fs"
  by (induction es rule: visited.induct) auto

lemma child_depth: "(a, b) \<in> (child g)\<^sup>* \<Longrightarrow> depth_of g b = Some e \<Longrightarrow> a = b \<or> (\<exists>d. depth_of g a = Some d \<and> d < e)"
proof (induction arbitrary: e rule: rtrancl_induct)
  case (step y z)
  from step.hyps(2) obtain d where d: "depth_of g y = Some d" "deeper g z d" by (auto simp: child_def)
  then have "d < e" using step.prems by (simp add: deeper_def)
  with step.IH [OF d(1)] d(1) show ?case by fastforce
qed simp

lemma visited_adjs:
  "i \<in> set (visited (concat (map (\<lambda>(key, r).
       let n = other_end g node r in Orient node r # (if deeper g n d then F n else [])) as)))
   \<longleftrightarrow> (\<exists>k r. (k, r) \<in> set as \<and> deeper g (other_end g node r) d \<and> i \<in> set (visited (F (other_end g node r))))"
  by (induction as) (auto simp: Let_def split: if_splits, blast+)

lemma loopLevel_visits:
  "i \<in> set (visited (loopLevel g flags lb le node)) \<longleftrightarrow>
     (node, i) \<in> (child g)\<^sup>* \<and> (\<exists>e. depth_of g i = Some e \<and> lb \<le> e \<and> up_to e le \<and> passes flags g i)"
proof (induction g flags lb le node rule: loopLevel.induct)
  case (1 g flags lb le node)
  let ?in = "\<lambda>e. lb \<le> e \<and> up_to e le \<and> passes flags g i"
  show ?case
  proof (cases "depth_of g node")
    case None
    then show ?thesis
      using child_depth [of node i g] by (subst loopLevel.simps) (auto simp: child_def elim: converse_rtranclE)
  next
    case (Some d)
    have below: "below d le" if "(node, i) \<in> (child g)\<^sup>*" "node \<noteq> i" "depth_of g i = Some e" "up_to e le" for e
      using child_depth [OF that(1,3)] that(2,4) Some by (auto simp: below_def up_to_def split: option.splits)
    have ch: "(node, n) \<in> child g \<longleftrightarrow>
        deeper g n d \<and> (\<exists>k r. (k, r) \<in> set (adjacencies g node) \<and> n = other_end g node r)" for n
      using Some by (simp add: child_def)
    have first: "(node, i) \<in> (child g)\<^sup>* \<longleftrightarrow> node = i \<or> (\<exists>n. (node, n) \<in> child g \<and> (n, i) \<in> (child g)\<^sup>*)"
      by (metis converse_rtrancl_into_rtrancl converse_rtranclE rtrancl.rtrancl_refl)
    have rec: "i \<in> set (visited (loopLevel g flags lb le n)) \<longleftrightarrow> (n, i) \<in> (child g)\<^sup>* \<and> (\<exists>e. depth_of g i = Some e \<and> ?in e)"
      if "below d le" "(k, r) \<in> set (adjacencies g node)" "n = other_end g node r" "deeper g n d" for k r n
      using "1.IH" [OF Some that(1,2) refl that(3,4)] .
    have "i \<in> set (visited (loopLevel g flags lb le node)) \<longleftrightarrow>
        i = node \<and> ?in d \<or> below d le \<and> (\<exists>n. (node, n) \<in> child g \<and> i \<in> set (visited (loopLevel g flags lb le n)))"
      using Some by (subst loopLevel.simps) (auto simp: visited_adjs child_def simp del: Let_def split: if_splits)
    also have "\<dots> \<longleftrightarrow> (node, i) \<in> (child g)\<^sup>* \<and> (\<exists>e. depth_of g i = Some e \<and> ?in e)"
    proof -
      have "(\<exists>n. (node, n) \<in> child g \<and> i \<in> set (visited (loopLevel g flags lb le n))) \<longleftrightarrow>
          (\<exists>n. (node, n) \<in> child g \<and> (n, i) \<in> (child g)\<^sup>*) \<and> (\<exists>e. depth_of g i = Some e \<and> ?in e)" if "below d le"
        using rec [OF that] unfolding ch by blast
      then show ?thesis using first below Some by (metis option.inject)
    qed
    finally show ?thesis .
  qed
qed

lemma descendant_iff: "isDescendantOf g node i \<longleftrightarrow> (node, i) \<in> {(a, b). b \<in> set (getParents g a)}\<^sup>*"
proof (induction g node i rule: isDescendantOf.induct)
  case (1 g node i)
  let ?R = "{(a, b). b \<in> set (getParents g a)}"
  have "(node, i) \<in> ?R\<^sup>* \<longleftrightarrow> node = i \<or> (\<exists>p. (node, p) \<in> ?R \<and> (p, i) \<in> ?R\<^sup>*)"
    by (metis (no_types, lifting) converse_rtrancl_into_rtrancl converse_rtranclE rtrancl.rtrancl_refl)
  then show ?case using 1 by (subst isDescendantOf.simps) (auto simp: list_ex_iff)
qed

section \<open>The closest node\<close>

definition node_distance :: "string \<Rightarrow> cpx \<Rightarrow> gnode \<Rightarrow> real" where
  "node_distance prop p n = distance (getc (the (node_getPos n prop))) p"

lemma closer_fold:
  assumes "prop \<in> {''current'', ''start'', ''end''}"
  shows "\<exists>m. fold (closer prop p) ns (Some (Some n)) = Some (Some m) \<and> m \<in> set (n # ns)
    \<and> (\<forall>k \<in> set (n # ns). node_distance prop p m \<le> node_distance prop p k)"
proof (induction ns arbitrary: n)
  case (Cons k ns)
  have pos: "\<exists>q. node_getPos x prop = Some q" for x
    using assms by (auto simp: node_getPos_def type_or_current_def Let_def)
  then obtain a b where ab: "node_getPos k prop = Some a" "node_getPos n prop = Some b" by blast
  let ?m = "if node_distance prop p k < node_distance prop p n then k else n"
  have "closer prop p k (Some (Some n)) = Some (Some ?m)" by (simp add: closer_def ab node_distance_def)
  with Cons [of ?m] show ?case by (auto split: if_splits)
qed simp

lemma computeLevels_spec:
  assumes "wf_graph g" and "plain_flags flags" and "passes flags g rid"
  shows "\<exists>h. computeLevels g rid (int sd) flags = Some h \<and> marks_only g h \<and> wf_graph h
    \<and> (\<forall>x k. passes flags g x \<and> x \<in> set (layer (neighbours flags g) rid k)
          \<and> (\<forall>j < k. x \<notin> set (layer (neighbours flags g) rid j))
        \<longrightarrow> depth_of h x = Some (int sd + int k * (1 + int sd)))
    \<and> (\<forall>x. passes flags g x \<and> (\<forall>k. x \<notin> set (layer (neighbours flags g) rid k))
        \<longrightarrow> depth_of h x = Some (-1))"
proof -
  let ?g1 = "eachNode g (\<lambda>i g. set_depth (Some (-1)) i (set_flag False i g)) flags"
  let ?g2 = "set_depth (Some (int sd)) rid ?g1"
  let ?h = "levels_loop (int sd) flags [rid] ?g2"
  note reset = reset_marks [OF assms(2), of g]
  have has: "hasNode ?g1 rid"
    using assms(3) passes_hasNode marks_only_lookups(3) [OF reset(1)] by blast
  have depth: "depth_of ?g2 x = Some (if x = rid then int sd else -1)" if "passes flags g x" for x
    using reset(2) [OF that] has by (simp add: depth_set_depth)
  have flag: "flag_of ?g2 x = Some False" if "passes flags g x" for x
    using reset(2) [OF that] by simp
  have mark: "marked flags g ?g2"
    using reset(1) marks_only_set(2) marks_only_trans depth flag by (auto simp: marked_def)
  have dep: "dep ?g2 x = (if x = rid then int sd else -1)" if "passes flags g x" for x
    using depth [OF that] by simp
  have "graph_inv g flags rid sd (flagged ?g2) (dep ?g2) [rid]"
    by (rule search_start [OF assms(3) mark flag dep])
  from levels_loop_inv [OF assms mark this]
  have res: "marked flags g ?h" "graph_inv g flags rid sd (flagged ?h) (dep ?h) []" by auto
  have "computeLevels g rid (int sd) flags = Some ?h" using has by (simp add: computeLevels_def)
  moreover have "wf_graph ?h" using assms(1) res(1) marks_only_wf by (simp add: marked_def)
  moreover have "depth_of ?h x = Some (dep ?h x)" if "passes flags g x" for x
    using res(1) that by (auto simp: marked_def)
  moreover note inv_end = level_bfs.inv_end [OF res(2)]
  moreover have "depth_of ?h x = Some (int sd + int k * (1 + int sd))"
    if "passes flags g x \<and> x \<in> set (layer (neighbours flags g) rid k)
      \<and> (\<forall>j < k. x \<notin> set (layer (neighbours flags g) rid j))" for x k
    using that calculation(3) [of x] inv_end(1) [of x k] by simp
  moreover have "depth_of ?h x = Some (-1)"
    if "passes flags g x \<and> (\<forall>k. x \<notin> set (layer (neighbours flags g) rid k))" for x
    using that calculation(3) [of x] inv_end(2) [of x] by simp
  moreover have "marks_only g ?h" using res(1) by (simp add: marked_def)
  ultimately show ?thesis by blast
qed

section \<open>Properties\<close>

text \<open>
  C13: computing the levels of a well-formed graph from a root that passes the filter ends and
  keeps the graph well formed; every node that passes the filter then has the depth of its
  breadth-first distance \<open>k\<close> from the root, which is the start depth plus \<open>k\<close> times one more
  than the start depth, and a node that cannot be reached has depth \<open>-1\<close>. For the start depth
  0 the depth is the distance.
\<close>

theorem computeLevels_distance:
  assumes "wf_graph g" and "plain_flags flags" and "passes flags g rid"
  shows "\<exists>h. computeLevels g rid (int sd) flags = Some h \<and> wf_graph h
    \<and> (\<forall>x k. passes flags g x \<and> x \<in> set (layer (neighbours flags g) rid k)
          \<and> (\<forall>j < k. x \<notin> set (layer (neighbours flags g) rid j))
        \<longrightarrow> depth_of h x = Some (int sd + int k * (1 + int sd)))
    \<and> (\<forall>x. passes flags g x \<and> (\<forall>k. x \<notin> set (layer (neighbours flags g) rid k))
        \<longrightarrow> depth_of h x = Some (-1))"
  using computeLevels_spec [OF assms] by blast

theorem computeLevels_distance_witness:
  "\<exists>h. computeLevels (fst (addAdjacence \<lparr>s_id = ''a'', s_name = [], s_data = []\<rparr>
       \<lparr>s_id = ''b'', s_name = [], s_data = []\<rparr> [] (initialize \<lparr>go_complex = False, go_Node = []\<rparr> [] [] [])))
     ''a'' 0 [] = Some h \<and> depth_of h ''b'' = Some 1"
proof -
  let ?g = "fst (addAdjacence \<lparr>s_id = ''a'', s_name = [], s_data = []\<rparr>
       \<lparr>s_id = ''b'', s_name = [], s_data = []\<rparr> [] (initialize \<lparr>go_complex = False, go_Node = []\<rparr> [] [] []))"
  have plain: "plain_flags []" by (simp add: plain_flags_def flag_props_def)
  have pass: "passes [] ?g x \<longleftrightarrow> hasNode ?g x" for x
    by (simp add: passes_def hasNode_getNode filter_node_def flag_props_def split: option.splits)
  have nodes: "hasNode ?g ''a''" "hasNode ?g ''b''"
    by (simp_all add: addAdjacence_link Let_def link_lookups(3))
  have "adjacencies ?g ''a'' = [(''b'', 0)]"
    by (simp add: addAdjacence_def adjacentTo_def adjacencies_def set_adj_def addNode_def hasNode_def initialize_def Let_def)
  then have "neighbours [] ?g ''a'' = [''b'']"
    using nodes by (simp add: neighbours_def linked_def filter_adj_def flag_props_def pass)
  then have "''b'' \<in> set (layer (neighbours [] ?g) ''a'' 1)" "\<forall>j < 1. ''b'' \<notin> set (layer (neighbours [] ?g) ''a'' j)"
    by simp_all
  moreover have "wf_graph ?g" by (intro wf_addAdjacence wf_initialize)
  moreover have "passes [] ?g ''b''" using nodes pass by blast
  ultimately show ?thesis
    using computeLevels_distance [of ?g "[]" "''a''" 0] plain nodes(1) pass by fastforce
qed

text \<open>
  The traversal of the levels below a node passes to its action exactly the nodes that can
  be reached from it by going to deeper adjacent nodes, that lie within the levels given
  relative to the node, and that pass the filter.
\<close>

lemma eachLevel_visits:
  assumes "depth_of g node = Some d"
  shows "i \<in> set (visited (eachLevel g node lb le flags)) \<longleftrightarrow>
    (node, i) \<in> (child g)\<^sup>*
    \<and> (\<exists>e. depth_of g i = Some e \<and> d + lb \<le> e \<and> up_to e (map_option (\<lambda>l. l + d) le) \<and> passes flags g i)"
  using assms by (simp add: eachLevel_def loopLevel_visits add.commute)

text \<open>
  The test for descendants ends and holds exactly when the other node can be reached by
  going from parent to parent, where the parents of a node are its adjacent nodes of smaller
  depth.
\<close>

lemma isDescendantOf_parents:
  "isDescendantOf g node i \<longleftrightarrow> (node, i) \<in> {(a, b). b \<in> set (getParents g a)}\<^sup>*"
  by (rule descendant_iff)

text \<open>
  The closest node to a position is one of the nodes that pass the filter, and no node that
  passes it is closer; no node is returned exactly when none passes.
\<close>

lemma getClosestNodeToPos_minimal:
  assumes "type_or_current prop \<in> {''current'', ''start'', ''end''}"
  shows "\<exists>r. getClosestNodeToPos g pos prop flags = Some r
    \<and> (r = None \<longleftrightarrow> filter (filter_node flags) (map snd (g_nodes g)) = [])
    \<and> (\<forall>m. r = Some m \<longrightarrow> m \<in> set (filter (filter_node flags) (map snd (g_nodes g)))
        \<and> (\<forall>k \<in> set (filter (filter_node flags) (map snd (g_nodes g))).
             node_distance (type_or_current prop) (case pos of None \<Rightarrow> Complex_KER | Some q \<Rightarrow> getc q) m
             \<le> node_distance (type_or_current prop) (case pos of None \<Rightarrow> Complex_KER | Some q \<Rightarrow> getc q) k))"
proof (cases "filter (filter_node flags) (map snd (g_nodes g))")
  case Nil
  then show ?thesis by (simp add: getClosestNodeToPos_def Let_def)
next
  case (Cons n ns)
  let ?p = "case pos of None \<Rightarrow> Complex_KER | Some q \<Rightarrow> getc q"
  from closer_fold [OF assms, of ?p ns n] obtain m where
    "fold (closer (type_or_current prop) ?p) ns (Some (Some n)) = Some (Some m)" and m: "m \<in> set (n # ns)"
    "\<forall>k \<in> set (n # ns). node_distance (type_or_current prop) ?p m \<le> node_distance (type_or_current prop) ?p k"
    by blast
  then have "getClosestNodeToPos g pos prop flags = Some (Some m)"
    unfolding getClosestNodeToPos_def Let_def Cons by (simp add: closer_def)
  then show ?thesis using m unfolding Cons by auto
qed

end
