(* ===== verification/Jit_Loader.thy ===== *)
theory Jit_Loader
  imports Jit_Levels
begin

text \<open>
  Loading and saving graphs (\<^verbatim>\<open>rfweb/js/jit/jit.js\<close>, \<^verbatim>\<open>Loader\<close>). A graph is loaded from a
  JSON tree or from a JSON array of nodes with their adjacencies, and saved in either form.
  The lemmas give the vertices and edges of a loaded graph and show that saving a graph as an
  array and loading it again gives the same vertices and edges.
\<close>

section \<open>Loading\<close>

definition str_of :: "jsval \<Rightarrow> string" where
  "str_of v = (case v of JStr s \<Rightarrow> s | _ \<Rightarrow> to_str v)"

definition spec_of :: "props \<Rightarrow> node_spec" where
  "spec_of n = \<lparr>s_id = str_of (prop_of n ''id''), s_name = str_of (prop_of n ''name''),
     s_data = obj_props (prop_of n ''data'')\<rparr>"

definition spec_of_tree :: "jtree \<Rightarrow> node_spec" where
  "spec_of_tree t = \<lparr>s_id = jid t, s_name = jname t, s_data = jdata t\<rparr>"

fun construct_tree :: "jtree \<Rightarrow> graph \<Rightarrow> graph" where
  "construct_tree (JNode i n d c) ans =
     (let json = JNode i n d c;
          ans = addNode (spec_of_tree json) ans
      in case c of
           None \<Rightarrow> ans
         | Some ch \<Rightarrow>
             fold (\<lambda>t g. construct_tree t (fst (addAdjacence (spec_of_tree json) (spec_of_tree t) [] g))) ch ans)"

text \<open>The object an adjacence of the array refers to: an element, or a node made for it.\<close>

definition construct_getNode :: "props list \<Rightarrow> id \<Rightarrow> graph \<Rightarrow> graph \<times> node_spec" where
  "construct_getNode json i g =
     (case find (\<lambda>n. str_of (prop_of n ''id'') = i) json of
        Some n \<Rightarrow> (g, spec_of n)
      | None \<Rightarrow> (let newNode = \<lparr>s_id = i, s_name = i, s_data = []\<rparr> in (addNode newNode g, newNode)))"

definition adj_target :: "jsval \<Rightarrow> id" where
  "adj_target adj = (case adj of JStr s \<Rightarrow> s | _ \<Rightarrow> str_of (get_prop adj ''nodeTo''))"

definition adj_data :: "jsval \<Rightarrow> props" where
  "adj_data adj = (case adj of JStr s \<Rightarrow> [] | _ \<Rightarrow> merge [get_prop adj ''data'', JObj []])"

definition construct_adj :: "props list \<Rightarrow> props \<Rightarrow> jsval \<Rightarrow> graph \<Rightarrow> graph" where
  "construct_adj json n adj ans =
     (let (ans, obj2) = construct_getNode json (adj_target adj) ans
      in fst (addAdjacence (spec_of n) obj2 (adj_data adj) ans))"

fun arr_items :: "jsval \<Rightarrow> jsval list" where
  "arr_items (JArr vs) = vs"
| "arr_items _ = []"

definition construct_node :: "props list \<Rightarrow> props \<Rightarrow> graph \<Rightarrow> graph" where
  "construct_node json n ans =
     fold (construct_adj json n) (arr_items (prop_of n ''adjacencies'')) (addNode (spec_of n) ans)"

definition construct_graph :: "props list \<Rightarrow> graph \<Rightarrow> graph" where
  "construct_graph json ans = fold (construct_node json) json ans"

definition construct :: "graph_opt \<Rightarrow> props \<Rightarrow> props \<Rightarrow> props \<Rightarrow> jtree + props list \<Rightarrow> graph" where
  "construct graphOptions Node Edge Label json =
     (let ans = initialize graphOptions Node Edge Label
      in case json of Inl tree \<Rightarrow> construct_tree tree ans | Inr nodes \<Rightarrow> construct_graph nodes ans)"

text \<open>
  The identifier of the root: of the tree, or of the element with the index given; an index
  outside the array raises an exception.
\<close>

definition load_root :: "jtree + props list \<Rightarrow> nat \<Rightarrow> id option" where
  "load_root json i =
     (case json of
        Inl tree \<Rightarrow> Some (jid tree)
      | Inr nodes \<Rightarrow> if i < length nodes then Some (str_of (prop_of (nodes ! i) ''id'')) else None)"

section \<open>Saving\<close>

text \<open>The nodes one level below, as the traversal of that level passes them.\<close>

definition subnodes :: "graph \<Rightarrow> id \<Rightarrow> id list" where
  "subnodes g node = visited (eachSubnode g node [])"

lemma subnodes_child:
  assumes "n \<in> set (subnodes g node)"
  shows "\<exists>d. depth_of g node = Some d \<and> depth_of g n = Some (d + 1)"
proof (cases "depth_of g node")
  case None
  then show ?thesis using assms by (simp add: subnodes_def eachSubnode_def eachLevel_def)
next
  case (Some d)
  then have "n \<in> set (visited (loopLevel g [] (1 + d) (Some (1 + d)) node))"
    using assms by (simp add: subnodes_def eachSubnode_def eachLevel_def)
  then show ?thesis using Some by (auto simp: loopLevel_visits up_to_def)
qed

function recTree :: "graph \<Rightarrow> id \<Rightarrow> jtree" where
  "recTree g i =
     JNode i (case getNode g i of None \<Rightarrow> [] | Some n \<Rightarrow> n_name n)
       (case getNode g i of None \<Rightarrow> [] | Some n \<Rightarrow> ds_data (n_store n))
       (Some (map (recTree g) (subnodes g i)))"
  by pat_completeness auto
termination
proof (relation "measure (\<lambda>(g, i). card (deeper_nodes g i))")
  fix g i n
  assume "n \<in> set (subnodes g i)"
  then obtain d where "depth_of g i = Some d" "depth_of g n = Some (d + 1)" using subnodes_child by blast
  then show "((g, n), (g, i)) \<in> measure (\<lambda>(g, i). card (deeper_nodes g i))"
    by (auto simp: deeper_def intro: deeper_nodes_less)
qed simp

declare recTree.simps [simp del]

definition visited_mark :: "graph \<Rightarrow> id \<Rightarrow> bool" where
  "visited_mark g i = (case getNode g i of None \<Rightarrow> False | Some n \<Rightarrow> truthy (prop_of (n_ext n) ''visited''))"

definition set_visited :: "bool \<Rightarrow> id \<Rightarrow> graph \<Rightarrow> graph" where
  "set_visited b i = upd_node i (\<lambda>n. n\<lparr>n_ext := AList.update ''visited'' (JBool b) (n_ext n)\<rparr>)"

text \<open>The adjacencies of a node whose other end bears the mark, as objects.\<close>

definition save_adj :: "graph \<Rightarrow> nat \<times> id \<Rightarrow> jsval" where
  "save_adj g = (\<lambda>(r, n). JObj [(''nodeTo'', JStr n), (''data'', JObj (ds_data (a_store (g_adjs g ! r))))])"

definition save_node :: "bool \<Rightarrow> id \<Rightarrow> graph \<times> props list \<Rightarrow> graph \<times> props list" where
  "save_node T i = (\<lambda>(g, ans).
     case getNode g i of
       None \<Rightarrow> (g, ans)
     | Some node \<Rightarrow>
         (let (g, calls) = eachAdjacency i [] g;
              adjs = map (save_adj g) (filter (\<lambda>(r, n). visited_mark g n = T) calls);
              ansNode = [(''id'', JStr (n_id node)), (''name'', JStr (n_name node)),
                         (''data'', JObj (ds_data (n_store node))), (''adjacencies'', JArr adjs)]
          in (set_visited (\<not> T) i g, ans @ [ansNode])))"

text \<open>An unknown root raises an exception.\<close>

definition toJSON_graph :: "graph \<Rightarrow> id \<Rightarrow> (graph \<times> props list) option" where
  "toJSON_graph g rid =
     (if hasNode g rid then Some (fold (save_node (visited_mark g rid)) (map fst (g_nodes g)) (g, [])) else None)"

definition toJSON_tree :: "graph \<Rightarrow> id \<Rightarrow> jtree option" where
  "toJSON_tree g rid = (if hasNode g rid then Some (recTree g rid) else None)"

section \<open>The vertices and edges of a loaded graph\<close>

lemma addNode_edges: "snd (abs_graph (addNode obj g)) = snd (abs_graph g)" if "wf_graph g"
  using abs_addNode [OF that] by (cases "abs_graph g") simp

lemma construct_getNode_spec:
  assumes "wf_graph g" and "construct_getNode json i g = (h, obj)"
  shows "wf_graph h \<and> s_id obj = i \<and> snd (abs_graph h) = snd (abs_graph g)
    \<and> fst (abs_graph h) \<subseteq> insert i (fst (abs_graph g)) \<and> fst (abs_graph g) \<subseteq> fst (abs_graph h)"
proof (cases "find (\<lambda>n. str_of (prop_of n ''id'') = i) json")
  case None
  let ?new = "\<lparr>s_id = i, s_name = i, s_data = []\<rparr>"
  have "h = addNode ?new g" "obj = ?new" using assms(2) None by (auto simp: construct_getNode_def Let_def)
  then show ?thesis using abs_addNode [OF assms(1), of ?new] wf_addNode [OF assms(1), of ?new]
    by (cases "abs_graph g") auto
next
  case (Some n)
  then have "h = g" "obj = spec_of n" using assms(2) by (simp_all add: construct_getNode_def)
  moreover have "str_of (prop_of n ''id'') = i" using Some by (auto simp: find_Some_iff)
  ultimately show ?thesis using assms(1) by (auto simp: spec_of_def)
qed

lemma construct_adj_spec:
  assumes "wf_graph g" and "s_id (spec_of n) \<in> fst (abs_graph g)"
  shows "wf_graph (construct_adj json n adj g)
    \<and> abs_graph (construct_adj json n adj g)
      = (insert (adj_target adj) (fst (abs_graph g)), insert {s_id (spec_of n), adj_target adj} (snd (abs_graph g)))"
proof -
  obtain h obj where h: "construct_getNode json (adj_target adj) g = (h, obj)" by force
  note spec = construct_getNode_spec [OF assms(1) h]
  obtain V E where VE: "abs_graph h = (V, E)" by force
  have "abs_graph (construct_adj json n adj g) = (insert (s_id (spec_of n)) (insert (s_id obj) V), insert {s_id (spec_of n), s_id obj} E)"
    using spec abs_addAdjacence [of h "spec_of n" obj "adj_data adj"] by (simp add: construct_adj_def h VE)
  moreover have "wf_graph (construct_adj json n adj g)" using spec by (simp add: construct_adj_def h wf_addAdjacence)
  ultimately show ?thesis using spec assms(2) by (auto simp: VE)
qed

lemma construct_adjs_spec:
  assumes "wf_graph g" and "s_id (spec_of n) \<in> fst (abs_graph g)"
  shows "wf_graph (fold (construct_adj json n) adjs g)
    \<and> abs_graph (fold (construct_adj json n) adjs g)
      = (fst (abs_graph g) \<union> adj_target ` set adjs,
         snd (abs_graph g) \<union> (\<lambda>adj. {s_id (spec_of n), adj_target adj}) ` set adjs)"
  using assms
proof (induction adjs arbitrary: g)
  case (Cons adj adjs)
  note step = construct_adj_spec [OF Cons.prems, of json adj]
  have "s_id (spec_of n) \<in> fst (abs_graph (construct_adj json n adj g))" using step Cons.prems(2) by simp
  from Cons.IH [OF _ this] step show ?case by (simp add: Un_commute)
qed simp

definition node_adjs :: "props \<Rightarrow> jsval list" where
  "node_adjs n = arr_items (prop_of n ''adjacencies'')"

definition json_nodes :: "props list \<Rightarrow> id set" where
  "json_nodes json = (\<Union>n \<in> set json. insert (s_id (spec_of n)) (adj_target ` set (node_adjs n)))"

definition json_edges :: "props list \<Rightarrow> id set set" where
  "json_edges json = (\<Union>n \<in> set json. (\<lambda>adj. {s_id (spec_of n), adj_target adj}) ` set (node_adjs n))"

lemma construct_node_spec:
  assumes "wf_graph g"
  shows "wf_graph (construct_node json n g)
    \<and> abs_graph (construct_node json n g)
      = (fst (abs_graph g) \<union> json_nodes [n], snd (abs_graph g) \<union> json_edges [n])"
proof -
  let ?g = "addNode (spec_of n) g"
  have wf: "wf_graph ?g" using assms by (rule wf_addNode)
  have abs: "abs_graph ?g = (insert (s_id (spec_of n)) (fst (abs_graph g)), snd (abs_graph g))"
    using abs_addNode [OF assms] by (cases "abs_graph g") simp
  then have "s_id (spec_of n) \<in> fst (abs_graph ?g)" by simp
  from construct_adjs_spec [OF wf this, of json "node_adjs n"] abs show ?thesis
    by (auto simp: construct_node_def node_adjs_def json_nodes_def json_edges_def)
qed

lemma construct_nodes_spec:
  assumes "wf_graph g"
  shows "wf_graph (fold (construct_node json) ns g)
    \<and> abs_graph (fold (construct_node json) ns g)
      = (fst (abs_graph g) \<union> json_nodes ns, snd (abs_graph g) \<union> json_edges ns)"
  using assms
proof (induction ns arbitrary: g)
  case (Cons n ns)
  note step = construct_node_spec [OF Cons.prems, of json n]
  from Cons.IH [of "construct_node json n g"] step show ?case
    by (auto simp: json_nodes_def json_edges_def)
qed (simp add: json_nodes_def json_edges_def)

lemma abs_initialize: "abs_graph (initialize opt Node Edge Label) = ({}, {})"
  by (simp add: abs_graph_def initialize_def hasNode_def getAdjacence_edges)

lemma construct_array:
  "wf_graph (construct opt Node Edge Label (Inr json))
   \<and> abs_graph (construct opt Node Edge Label (Inr json)) = (json_nodes json, json_edges json)"
  using construct_nodes_spec [OF wf_initialize, of json json opt Node Edge Label]
  by (simp add: construct_def construct_graph_def abs_initialize)

text \<open>The vertices and edges of a tree.\<close>

fun tree_nodes :: "jtree \<Rightarrow> id set" where
  "tree_nodes (JNode i n d c) = insert i (\<Union>t \<in> set (case c of None \<Rightarrow> [] | Some ch \<Rightarrow> ch). tree_nodes t)"

fun tree_edges :: "jtree \<Rightarrow> id set set" where
  "tree_edges (JNode i n d c) =
     (\<Union>t \<in> set (case c of None \<Rightarrow> [] | Some ch \<Rightarrow> ch). insert {i, jid t} (tree_edges t))"

lemma jid_in_tree: "jid t \<in> tree_nodes t"
  by (cases t) simp

lemma construct_tree_spec:
  "wf_graph g \<Longrightarrow> wf_graph (construct_tree t g)
    \<and> abs_graph (construct_tree t g) = (fst (abs_graph g) \<union> tree_nodes t, snd (abs_graph g) \<union> tree_edges t)"
proof (induction t g rule: construct_tree.induct)
  case (1 i n d c ans)
  let ?j = "spec_of_tree (JNode i n d c)"
  let ?a = "\<lambda>t g. fst (addAdjacence ?j (spec_of_tree t) [] g)"
  let ?f = "\<lambda>t g. construct_tree t (?a t g)"
  obtain V E where VE: "abs_graph ans = (V, E)" by force
  have start: "wf_graph (addNode ?j ans)" "abs_graph (addNode ?j ans) = (insert i V, E)"
    using "1.prems" abs_addNode [OF "1.prems", of ?j] by (simp_all add: wf_addNode VE spec_of_tree_def)
  have kids: "wf_graph (fold ?f ch g) \<and> abs_graph (fold ?f ch g)
      = (U \<union> (\<Union>t \<in> set ch. tree_nodes t), F \<union> (\<Union>t \<in> set ch. insert {i, jid t} (tree_edges t)))"
    if "wf_graph g" "abs_graph g = (U, F)" "i \<in> U"
      and "\<And>t g. t \<in> set ch \<Longrightarrow> wf_graph (?a t g) \<Longrightarrow> wf_graph (?f t g)
        \<and> abs_graph (?f t g) = (fst (abs_graph (?a t g)) \<union> tree_nodes t, snd (abs_graph (?a t g)) \<union> tree_edges t)"
    for ch g U F
    using that
  proof (induction ch arbitrary: g U F)
    case (Cons t ch)
    have g: "wf_graph (?a t g)" "abs_graph (?a t g) = (insert i (insert (jid t) U), insert {i, jid t} F)"
      using Cons.prems(1,2) abs_addAdjacence [OF Cons.prems(1), of ?j "spec_of_tree t" "[]"]
      by (simp_all add: wf_addAdjacence spec_of_tree_def)
    have "wf_graph (?f t g) \<and> abs_graph (?f t g) = (U \<union> tree_nodes t, insert {i, jid t} F \<union> tree_edges t)"
      using Cons.prems(4) [OF _ g(1)] Cons.prems(3) jid_in_tree [of t] by (auto simp: g(2))
    then show ?case
      using Cons.IH [of "?f t g" "U \<union> tree_nodes t" "insert {i, jid t} F \<union> tree_edges t"] Cons.prems(3,4)
      by (auto simp: Un_assoc)
  qed simp
  show ?case
  proof (cases c)
    case None
    then show ?thesis using start by (simp add: VE)
  next
    case (Some ch)
    have "wf_graph (fold ?f ch (addNode ?j ans)) \<and> abs_graph (fold ?f ch (addNode ?j ans))
      = (insert i V \<union> (\<Union>t \<in> set ch. tree_nodes t), E \<union> (\<Union>t \<in> set ch. insert {i, jid t} (tree_edges t)))"
      by (rule kids [OF start]) (simp, rule "1.IH" [OF refl refl Some])
    then show ?thesis using Some by (simp add: VE Let_def)
  qed
qed

lemma construct_tree_json:
  "wf_graph (construct opt Node Edge Label (Inl t))
   \<and> abs_graph (construct opt Node Edge Label (Inl t)) = (tree_nodes t, tree_edges t)"
  using construct_tree_spec [OF wf_initialize, of t] by (simp add: construct_def abs_initialize)

section \<open>The nodes and adjacencies that are saved\<close>

lemma visited_mark_upd:
  "visited_mark (set_visited b i g) j = (if j = i \<and> hasNode g i then b else visited_mark g j)"
  by (cases "getNode g j") (auto simp: visited_mark_def set_visited_def prop_of_update hasNode_getNode)

lemma visited_mark_nodes: "g_nodes g = g_nodes h \<Longrightarrow> visited_mark g i = visited_mark h i"
  by (simp add: visited_mark_def getNode_def)

text \<open>Graphs with the same nodes and adjacencies up to marks and directions.\<close>

definition same_links :: "graph \<Rightarrow> graph \<Rightarrow> bool" where
  "same_links g h \<longleftrightarrow> wf_graph h \<and> g_edges h = g_edges g \<and> map fst (g_nodes h) = map fst (g_nodes g)"

lemma adjacencies_upd_node [simp]: "adjacencies (upd_node i f g) a = adjacencies g a"
  by (simp add: adjacencies_def)

lemma getAdjacence_upd_node [simp]: "getAdjacence (upd_node i f g) a b = getAdjacence g a b"
  by (simp add: getAdjacence_def)

lemma wf_upd_node:
  assumes "wf_graph g" and "\<And>n. n_id (f n) = n_id n"
  shows "wf_graph (upd_node i f g)"
  by (rule wf_same_links [OF assms(1)]) (simp_all add: list_all2_refl option.rel_map assms(2) option.rel_refl)

lemma wf_set_visited: "wf_graph g \<Longrightarrow> wf_graph (set_visited b i g)"
  unfolding set_visited_def by (rule wf_upd_node) simp_all

text \<open>Which adjacencies are saved with each node: those to nodes that were not saved before it.\<close>

fun save_list :: "graph \<Rightarrow> id set \<Rightarrow> id list \<Rightarrow> (id \<times> id list) list" where
  "save_list g old [] = []"
| "save_list g old (i # is) =
     (i, filter (\<lambda>b. b \<notin> old) (map fst (adjacencies g i))) # save_list g (insert i old) is"

definition saved :: "props \<Rightarrow> id \<times> id list" where
  "saved n = (s_id (spec_of n), map adj_target (node_adjs n))"

lemma linked_all: "linked [] g i = map fst (adjacencies g i)"
  by (simp add: linked_def filter_adj_def flag_props_def case_prod_unfold)

lemma same_links_adjacencies: "same_links g h \<Longrightarrow> adjacencies h i = adjacencies g i"
  by (simp add: same_links_def adjacencies_def)

lemma same_links_hasNode: "same_links g h \<Longrightarrow> hasNode h i = hasNode g i"
  by (simp add: same_links_def hasNode_def flip: set_map)

lemma save_node_step:
  assumes links: "same_links g h" and i: "hasNode g i"
    and marks: "\<And>j. hasNode g j \<Longrightarrow> visited_mark h j = (if j \<in> old then \<not> T else T)"
  obtains h' n where "save_node T i (h, ans) = (h', ans @ [n])" "same_links g h'"
    "saved n = (i, filter (\<lambda>b. b \<notin> old) (map fst (adjacencies g i)))"
    "\<And>j. hasNode g j \<Longrightarrow> visited_mark h' j = (if j \<in> insert i old then \<not> T else T)"
proof -
  have wf: "wf_graph h" using links by (simp add: same_links_def)
  obtain h1 calls where e: "eachAdjacency i [] h = (h1, calls)" by force
  note adj = eachAdjacency_linked [OF wf, of i "[]", unfolded e fst_conv snd_conv linked_all same_links_adjacencies [OF links]]
  have wf1: "wf_graph h1" using wf adj(1) by (rule marks_only_wf)
  have nodes: "g_nodes h1 = g_nodes h" using nodes_eachAdjacency [of i "[]" h] by (simp add: e)
  have links1: "same_links g h1" using links adj(1) wf1 nodes by (simp add: same_links_def marks_only_def)
  have marks1: "visited_mark h1 j = (if j \<in> old then \<not> T else T)" if "hasNode g j" for j
    using marks [OF that] visited_mark_nodes [OF nodes] by simp
  obtain node where node: "getNode h i = Some node" using i same_links_hasNode [OF links] by (auto simp: hasNode_getNode)
  have id: "n_id node = i" using wf node by (simp add: wf_graph_iff)
  define n where "n = [(''id'', JStr (n_id node)), (''name'', JStr (n_name node)),
     (''data'', JObj (ds_data (n_store node))),
     (''adjacencies'', JArr (map (save_adj h1) (filter (\<lambda>(r, n). visited_mark h1 n = T) calls)))]"
  have "save_node T i (h, ans) = (set_visited (\<not> T) i h1, ans @ [n])"
    by (simp add: save_node_def node e n_def)
  moreover have "same_links g (set_visited (\<not> T) i h1)"
    using links1 by (simp add: same_links_def wf_set_visited) (simp add: set_visited_def)
  moreover have "saved n = (i, filter (\<lambda>b. b \<notin> old) (map fst (adjacencies g i)))"
  proof -
    have "map adj_target (node_adjs n) = filter (\<lambda>b. visited_mark h1 b = T) (map snd calls)"
      by (simp add: n_def node_adjs_def prop_of_def adj_target_def save_adj_def str_of_def case_prod_unfold
          filter_map comp_def)
    also have "\<dots> = filter (\<lambda>b. b \<notin> old) (map fst (adjacencies g i))"
    proof (unfold adj(2), rule filter_cong [OF refl])
      fix b
      assume "b \<in> set (map fst (adjacencies g i))"
      then obtain r where "getAdjacence h i b = Some r"
        unfolding getAdjacence_def same_links_adjacencies [OF links] keys_map_of by blast
      then have "hasNode g b" using wf_hasNode [OF wf] same_links_hasNode [OF links] by blast
      then show "visited_mark h1 b = T \<longleftrightarrow> b \<notin> old" using marks1 by simp
    qed
    finally show ?thesis by (simp add: saved_def spec_of_def n_def prop_of_def str_of_def id)
  qed
  moreover have "visited_mark (set_visited (\<not> T) i h1) j = (if j \<in> insert i old then \<not> T else T)" if "hasNode g j" for j
    using marks1 [OF that] i same_links_hasNode [OF links1] by (simp add: visited_mark_upd)
  ultimately show ?thesis by (rule that)
qed

lemma save_fold:
  assumes "same_links g h" and "\<And>j. hasNode g j \<Longrightarrow> visited_mark h j = (if j \<in> old then \<not> T else T)"
    and "\<forall>i \<in> set is. hasNode g i"
  shows "\<exists>h' ns. fold (save_node T) is (h, ans) = (h', ans @ ns) \<and> same_links g h' \<and> map saved ns = save_list g old is"
  using assms
proof (induction "is" arbitrary: h old ans)
  case (Cons i "is")
  have i: "hasNode g i" using Cons.prems(3) by simp
  obtain h' n where step: "save_node T i (h, ans) = (h', ans @ [n])" "same_links g h'"
    "saved n = (i, filter (\<lambda>b. b \<notin> old) (map fst (adjacencies g i)))"
    "\<And>j. hasNode g j \<Longrightarrow> visited_mark h' j = (if j \<in> insert i old then \<not> T else T)"
    using save_node_step [OF Cons.prems(1) i Cons.prems(2), of ans] by metis
  from Cons.IH [OF step(2,4), of "ans @ [n]"] Cons.prems(3) obtain k ns where
    "fold (save_node T) is (h', ans @ [n]) = (k, (ans @ [n]) @ ns)" "same_links g k"
    "map saved ns = save_list g (insert i old) is" by auto
  then show ?case using step by (intro exI [of _ k] exI [of _ "n # ns"]) simp
qed simp

definition list_edges :: "(id \<times> id list) list \<Rightarrow> id set set" where
  "list_edges l = (\<Union>(a, bs) \<in> set l. (\<lambda>b. {a, b}) ` set bs)"

lemma json_edges_saved: "json_edges ns = list_edges (map saved ns)"
  by (auto simp: json_edges_def list_edges_def saved_def)

lemma save_list_edges:
  assumes "getAdjacence g a b \<noteq> None" and "getAdjacence g b a \<noteq> None"
    and "a \<in> set is" and "b \<in> set is" and "distinct is" and "old \<inter> set is = {}"
  shows "{a, b} \<in> list_edges (save_list g old is)"
  using assms(3-6)
proof (induction "is" arbitrary: old)
  case (Cons i "is")
  have mem: "b \<in> set (map fst (adjacencies g a))" "a \<in> set (map fst (adjacencies g b))"
    using assms(1,2) unfolding getAdjacence_def keys_map_of by auto
  show ?case
  proof (cases "i = a \<or> i = b")
    case True
    then have "{a, b} \<in> (\<lambda>c. {i, c}) ` set (filter (\<lambda>b. b \<notin> old) (map fst (adjacencies g i)))"
      using mem Cons.prems by (auto simp del: set_map)
    then show ?thesis by (simp add: list_edges_def)
  next
    case False
    then have "{a, b} \<in> list_edges (save_list g (insert i old) is)" using Cons by auto
    then show ?thesis by (simp add: list_edges_def)
  qed
qed simp

lemma list_edges_sound:
  "e \<in> list_edges (save_list g old is) \<Longrightarrow> \<exists>a b. e = {a, b} \<and> getAdjacence g a b \<noteq> None"
proof (induction "is" arbitrary: old)
  case (Cons i "is")
  show ?case
  proof (cases "e \<in> list_edges (save_list g (insert i old) is)")
    case False
    then obtain b where "e = {i, b}" "b \<in> set (map fst (adjacencies g i))"
      using Cons.prems by (auto simp: list_edges_def)
    then show ?thesis unfolding getAdjacence_def keys_map_of by blast
  qed (use Cons.IH in blast)
qed (simp add: list_edges_def)

lemma saved_nodes: "fst ` set (save_list g old is) = set is"
  by (induction "is" arbitrary: old) auto

text \<open>Saving a graph whose nodes bear the same mark.\<close>

lemma toJSON_graph_saved:
  assumes wf: "wf_graph g" and rid: "hasNode g rid"
    and marks: "\<And>j. hasNode g j \<Longrightarrow> visited_mark g j = visited_mark g rid"
  obtains h ns where "toJSON_graph g rid = Some (h, ns)" "same_links g h"
    "map saved ns = save_list g {} (map fst (g_nodes g))"
proof -
  have "same_links g g" using wf by (simp add: same_links_def)
  moreover have "\<forall>i \<in> set (map fst (g_nodes g)). hasNode g i" by (simp add: hasNode_def)
  ultimately obtain h ns where
    "fold (save_node (visited_mark g rid)) (map fst (g_nodes g)) (g, []) = (h, [] @ ns)" "same_links g h"
    "map saved ns = save_list g {} (map fst (g_nodes g))"
    using save_fold [of g g "{}" "visited_mark g rid" "map fst (g_nodes g)" "[]"] marks by auto
  then show ?thesis using rid by (intro that [of h ns]) (simp_all add: toJSON_graph_def)
qed

lemma save_list_edges_abs:
  assumes wf: "wf_graph g"
  shows "list_edges (save_list g {} (map fst (g_nodes g))) = snd (abs_graph g)"
proof
  show "list_edges (save_list g {} (map fst (g_nodes g))) \<subseteq> snd (abs_graph g)"
    using list_edges_sound [of _ g "{}" "map fst (g_nodes g)"] unfolding abs_graph_def snd_conv by blast
  show "snd (abs_graph g) \<subseteq> list_edges (save_list g {} (map fst (g_nodes g)))"
  proof
    fix e
    assume "e \<in> snd (abs_graph g)"
    then obtain a b where e: "e = {a, b}" and ab: "getAdjacence g a b \<noteq> None" by (auto simp: abs_graph_def)
    then have "getAdjacence g b a \<noteq> None" "hasNode g a" "hasNode g b"
      using wf_adj_sym [OF wf, of a b] wf_hasNode [OF wf, of a b] by auto
    then show "e \<in> list_edges (save_list g {} (map fst (g_nodes g)))"
      unfolding e using ab wf by (intro save_list_edges) (simp_all add: hasNode_def wf_graph_def)
  qed
qed

lemma json_nodes_saved:
  "json_nodes ns = fst ` set (map saved ns) \<union> \<Union> (json_edges ns)"
proof (induction ns)
  case (Cons n ns)
  have "json_nodes (n # ns) = insert (s_id (spec_of n)) (adj_target ` set (node_adjs n)) \<union> json_nodes ns"
    by (simp add: json_nodes_def)
  moreover have "\<Union> (json_edges (n # ns)) = (\<Union>adj \<in> set (node_adjs n). {s_id (spec_of n), adj_target adj}) \<union> \<Union> (json_edges ns)"
    by (simp add: json_edges_def)
  moreover have "fst ` set (map saved (n # ns)) = insert (s_id (spec_of n)) (fst ` set (map saved ns))"
    by (simp add: saved_def)
  ultimately show ?case unfolding Cons.IH by auto
qed (simp add: json_nodes_def json_edges_def)

section \<open>Properties\<close>

text \<open>
  A graph loaded from a JSON array is well formed; its nodes are the elements of the array
  and the nodes their adjacencies refer to, and two nodes are adjacent exactly when one of
  them lists the other.
\<close>

lemma construct_array_graph:
  "wf_graph (construct opt Node Edge Label (Inr json))
   \<and> {a. hasNode (construct opt Node Edge Label (Inr json)) a} = json_nodes json
   \<and> {{a, b} |a b. getAdjacence (construct opt Node Edge Label (Inr json)) a b \<noteq> None} = json_edges json"
  using construct_array [of opt Node Edge Label json] by (simp add: abs_graph_def)

text \<open>
  A graph loaded from a JSON tree is well formed; its nodes are the identifiers of the
  tree, and its adjacencies join parents and children.
\<close>

lemma construct_tree_graph:
  "wf_graph (construct opt Node Edge Label (Inl t))
   \<and> {a. hasNode (construct opt Node Edge Label (Inl t)) a} = tree_nodes t
   \<and> {{a, b} |a b. getAdjacence (construct opt Node Edge Label (Inl t)) a b \<noteq> None} = tree_edges t"
  using construct_tree_json [of opt Node Edge Label t] by (simp add: abs_graph_def)

text \<open>
  C20: saving a well-formed graph as a JSON array, while all its nodes bear the same mark, and
  loading the array again gives a graph with the same nodes and the same edges.
\<close>

theorem toJSON_construct:
  assumes "wf_graph g" and "hasNode g rid"
    and "\<forall>j. hasNode g j \<longrightarrow> visited_mark g j = visited_mark g rid"
  shows "\<exists>h ns. toJSON_graph g rid = Some (h, ns)
    \<and> abs_graph (construct opt Node Edge Label (Inr ns)) = abs_graph g"
proof -
  obtain h ns where ns: "toJSON_graph g rid = Some (h, ns)" "map saved ns = save_list g {} (map fst (g_nodes g))"
    using assms by (metis toJSON_graph_saved)
  have edges: "json_edges ns = snd (abs_graph g)"
    using save_list_edges_abs [OF assms(1)] by (simp add: json_edges_saved ns(2))
  have "\<Union> (snd (abs_graph g)) \<subseteq> {a. hasNode g a}"
    using wf_hasNode [OF assms(1)] by (fastforce simp: abs_graph_def)
  moreover have "fst ` set (map saved ns) = {a. hasNode g a}"
    unfolding ns(2) saved_nodes by (auto simp: hasNode_def)
  ultimately have "json_nodes ns = {a. hasNode g a}"
    unfolding json_nodes_saved edges by blast
  then have "json_nodes ns = fst (abs_graph g)" by (simp add: abs_graph_def)
  with edges show ?thesis using ns(1) construct_array by (metis prod.collapse)
qed

theorem toJSON_construct_witness:
  "\<exists>g h ns. abs_graph g = ({''a'', ''b''}, {{''a'', ''b''}}) \<and> toJSON_graph g ''a'' = Some (h, ns)
     \<and> abs_graph (construct \<lparr>go_complex = False, go_Node = []\<rparr> [] [] [] (Inr ns)) = ({''a'', ''b''}, {{''a'', ''b''}})"
proof -
  let ?g = "fst (addAdjacence \<lparr>s_id = ''a'', s_name = [], s_data = []\<rparr>
       \<lparr>s_id = ''b'', s_name = [], s_data = []\<rparr> [] (initialize \<lparr>go_complex = False, go_Node = []\<rparr> [] [] []))"
  have "wf_graph ?g" by (intro wf_addAdjacence wf_initialize)
  moreover have "hasNode ?g ''a''" by (simp add: addAdjacence_link Let_def link_lookups(3))
  moreover have "visited_mark ?g j = False" for j
    by (simp add: addAdjacence_link Let_def visited_mark_def getNode_def link_lookups(4) addNode_def hasNode_def
        initialize_def node_initialize_def update_conv' split: option.splits)
  ultimately obtain h ns where "toJSON_graph ?g ''a'' = Some (h, ns)"
    "abs_graph (construct \<lparr>go_complex = False, go_Node = []\<rparr> [] [] [] (Inr ns)) = abs_graph ?g"
    using toJSON_construct [of ?g "''a''" "\<lparr>go_complex = False, go_Node = []\<rparr>" "[]" "[]" "[]"] by blast
  moreover have "abs_graph ?g = ({''a'', ''b''}, {{''a'', ''b''}})"
    using abs_addAdjacence [OF wf_initialize] by (simp add: abs_initialize)
  ultimately show ?thesis by (intro exI [of _ ?g] exI [of _ h] exI [of _ ns]) simp
qed

end
