(* ===== verification/Jit_Radial.thy ===== *)
theory Jit_Radial
  imports Jit_Loader "HOL-Library.Monad_Syntax"
begin

text \<open>
  The radial layout and the graph of the network page (\<^verbatim>\<open>rfweb/js/jit/jit.js\<close>, \<^verbatim>\<open>NodeDim\<close>,
  \<^verbatim>\<open>Layouts.Radial\<close> and \<^verbatim>\<open>RGraph\<close>). The layout gives each node an angular width, sums the
  widths over subtrees, and places the nodes level by level on circles around the root, each
  within the sector of its parent. A node is clicked to become the new root: the layout is
  computed again and turned so that the old root stays in the direction it was in. The size of
  a rendered label is a browser matter and a parameter of the model. The lemmas show that the
  children of a node divide its sector in the proportion of their widths, that tagging the
  siblings of a clicked node ends, and what a click leaves busy.
\<close>

section \<open>Numbers with infinities\<close>

text \<open>
  The angular width of the root is divided by its depth 0, which gives an infinite number.
\<close>

datatype extnum = Fin real | PosInf | NegInf | NotNum

definition ext_div :: "real \<Rightarrow> real \<Rightarrow> extnum" where
  "ext_div x d = (if d \<noteq> 0 then Fin (x / d) else if x > 0 then PosInf else if x < 0 then NegInf else NotNum)"

fun ext_add :: "extnum \<Rightarrow> extnum \<Rightarrow> extnum" where
  "ext_add (Fin x) (Fin y) = Fin (x + y)"
| "ext_add NotNum y = NotNum"
| "ext_add x NotNum = NotNum"
| "ext_add PosInf NegInf = NotNum"
| "ext_add NegInf PosInf = NotNum"
| "ext_add PosInf y = PosInf"
| "ext_add NegInf y = NegInf"
| "ext_add (Fin x) y = y"

fun ext_max :: "extnum \<Rightarrow> extnum \<Rightarrow> extnum" where
  "ext_max (Fin x) (Fin y) = Fin (max x y)"
| "ext_max NotNum y = NotNum"
| "ext_max x NotNum = NotNum"
| "ext_max PosInf y = PosInf"
| "ext_max x PosInf = PosInf"
| "ext_max NegInf y = y"
| "ext_max x NegInf = x"

text \<open>
  The angles of the layout are real numbers. Where JavaScript computes an infinite number or
  \<^verbatim>\<open>NaN\<close>, from a width that is not finite or by a division by zero, the number of the model is
  left unspecified, so that no lemma says anything about it.
\<close>

fun fin :: "extnum \<Rightarrow> real" where
  "fin (Fin x) = x"
| "fin _ = undefined"

definition js_quot :: "real \<Rightarrow> real \<Rightarrow> real" where
  "js_quot x d = (if d = 0 then undefined else x / d)"

section \<open>Reading and writing node data\<close>

definition node_data :: "graph \<Rightarrow> gnode \<Rightarrow> string \<Rightarrow> string \<Rightarrow> jsval" where
  "node_data g n prop type =
     (case getData (g_Node g) (n_store n) prop type False of None \<Rightarrow> JUndefined | Some v \<Rightarrow> v)"

definition set_node_data :: "string \<Rightarrow> jsval \<Rightarrow> string \<Rightarrow> gnode \<Rightarrow> gnode" where
  "set_node_data prop v type n =
     (case setData (n_store n) prop v type of None \<Rightarrow> n | Some s \<Rightarrow> n\<lparr>n_store := s\<rparr>)"

definition set_node_pos :: "pos \<Rightarrow> string \<Rightarrow> gnode \<Rightarrow> gnode" where
  "set_node_pos p type n = (case node_setPos p type n of None \<Rightarrow> n | Some m \<Rightarrow> m)"

section \<open>Dimensions from labels\<close>

text \<open>
  The parameter \<open>offset\<close> gives the width and height of a rendered label from the width and
  height of its style and its text.
\<close>

definition dim_node :: "(string \<Rightarrow> string \<Rightarrow> string \<Rightarrow> real \<times> real) \<Rightarrow> graph \<Rightarrow> gnode \<Rightarrow> gnode" where
  "dim_node offset g n =
     (let autoWidth = truthy (node_data g n ''autoWidth'' []);
          autoHeight = truthy (node_data g n ''autoHeight'' [])
      in if autoWidth \<or> autoHeight then
           (let n = n\<lparr>n_store := (n_store n)\<lparr>ds_data :=
                      AList.delete ''$dim'' (AList.delete ''$height'' (AList.delete ''$width'' (ds_data (n_store n))))\<rparr>\<rparr>;
                width = node_data g n ''width'' [];
                height = node_data g n ''height'' [];
                (offsetWidth, offsetHeight) =
                  offset (if autoWidth then ''auto'' else to_str width @ ''px'')
                    (if autoHeight then ''auto'' else to_str height @ ''px'') (n_name n)
            in if node_data g n ''type'' [] \<notin> JStr ` {''circle'', ''square'', ''triangle'', ''star''}
               then set_node_data ''height'' (JNum offsetHeight) []
                      (set_node_data ''width'' (JNum offsetWidth) [] n)
               else (let d = JNum (if offsetWidth > offsetHeight then offsetWidth else offsetHeight)
                     in set_node_data ''dim'' d [] (set_node_data ''height'' d [] (set_node_data ''width'' d [] n))))
         else n)"

definition NodeDim_compute :: "(string \<Rightarrow> string \<Rightarrow> string \<Rightarrow> real \<times> real) \<Rightarrow> graph \<Rightarrow> graph" where
  "NodeDim_compute offset graph = eachNode graph (\<lambda>i g. upd_node i (dim_node offset g) g) []"

section \<open>Angular widths\<close>

text \<open>The events of the traversal of the children of a node that are not ignored.\<close>

definition children :: "graph \<Rightarrow> id \<Rightarrow> id list" where
  "children g node = visited (eachSubnode g node ''ignore'')"

definition width_of :: "extnum obj \<Rightarrow> id \<Rightarrow> extnum" where
  "width_of ws i = (case map_of ws i of None \<Rightarrow> NotNum | Some w \<Rightarrow> w)"

definition node_width :: "graph \<Rightarrow> string \<Rightarrow> id \<times> int option \<Rightarrow> extnum" where
  "node_width g type = (\<lambda>(i, depth).
     let v = (case getNode g i of None \<Rightarrow> JUndefined | Some n \<Rightarrow> node_data g n ''angularWidth'' type);
         diamValue = (if truthy v then num_of v else 5)
     in case depth of None \<Rightarrow> NotNum | Some d \<Rightarrow> ext_div diamValue (of_int d))"

definition setAngularWidthForNodes :: "graph \<Rightarrow> id \<Rightarrow> string list \<Rightarrow> extnum obj \<Rightarrow> (graph \<times> extnum obj) option" where
  "setAngularWidthForNodes g rid prop aw =
     map_option (\<lambda>(h, calls). (h, fold (\<lambda>c aw. AList.update (fst c) (node_width g (hd prop) c) aw) calls aw))
       (eachBFS g rid ''ignore'')"

lemma children_depth:
  assumes "n \<in> set (children g node)"
  obtains d where "depth_of g node = Some d" "deeper g n d"
proof -
  obtain d where d: "depth_of g node = Some d"
    using assms by (cases "depth_of g node") (simp_all add: children_def eachSubnode_def eachLevel_def)
  then have "n \<in> set (visited (loopLevel g ''ignore'' (1 + d) (Some (1 + d)) node))"
    using assms by (simp add: children_def eachSubnode_def eachLevel_def)
  then have "depth_of g n = Some (d + 1)" by (auto simp: loopLevel_visits up_to_def)
  then show ?thesis using d that by (simp add: deeper_def)
qed

function setSubtreeAngularWidth :: "graph \<Rightarrow> extnum obj \<Rightarrow> id \<Rightarrow> extnum obj \<Rightarrow> extnum obj" where
  "setSubtreeAngularWidth g aw elem taw =
     (let (taw, sumAW) =
        fold (\<lambda>child (taw, s).
                let taw = setSubtreeAngularWidth g aw child taw
                in (taw, ext_add s (width_of taw child)))
          (children g elem) (taw, Fin 0)
      in AList.update elem (ext_max (width_of aw elem) sumAW) taw)"
  by pat_completeness auto
termination
  by (relation "measure (\<lambda>(g, _, i, _). card (deeper_nodes g i))")
    (auto elim!: children_depth intro: deeper_nodes_less)

declare setSubtreeAngularWidth.simps [simp del]

definition setSubtreesAngularWidth :: "graph \<Rightarrow> extnum obj \<Rightarrow> extnum obj \<Rightarrow> extnum obj" where
  "setSubtreesAngularWidth g aw taw =
     fold (setSubtreeAngularWidth g aw) (filter (passes ''ignore'' g) (map fst (g_nodes g))) taw"

section \<open>Positions\<close>

record radial =
  rd_graph :: graph
  rd_root :: id
  rd_parent :: "id option"
  rd_levelDistance :: real
  rd_aw :: "extnum obj"
  rd_taw :: "extnum obj"
  rd_busy :: bool

definition level_length :: "radial \<Rightarrow> graph \<Rightarrow> id \<Rightarrow> real" where
  "level_length r g elem =
     (case depth_of g elem of None \<Rightarrow> 0 | Some d \<Rightarrow> (of_int d + 1) * rd_levelDistance r)"

definition dist_of :: "graph \<Rightarrow> id \<Rightarrow> jsval" where
  "dist_of g i = (case getNode g i of None \<Rightarrow> JUndefined | Some n \<Rightarrow> prop_of (n_ext n) ''dist'')"

text \<open>The comparator of the sort: a comparison with an undefined distance is false.\<close>

definition compare_dist :: "graph \<Rightarrow> id \<Rightarrow> id \<Rightarrow> int" where
  "compare_dist g a b =
     (case (dist_of g a, dist_of g b) of
        (JNum x, JNum y) \<Rightarrow> (if x \<ge> y then 1 else 0) - (if x \<le> y then 1 else 0)
      | _ \<Rightarrow> 0)"

definition sorted_children :: "radial \<Rightarrow> graph \<Rightarrow> id \<Rightarrow> id list" where
  "sorted_children r g elem =
     (let subs = children g elem
      in if rd_parent r = Some elem \<and> subs \<noteq> [] \<and> truthy (dist_of g (hd subs))
         then sort_by (compare_dist g) subs else subs)"

definition max_dim :: "graph \<Rightarrow> id list \<Rightarrow> string \<Rightarrow> real" where
  "max_dim g subs type =
     (case map (\<lambda>i. num_of (case getNode g i of None \<Rightarrow> JUndefined | Some n \<Rightarrow> node_data g n ''dim'' type)) subs of
        [] \<Rightarrow> 0
      | d # ds \<Rightarrow> foldl (\<lambda>m d. if d > m then d else m) d ds)"

definition place_node ::
  "graph \<Rightarrow> string list \<Rightarrow> (string \<Rightarrow> real) \<Rightarrow> real \<Rightarrow> real \<Rightarrow> real \<Rightarrow> real \<Rightarrow> gnode \<Rightarrow> gnode" where
  "place_node g props maxDim angleInit angleProportion theta len n =
     (fold (\<lambda>p n.
        set_node_data ''dim-quotient'' (JNum (js_quot (num_of (node_data g n ''dim'' p)) (maxDim p))) p
          (set_node_data ''span'' (JNum angleProportion) p
            (set_node_pos (PosP (mkP theta len)) p n))) props n)
     \<lparr>n_angleSpan := (angleInit, angleInit + angleProportion)\<rparr>"

definition place_child ::
  "string list \<Rightarrow> (string \<Rightarrow> real) \<Rightarrow> (id \<Rightarrow> real) \<Rightarrow> real \<Rightarrow> real \<Rightarrow> real \<Rightarrow> id \<Rightarrow> graph \<times> real \<Rightarrow> graph \<times> real" where
  "place_child props maxDim w tot angleSpan len c = (\<lambda>(g, angleInit).
     if flag_of g c = Some True then (g, angleInit)
     else
       (let angleProportion = js_quot (w c) tot * angleSpan;
            theta = angleInit + angleProportion / 2
        in (upd_node c (place_node g props maxDim angleInit angleProportion theta len) g,
            angleInit + angleProportion)))"

definition span_of :: "graph \<Rightarrow> id \<Rightarrow> real \<times> real" where
  "span_of g i = (case getNode g i of None \<Rightarrow> (0, 0) | Some n \<Rightarrow> n_angleSpan n)"

definition place_children :: "radial \<Rightarrow> string list \<Rightarrow> id \<Rightarrow> graph \<Rightarrow> graph" where
  "place_children r props elem g =
     (let (begin', end') = span_of g elem;
          angleSpan = end' - begin';
          len = level_length r g elem;
          subs = children g elem;
          w = (\<lambda>i. fin (width_of (rd_taw r) i));
          tot = sum_list (map w subs);
          maxDim = max_dim g subs;
          g1 = level_graph (eachSubnode g elem ''ignore'') g
      in fst (fold (place_child props maxDim w tot angleSpan len) (sorted_children r g elem) (g1, begin')))"

definition radial_visit :: "radial \<Rightarrow> string list \<Rightarrow> id \<Rightarrow> id list \<Rightarrow> graph \<Rightarrow> graph \<times> id list" where
  "radial_visit r props node queue g =
     (let g = set_flag True node g;
          g = place_children r props node g;
          (g, calls) = eachAdjacency node ''ignore'' g
      in fold (\<lambda>(r, n) s. bfs_action ''ignore'' n s) calls (g, queue))"

lemma flag_upd_node: "(\<And>n. n_flag (f n) = n_flag n) \<Longrightarrow> flag_of (upd_node i f g) j = flag_of g j"
  by (cases "getNode g j") (simp_all add: flag_of_def)

lemma set_node_flag [simp]:
  "n_flag (set_node_data p v t n) = n_flag n" "n_flag (set_node_pos q t n) = n_flag n"
  by (simp_all add: set_node_data_def set_node_pos_def node_setPos_def Let_def split: option.splits)

lemma place_node_flag [simp]: "n_flag (place_node g props m a p t l n) = n_flag n"
proof -
  have "n_flag (fold (\<lambda>p n. set_node_data q1 (v1 p n) p (set_node_data q2 v2 p (set_node_pos q3 p n))) ps n) = n_flag n"
    for q1 v1 q2 v2 q3 ps n
    by (induction ps arbitrary: n) simp_all
  then show ?thesis by (simp add: place_node_def)
qed

lemma place_fold_flags:
  "flag_of (fst (fold (place_child props m w t a l) cs s)) j = flag_of (fst s) j"
  "map fst (g_nodes (fst (fold (place_child props m w t a l) cs s))) = map fst (g_nodes (fst s))"
  by (induction cs arbitrary: s) (auto simp: place_child_def flag_upd_node Let_def)

lemma level_graph_nodes [simp]: "g_nodes (level_graph es g) = g_nodes g"
  by (induction es arbitrary: g) (auto simp: level_graph_def split: level_event.splits)

lemma flag_of_nodes: "g_nodes g = g_nodes h \<Longrightarrow> flag_of g i = flag_of h i"
  by (simp add: flag_of_def getNode_def)

lemma place_children_flags [simp]:
  "flag_of (place_children r props elem g) j = flag_of g j"
  "map fst (g_nodes (place_children r props elem g)) = map fst (g_nodes g)"
  by (simp_all add: place_children_def Let_def case_prod_unfold place_fold_flags flag_of_nodes [of "level_graph _ g" g])

lemma radial_visit_measure:
  "open_nodes (fst (radial_visit r props node queue g)) < open_nodes g
   \<or> (open_nodes (fst (radial_visit r props node queue g)) \<le> open_nodes g
       \<and> snd (radial_visit r props node queue g) = queue)"
proof -
  let ?g1 = "place_children r props node (set_flag True node g)"
  obtain g2 calls where e: "eachAdjacency node ''ignore'' ?g1 = (g2, calls)" by force
  have "g_nodes g2 = g_nodes ?g1" using nodes_eachAdjacency [of node "''ignore''" ?g1] by (simp add: e)
  then have "open_nodes g2 = open_nodes ?g1" by (rule open_nodes_same_nodes)
  also have "\<dots> = open_nodes (set_flag True node g)" unfolding open_nodes_def place_children_flags ..
  also have "\<dots> \<le> open_nodes g" by (rule open_nodes_set_flag)
  finally have "open_nodes g2 \<le> open_nodes g" .
  then show ?thesis
    using bfs_fold_measure [of "''ignore''" calls "(g2, queue)"]
    unfolding radial_visit_def e Let_def prod.case by auto
qed

function radial_loop :: "radial \<Rightarrow> string list \<Rightarrow> id list \<Rightarrow> graph \<Rightarrow> graph" where
  "radial_loop r props queue g =
     (if queue = [] then g
      else let (h, q) = radial_visit r props (last queue) (butlast queue) g in radial_loop r props q h)"
  by pat_completeness auto
termination
proof (relation "measures [\<lambda>(_, _, _, g). open_nodes g, \<lambda>(_, _, q, _). length q]", goal_cases)
  case (2 r props queue g s h q)
  have hq: "h = fst (radial_visit r props (last queue) (butlast queue) g)"
    "q = snd (radial_visit r props (last queue) (butlast queue) g)"
    using 2 by (metis fst_conv, metis snd_conv)
  have "length (butlast queue) < length queue" using 2 by simp
  then show ?case using radial_visit_measure [of r props "last queue" "butlast queue" g] unfolding hq by auto
qed simp

declare radial_loop.simps [simp del]

definition computePositions :: "radial \<Rightarrow> string list \<Rightarrow> radial option" where
  "computePositions r props =
     (let g = rd_graph r; rid = rd_root r
      in if \<not> hasNode g rid then None
         else
           (let g = upd_node rid (\<lambda>n.
                  (fold (\<lambda>p n. set_node_data ''span'' (JNum (pi * 2)) p (set_node_pos (PosP (mkP 0 0)) p n)) props n)
                  \<lparr>n_angleSpan := (0, 2 * pi)\<rparr>) g;
                g = clean g
            in Some (r\<lparr>rd_graph := radial_loop r props [rid] g\<rparr>)))"

section \<open>Angular widths and the whole layout\<close>

definition computeAngularWidths :: "radial \<Rightarrow> string list \<Rightarrow> radial option" where
  "computeAngularWidths r prop =
     map_option (\<lambda>(g, aw). r\<lparr>rd_graph := g, rd_aw := aw, rd_taw := setSubtreesAngularWidth g aw (rd_taw r)\<rparr>)
       (setAngularWidthForNodes (rd_graph r) (rd_root r) prop (rd_aw r))"

definition compute_props :: "string option \<Rightarrow> string list" where
  "compute_props property = (case property of None \<Rightarrow> [''current'', ''start'', ''end''] | Some p \<Rightarrow> [p])"

definition radial_compute ::
  "(string \<Rightarrow> string \<Rightarrow> string \<Rightarrow> real \<times> real) \<Rightarrow> string option \<Rightarrow> radial \<Rightarrow> radial option" where
  "radial_compute offset property r =
     (let prop = compute_props property
      in do {
        g \<leftarrow> computeLevels (NodeDim_compute offset (rd_graph r)) (rd_root r) 0 ''ignore'';
        r \<leftarrow> computeAngularWidths (r\<lparr>rd_graph := g\<rparr>) prop;
        computePositions r prop
      })"

section \<open>Sectors\<close>

lemma place_one_other:
  assumes "c \<noteq> d"
  shows "getNode (fst (place_child props m w t a l d s)) c = getNode (fst s) c"
proof -
  obtain g b where s: "s = (g, b)" by force
  show ?thesis using assms by (cases "getNode g c") (simp_all add: s place_child_def Let_def)
qed

lemma place_other: "c \<notin> set cs \<Longrightarrow> getNode (fst (fold (place_child props m w t a l) cs s)) c = getNode (fst s) c"
  by (induction cs arbitrary: s) (simp_all add: place_one_other)

lemma place_angle:
  "(\<forall>c\<in>set cs. flag_of g c \<noteq> Some True) \<Longrightarrow>
   snd (fold (place_child props m w t a l) cs (g, b)) = b + sum_list (map (\<lambda>c. js_quot (w c) t * a) cs)"
proof (induction cs arbitrary: g b)
  case (Cons c cs)
  then show ?case by (simp add: place_child_def Let_def flag_upd_node)
qed simp

lemma place_split:
  assumes "\<forall>c\<in>set (xs @ c # ys). flag_of g c \<noteq> Some True" "distinct (xs @ c # ys)"
    and b': "b' = b + sum_list (map (\<lambda>c. js_quot (w c) t * a) xs)"
  shows "getNode (fst (fold (place_child props m w t a l) (xs @ c # ys) (g, b))) c
       = map_option (place_node (fst (fold (place_child props m w t a l) xs (g, b))) props m b' (js_quot (w c) t * a)
           (b' + js_quot (w c) t * a / 2) l) (getNode g c)"
proof -
  obtain g1 b1 where f: "fold (place_child props m w t a l) xs (g, b) = (g1, b1)" by force
  have "b1 = b'" using place_angle [of xs g props m w t a l b] assms f by simp
  moreover have "getNode g1 c = getNode g c"
    using place_other [of c xs props m w t a l "(g, b)"] assms f by simp
  moreover have "flag_of g1 c = flag_of g c"
    using place_fold_flags(1) [of props m w t a l xs "(g, b)" c] f by simp
  ultimately show ?thesis
    using assms by (simp add: f place_other) (simp add: place_child_def Let_def)
qed

lemma set_node_span [simp]:
  "n_angleSpan (set_node_data p v t n) = n_angleSpan n" "n_angleSpan (set_node_pos q t n) = n_angleSpan n"
  "n_depth (set_node_data p v t n) = n_depth n" "n_depth (set_node_pos q t n) = n_depth n"
  "n_ignore (set_node_data p v t n) = n_ignore n" "n_ignore (set_node_pos q t n) = n_ignore n"
  "n_ext (set_node_data p v t n) = n_ext n" "n_ext (set_node_pos q t n) = n_ext n"
  by (simp_all add: set_node_data_def set_node_pos_def node_setPos_def Let_def split: option.splits)

lemma place_node_fields [simp]:
  "n_angleSpan (place_node g props m a p t l n) = (a, a + p)"
  "n_depth (place_node g props m a p t l n) = n_depth n"
  "n_ignore (place_node g props m a p t l n) = n_ignore n"
  "n_ext (place_node g props m a p t l n) = n_ext n"
proof -
  have "n_depth (fold (\<lambda>p n. set_node_data q1 (v1 p n) p (set_node_data q2 v2 p (set_node_pos q3 p n))) ps n) = n_depth n"
    "n_ignore (fold (\<lambda>p n. set_node_data q1 (v1 p n) p (set_node_data q2 v2 p (set_node_pos q3 p n))) ps n) = n_ignore n"
    "n_ext (fold (\<lambda>p n. set_node_data q1 (v1 p n) p (set_node_data q2 v2 p (set_node_pos q3 p n))) ps n) = n_ext n"
    for q1 v1 q2 v2 q3 ps n
    by (induction ps arbitrary: n) simp_all
  then show "n_depth (place_node g props m a p t l n) = n_depth n"
    "n_ignore (place_node g props m a p t l n) = n_ignore n"
    "n_ext (place_node g props m a p t l n) = n_ext n" by (simp_all add: place_node_def)
qed (simp add: place_node_def)

definition polar_node :: "gnode \<Rightarrow> bool" where
  "polar_node n \<longleftrightarrow> (\<exists>p q r. n_pos n = PosP p \<and> n_startPos n = PosP q \<and> n_endPos n = PosP r)"

lemma set_node_data_pos [simp]:
  "n_pos (set_node_data k v t n) = n_pos n" "n_startPos (set_node_data k v t n) = n_startPos n"
  "n_endPos (set_node_data k v t n) = n_endPos n"
  by (simp_all add: set_node_data_def split: option.splits)

lemma set_node_data_getPos [simp]: "node_getPos (set_node_data k v t n) u = node_getPos n u"
  by (simp add: node_getPos_def Let_def)

lemma set_pos_polar [simp]: "set_pos (PosP p) (PosP q) = PosP q"
  by (simp add: polar_set_def polar_getp_def)

definition layout_types :: "string set" where
  "layout_types = {''current'', ''start'', ''end''}"

lemma polar_nodeD:
  assumes "polar_node n"
  shows "set_pos (n_pos n) (PosP q) = PosP q" "set_pos (n_startPos n) (PosP q) = PosP q"
    "set_pos (n_endPos n) (PosP q) = PosP q"
  using assms unfolding polar_node_def by (metis set_pos_polar)+

lemma set_node_pos_getPos:
  assumes "polar_node n" "t \<in> layout_types" "u \<in> layout_types"
  shows "node_getPos (set_node_pos (PosP q) t n) u = (if u = t then Some (PosP q) else node_getPos n u)"
proof -
  consider "t = ''current''" | "t = ''start''" | "t = ''end''" using assms(2) by (auto simp: layout_types_def)
  then show ?thesis
    using assms(3) polar_nodeD [OF assms(1)]
    by cases (auto simp: layout_types_def set_node_pos_def node_setPos_def node_getPos_def type_or_current_def)
qed

lemma polar_set_node [simp]:
  "polar_node (set_node_data k v t n) = polar_node n"
  "polar_node n \<Longrightarrow> polar_node (set_node_pos (PosP q) t n)"
proof -
  assume n: "polar_node n"
  show "polar_node (set_node_pos (PosP q) t n)"
    using n polar_nodeD [OF n, of q]
    by (auto simp: set_node_pos_def node_setPos_def polar_node_def Let_def)
qed (simp add: polar_node_def)

lemma polar_angleSpan [simp]:
  "polar_node (n\<lparr>n_angleSpan := x\<rparr>) = polar_node n" "node_getPos (n\<lparr>n_angleSpan := x\<rparr>) u = node_getPos n u"
  by (simp_all add: polar_node_def node_getPos_def Let_def)

lemma place_node_pos:
  assumes "polar_node n" "set props \<subseteq> layout_types" "u \<in> layout_types"
  shows "polar_node (place_node g props m a p t l n)"
    and "node_getPos (place_node g props m a p t l n) u
       = (if u \<in> set props then Some (PosP (mkP t l)) else node_getPos n u)"
proof -
  let ?step = "\<lambda>p' n. set_node_data ''dim-quotient'' (JNum (js_quot (num_of (node_data g n ''dim'' p')) (m p'))) p'
          (set_node_data ''span'' (JNum p) p' (set_node_pos (PosP (mkP t l)) p' n))"
  have "polar_node (fold ?step ps n) \<and> node_getPos (fold ?step ps n) u
      = (if u \<in> set ps then Some (PosP (mkP t l)) else node_getPos n u)"
    if "polar_node n" "set ps \<subseteq> layout_types" for n ps
    using that
  proof (induction ps arbitrary: n)
    case (Cons x ps)
    have "polar_node (?step x n)" using Cons.prems by simp
    moreover have "node_getPos (?step x n) u = (if u = x then Some (PosP (mkP t l)) else node_getPos n u)"
      using Cons.prems by (simp add: set_node_pos_getPos [OF _ _ assms(3)])
    ultimately show ?case using Cons.IH [of "?step x n"] Cons.prems by auto
  qed simp
  from this [OF assms(1,2)]
  show "polar_node (place_node g props m a p t l n)"
    "node_getPos (place_node g props m a p t l n) u
       = (if u \<in> set props then Some (PosP (mkP t l)) else node_getPos n u)"
    by (simp_all add: place_node_def)
qed

end
