(* ===== verification/Jit_Sectors.thy ===== *)
theory Jit_Sectors
  imports Jit_Radial
begin

text \<open>
  What the radial layout computes: the children of a node share its sector in the proportion of
  their widths, one after the other and in the middle of their shares, on the circle of their
  level; over the whole layout the sectors stay within the full circle and every node moved is
  on the circle of its depth.
\<close>

section \<open>The children of a node\<close>

lemma loopLevel_bottom:
  assumes "depth_of g n = Some e" "d < e"
  shows "visited (loopLevel g flags (d + 1) (Some (d + 1)) n)
       = (if e = d + 1 \<and> passes flags g n then [n] else [])"
  using assms by (subst loopLevel.simps) (auto simp: up_to_def below_def)

lemma visited_concat: "visited (concat ess) = concat (map visited ess)"
  by (induction ess) simp_all

lemma concat_filter:
  "concat (map (\<lambda>(k, r). if c (f r) then [f r] else []) xs) = filter c (map (\<lambda>(k, r). f r) xs)"
  by (induction xs) auto

lemma subnodes_neighbours:
  "visited (eachSubnode g node flags) = (case depth_of g node of None \<Rightarrow> []
     | Some d \<Rightarrow> filter (\<lambda>n. depth_of g n = Some (d + 1) \<and> passes flags g n)
         (map (\<lambda>(key, r). other_end g node r) (adjacencies g node)))"
proof (cases "depth_of g node")
  case (Some d)
  let ?v = "\<lambda>r. visited (if deeper g (other_end g node r) d
      then loopLevel g flags (d + 1) (Some (d + 1)) (other_end g node r) else [])"
  let ?c = "\<lambda>n. depth_of g n = Some (d + 1) \<and> passes flags g n"
  have one: "?v r = (if ?c (other_end g node r) then [other_end g node r] else [])" for r
    by (cases "depth_of g (other_end g node r)") (auto simp: deeper_def loopLevel_bottom)
  have "visited (eachSubnode g node flags) = concat (map (\<lambda>(key, r). ?v r) (adjacencies g node))"
    by (simp add: eachSubnode_def eachLevel_def Some add.commute [of 1], subst loopLevel.simps)
      (simp add: Some up_to_def below_def visited_concat comp_def case_prod_unfold Let_def)
  also have "\<dots> = filter ?c (map (\<lambda>(key, r). other_end g node r) (adjacencies g node))"
    unfolding one by (rule concat_filter)
  finally show ?thesis by (simp add: Some)
qed (simp add: eachSubnode_def eachLevel_def)

lemmas children_neighbours = subnodes_neighbours [where flags = "''ignore''", folded children_def]

lemma wf_distinct_adjacencies: "wf_graph g \<Longrightarrow> distinct (map fst (adjacencies g a))"
  by (simp add: wf_graph_iff)

lemma other_end_key:
  assumes "wf_graph g" "(k, r) \<in> set (adjacencies g node)"
  shows "other_end g node r = k"
proof -
  have "getAdjacence g node k = Some r"
    using assms wf_distinct_adjacencies [OF assms(1), of node] by (simp add: getAdjacence_def)
  then have "adj_ok g node k r" using assms(1) by (intro wf_adj_ok)
  then show ?thesis by (auto simp: adj_ok_def other_end_def Let_def)
qed

lemma distinct_subnodes:
  assumes "wf_graph g"
  shows "distinct (visited (eachSubnode g node flags))"
proof (cases "depth_of g node")
  case (Some d)
  have "map (\<lambda>(key, r). other_end g node r) (adjacencies g node) = map fst (adjacencies g node)"
    using other_end_key [OF assms] by auto
  then show ?thesis
    using wf_distinct_adjacencies [OF assms, of node] unfolding subnodes_neighbours Some
    by (simp only: option.case distinct_filter)
qed (simp add: subnodes_neighbours)

lemmas distinct_children = distinct_subnodes [where flags = "''ignore''", folded children_def]

lemma children_hasNode: "c \<in> set (children g node) \<Longrightarrow> \<exists>n. getNode g c = Some n"
  by (auto simp: children_neighbours passes_def split: option.splits)

lemma sorted_children_same [simp]:
  "mset (sorted_children r g elem) = mset (children g elem)"
  "set (sorted_children r g elem) = set (children g elem)"
  by (simp_all add: sorted_children_def Let_def)

lemma distinct_sorted_children: "wf_graph g \<Longrightarrow> distinct (sorted_children r g elem)"
  by (metis distinct_children mset_eq_imp_distinct_iff sorted_children_same(1))

section \<open>One sector\<close>

abbreviation tree_width :: "radial \<Rightarrow> id \<Rightarrow> real" where
  "tree_width r c \<equiv> fin (width_of (rd_taw r) c)"

definition total_width :: "radial \<Rightarrow> graph \<Rightarrow> id \<Rightarrow> real" where
  "total_width r g elem = sum_list (map (tree_width r) (children g elem))"

definition share :: "radial \<Rightarrow> graph \<Rightarrow> id \<Rightarrow> id \<Rightarrow> real" where
  "share r g elem c = js_quot (tree_width r c) (total_width r g elem) * (snd (span_of g elem) - fst (span_of g elem))"

lemma place_children_fold:
  "place_children r props elem g = fst (fold
     (place_child props (max_dim g (children g elem)) (tree_width r) (total_width r g elem)
       (snd (span_of g elem) - fst (span_of g elem)) (level_length r g elem))
     (sorted_children r g elem) (level_graph (eachSubnode g elem ''ignore'') g, fst (span_of g elem)))"
  by (simp add: place_children_def total_width_def Let_def case_prod_unfold)

lemma getNode_nodes: "g_nodes g = g_nodes h \<Longrightarrow> getNode g i = getNode h i"
  by (simp add: getNode_def)

lemma getNode_level_graph [simp]: "getNode (level_graph es g) i = getNode g i" "flag_of (level_graph es g) i = flag_of g i"
  by (simp_all add: getNode_def flag_of_def)

lemma share_sum:
  assumes "total_width r g elem \<noteq> 0"
  shows "sum_list (map (share r g elem) (sorted_children r g elem)) = snd (span_of g elem) - fst (span_of g elem)"
proof -
  have "sum_list (map (tree_width r) (sorted_children r g elem)) = total_width r g elem"
    unfolding total_width_def by (simp flip: sum_mset_sum_list)
  moreover have "sum_list (map (\<lambda>c. f c / t * a) cs) = sum_list (map f cs) / t * a" for f :: "id \<Rightarrow> real" and t a cs
    by (induction cs) (simp_all add: algebra_simps add_divide_distrib)
  ultimately show ?thesis using assms unfolding share_def [abs_def] by (simp add: js_quot_def)
qed

section \<open>What the layout keeps\<close>

text \<open>The layout changes marks, positions, angles and data of nodes and turns adjacencies.\<close>

definition kept_node :: "gnode \<Rightarrow> gnode \<Rightarrow> bool" where
  "kept_node n m \<longleftrightarrow> n_id m = n_id n \<and> n_ignore m = n_ignore n \<and> n_depth m = n_depth n
     \<and> map_of (n_ext m) ''collapsed'' = map_of (n_ext n) ''collapsed'' \<and> (polar_node n \<longrightarrow> polar_node m)"

definition kept :: "graph \<Rightarrow> graph \<Rightarrow> bool" where
  "kept g h \<longleftrightarrow> g_edges h = g_edges g \<and> list_all2 same_adj (g_adjs g) (g_adjs h)
     \<and> map fst (g_nodes h) = map fst (g_nodes g) \<and> (\<forall>i. rel_option kept_node (getNode g i) (getNode h i))"

lemma kept_node_refl [simp]: "kept_node n n"
  by (simp add: kept_node_def)

lemma kept_refl [simp]: "kept g g"
  by (simp add: kept_def list_all2_refl option.rel_refl)

lemma kept_trans:
  assumes "kept g h" "kept h k"
  shows "kept g k"
proof -
  have "rel_option kept_node (getNode g i) (getNode k i)" for i
  proof -
    have "rel_option kept_node (getNode g i) (getNode h i)" "rel_option kept_node (getNode h i) (getNode k i)"
      using assms by (simp_all add: kept_def)
    then show ?thesis
      by (cases "getNode g i"; cases "getNode h i"; cases "getNode k i") (auto simp: kept_node_def)
  qed
  moreover have "list_all2 same_adj (g_adjs g) (g_adjs k)"
    using assms by (auto simp: kept_def intro: list_all2_trans [OF same_adj_trans])
  ultimately show ?thesis using assms by (simp add: kept_def)
qed

lemma kept_upd_node: "(\<And>n. kept_node n (f n)) \<Longrightarrow> kept g (upd_node i f g)"
  by (simp add: kept_def list_all2_refl option.rel_map option.rel_refl)

lemma kept_set_flag [simp]: "kept g (set_flag b i g)"
  unfolding set_flag_def by (rule kept_upd_node) (simp add: kept_node_def polar_node_def)

lemma kept_same_nodes:
  assumes "marks_only g h" "g_nodes h = g_nodes g"
  shows "kept g h"
  using assms by (simp add: kept_def marks_only_def getNode_def option.rel_refl)

lemma ignore_flag [simp]: "flag_props ''ignore'' = [''ignore'']" "plain_flags ''ignore''"
  by code_simp code_simp

lemma kept_lookups:
  assumes "kept g h"
  shows "adjacencies h i = adjacencies g i" "getAdjacence h i j = getAdjacence g i j"
    "hasNode h i = hasNode g i" "depth_of h i = depth_of g i" "passes ''ignore'' h i = passes ''ignore'' g i"
proof -
  show "adjacencies h i = adjacencies g i" "getAdjacence h i j = getAdjacence g i j" "hasNode h i = hasNode g i"
    using assms by (simp_all add: kept_def adjacencies_def getAdjacence_def hasNode_def flip: set_map)
  have "rel_option kept_node (getNode g i) (getNode h i)" using assms by (simp add: kept_def)
  then show "depth_of h i = depth_of g i" "passes ''ignore'' h i = passes ''ignore'' g i"
    by (cases "getNode g i"; cases "getNode h i";
        simp add: depth_of_def passes_def filter_node_def node_prop_def kept_node_def)+
qed

lemma kept_wf:
  assumes "wf_graph g" "kept g h"
  shows "wf_graph h"
proof -
  have "rel_option (\<lambda>n m. n_id m = n_id n) (getNode g i) (getNode h i)" for i
    using assms(2) by (auto simp: kept_def kept_node_def intro: option.rel_mono_strong [of kept_node])
  then show ?thesis using assms(2) by (intro wf_same_links [OF assms(1)]) (simp_all add: kept_def)
qed

lemma kept_neighbours:
  assumes wf: "wf_graph g" and k: "kept g h"
  shows "neighbours ''ignore'' h x = neighbours ''ignore'' g x"
proof -
  have "filter_adj ''ignore'' (g_adjs h ! r) = filter_adj ''ignore'' (g_adjs g ! r)"
    if "(y, r) \<in> set (adjacencies g x)" for y r
  proof -
    have "getAdjacence g x y = Some r"
      using that wf_distinct_adjacencies [OF wf, of x] by (simp add: getAdjacence_def)
    then have "r < length (g_adjs g)" using wf_adj_ok [OF wf, of x y r] by (simp add: adj_ok_def)
    then have "same_adj (g_adjs g ! r) (g_adjs h ! r)" using k by (simp add: kept_def list_all2_conv_all_nth)
    then show ?thesis by (simp add: filter_adj_def adj_prop_def same_adj_def)
  qed
  then have "linked ''ignore'' h x = linked ''ignore'' g x"
    unfolding linked_def kept_lookups(1) [OF k]
    by (intro arg_cong [of _ _ "map fst"] filter_cong refl) auto
  then show ?thesis by (simp add: neighbours_def kept_lookups(5) [OF k, abs_def])
qed

lemma kept_children:
  assumes wf: "wf_graph g" and k: "kept g h"
  shows "children h x = children g x"
proof -
  have "map (\<lambda>(key, r). other_end h x r) (adjacencies g x) = map (\<lambda>(key, r). other_end g x r) (adjacencies g x)"
    using other_end_key [OF wf, of _ _ x] other_end_key [OF kept_wf [OF wf k], of _ _ x]
    by (auto simp: kept_lookups(1) [OF k])
  then show ?thesis unfolding children_neighbours kept_lookups(1,4,5) [OF k] by (simp only:)
qed

lemma kept_place_node: "set props \<subseteq> layout_types \<Longrightarrow> kept_node n (place_node g props m a p t l n)"
proof -
  assume p: "set props \<subseteq> layout_types"
  have "n_id (set_node_data k v t n) = n_id n" "n_id (set_node_pos q t n) = n_id n" for k v t n q
    by (simp_all add: set_node_data_def set_node_pos_def node_setPos_def Let_def split: option.splits)
  then have "n_id (fold (\<lambda>p n. set_node_data q1 (v1 p n) p (set_node_data q2 v2 p (set_node_pos q3 p n))) ps n) = n_id n"
    for q1 v1 q2 v2 q3 ps n
    by (induction ps arbitrary: n) simp_all
  moreover have "''end'' \<in> layout_types" by (simp add: layout_types_def)
  ultimately show ?thesis
    using place_node_pos(1) [OF _ p, of n "''end''"] by (simp add: kept_node_def) (simp add: place_node_def)
qed

lemma marks_only_level_graph: "marks_only g (level_graph es g)"
proof -
  have "marks_only g h \<Longrightarrow> marks_only g (level_graph es h)" for h
  proof (induction es arbitrary: h)
    case (Cons e es)
    have "marks_only g (case e of Orient node r \<Rightarrow> orient node r h | Visit _ _ \<Rightarrow> h)"
      using Cons.prems by (cases e) (simp_all add: marks_only_trans [OF _ marks_only_orient])
    from Cons.IH [OF this] show ?case by (simp add: level_graph_def)
  qed (simp add: level_graph_def)
  then show ?thesis by simp
qed

lemma kept_place_children:
  assumes "set props \<subseteq> layout_types"
  shows "kept g (place_children r props elem g)"
proof -
  have one: "kept (fst s) (fst (place_child props m w t a l c s))" for m w t a l c s
    by (cases s) (auto simp: place_child_def Let_def kept_upd_node kept_place_node [OF assms])
  have all: "kept (fst s) (fst (fold (place_child props m w t a l) cs s))" for m w t a l cs s
  proof (induction cs arbitrary: s)
    case (Cons c cs)
    show ?case using kept_trans [OF one Cons.IH] by simp
  qed simp
  have "kept g (level_graph (eachSubnode g elem ''ignore'') g)"
    by (rule kept_same_nodes [OF marks_only_level_graph level_graph_nodes])
  note k = this
  show ?thesis
    unfolding place_children_fold using kept_trans [OF k] all [of "(level_graph (eachSubnode g elem ''ignore'') g, b)" for b] by simp
qed

section \<open>The order of the breadth-first traversal\<close>

text \<open>
  A queue that is filled at its front and taken from its end visits nodes by distance: the
  neighbours of the node taken that were not seen before are one step further from the start.
\<close>

locale breadth_first =
  fixes nb :: "id \<Rightarrow> id list" and r :: id
begin

definition reach :: "id \<Rightarrow> bool" where
  "reach x \<longleftrightarrow> (\<exists>k. x \<in> set (layer nb r k))"

definition hops :: "id \<Rightarrow> nat" where
  "hops x = (LEAST k. x \<in> set (layer nb r k))"

definition seen_inv :: "id set \<Rightarrow> id list \<Rightarrow> bool" where
  "seen_inv S q \<longleftrightarrow> r \<in> S \<and> (\<forall>x \<in> S. reach x) \<and> set q \<subseteq> S \<and> (\<forall>x \<in> S - set q. set (nb x) \<subseteq> S)
     \<and> sorted_wrt (\<lambda>x y. hops y \<le> hops x) q \<and> (\<forall>x \<in> set q. hops x \<le> hops (last q) + 1)"

lemma reach_root: "reach r" "hops r = 0"
proof -
  have "r \<in> set (layer nb r 0)" by simp
  then show "reach r" "hops r = 0" unfolding reach_def hops_def by (blast, metis Least_eq_0)
qed

lemma reach_hops: "reach x \<Longrightarrow> x \<in> set (layer nb r (hops x))"
  unfolding reach_def hops_def by (rule LeastI_ex)

lemma reach_step: "reach u \<Longrightarrow> v \<in> set (nb u) \<Longrightarrow> reach v \<and> hops v \<le> hops u + 1"
proof -
  assume "reach u" "v \<in> set (nb u)"
  then have "v \<in> set (layer nb r (Suc (hops u)))" using reach_hops by auto
  then show ?thesis
    unfolding reach_def hops_def [of v] Suc_eq_plus1 [symmetric] by (blast intro: Least_le)
qed

lemma reach_parent: "reach v \<Longrightarrow> v \<noteq> r \<Longrightarrow> \<exists>u. reach u \<and> v \<in> set (nb u) \<and> hops v = hops u + 1"
proof -
  assume v: "reach v" "v \<noteq> r"
  then obtain k where k: "hops v = Suc k" using reach_hops [OF v(1)] by (cases "hops v") auto
  then obtain u where u: "u \<in> set (layer nb r k)" "v \<in> set (nb u)" using reach_hops [OF v(1)] by auto
  then have "reach u" "hops u \<le> k" unfolding reach_def hops_def by (auto intro: Least_le)
  then show ?thesis using reach_step [of u v] u(2) k by (intro exI [of _ u]) auto
qed

lemma unseen_behind:
  assumes "seen_inv S q" "reach n" "n \<notin> S"
  shows "\<exists>y \<in> set q. hops y < hops n"
  using assms(2,3)
proof (induction "hops n" arbitrary: n rule: less_induct)
  case less
  have "n \<noteq> r" using less.prems assms(1) by (auto simp: seen_inv_def)
  then obtain u where u: "reach u" "n \<in> set (nb u)" "hops n = hops u + 1" using reach_parent less.prems by blast
  show ?case
  proof (cases "u \<in> S")
    case True
    then have "u \<in> set q" using assms(1) u(2) less.prems by (auto simp: seen_inv_def)
    then show ?thesis using u(3) by auto
  next
    case False
    then obtain y where "y \<in> set q" "hops y < hops u" using less.hyps [of u] u by auto
    then show ?thesis using u(3) by (intro bexI [of _ y]) simp_all
  qed
qed

lemma unseen_next:
  assumes "seen_inv S (q @ [x])" "n \<in> set (nb x)" "n \<notin> S"
  shows "hops n = hops x + 1"
proof -
  have "reach x" using assms(1) by (simp add: seen_inv_def)
  then have n: "reach n" "hops n \<le> hops x + 1" using reach_step assms(2) by blast+
  obtain y where "y \<in> set (q @ [x])" "hops y < hops n" using unseen_behind [OF assms(1) n(1) assms(3)] by blast
  moreover have "hops x \<le> hops y"
    using calculation(1) assms(1) by (auto simp: seen_inv_def sorted_wrt_append)
  ultimately show ?thesis using n(2) by simp
qed

lemma seen_start: "seen_inv {r} [r]"
  by (simp add: seen_inv_def reach_root)

lemma seen_step:
  assumes inv: "seen_inv S (q @ [x])" and new: "set new = set (nb x) - S"
  shows "seen_inv (S \<union> set (nb x)) (new @ q)"
proof -
  have x: "reach x" using inv by (simp add: seen_inv_def)
  have far: "hops n = hops x + 1" if "n \<in> set new" for n using that new unseen_next [OF inv] by simp
  have near: "hops x \<le> hops y \<and> hops y \<le> hops x + 1" if "y \<in> set q" for y
    using inv that by (auto simp: seen_inv_def sorted_wrt_append)
  have "sorted_wrt (\<lambda>x y. hops y \<le> hops x) new"
    using far by (auto simp: sorted_wrt_iff_nth_less)
  moreover have "sorted_wrt (\<lambda>x y. hops y \<le> hops x) q" using inv by (simp add: seen_inv_def sorted_wrt_append)
  ultimately have "sorted_wrt (\<lambda>x y. hops y \<le> hops x) (new @ q)"
    using far near by (auto simp: sorted_wrt_append)
  moreover have "hops y \<le> hops (last (new @ q)) + 1" if "y \<in> set (new @ q)" for y
  proof -
    have "last (new @ q) \<in> set (new @ q)" using that by (intro last_in_set) auto
    then have "hops x \<le> hops (last (new @ q))" using far near by auto
    moreover have "hops y \<le> hops x + 1" using that far near by auto
    ultimately show ?thesis by simp
  qed
  moreover have "\<forall>y \<in> S \<union> set (nb x). reach y" using inv reach_step [OF x] by (auto simp: seen_inv_def)
  moreover have "set (nb y) \<subseteq> S \<union> set (nb x)" if "y \<in> S \<union> set (nb x) - set (new @ q)" for y
    using that new inv by (auto simp: seen_inv_def)
  ultimately show ?thesis using inv new by (auto simp: seen_inv_def)
qed

lemma seen_end:
  assumes "seen_inv S []" "reach x"
  shows "x \<in> S"
  using unseen_behind [OF assms] by auto

end

interpretation layout_bfs: breadth_first "neighbours ''ignore'' g" rid for g rid .

section \<open>Every node on its circle\<close>

definition on_circle :: "real \<Rightarrow> string list \<Rightarrow> gnode option \<Rightarrow> int \<Rightarrow> bool" where
  "on_circle ld props n d \<longleftrightarrow>
     (\<forall>u \<in> set props. \<exists>m theta. n = Some m \<and> node_getPos m u = Some (PosP (mkP theta (of_int d * ld))))"

lemma place_fold_keep:
  assumes "flag_of (fst s) c = Some True"
  shows "getNode (fst (fold (place_child props m w t a l) cs s)) c = getNode (fst s) c"
  using assms
proof (induction cs arbitrary: s)
  case (Cons d cs)
  obtain g b where s: "s = (g, b)" by force
  have same: "getNode (fst (place_child props m w t a l d s)) c = getNode (fst s) c"
  proof (cases "c = d")
    case True
    then show ?thesis using Cons.prems by (simp add: place_child_def s)
  qed (rule place_one_other)
  then have "flag_of (fst (place_child props m w t a l d s)) c = Some True" using Cons.prems by (simp add: flag_of_def)
  from Cons.IH [OF this] same show ?case by simp
qed simp

lemma place_fold_one:
  assumes "distinct cs" "c \<in> set cs" "flag_of (fst s) c \<noteq> Some True"
  shows "\<exists>g b p theta. getNode (fst (fold (place_child props m w t a l) cs s)) c
      = map_option (place_node g props m b p theta l) (getNode (fst s) c)"
proof -
  obtain xs ys where cs: "cs = xs @ c # ys" "c \<notin> set xs" "c \<notin> set ys"
    using assms(1) split_list [OF assms(2)] by auto
  obtain g b where f: "fold (place_child props m w t a l) xs s = (g, b)" by force
  have same: "getNode g c = getNode (fst s) c" "flag_of g c \<noteq> Some True"
    using place_other [OF cs(2), of props m w t a l s] assms(3) f by (simp_all add: flag_of_def)
  have "getNode (fst (fold (place_child props m w t a l) cs s)) c
      = getNode (fst (place_child props m w t a l c (g, b))) c"
    by (simp add: cs(1) f place_other [OF cs(3)])
  also have "\<dots> = map_option (place_node g props m b (js_quot (w c) t * a) (b + js_quot (w c) t * a / 2) l) (getNode (fst s) c)"
    using same by (simp add: place_child_def Let_def)
  finally show ?thesis by blast
qed

lemma place_children_keep:
  "flag_of g c = Some True \<Longrightarrow> getNode (place_children r props elem g) c = getNode g c"
  unfolding place_children_fold by (simp add: place_fold_keep)

lemma place_children_circle:
  assumes wf: "wf_graph g" and types: "set props \<subseteq> layout_types" and c: "c \<in> set (children g elem)"
    and open_c: "flag_of g c \<noteq> Some True" and n: "getNode g c = Some n" "polar_node n"
    and d: "depth_of g elem = Some d"
  shows "on_circle (rd_levelDistance r) props (getNode (place_children r props elem g) c) (d + 1)"
proof -
  let ?s = "(level_graph (eachSubnode g elem ''ignore'') g, fst (span_of g elem))"
  have "c \<in> set (sorted_children r g elem)" "flag_of (fst ?s) c \<noteq> Some True" "getNode (fst ?s) c = Some n"
    using c open_c n(1) by simp_all
  then obtain h b p theta where "getNode (place_children r props elem g) c = Some
      (place_node h props (max_dim g (children g elem)) b p theta (level_length r g elem) n)"
    using place_fold_one [OF distinct_sorted_children [OF wf], of c r elem ?s props
        "max_dim g (children g elem)" "tree_width r" "total_width r g elem"
        "snd (span_of g elem) - fst (span_of g elem)" "level_length r g elem"]
    unfolding place_children_fold by auto
  moreover have "level_length r g elem = of_int (d + 1) * rd_levelDistance r"
    by (simp add: level_length_def d)
  ultimately show ?thesis
    using place_node_pos(2) [OF n(2) types] types by (auto simp: on_circle_def)
qed

lemma bfs_fold_spec:
  assumes "\<forall>n \<in> set ns. flag_of g n \<noteq> None" "distinct ns"
  shows "fold (bfs_action ''ignore'') ns (g, q)
    = (fold (set_flag True) [n \<leftarrow> ns. flag_of g n = Some False \<and> passes ''ignore'' g n] g,
       rev [n \<leftarrow> ns. flag_of g n = Some False \<and> passes ''ignore'' g n] @ q)"
  using assms
proof (induction ns arbitrary: g q)
  case (Cons n ns)
  have same: "flag_of (set_flag True n g) m = flag_of g m" "passes ''ignore'' (set_flag True n g) m = passes ''ignore'' g m"
    if "m \<in> set ns" for m
    using that Cons.prems kept_lookups(5) [OF kept_set_flag] by auto
  have "[m \<leftarrow> ns. flag_of (set_flag True n g) m = Some False \<and> passes ''ignore'' (set_flag True n g) m]
      = [m \<leftarrow> ns. flag_of g m = Some False \<and> passes ''ignore'' g m]"
    using same by (intro filter_cong) auto
  then show ?case
    using Cons.IH [of g q] Cons.IH [of "set_flag True n g" "n # q"] Cons.prems same
    by (simp add: bfs_action_def)
qed simp

abbreviation seen_by :: "graph \<Rightarrow> id list \<Rightarrow> id set" where
  "seen_by g q \<equiv> {x. flag_of g x = Some True} \<union> set q"

definition layout_inv :: "graph \<Rightarrow> id \<Rightarrow> real \<Rightarrow> string list \<Rightarrow> graph \<Rightarrow> id list \<Rightarrow> bool" where
  "layout_inv g0 rid ld props g q \<longleftrightarrow>
     kept g0 g \<and> (\<forall>x. hasNode g0 x \<longrightarrow> flag_of g x \<noteq> None) \<and> (\<forall>y \<in> set (butlast q). flag_of g y = Some True)
     \<and> breadth_first.seen_inv (neighbours ''ignore'' g0) rid (seen_by g q) q
     \<and> (\<forall>x d. x \<in> seen_by g q \<longrightarrow> depth_of g0 x = Some d \<longrightarrow> on_circle ld props (getNode g x) d)"

text \<open>The graph the positions are computed for: every node reached has its distance as depth.\<close>

definition leveled :: "graph \<Rightarrow> id \<Rightarrow> bool" where
  "leveled g rid \<longleftrightarrow> wf_graph g \<and> passes ''ignore'' g rid \<and> (\<forall>i n. getNode g i = Some n \<longrightarrow> polar_node n)
     \<and> (\<forall>x. breadth_first.reach (neighbours ''ignore'' g) rid x
          \<longrightarrow> depth_of g x = Some (int (breadth_first.hops (neighbours ''ignore'' g) rid x)))"

lemma on_circle_set_flag [simp]: "on_circle ld props (getNode (set_flag b i g) x) d = on_circle ld props (getNode g x) d"
proof -
  have "node_getPos (n\<lparr>n_flag := v\<rparr>) u = node_getPos n u" for n v u by (simp add: node_getPos_def Let_def)
  then show ?thesis
    by (cases "getNode g x") (auto simp: on_circle_def set_flag_def)
qed

lemma flags_fold:
  "flag_of (fold (set_flag True) ns g) x = (if x \<in> set ns \<and> hasNode g x then Some True else flag_of g x)"
  "on_circle ld props (getNode (fold (set_flag True) ns g) x) d = on_circle ld props (getNode g x) d"
  "kept g (fold (set_flag True) ns g)"
proof -
  have has: "hasNode (set_flag True n g) x = hasNode g x" for n g by (simp add: set_flag_def)
  show "flag_of (fold (set_flag True) ns g) x = (if x \<in> set ns \<and> hasNode g x then Some True else flag_of g x)"
    by (induction ns arbitrary: g) (auto simp: has)
  show "on_circle ld props (getNode (fold (set_flag True) ns g) x) d = on_circle ld props (getNode g x) d"
    by (induction ns arbitrary: g) simp_all
  have "kept h g \<Longrightarrow> kept h (fold (set_flag True) ns g)" for h
    by (induction ns arbitrary: g) (simp_all add: kept_trans [OF _ kept_set_flag])
  then show "kept g (fold (set_flag True) ns g)" by simp
qed

lemma radial_visit_spec:
  fixes x :: id and r :: radial and q :: "id list"
  assumes wf: "wf_graph g0" and k: "kept g0 g" and types: "set props \<subseteq> layout_types"
    and marked: "\<forall>x. hasNode g0 x \<longrightarrow> flag_of g x \<noteq> None"
  defines "new \<equiv> [n \<leftarrow> neighbours ''ignore'' g0 x. flag_of (set_flag True x g) n \<noteq> Some True]"
    and "g2 \<equiv> place_children r props x (set_flag True x g)"
  shows "\<exists>g3. g_nodes g3 = g_nodes g2 \<and> kept g0 g3 \<and> radial_visit r props x q g = (fold (set_flag True) new g3, rev new @ q)"
proof -
  obtain g3 calls where e: "eachAdjacency x ''ignore'' g2 = (g3, calls)" by force
  have k2: "kept g0 g2"
    unfolding g2_def by (rule kept_trans [OF kept_trans [OF k kept_set_flag] kept_place_children [OF types]])
  note wf2 = kept_wf [OF wf k2]
  have adj: "marks_only g2 g3" "map snd calls = linked ''ignore'' g2 x"
    using eachAdjacency_linked [OF wf2, of x "''ignore''"] e by simp_all
  have nodes: "g_nodes g3 = g_nodes g2" using nodes_eachAdjacency [of x "''ignore''" g2] e by simp
  have k3: "kept g0 g3" by (rule kept_trans [OF k2 kept_same_nodes [OF adj(1) nodes]])
  have flag: "flag_of g3 n = flag_of (set_flag True x g) n" for n
    using flag_of_nodes [OF nodes] by (simp add: g2_def)
  have in_graph: "hasNode g0 n" if "n \<in> set (map snd calls)" for n
  proof -
    from that obtain r' where "(n, r') \<in> set (adjacencies g2 x)" unfolding adj(2) linked_def by auto
    then have "getAdjacence g2 x n = Some r'"
      using wf_distinct_adjacencies [OF wf2, of x] by (simp add: getAdjacence_def)
    then show ?thesis using wf_hasNode [OF wf2] kept_lookups(3) [OF k2] by blast
  qed
  then have defined: "\<forall>n \<in> set (map snd calls). flag_of g3 n \<noteq> None" using marked by (auto simp: flag)
  have dist: "distinct (map snd calls)"
    unfolding adj(2) linked_def using wf_distinct_adjacencies [OF wf2, of x] by (rule distinct_map_filter)
  have "[n \<leftarrow> map snd calls. flag_of g3 n = Some False \<and> passes ''ignore'' g3 n] = new"
  proof -
    have "passes ''ignore'' g2 = passes ''ignore'' g0" by (intro ext kept_lookups(5) [OF k2])
    then have "neighbours ''ignore'' g0 x = filter (passes ''ignore'' g0) (map snd calls)"
      using kept_neighbours [OF wf k2, of x] adj(2) by (simp add: neighbours_def)
    moreover have "flag_of g3 n = Some False \<longleftrightarrow> flag_of (set_flag True x g) n \<noteq> Some True"
      if "n \<in> set (map snd calls)" for n
      using defined that unfolding flag by (cases "flag_of (set_flag True x g) n") auto
    ultimately show ?thesis
      unfolding new_def by (auto simp: kept_lookups(5) [OF k3] simp del: flag_set_flag intro!: filter_cong)
  qed
  moreover have "radial_visit r props x q g = fold (bfs_action ''ignore'') (map snd calls) (g3, q)"
    unfolding radial_visit_def g2_def [symmetric] Let_def
    by (simp add: e fold_map comp_def case_prod_unfold flip: g2_def)
  ultimately show ?thesis using bfs_fold_spec [OF defined dist] nodes k3 by auto
qed

text \<open>A neighbour one level deeper is a child of the node, and is placed on the next circle.\<close>

lemma new_child_circle:
  assumes lev: "leveled g0 rid" and types: "set props \<subseteq> layout_types" and k1: "kept g0 g1"
    and dx: "depth_of g0 x = Some d" and n: "y \<in> set (neighbours ''ignore'' g0 x)"
    and y: "depth_of g0 y = Some (d + 1)" "flag_of g1 y \<noteq> Some True"
  shows "on_circle (rd_levelDistance r) props (getNode (place_children r props x g1) y) (d + 1)"
proof -
  have wf: "wf_graph g0" using lev by (simp add: leveled_def)
  obtain k' where adj: "(y, k') \<in> set (adjacencies g0 x)" "passes ''ignore'' g0 y"
    using n by (auto simp: neighbours_def linked_def)
  then have "y \<in> set (children g0 x)"
    using other_end_key [OF wf adj(1)] y(1) unfolding children_neighbours dx by force
  then have c: "y \<in> set (children g1 x)" using kept_children [OF wf k1] by simp
  obtain m where m: "getNode g1 y = Some m" using children_hasNode [OF c] by blast
  obtain n0 where n0: "getNode g0 y = Some n0" using y(1) by (cases "getNode g0 y") (auto simp: depth_of_def)
  moreover have "rel_option kept_node (getNode g0 y) (getNode g1 y)" using k1 by (simp only: kept_def)
  ultimately have "kept_node n0 m" unfolding m by simp
  then have "polar_node m" using lev n0 by (simp add: leveled_def kept_node_def)
  then show ?thesis
    using place_children_circle [OF kept_wf [OF wf k1] types c _ m _ dx [folded kept_lookups(4) [OF k1]], of r]
      y(2) by simp
qed

lemma layout_step:
  assumes lev: "leveled g0 rid" and types: "set props \<subseteq> layout_types"
    and inv: "layout_inv g0 rid (rd_levelDistance r) props g (q @ [x])"
    and visit: "radial_visit r props x q g = (h, q')"
  shows "layout_inv g0 rid (rd_levelDistance r) props h q'"
proof -
  let ?nb = "neighbours ''ignore'' g0" and ?ld = "rd_levelDistance r" and ?g1 = "set_flag True x g"
  let ?S = "seen_by g (q @ [x])" and ?new = "[n \<leftarrow> ?nb x. flag_of ?g1 n \<noteq> Some True]"
  have wf: "wf_graph g0" using lev by (simp add: leveled_def)
  have k: "kept g0 g" and marked: "\<forall>x. hasNode g0 x \<longrightarrow> flag_of g x \<noteq> None"
    and q: "\<forall>y \<in> set q. flag_of g y = Some True" and seen: "breadth_first.seen_inv ?nb rid ?S (q @ [x])"
    and circ: "\<And>x d. x \<in> ?S \<Longrightarrow> depth_of g0 x = Some d \<Longrightarrow> on_circle ?ld props (getNode g x) d"
    using inv unfolding layout_inv_def butlast_snoc by blast+
  obtain g3 where g3: "g_nodes g3 = g_nodes (place_children r props x ?g1)" "kept g0 g3"
    and hq: "h = fold (set_flag True) ?new g3" "q' = rev ?new @ q"
    using radial_visit_spec [OF wf k types marked, of r x q] unfolding visit prod.inject by blast
  have k1: "kept g0 ?g1" by (rule kept_trans [OF k kept_set_flag])
  have k3: "kept g0 h" unfolding hq by (rule kept_trans [OF g3(2) flags_fold(3)])
  have reach: "breadth_first.reach ?nb rid x" using seen by (simp add: layout_bfs.seen_inv_def)
  have dx: "depth_of g0 x = Some (int (breadth_first.hops ?nb rid x))"
    using lev reach by (simp add: leveled_def)
  have has: "hasNode g0 n" if "n \<in> set (?nb y)" for n y using that passes_hasNode by (auto simp: neighbours_def)
  have hasx: "hasNode g x"
    using dx kept_lookups(3) [OF k] by (cases "getNode g0 x") (auto simp: depth_of_def hasNode_getNode)
  have flag3: "flag_of g3 n = flag_of ?g1 n" for n using flag_of_nodes [OF g3(1)] by simp
  have g1: "flag_of ?g1 n = Some True \<longleftrightarrow> n \<in> ?S" for n using q hasx by auto
  have new: "set ?new = set (?nb x) - ?S" using g1 by auto
  have flagh: "flag_of h n = Some True \<longleftrightarrow> n \<in> ?S \<union> set (?nb x)" for n
    unfolding hq flags_fold(1) flag3 using new has kept_lookups(3) [OF g3(2)] g1 by auto
  have eq: "seen_by h q' = ?S \<union> set (?nb x)" using flagh q new unfolding hq(2) by auto
  have circle: "on_circle ?ld props (getNode h y) d" if y: "y \<in> seen_by h q'" "depth_of g0 y = Some d" for y d
  proof (cases "y \<in> ?S")
    case True
    then have "getNode g3 y = getNode ?g1 y"
      using place_children_keep [of ?g1 y r props x] g1 getNode_nodes [OF g3(1)] by simp
    then show ?thesis using circ [OF True y(2)] unfolding hq flags_fold(2) by simp
  next
    case False
    then have n: "y \<in> set (?nb x)" using y(1) eq by auto
    have "breadth_first.hops ?nb rid y = breadth_first.hops ?nb rid x + 1"
      by (rule layout_bfs.unseen_next [OF seen n False])
    moreover have "breadth_first.reach ?nb rid y" using layout_bfs.reach_step [OF reach n] by simp
    ultimately have d: "d = int (breadth_first.hops ?nb rid x) + 1" using y(2) lev by (simp add: leveled_def)
    then have "on_circle ?ld props (getNode (place_children r props x ?g1) y) d"
      using new_child_circle [OF lev types k1 dx n, of r] y(2) False g1 by simp
    then show ?thesis unfolding hq flags_fold(2) using getNode_nodes [OF g3(1)] by simp
  qed
  have "flag_of h n \<noteq> None" if "hasNode g0 n" for n
    using that marked unfolding hq flags_fold(1) flag3 by auto
  moreover have "\<forall>y \<in> set (butlast q'). flag_of h y = Some True"
    using q new flagh unfolding hq(2) by (auto dest!: in_set_butlastD)
  moreover have "breadth_first.seen_inv ?nb rid (seen_by h q') q'"
    unfolding eq unfolding hq(2) by (rule layout_bfs.seen_step [OF seen]) (simp only: set_rev new)
  ultimately show ?thesis using k3 circle unfolding layout_inv_def by blast
qed

lemma layout_loop:
  assumes lev: "leveled g0 rid"
  shows "set props \<subseteq> layout_types \<Longrightarrow> layout_inv g0 rid (rd_levelDistance r) props g q
    \<Longrightarrow> layout_inv g0 rid (rd_levelDistance r) props (radial_loop r props q g) []"
proof (induction r props q g rule: radial_loop.induct)
  case (1 r props q g)
  show ?case
  proof (cases "q = []")
    case True
    then show ?thesis using "1.prems" by (simp add: radial_loop.simps)
  next
    case False
    obtain h q' where v: "radial_visit r props (last q) (butlast q) g = (h, q')" by force
    have "layout_inv g0 rid (rd_levelDistance r) props h q'"
      using layout_step [OF lev "1.prems"(1) _ v] "1.prems"(2) False by simp
    from "1.IH" [OF False v [symmetric] refl "1.prems"(1) this] show ?thesis
      using False by (subst radial_loop.simps) (simp add: v)
  qed
qed

lemma flag_clean:
  "flag_of (clean g) x = (if hasNode g x then Some False else None)" "kept g (clean g)"
  "on_circle ld props (getNode (clean g) x) d = on_circle ld props (getNode g x) d"
proof -
  let ?step = "\<lambda>i h. case getNode h i of None \<Rightarrow> h | Some n \<Rightarrow> if filter_node [] n then set_flag False i h else h"
  have step: "?step i h = set_flag False i h \<or> \<not> hasNode h i \<and> ?step i h = h" for i h
    by (auto simp: filter_node_def flag_props_def hasNode_getNode split: option.splits)
  have "kept g (fold ?step is h) \<and> (\<forall>x. flag_of (fold ?step is h) x
      = (if x \<in> set is \<and> hasNode g x then Some False else flag_of h x))
      \<and> on_circle ld props (getNode (fold ?step is h) x) d = on_circle ld props (getNode h x) d"
    if "kept g h" for "is" h
    using that
  proof (induction "is" arbitrary: h)
    case (Cons i "is")
    have k: "kept g (?step i h)" using step [where i = i and h = h] Cons.prems kept_trans [OF _ kept_set_flag] by metis
    have "flag_of (?step i h) x = (if x = i \<and> hasNode g x then Some False else flag_of h x)" for x
      using step [where i = i and h = h] kept_lookups(3) [OF Cons.prems] by auto
    moreover have "on_circle ld props (getNode (?step i h) x) d = on_circle ld props (getNode h x) d"
      using step [where i = i and h = h] by (metis on_circle_set_flag)
    ultimately show ?case using Cons.IH [OF k] by auto
  qed simp
  note this [OF kept_refl, of "map fst (g_nodes g)"]
  moreover have "flag_of g x = None" if "\<not> hasNode g x" using that by (simp add: flag_of_def hasNode_getNode)
  ultimately show "flag_of (clean g) x = (if hasNode g x then Some False else None)" "kept g (clean g)"
    "on_circle ld props (getNode (clean g) x) d = on_circle ld props (getNode g x) d"
    by (auto simp: clean_def eachNode_def hasNode_def)
qed

lemma leveled_kept:
  assumes lev: "leveled g rid" and k: "kept g h"
  shows "leveled h rid"
proof -
  have wf: "wf_graph g" using lev by (simp add: leveled_def)
  have nb: "neighbours ''ignore'' h = neighbours ''ignore'' g" by (intro ext kept_neighbours [OF wf k])
  have "polar_node m" if "getNode h i = Some m" for i m
  proof -
    have "rel_option kept_node (getNode g i) (Some m)" using k that by (metis kept_def)
    then show ?thesis using lev by (cases "getNode g i") (auto simp: leveled_def kept_node_def)
  qed
  then show ?thesis using lev kept_wf [OF wf k] by (simp add: leveled_def nb kept_lookups [OF k])
qed

lemma kept_place_root: "set props \<subseteq> layout_types \<Longrightarrow>
  kept_node n ((fold (\<lambda>p n. set_node_data ''span'' (JNum (pi * 2)) p (set_node_pos (PosP (mkP 0 0)) p n)) props n)
     \<lparr>n_angleSpan := (0, 2 * pi)\<rparr>)
  \<and> (polar_node n \<longrightarrow> (\<forall>u \<in> set props. node_getPos
      (fold (\<lambda>p n. set_node_data ''span'' (JNum (pi * 2)) p (set_node_pos (PosP (mkP 0 0)) p n)) props n) u
      = Some (PosP (mkP 0 0))))"
proof -
  assume types: "set props \<subseteq> layout_types"
  let ?step = "\<lambda>p n. set_node_data ''span'' (JNum (pi * 2)) p (set_node_pos (PosP (mkP 0 0)) p n)"
  have one: "kept_node n (?step p n)" for n p
    by (simp add: kept_node_def)
      (simp add: set_node_data_def set_node_pos_def node_setPos_def Let_def split: option.splits)
  have "kept_node n (fold ?step ps n) \<and> (polar_node n \<longrightarrow> (\<forall>u \<in> set props. node_getPos (fold ?step ps n) u
      = (if u \<in> set ps then Some (PosP (mkP 0 0)) else node_getPos n u)))" if "set ps \<subseteq> layout_types" for ps
    using that
  proof (induction ps arbitrary: n)
    case (Cons p ps)
    have "node_getPos (?step p n) u = (if u = p then Some (PosP (mkP 0 0)) else node_getPos n u)"
      if "polar_node n" "u \<in> set props" for u
      using that Cons.prems types set_node_pos_getPos [of n p u] by auto
    moreover have "polar_node n \<longrightarrow> polar_node (?step p n)" by simp
    moreover have "kept_node n (fold ?step ps (?step p n))"
      using one [of n p] Cons.IH [of "?step p n"] Cons.prems by (simp add: kept_node_def)
    ultimately show ?case using Cons.IH [of "?step p n"] Cons.prems by auto
  qed simp
  from this [OF types] show ?thesis by (auto simp: kept_node_def)
qed

lemma computePositions_circles:
  assumes lev: "leveled (rd_graph r) (rd_root r)" and types: "set props \<subseteq> layout_types"
  shows "\<exists>s. computePositions r props = Some s \<and> kept (rd_graph r) (rd_graph s)
    \<and> (\<forall>x. breadth_first.reach (neighbours ''ignore'' (rd_graph r)) (rd_root r) x
        \<longrightarrow> on_circle (rd_levelDistance r) props (getNode (rd_graph s) x)
             (int (breadth_first.hops (neighbours ''ignore'' (rd_graph r)) (rd_root r) x)))"
proof -
  let ?rid = "rd_root r" and ?g0 = "rd_graph r" and ?ld = "rd_levelDistance r"
  let ?f = "\<lambda>n. (fold (\<lambda>p n. set_node_data ''span'' (JNum (pi * 2)) p (set_node_pos (PosP (mkP 0 0)) p n)) props n)
                  \<lparr>n_angleSpan := (0, 2 * pi)\<rparr>"
  let ?g1 = "upd_node ?rid ?f ?g0" and ?h = "radial_loop r props [?rid] (clean (upd_node ?rid ?f ?g0))"
  have has: "hasNode ?g0 ?rid" using lev passes_hasNode unfolding leveled_def by blast
  then obtain n where n: "getNode ?g0 ?rid = Some n" "polar_node n"
    using lev by (auto simp: hasNode_getNode leveled_def)
  have k: "kept ?g0 (clean ?g1)"
    by (rule kept_trans [OF kept_upd_node flag_clean(2)]) (use kept_place_root [OF types] in blast)
  have d: "depth_of ?g0 ?rid = Some 0" using lev layout_bfs.reach_root by (simp add: leveled_def)
  have "on_circle ?ld props (getNode ?g1 ?rid) 0"
    using kept_place_root [OF types, of n] n by (auto simp: on_circle_def)
  then have "on_circle ?ld props (getNode (clean ?g1) ?rid) 0" by (simp only: flag_clean(3))
  then have "layout_inv ?g0 ?rid ?ld props (clean ?g1) [?rid]"
    using k d layout_bfs.seen_start by (simp add: layout_inv_def flag_clean)
  then have inv: "layout_inv ?g0 ?rid ?ld props ?h []" by (rule layout_loop [OF lev types])
  have "on_circle ?ld props (getNode ?h x) (int (breadth_first.hops (neighbours ''ignore'' ?g0) ?rid x))"
    if "breadth_first.reach (neighbours ''ignore'' ?g0) ?rid x" for x
  proof -
    have "x \<in> seen_by ?h []" using inv that layout_bfs.seen_end unfolding layout_inv_def by blast
    then show ?thesis using inv that lev by (simp add: layout_inv_def leveled_def)
  qed
  moreover have "computePositions r props = Some (r\<lparr>rd_graph := ?h\<rparr>)"
    using has by (simp add: computePositions_def Let_def)
  ultimately show ?thesis using inv by (simp add: layout_inv_def)
qed

section \<open>The whole layout\<close>

lemma kept_eachNode:
  assumes "\<And>i h. kept h (action i h)"
  shows "kept g (eachNode g action flags)"
proof -
  have "kept g h \<Longrightarrow> kept g (fold (\<lambda>i g. case getNode g i of None \<Rightarrow> g
      | Some n \<Rightarrow> if filter_node flags n then action i g else g) is h)" for "is" h
    by (induction "is" arbitrary: h) (auto split: option.splits intro: kept_trans [OF _ assms])
  then show ?thesis by (simp add: eachNode_def)
qed

lemma kept_dim_node: "kept_node n (dim_node offset g n)"
proof -
  have "n_id (set_node_data k v t n) = n_id n" for k v t n
    by (simp add: set_node_data_def split: option.splits)
  moreover have "polar_node (n\<lparr>n_store := s\<rparr>) = polar_node n" for n s by (simp add: polar_node_def)
  ultimately show ?thesis by (simp add: dim_node_def Let_def kept_node_def case_prod_unfold)
qed

lemma kept_NodeDim: "kept g (NodeDim_compute offset g)"
  unfolding NodeDim_compute_def by (intro kept_eachNode kept_upd_node kept_dim_node)

lemma kept_bfs_actions:
  fixes cs :: "(nat \<times> id) list"
  assumes "kept g (fst s)"
  shows "kept g (fst (fold (\<lambda>(r, n) s. bfs_action ''ignore'' n s) cs s))"
  using assms
proof (induction cs arbitrary: s)
  case (Cons c cs)
  have "kept g (fst (bfs_action ''ignore'' (snd c) s))"
    using Cons.prems by (auto simp: bfs_action_def split: prod.splits intro: kept_trans [OF _ kept_set_flag])
  from Cons.IH [OF this] show ?case by (simp add: case_prod_unfold)
qed simp

lemma kept_bfs_visit:
  assumes "wf_graph g"
  shows "kept g (fst (bfs_visit ''ignore'' node q g))"
proof -
  let ?g1 = "set_flag True node g"
  have k1: "kept g ?g1" by simp
  obtain g2 calls where e: "eachAdjacency node ''ignore'' ?g1 = (g2, calls)" by force
  have "kept ?g1 g2"
    using eachAdjacency_linked(1) [OF kept_wf [OF assms k1], of node "''ignore''"]
      nodes_eachAdjacency [of node "''ignore''" ?g1] e by (simp add: kept_same_nodes)
  then have k2: "kept g g2" by (rule kept_trans [OF k1])
  from kept_bfs_actions [of g "(g2, q)" calls] k2 show ?thesis by (simp add: bfs_visit_def e)
qed

lemma kept_bfs_loop: "wf_graph g \<Longrightarrow> kept g (fst (bfs_loop ''ignore'' q g))"
proof (induction "''ignore''" q g rule: bfs_loop.induct)
  case (1 q g)
  show ?case
  proof (cases "q = []")
    case False
    obtain h q' where v: "bfs_visit ''ignore'' (last q) (butlast q) g = (h, q')" by force
    have k: "kept g h" using kept_bfs_visit [OF "1.prems", of "last q" "butlast q"] v by simp
    from "1.hyps" [OF False refl refl v [symmetric] refl kept_wf [OF "1.prems" k]] show ?thesis
      using False kept_trans [OF k] by (subst bfs_loop.simps) (simp add: v case_prod_unfold Let_def)
  qed (simp add: bfs_loop.simps)
qed

lemma computeAngularWidths_kept:
  assumes "wf_graph (rd_graph r)" "hasNode (rd_graph r) (rd_root r)"
  shows "\<exists>s. computeAngularWidths r prop = Some s \<and> kept (rd_graph r) (rd_graph s)
    \<and> rd_root s = rd_root r \<and> rd_levelDistance s = rd_levelDistance r"
proof -
  let ?g = "clean (rd_graph r)"
  have "kept (rd_graph r) (fst (bfs_loop ''ignore'' [rd_root r] ?g))"
    using kept_trans [OF flag_clean(2) kept_bfs_loop [OF kept_wf [OF assms(1) flag_clean(2)]]] .
  moreover have "hasNode ?g (rd_root r)" using assms(2) kept_lookups(3) [OF flag_clean(2)] by simp
  ultimately show ?thesis
    by (simp add: computeAngularWidths_def setAngularWidthForNodes_def eachBFS_def case_prod_unfold)
qed

lemma first_layer:
  assumes "x \<in> set (layer (neighbours ''ignore'' g) rid k)" "\<forall>j < k. x \<notin> set (layer (neighbours ''ignore'' g) rid j)"
  shows "breadth_first.reach (neighbours ''ignore'' g) rid x" "breadth_first.hops (neighbours ''ignore'' g) rid x = k"
proof -
  show "breadth_first.reach (neighbours ''ignore'' g) rid x" using assms(1) by (auto simp: layout_bfs.reach_def)
  show "breadth_first.hops (neighbours ''ignore'' g) rid x = k"
    unfolding layout_bfs.hops_def using assms by (intro Least_equality) (auto simp: not_less [symmetric])
qed

lemma computeLevels_leveled:
  assumes "wf_graph g" "passes ''ignore'' g rid" "\<forall>(i, n) \<in> set (g_nodes g). polar_node n"
  shows "\<exists>h. computeLevels g rid 0 ''ignore'' = Some h \<and> leveled h rid \<and> marks_only g h
    \<and> (\<forall>x. neighbours ''ignore'' h x = neighbours ''ignore'' g x)"
proof -
  obtain h where h: "computeLevels g rid 0 ''ignore'' = Some h" "marks_only g h" "wf_graph h"
    and dep: "\<And>x k. passes ''ignore'' g x \<and> x \<in> set (layer (neighbours ''ignore'' g) rid k)
          \<and> (\<forall>j < k. x \<notin> set (layer (neighbours ''ignore'' g) rid j)) \<Longrightarrow> depth_of h x = Some (int k)"
    using computeLevels_spec [OF assms(1) ignore_flag(2) assms(2), of 0] by auto
  have nb: "neighbours ''ignore'' h = neighbours ''ignore'' g"
    by (intro ext neighbours_marks [OF assms(1) h(2) ignore_flag(2)])
  have pass: "passes ''ignore'' h x = passes ''ignore'' g x" for x
    by (rule marks_only_passes [OF h(2) ignore_flag(2)])
  have ok: "passes ''ignore'' g x" if "x \<in> set (layer (neighbours ''ignore'' g) rid k)" for x k
    using that assms(2) by (cases k) (auto simp: neighbours_def)
  have "depth_of h x = Some (int (breadth_first.hops (neighbours ''ignore'' g) rid x))"
    if x: "breadth_first.reach (neighbours ''ignore'' g) rid x" for x
  proof (rule dep, intro conjI allI impI)
    show l: "x \<in> set (layer (neighbours ''ignore'' g) rid (breadth_first.hops (neighbours ''ignore'' g) rid x))"
      using x by (rule layout_bfs.reach_hops)
    show "passes ''ignore'' g x" using l by (rule ok)
    show "x \<notin> set (layer (neighbours ''ignore'' g) rid j)"
      if "j < breadth_first.hops (neighbours ''ignore'' g) rid x" for j
      using that not_less_Least unfolding layout_bfs.hops_def by blast
  qed
  moreover have "polar_node m" if m: "getNode h i = Some m" for i m
  proof -
    have "rel_option same_node (getNode g i) (Some m)" using h(2) m by (metis marks_only_def)
    then obtain n where n: "getNode g i = Some n" "same_node n m" by (cases "getNode g i") auto
    then have "polar_node n" using assms(3) by (auto simp: getNode_def dest: map_of_SomeD)
    then show ?thesis using n(2) unfolding polar_node_def same_node_def by (cases m, cases n) simp
  qed
  ultimately show ?thesis using h assms(2) by (auto simp: leveled_def nb pass)
qed

section \<open>Sectors within the circle\<close>

definition spans_ok :: "graph \<Rightarrow> bool" where
  "spans_ok g \<longleftrightarrow> list_all (\<lambda>(i, n). 0 \<le> fst (n_angleSpan n) \<and> fst (n_angleSpan n) \<le> snd (n_angleSpan n)
     \<and> snd (n_angleSpan n) \<le> 2 * pi) (g_nodes g)"

lemma spans_ok_upd_node:
  assumes "spans_ok g" "\<And>n. let (b, e) = n_angleSpan (f n) in 0 \<le> b \<and> b \<le> e \<and> e \<le> 2 * pi"
  shows "spans_ok (upd_node i f g)"
  using assms by (auto simp: spans_ok_def upd_node_def list_all_iff Let_def case_prod_unfold)

lemma spans_ok_set_flag [simp]: "spans_ok (set_flag b i g) = spans_ok g"
  by (simp add: spans_ok_def set_flag_def upd_node_def list_all_iff case_prod_unfold if_distrib [of n_angleSpan])

lemma spans_ok_nodes: "g_nodes g = g_nodes h \<Longrightarrow> spans_ok g = spans_ok h"
  by (simp add: spans_ok_def)

lemma spans_ok_clean: "spans_ok (clean g) = spans_ok g"
proof -
  have "spans_ok (fold (\<lambda>i g. case getNode g i of None \<Rightarrow> g
    | Some n \<Rightarrow> if filter_node [] n then set_flag False i g else g) is h) = spans_ok h" for "is" h
    by (induction "is" arbitrary: h) (auto split: option.splits)
  then show ?thesis by (simp add: clean_def eachNode_def)
qed

lemma place_fold_spans:
  assumes "\<forall>c \<in> set cs. 0 \<le> js_quot (w c) t * a" "spans_ok g" "0 \<le> b" "b + sum_list (map (\<lambda>c. js_quot (w c) t * a) cs) \<le> 2 * pi"
  shows "spans_ok (fst (fold (place_child props m w t a l) cs (g, b)))"
  using assms
proof (induction cs arbitrary: g b)
  case (Cons c cs)
  have rest: "0 \<le> sum_list (map (\<lambda>c. js_quot (w c) t * a) cs)" using Cons.prems(1) by (intro sum_list_nonneg) auto
  have share: "0 \<le> js_quot (w c) t * a" using Cons.prems(1) by simp
  show ?case
  proof (cases "flag_of g c = Some True")
    case True
    have "b + sum_list (map (\<lambda>c. js_quot (w c) t * a) cs) \<le> 2 * pi" using Cons.prems(4) share by simp
    then show ?thesis using Cons.IH [of g b] Cons.prems True by (simp add: place_child_def)
  next
    case False
    let ?g = "upd_node c (place_node g props m b (js_quot (w c) t * a) (b + js_quot (w c) t * a / 2) l) g"
    have "spans_ok ?g"
      using Cons.prems(2-4) share rest by (intro spans_ok_upd_node) simp_all
    then have "spans_ok (fst (fold (place_child props m w t a l) cs (?g, b + js_quot (w c) t * a)))"
      using Cons.prems share by (intro Cons.IH) (simp_all add: add.assoc)
    moreover have "place_child props m w t a l c (g, b) = (?g, b + js_quot (w c) t * a)"
      using False by (simp add: place_child_def Let_def)
    ultimately show ?thesis by (simp only: fold_Cons comp_apply)
  qed
qed simp

text \<open>The children of every node have a positive width, so that no angle is infinite or \<^verbatim>\<open>NaN\<close>.\<close>

definition widths_ok :: "radial \<Rightarrow> graph \<Rightarrow> bool" where
  "widths_ok r g \<longleftrightarrow> (\<forall>elem. \<forall>c \<in> set (children g elem). \<exists>w > 0. width_of (rd_taw r) c = Fin w)"

lemma widths_ok_kept: "wf_graph g \<Longrightarrow> kept g h \<Longrightarrow> widths_ok r g \<Longrightarrow> widths_ok r h"
  unfolding widths_ok_def by (simp only: kept_children)

lemma place_children_spans:
  assumes w: "widths_ok r g" and g: "spans_ok g"
  shows "spans_ok (place_children r props elem g)"
proof (cases "children g elem = []")
  case True
  then have "sorted_children r g elem = []" by (simp add: sorted_children_def)
  then show ?thesis using g by (simp add: place_children_fold spans_ok_nodes [OF level_graph_nodes])
next
  case False
  obtain b e where span: "span_of g elem = (b, e)" by force
  have be: "0 \<le> b" "b \<le> e" "e \<le> 2 * pi"
    using g span by (auto simp: span_of_def spans_ok_def getNode_def list_all_iff split: option.splits dest!: map_of_SomeD)
  have pos: "0 < tree_width r c" if "c \<in> set (children g elem)" for c
    using w that unfolding widths_ok_def by (metis fin.simps(1))
  have tot: "0 < total_width r g elem"
    unfolding total_width_def using False pos
    by (cases "children g elem") (fastforce intro!: add_pos_nonneg sum_list_nonneg intro: less_imp_le)+
  then have share: "0 \<le> js_quot (tree_width r c) (total_width r g elem) * (e - b)" if "c \<in> set (sorted_children r g elem)" for c
    using pos [of c] that be by (simp add: js_quot_def)
  have "b + sum_list (map (share r g elem) (sorted_children r g elem)) \<le> e" using tot by (simp add: share_sum span)
  then have "b + sum_list (map (\<lambda>c. js_quot (tree_width r c) (total_width r g elem) * (e - b)) (sorted_children r g elem)) \<le> 2 * pi"
    using be by (simp add: share_def [abs_def] span)
  then show ?thesis
    using share be g unfolding place_children_fold
    by (intro place_fold_spans) (simp_all add: span spans_ok_nodes [OF level_graph_nodes])
qed

lemma kept_radial_visit:
  assumes "wf_graph g" "set props \<subseteq> layout_types"
  shows "kept g (fst (radial_visit r props node q g))"
proof -
  let ?g1 = "place_children r props node (set_flag True node g)"
  have k1: "kept g ?g1" by (rule kept_trans [OF kept_set_flag kept_place_children [OF assms(2)]])
  obtain g2 calls where e: "eachAdjacency node ''ignore'' ?g1 = (g2, calls)" by force
  have "kept ?g1 g2"
    using eachAdjacency_linked(1) [OF kept_wf [OF assms(1) k1], of node "''ignore''"]
      nodes_eachAdjacency [of node "''ignore''" ?g1] e by (simp add: kept_same_nodes)
  then have "kept g g2" by (rule kept_trans [OF k1])
  from kept_bfs_actions [of g "(g2, q)" calls] this show ?thesis
    unfolding radial_visit_def Let_def e prod.case by simp
qed

lemma radial_visit_spans:
  assumes "widths_ok r g" "spans_ok g" "wf_graph g"
  shows "spans_ok (fst (radial_visit r props node q g))"
proof -
  let ?g1 = "place_children r props node (set_flag True node g)"
  obtain g2 calls where e: "eachAdjacency node ''ignore'' ?g1 = (g2, calls)" by force
  have nodes: "g_nodes g2 = g_nodes ?g1" using nodes_eachAdjacency [of node "''ignore''" ?g1] by (simp add: e)
  have "spans_ok ?g1" using assms(2) widths_ok_kept [OF assms(3) kept_set_flag assms(1)] by (intro place_children_spans) simp_all
  then have "spans_ok g2" using spans_ok_nodes [OF nodes] by simp
  moreover have "spans_ok (fst s) \<Longrightarrow> spans_ok (fst (fold (\<lambda>(r, n) s. bfs_action ''ignore'' n s) cs s))"
    for cs :: "(nat \<times> id) list" and s
  proof (induction cs arbitrary: s)
    case (Cons c cs)
    have "spans_ok (fst (bfs_action ''ignore'' (snd c) s))"
      using Cons.prems by (auto simp: bfs_action_def split: prod.splits)
    from Cons.IH [OF this] show ?case by (simp add: case_prod_unfold)
  qed simp
  ultimately show ?thesis unfolding radial_visit_def Let_def e prod.case by simp
qed

lemma kept_radial_loop: "wf_graph g \<Longrightarrow> set props \<subseteq> layout_types \<Longrightarrow> kept g (radial_loop r props q g)"
proof (induction r props q g rule: radial_loop.induct)
  case (1 r props q g)
  show ?case
  proof (cases "q = []")
    case False
    obtain h q' where v: "radial_visit r props (last q) (butlast q) g = (h, q')" by force
    have k: "kept g h" using kept_radial_visit [OF "1.prems", of r "last q" "butlast q"] v by simp
    from "1.IH" [OF False v [symmetric] refl kept_wf [OF "1.prems"(1) k] "1.prems"(2)] show ?thesis
      using False kept_trans [OF k] by (subst radial_loop.simps) (simp add: v)
  qed (simp add: radial_loop.simps)
qed

lemma radial_loop_spans:
  "widths_ok r g \<Longrightarrow> spans_ok g \<Longrightarrow> wf_graph g \<Longrightarrow> set props \<subseteq> layout_types \<Longrightarrow> spans_ok (radial_loop r props q g)"
proof (induction r props q g rule: radial_loop.induct)
  case (1 r props q g)
  show ?case
  proof (cases "q = []")
    case False
    obtain h q' where v: "radial_visit r props (last q) (butlast q) g = (h, q')" by force
    have "spans_ok h" using radial_visit_spans [OF "1.prems"(1-3), of props "last q" "butlast q"] v by simp
    moreover have k: "kept g h" using kept_radial_visit [OF "1.prems"(3,4), of r "last q" "butlast q"] v by simp
    ultimately show ?thesis
      using "1.IH" [OF False v [symmetric] refl widths_ok_kept [OF "1.prems"(3) k "1.prems"(1)] _ kept_wf [OF "1.prems"(3) k] "1.prems"(4)]
        False by (subst radial_loop.simps) (simp add: v)
  qed (use "1.prems" in \<open>simp add: radial_loop.simps\<close>)
qed

lemma radial_compute_spec:
  assumes "wf_graph (rd_graph r)" and "passes ''ignore'' (rd_graph r) (rd_root r)"
    and "\<forall>(i, n) \<in> set (g_nodes (rd_graph r)). polar_node n"
    and "set (compute_props property) \<subseteq> layout_types"
  shows "\<exists>s. radial_compute offset property r = Some s \<and> wf_graph (rd_graph s)
    \<and> (\<exists>g1 g2. kept (rd_graph r) g1 \<and> marks_only g1 g2 \<and> kept g2 (rd_graph s))
    \<and> (\<forall>x k u. x \<in> set (layer (neighbours ''ignore'' (rd_graph r)) (rd_root r) k)
          \<and> (\<forall>j < k. x \<notin> set (layer (neighbours ''ignore'' (rd_graph r)) (rd_root r) j))
          \<and> u \<in> set (compute_props property)
        \<longrightarrow> (\<exists>m theta. getNode (rd_graph s) x = Some m
              \<and> node_getPos m u = Some (PosP (mkP theta (of_nat k * rd_levelDistance r)))))"
proof -
  let ?g = "rd_graph r" and ?rid = "rd_root r" and ?props = "compute_props property"
  let ?g1 = "NodeDim_compute offset ?g"
  note k1 = kept_NodeDim [of ?g offset]
  have wf1: "wf_graph ?g1" by (rule kept_wf [OF assms(1) k1])
  have "\<forall>(i, n) \<in> set (g_nodes ?g1). polar_node n"
  proof clarify
    fix i m assume "(i, m) \<in> set (g_nodes ?g1)"
    then have m: "getNode ?g1 i = Some m" using wf1 by (simp add: getNode_def wf_graph_def)
    have "rel_option kept_node (getNode ?g i) (Some m)" using k1 m by (metis kept_def)
    then obtain n where n: "getNode ?g i = Some n" "kept_node n m" by (cases "getNode ?g i") auto
    then have "polar_node n" using assms(3) by (auto simp: getNode_def dest: map_of_SomeD)
    then show "polar_node m" using n(2) by (simp add: kept_node_def)
  qed
  from computeLevels_leveled [OF wf1 _ this, of ?rid] assms(2)
  obtain g2 where g2: "computeLevels ?g1 ?rid 0 ''ignore'' = Some g2" "leveled g2 ?rid" "marks_only ?g1 g2"
    and nb: "neighbours ''ignore'' g2 = neighbours ''ignore'' ?g"
    using kept_neighbours [OF assms(1) k1] kept_lookups(5) [OF k1] by (auto simp: fun_eq_iff)
  let ?r2 = "r\<lparr>rd_graph := g2\<rparr>"
  have lev: "wf_graph g2" "hasNode g2 ?rid" using g2(2) passes_hasNode unfolding leveled_def by blast+
  from computeAngularWidths_kept [of ?r2 ?props] lev
  obtain r3 where r3: "computeAngularWidths ?r2 ?props = Some r3" "kept g2 (rd_graph r3)"
    "rd_root r3 = ?rid" "rd_levelDistance r3 = rd_levelDistance r" by auto
  have nb3: "neighbours ''ignore'' (rd_graph r3) = neighbours ''ignore'' ?g"
    unfolding nb [symmetric] by (intro ext kept_neighbours [OF lev(1) r3(2)])
  from computePositions_circles [of r3 ?props] leveled_kept [OF g2(2) r3(2)] assms(4)
  obtain s where s: "computePositions r3 ?props = Some s" "kept (rd_graph r3) (rd_graph s)"
    and circ: "\<And>x. breadth_first.reach (neighbours ''ignore'' ?g) ?rid x \<Longrightarrow>
      on_circle (rd_levelDistance r) ?props (getNode (rd_graph s) x)
        (int (breadth_first.hops (neighbours ''ignore'' ?g) ?rid x))"
    unfolding r3(3,4) nb3 by blast
  have "\<exists>m theta. getNode (rd_graph s) x = Some m
      \<and> node_getPos m u = Some (PosP (mkP theta (of_nat k * rd_levelDistance r)))"
    if x: "x \<in> set (layer (neighbours ''ignore'' ?g) ?rid k)"
      "\<forall>j < k. x \<notin> set (layer (neighbours ''ignore'' ?g) ?rid j)" "u \<in> set ?props" for x k u
    using circ [OF first_layer(1) [OF x(1,2)]] x(3) unfolding first_layer(2) [OF x(1,2)] on_circle_def by auto
  moreover have "radial_compute offset property r = Some s"
    by (simp add: radial_compute_def Let_def g2(1) r3(1) s(1))
  moreover have "\<exists>g1 g2. kept ?g g1 \<and> marks_only g1 g2 \<and> kept g2 (rd_graph s)"
    using k1 g2(3) kept_trans [OF r3(2) s(2)] by blast
  moreover have "wf_graph (rd_graph s)" by (rule kept_wf [OF kept_wf [OF lev(1) r3(2)] s(2)])
  ultimately show ?thesis by blast
qed

section \<open>Properties\<close>

text \<open>
  C4: computing the radial layout of a well-formed graph from a root that is not ignored ends,
  keeps the graph well formed and places every node at breadth-first distance \<open>k\<close> from the root, for each of the positions
  asked for, on the circle whose radius is \<open>k\<close> times the level distance: the root at the
  origin, its neighbours on the first circle, and so on.
\<close>

theorem radial_compute_circles:
  assumes "wf_graph (rd_graph r)" and "passes ''ignore'' (rd_graph r) (rd_root r)"
    and "\<forall>(i, n) \<in> set (g_nodes (rd_graph r)). polar_node n"
    and "set (compute_props property) \<subseteq> layout_types"
  shows "\<exists>s. radial_compute offset property r = Some s \<and> wf_graph (rd_graph s)
    \<and> (\<forall>x k u. x \<in> set (layer (neighbours ''ignore'' (rd_graph r)) (rd_root r) k)
          \<and> (\<forall>j < k. x \<notin> set (layer (neighbours ''ignore'' (rd_graph r)) (rd_root r) j))
          \<and> u \<in> set (compute_props property)
        \<longrightarrow> (\<exists>m theta. getNode (rd_graph s) x = Some m
              \<and> node_getPos m u = Some (PosP (mkP theta (of_nat k * rd_levelDistance r)))))"
  using radial_compute_spec [OF assms, of offset] by blast

text \<open>
  The children of a node that are not placed yet divide the sector of the node: in the
  order they are placed, each begins where the one before ends, the first where the sector
  begins and the last ends where the sector ends; each is as wide as its part of the sum of
  the widths, and the node is placed in the middle of its part on the circle of its level.
\<close>

lemma place_children_sectors:
  assumes "wf_graph g" and "\<forall>c \<in> set (children g elem). flag_of g c \<noteq> Some True"
    and "sorted_children r g elem = xs @ c # ys" and "getNode g c = Some n" and "polar_node n"
    and "set props \<subseteq> layout_types" and "u \<in> set props"
    and "first = fst (span_of g elem) + sum_list (map (share r g elem) xs)"
  shows "\<exists>m. getNode (place_children r props elem g) c = Some m
    \<and> n_angleSpan m = (first, first + share r g elem c)
    \<and> node_getPos m u = Some (PosP (mkP (first + share r g elem c / 2) (level_length r g elem)))
    \<and> (ys = [] \<and> total_width r g elem \<noteq> 0 \<longrightarrow> first + share r g elem c = snd (span_of g elem))"
proof -
  let ?s = "(level_graph (eachSubnode g elem ''ignore'') g, fst (span_of g elem))"
  have flags: "\<forall>c \<in> set (xs @ c # ys). flag_of (fst ?s) c \<noteq> Some True"
    using assms(2) sorted_children_same(2) [of r g elem] unfolding assms(3) by simp
  have dist: "distinct (xs @ c # ys)" using distinct_sorted_children [OF assms(1), of r elem] assms(3) by simp
  obtain h where "getNode (place_children r props elem g) c = Some
      (place_node h props (max_dim g (children g elem)) first (share r g elem c)
         (first + share r g elem c / 2) (level_length r g elem) n)"
    using place_split [of xs c ys "fst ?s" first "snd ?s" "tree_width r" "total_width r g elem"
        "snd (span_of g elem) - fst (span_of g elem)" props "max_dim g (children g elem)" "level_length r g elem"]
      flags dist assms(4,8)
    unfolding place_children_fold assms(3) by (simp add: share_def [abs_def])
  moreover have "first + share r g elem c = snd (span_of g elem)" if "ys = []" "total_width r g elem \<noteq> 0"
    using share_sum [OF that(2)] that(1) assms(3,8) by simp
  ultimately show ?thesis using place_node_pos(2) [OF assms(5,6)] assms(6,7) by auto
qed

text \<open>
  C33: when the children of every node have positive, finite angular widths, computing the
  positions keeps the sector of every node within the full circle, its begin not after its end.
  Without such widths the code divides by zero or by \<^verbatim>\<open>NaN\<close>.
\<close>

theorem computePositions_spans:
  assumes "wf_graph (rd_graph r)" and "hasNode (rd_graph r) (rd_root r)" and "set props \<subseteq> layout_types"
    and "\<forall>elem. \<forall>c \<in> set (children (rd_graph r) elem). \<exists>w > 0. width_of (rd_taw r) c = Fin w"
    and "spans_ok (rd_graph r)"
  shows "\<exists>s. computePositions r props = Some s \<and> spans_ok (rd_graph s)"
proof -
  let ?f = "\<lambda>n. (fold (\<lambda>p n. set_node_data ''span'' (JNum (pi * 2)) p (set_node_pos (PosP (mkP 0 0)) p n)) props n)
    \<lparr>n_angleSpan := (0, 2 * pi)\<rparr>"
  let ?g = "clean (upd_node (rd_root r) ?f (rd_graph r))"
  have k: "kept (rd_graph r) ?g"
    by (rule kept_trans [OF kept_upd_node flag_clean(2)]) (use kept_place_root [OF assms(3)] in blast)
  have "spans_ok ?g" unfolding spans_ok_clean using assms(5) by (intro spans_ok_upd_node) simp_all
  moreover have "widths_ok r ?g" using assms(4) by (intro widths_ok_kept [OF assms(1) k]) (simp add: widths_ok_def)
  ultimately have "spans_ok (radial_loop r props [rd_root r] ?g)"
    using kept_wf [OF assms(1) k] assms(3) by (intro radial_loop_spans)
  then show ?thesis using assms(2) by (simp add: computePositions_def Let_def)
qed

text \<open>Two adjacent nodes, laid out from the first.\<close>

abbreviation two_nodes :: graph where
  "two_nodes \<equiv> fst (addAdjacence \<lparr>s_id = ''a'', s_name = [], s_data = []\<rparr>
     \<lparr>s_id = ''b'', s_name = [], s_data = []\<rparr> [] (initialize \<lparr>go_complex = False, go_Node = []\<rparr> [] [] []))"

lemma two_nodes_facts:
  "wf_graph two_nodes" "g_nodes two_nodes = [(''a'', node_initialize \<lparr>go_complex = False, go_Node = []\<rparr> \<lparr>s_id = ''a'', s_name = [], s_data = []\<rparr>),
     (''b'', node_initialize \<lparr>go_complex = False, go_Node = []\<rparr> \<lparr>s_id = ''b'', s_name = [], s_data = []\<rparr>)]"
  "neighbours ''ignore'' two_nodes ''a'' = [''b'']" "passes ''ignore'' two_nodes ''a''" "passes ''ignore'' two_nodes ''b''"
  "adjacencies two_nodes ''a'' = [(''b'', 0)]"
proof -
  show "wf_graph two_nodes" by (intro wf_addAdjacence wf_initialize)
  show nodes: "g_nodes two_nodes = [(''a'', node_initialize \<lparr>go_complex = False, go_Node = []\<rparr> \<lparr>s_id = ''a'', s_name = [], s_data = []\<rparr>),
     (''b'', node_initialize \<lparr>go_complex = False, go_Node = []\<rparr> \<lparr>s_id = ''b'', s_name = [], s_data = []\<rparr>)]"
    by (simp add: addAdjacence_def adjacentTo_def adjacencies_def set_adj_def addNode_def hasNode_def initialize_def Let_def)
  have pass: "passes ''ignore'' two_nodes ''a''" "passes ''ignore'' two_nodes ''b''"
    unfolding passes_def getNode_def nodes by (simp_all add: filter_node_def node_prop_def node_initialize_def Let_def)
  then show "passes ''ignore'' two_nodes ''a''" "passes ''ignore'' two_nodes ''b''" by simp_all
  show adj: "adjacencies two_nodes ''a'' = [(''b'', 0)]"
    by (simp add: addAdjacence_def adjacentTo_def adjacencies_def set_adj_def addNode_def hasNode_def initialize_def Let_def)
  have "adjacencies two_nodes ''a'' = [(''b'', 0)]" "g_adjs two_nodes = [adjacence_initialize ''a'' ''b'' []]"
    by (simp_all add: addAdjacence_def adjacentTo_def adjacencies_def set_adj_def addNode_def hasNode_def initialize_def Let_def)
  then show "neighbours ''ignore'' two_nodes ''a'' = [''b'']"
    using pass by (simp add: neighbours_def linked_def filter_adj_def adj_prop_def adjacence_initialize_def prop_of_def)
qed

lemma two_nodes_polar: "\<forall>(i, n) \<in> set (g_nodes two_nodes). polar_node n"
  unfolding two_nodes_facts(2) by (simp add: polar_node_def node_initialize_def Let_def)

abbreviation two_radial :: radial where
  "two_radial \<equiv> \<lparr>rd_graph = two_nodes, rd_root = ''a'', rd_parent = None, rd_levelDistance = 100,
     rd_aw = [], rd_taw = [], rd_busy = False\<rparr>"

theorem radial_compute_circles_witness:
  "\<exists>s m theta. radial_compute (\<lambda>w h t. (0, 0)) None two_radial = Some s
     \<and> getNode (rd_graph s) ''b'' = Some m \<and> node_getPos m ''end'' = Some (PosP (mkP theta 100))"
proof -
  have "set (compute_props None) \<subseteq> layout_types" by (simp add: compute_props_def layout_types_def)
  from radial_compute_circles [of two_radial None "\<lambda>w h t. (0, 0)", simplified radial.select_convs, OF two_nodes_facts(1,4) two_nodes_polar this]
  obtain s where s: "radial_compute (\<lambda>w h t. (0, 0)) None two_radial = Some s"
    and all: "\<And>x k u. x \<in> set (layer (neighbours ''ignore'' two_nodes) ''a'' k)
          \<and> (\<forall>j < k. x \<notin> set (layer (neighbours ''ignore'' two_nodes) ''a'' j)) \<and> u \<in> set (compute_props None)
        \<Longrightarrow> \<exists>m theta. getNode (rd_graph s) x = Some m \<and> node_getPos m u = Some (PosP (mkP theta (of_nat k * 100)))"
    by blast
  have "''b'' \<in> set (layer (neighbours ''ignore'' two_nodes) ''a'' 1)
      \<and> (\<forall>j < 1. ''b'' \<notin> set (layer (neighbours ''ignore'' two_nodes) ''a'' j)) \<and> ''end'' \<in> set (compute_props None)"
    using two_nodes_facts(3) by (simp add: compute_props_def)
  from all [OF this] s show ?thesis by auto
qed

abbreviation two_levels :: graph where
  "two_levels \<equiv> upd_node ''a'' (\<lambda>n. n\<lparr>n_angleSpan := (0, 2 * pi)\<rparr>)
     (set_depth (Some 1) ''b'' (set_depth (Some 0) ''a'' two_nodes))"

lemma two_levels_facts:
  "wf_graph two_levels" "children two_levels ''a'' = [''b'']" "span_of two_levels ''a'' = (0, 2 * pi)"
  "\<exists>n. getNode two_levels ''b'' = Some n \<and> polar_node n \<and> n_flag n = None" "depth_of two_levels ''a'' = Some 0"
proof -
  let ?g1 = "set_depth (Some 1) ''b'' (set_depth (Some 0) ''a'' two_nodes)"
  have m: "marks_only two_nodes ?g1" by (rule marks_only_trans [OF marks_only_set(2) marks_only_set(2)])
  have k: "kept ?g1 two_levels" by (rule kept_upd_node) (simp add: kept_node_def)
  have node: "getNode two_nodes ''b'' = Some (node_initialize \<lparr>go_complex = False, go_Node = []\<rparr> \<lparr>s_id = ''b'', s_name = [], s_data = []\<rparr>)"
    "getNode two_nodes ''a'' = Some (node_initialize \<lparr>go_complex = False, go_Node = []\<rparr> \<lparr>s_id = ''a'', s_name = [], s_data = []\<rparr>)"
    unfolding getNode_def two_nodes_facts(2) by simp_all
  show wf: "wf_graph two_levels" by (rule kept_wf [OF marks_only_wf [OF two_nodes_facts(1) m] k])
  have adj: "adjacencies two_levels ''a'' = [(''b'', 0)]"
    using kept_lookups(1) [OF k] marks_only_lookups(1) [OF m] two_nodes_facts(6) by simp
  have "passes ''ignore'' two_levels ''b''"
    using kept_lookups(5) [OF k] marks_only_passes [OF m ignore_flag(2)] two_nodes_facts(5) by simp
  moreover have "other_end two_levels ''a'' 0 = ''b''" using other_end_key [OF wf] adj by simp
  moreover show "depth_of two_levels ''a'' = Some 0"
    using node by (simp add: kept_lookups(4) [OF k] depth_of_def set_depth_def)
  moreover have "depth_of two_levels ''b'' = Some 1"
    using node by (simp add: kept_lookups(4) [OF k] depth_of_def set_depth_def)
  ultimately show "children two_levels ''a'' = [''b'']" unfolding children_neighbours adj by simp
  show "span_of two_levels ''a'' = (0, 2 * pi)" by (simp add: span_of_def set_depth_def node)
  show "\<exists>n. getNode two_levels ''b'' = Some n \<and> polar_node n \<and> n_flag n = None"
    by (simp add: set_depth_def node polar_node_def node_initialize_def Let_def)
qed

lemma two_levels_depth: "depth_of two_levels i = Some d \<Longrightarrow> i = ''a'' \<and> d = 0 \<or> i = ''b'' \<and> d = 1"
  by (auto simp: depth_of_def set_depth_def getNode_def [of two_nodes] two_nodes_facts(2) split: if_splits)

text \<open>The second node fills the whole circle, which is divided by its width 5.\<close>

theorem computePositions_spans_witness:
  "\<exists>s. computePositions (two_radial\<lparr>rd_graph := two_levels, rd_taw := [(''b'', Fin 5)]\<rparr>) [''end''] = Some s \<and> spans_ok (rd_graph s)
     \<and> children two_levels ''a'' = [''b'']"
proof -
  let ?r = "two_radial\<lparr>rd_graph := two_levels, rd_taw := [(''b'', Fin 5)]\<rparr>"
  have "\<exists>w > 0. width_of (rd_taw ?r) c = Fin w" if c: "c \<in> set (children two_levels elem)" for elem c
  proof -
    obtain d where d: "depth_of two_levels elem = Some d" "deeper two_levels c d" by (rule children_depth [OF c])
    then have "c = ''b''" using two_levels_depth [of elem d] two_levels_depth [of c] by (auto simp: deeper_def split: option.splits)
    then show ?thesis by (intro exI [of _ 5]) (simp add: width_of_def)
  qed
  moreover have "spans_ok two_levels"
    unfolding spans_ok_def two_nodes_facts(2) set_depth_def upd_node_def by (simp add: two_nodes_facts(2) node_initialize_def Let_def)
  moreover have "hasNode two_levels ''a''" using two_nodes_facts(2) by (simp add: set_depth_def hasNode_def)
  ultimately show ?thesis
    using computePositions_spans [of ?r "[''end'']"] two_levels_facts(1,2) by (auto simp: layout_types_def)
qed

end
