(* ===== verification/Jit_RGraph.thy ===== *)
theory Jit_RGraph
  imports Jit_Sectors
begin

text \<open>
  The interaction of the radial graph of the network page (\<^verbatim>\<open>rfweb/js/jit/jit.js\<close>,
  \<^verbatim>\<open>$jit.RGraph\<close>). A click on a node makes it the root: its former siblings are numbered so
  that they keep their order, the layout is computed for the end positions and turned so that
  the parent of the node stays in its direction, and an animation is started; clicks are
  ignored until it completes. The lemmas show that the numbering ends and counts the siblings
  in their order around the parent, that the direction of the parent is kept, and that a click
  on a node without parent leaves the graph busy for good.
\<close>

section \<open>Operations\<close>

definition rgraph_options :: graph_opt where
  "rgraph_options = \<lparr>go_complex = False,
     go_Node = [(''selected'', JBool False), (''exist'', JBool True), (''drawn'', JBool True)]\<rparr>"

definition rgraph_initialize :: "props \<Rightarrow> props \<Rightarrow> props \<Rightarrow> real \<Rightarrow> radial" where
  "rgraph_initialize Node Edge Label levelDistance =
     \<lparr>rd_graph = initialize rgraph_options Node Edge Label,
      rd_root = [], rd_parent = None, rd_levelDistance = levelDistance, rd_aw = [], rd_taw = [], rd_busy = False\<rparr>"

definition reposition :: "(string \<Rightarrow> string \<Rightarrow> string \<Rightarrow> real \<times> real) \<Rightarrow> radial \<Rightarrow> radial option" where
  "reposition offset = radial_compute offset (Some ''end'')"

text \<open>Refreshing computes all positions; the drawing that follows is left out.\<close>

definition rgraph_refresh :: "(string \<Rightarrow> string \<Rightarrow> string \<Rightarrow> real \<times> real) \<Rightarrow> radial \<Rightarrow> radial option" where
  "rgraph_refresh offset = radial_compute offset None"

text \<open>The first parent of a node, and the angle it is seen at.\<close>

definition getNodeAndParentAngle :: "graph \<Rightarrow> id \<Rightarrow> (id option \<times> real option) option" where
  "getNodeAndParentAngle g nid =
     (case getNode g nid of
        None \<Rightarrow> None
      | Some n \<Rightarrow>
          (case getParents g nid of
             [] \<Rightarrow> Some (None, None)
           | p # ps \<Rightarrow>
               (case getNode g p of
                  None \<Rightarrow> None
                | Some par \<Rightarrow>
                    (let posParent = getc (n_pos par); posChild = getc (n_pos n);
                         newPos = complex_add posParent (complex_scale posChild (-1));
                         theta = atan2 (c_y newPos) (c_x newPos);
                         theta = (if theta < 0 then theta + 2 * pi else theta)
                     in Some (Some p, Some theta)))))"

definition set_dist :: "id \<Rightarrow> nat \<Rightarrow> graph \<Rightarrow> graph" where
  "set_dist i k = upd_node i (\<lambda>n. n\<lparr>n_ext := AList.update ''dist'' (JNum (of_nat k)) (n_ext n)\<rparr>)"

text \<open>
  The loop that numbers the nodes after the one given, round the list, until it is met again; it
  is \<open>None\<close> when it never ends.
\<close>

partial_function (option) tag_loop :: "id list \<Rightarrow> id \<Rightarrow> nat \<Rightarrow> nat \<Rightarrow> graph \<Rightarrow> graph option" where
  "tag_loop adjs nid j k g =
     (if nid = adjs ! j then Some g
      else tag_loop adjs nid ((j + 1) mod length adjs) (k + 1) (set_dist (adjs ! j) k g))"

text \<open>How a click ends: ignored, with an exception, in a loop that never ends, or with an animation.\<close>

datatype click_result = Ignored | Failed | Hanging | Animating

text \<open>Without any adjacent node, reading the first of them raises an exception.\<close>

definition tagChildren :: "id option \<Rightarrow> id \<Rightarrow> graph \<Rightarrow> click_result + graph" where
  "tagChildren par nid g =
     (case par of
        None \<Rightarrow> Inr g
      | Some p \<Rightarrow>
          (let (g, calls) = eachAdjacency p ''ignore'' g;
               adjs = map snd calls;
               len = length adjs;
               i = length (takeWhile (\<lambda>a. nid \<noteq> a) adjs)
           in if len = 0 then Inl Failed
              else (case tag_loop adjs nid ((i + 1) mod len) 0 g of None \<Rightarrow> Inl Hanging | Some g \<Rightarrow> Inr g)))"

definition turn_end :: "real \<Rightarrow> gnode \<Rightarrow> gnode" where
  "turn_end thetaDiff n =
     n\<lparr>n_endPos := set_pos (n_endPos n) (PosP (polar_add (getp (n_endPos n)) (mkP thetaDiff 0)))\<rparr>"

definition end_theta :: "graph \<Rightarrow> id \<Rightarrow> real" where
  "end_theta g i = (case getNode g i of None \<Rightarrow> 0 | Some n \<Rightarrow> p_theta (getp (n_endPos n)))"

definition rgraph_onClick ::
  "(string \<Rightarrow> string \<Rightarrow> string \<Rightarrow> real \<times> real) \<Rightarrow> id \<Rightarrow> radial \<Rightarrow> radial \<times> click_result" where
  "rgraph_onClick offset nid r =
     (if rd_root r \<noteq> nid \<and> \<not> rd_busy r then
        (let r = r\<lparr>rd_busy := True, rd_root := nid\<rparr>
         in case getNodeAndParentAngle (rd_graph r) nid of
              None \<Rightarrow> (r, Failed)
            | Some (par, theta) \<Rightarrow>
                (case tagChildren par nid (rd_graph r) of
                   Inl res \<Rightarrow> (r, res)
                 | Inr g \<Rightarrow>
                     (let r = r\<lparr>rd_graph := g, rd_parent := par\<rparr>
                      in case radial_compute offset (Some ''end'') r of
                           None \<Rightarrow> (r, Failed)
                         | Some r \<Rightarrow>
                             (case (par, theta) of
                                (Some p, Some th) \<Rightarrow>
                                  (let thetaDiff = th - end_theta (rd_graph r) p
                                   in (r\<lparr>rd_graph := eachNode (rd_graph r) (\<lambda>i. upd_node i (turn_end thetaDiff)) []\<rparr>,
                                       Animating))
                              | _ \<Rightarrow> (r, Failed)))))
      else (r, Ignored))"

definition rgraph_onComplete :: "radial \<Rightarrow> radial" where
  "rgraph_onComplete r = r\<lparr>rd_busy := False\<rparr>"

section \<open>Numbering the siblings\<close>

lemma dist_set_dist:
  "dist_of (set_dist i k g) j = (if i = j \<and> hasNode g j then JNum (of_nat k) else dist_of g j)"
  by (cases "getNode g j") (auto simp: set_dist_def dist_of_def prop_of_def hasNode_getNode AList.update_conv')


lemma mod_shift_inj: "inj_on (\<lambda>t. (c + t) mod n) {a..<a + n}" for c n a :: nat
proof (rule inj_onI)
  fix s t assume st: "s \<in> {a..<a + n}" "t \<in> {a..<a + n}" "(c + s) mod n = (c + t) mod n"
  then show "s = t"
  proof (induction s t rule: linorder_wlog)
    case (le s t)
    then have "n dvd (c + t) - (c + s)" by (metis mod_eq_dvd_iff_nat add_le_cancel_left)
    then have "n dvd t - s" by simp
    moreover have "t - s < n" using le by auto
    ultimately show ?case using le(1) by (metis diff_is_0_eq dvd_imp_le le_antisym not_le zero_less_diff)
  qed simp
qed

lemma tag_loop_ends:
  assumes "distinct adjs" "i < length adjs" "adjs ! i = nid" "t \<le> length adjs - 1"
  shows "tag_loop adjs nid ((i + 1 + t) mod length adjs) t g
       = Some (fold (\<lambda>t. set_dist (adjs ! ((i + 1 + t) mod length adjs)) t) [t..<length adjs - 1] g)"
  using assms(4)
proof (induction t arbitrary: g rule: inc_induct)
  case base
  have "i + 1 + (length adjs - 1) = i + length adjs" using assms(2) by linarith
  then have "(i + 1 + (length adjs - 1)) mod length adjs = i" using assms(2) by simp
  then show ?case using assms(3) by (subst tag_loop.simps) simp
next
  case (step t)
  let ?j = "(i + 1 + t) mod length adjs"
  have len: "?j < length adjs" using assms(2) by (intro mod_less_divisor) linarith
  have "?j \<noteq> i"
  proof
    assume "?j = i"
    moreover have "i + 1 + (length adjs - 1) = i + length adjs" using assms(2) by linarith
    then have "(i + 1 + (length adjs - 1)) mod length adjs = i" using assms(2) by simp
    moreover have "length adjs - 1 < length adjs" using assms(2) by linarith
    ultimately have "t = length adjs - 1"
      using inj_onD [OF mod_shift_inj [of "i + 1" "length adjs" 0], of t "length adjs - 1"] step.hyps(2) by simp
    then show False using step.hyps(2) by simp
  qed
  then have "nid \<noteq> adjs ! ?j" using assms(1-3) len nth_eq_iff_index_eq by metis
  moreover have "(?j + 1) mod length adjs = (i + 1 + Suc t) mod length adjs" by (simp add: mod_Suc_eq)
  ultimately show ?case
    using step.IH [of "set_dist (adjs ! ?j) t g"] step.hyps(2) by (subst tag_loop.simps) (simp add: upt_conv_Cons)
qed

lemma hasNode_set_dist [simp]: "hasNode (set_dist i k g) j = hasNode g j"
  by (simp add: set_dist_def)

lemma dist_fold:
  assumes "inj_on z {a..<b}" "\<forall>t \<in> {a..<b}. hasNode g (z t)"
  shows "u \<in> {a..<b} \<Longrightarrow> dist_of (fold (\<lambda>t. set_dist (z t) t) [a..<b] g) (z u) = JNum (of_nat u)"
    and "x \<notin> z ` {a..<b} \<Longrightarrow> dist_of (fold (\<lambda>t. set_dist (z t) t) [a..<b] g) x = dist_of g x"
proof -
  have has: "hasNode (fold (\<lambda>t. set_dist (z t) t) ts g) x = hasNode g x" for ts g x
    by (induction ts arbitrary: g) simp_all
  have "(\<forall>u \<in> {a..<b}. dist_of (fold (\<lambda>t. set_dist (z t) t) [a..<b] g) (z u) = JNum (of_nat u))
      \<and> (x \<notin> z ` {a..<b} \<longrightarrow> dist_of (fold (\<lambda>t. set_dist (z t) t) [a..<b] g) x = dist_of g x)"
    using assms
  proof (induction b)
    case (Suc b)
    show ?case
    proof (cases "a \<le> b")
      case True
      have "z b \<notin> z ` {a..<b}"
      proof
        assume "z b \<in> z ` {a..<b}"
        then obtain x where "x \<in> {a..<b}" "z b = z x" by auto
        then show False using inj_onD [OF Suc.prems(1), of b x] True by simp
      qed
      moreover have "inj_on z {a..<b}" using Suc.prems(1) by (rule inj_on_subset) auto
      ultimately show ?thesis
        using Suc.IH Suc.prems True by (auto simp: dist_set_dist has less_Suc_eq)
    qed simp
  qed simp
  then show "u \<in> {a..<b} \<Longrightarrow> dist_of (fold (\<lambda>t. set_dist (z t) t) [a..<b] g) (z u) = JNum (of_nat u)"
    "x \<notin> z ` {a..<b} \<Longrightarrow> dist_of (fold (\<lambda>t. set_dist (z t) t) [a..<b] g) x = dist_of g x" by blast+
qed

lemma tagChildren_numbers:
  fixes i :: nat
  assumes wf: "wf_graph g" and i: "i < length (linked ''ignore'' g p)" "linked ''ignore'' g p ! i = nid"
  defines "adjs \<equiv> linked ''ignore'' g p"
  shows "\<exists>g1. marks_only g g1 \<and> g_nodes g1 = g_nodes g \<and> tagChildren (Some p) nid g
      = Inr (fold (\<lambda>t. set_dist (adjs ! ((i + 1 + t) mod length adjs)) t) [0..<length adjs - 1] g1)"
proof -
  obtain g1 calls where e: "eachAdjacency p ''ignore'' g = (g1, calls)" by force
  have adj: "marks_only g g1" "map snd calls = adjs"
    using eachAdjacency_linked [OF wf, of p "''ignore''"] e by (simp_all add: adjs_def)
  have dist: "distinct adjs" unfolding adjs_def linked_def
    using wf_distinct_adjacencies [OF wf, of p] by (rule distinct_map_filter)
  have "takeWhile (\<lambda>a. nid \<noteq> a) adjs = take i adjs"
  proof (rule takeWhile_eq_take_P_nth)
    show "nid \<noteq> adjs ! j" if "j < i" "j < length adjs" for j
      using that i dist nth_eq_iff_index_eq [OF dist] by (metis adjs_def less_irrefl)
    show "\<not> nid \<noteq> adjs ! i" using i by (simp add: adjs_def)
  qed
  then have "length (takeWhile (\<lambda>a. nid \<noteq> a) adjs) = i" using i(1) by (simp add: adjs_def)
  moreover have "g_nodes g1 = g_nodes g" using nodes_eachAdjacency [of p "''ignore''" g] e by simp
  ultimately show ?thesis
    using tag_loop_ends [OF dist, of i nid 0 g1] i adj
    by (intro exI [of _ g1]) (auto simp: tagChildren_def e Let_def adjs_def)
qed

section \<open>The click\<close>

lemma radial_compute_fields:
  assumes "radial_compute offset property r = Some s"
  shows "rd_busy s = rd_busy r" "rd_root s = rd_root r"
  using assms
  by (auto simp: radial_compute_def computeAngularWidths_def computePositions_def Let_def
      split: bind_splits if_splits)

lemma linked_hasNode:
  assumes wf: "wf_graph g" and "x \<in> set (linked flags g p)"
  shows "hasNode g x"
proof -
  obtain k where "(x, k) \<in> set (adjacencies g p)" using assms(2) by (auto simp: linked_def)
  then have "getAdjacence g p x = Some k"
    using wf_distinct_adjacencies [OF wf, of p] by (simp add: getAdjacence_def)
  then show ?thesis using wf_hasNode [OF wf] by blast
qed

lemma parent_neighbour:
  assumes wf: "wf_graph g" and link: "nid \<in> set (linked ''ignore'' g p)" and p: "passes ''ignore'' g p"
  shows "p \<in> set (neighbours ''ignore'' g nid)"
proof -
  from link obtain k where k: "(nid, k) \<in> set (adjacencies g p)" "filter_adj ''ignore'' (g_adjs g ! k)"
    by (auto simp: linked_def)
  then have "getAdjacence g p nid = Some k"
    using wf_distinct_adjacencies [OF wf, of p] by (simp add: getAdjacence_def)
  then have "getAdjacence g nid p = Some k" using wf_adj_sym [OF wf, of p nid] by simp
  then have "(p, k) \<in> set (adjacencies g nid)" by (simp add: getAdjacence_def map_of_SomeD)
  then show ?thesis using k(2) p by (force simp: neighbours_def linked_def)
qed

lemma kept_set_dist: "kept g (fold (\<lambda>t. set_dist (z t) t) ts g)"
proof -
  have one: "kept h (set_dist i k h)" for h i k
    unfolding set_dist_def by (rule kept_upd_node) (simp add: kept_node_def polar_node_def AList.update_conv')
  have "kept g h \<Longrightarrow> kept g (fold (\<lambda>t. set_dist (z t) t) ts h)" for h
    by (induction ts arbitrary: h) (simp_all add: kept_trans [OF _ one])
  then show ?thesis by simp
qed

section \<open>Graphs of the radial graph\<close>

text \<open>A graph of polar nodes that are not ignored; every operation of the radial graph keeps it so.\<close>

definition sound_graph :: "graph \<Rightarrow> bool" where
  "sound_graph g \<longleftrightarrow> wf_graph g \<and> (\<forall>(i, n) \<in> set (g_nodes g). polar_node n \<and> \<not> n_ignore n)"

lemma sound_graph_iff:
  "sound_graph g \<longleftrightarrow> wf_graph g \<and> (\<forall>i n. getNode g i = Some n \<longrightarrow> polar_node n \<and> \<not> n_ignore n)"
  by (auto simp: sound_graph_def getNode_def wf_graph_def)

lemma sound_passes: "sound_graph g \<Longrightarrow> hasNode g i \<Longrightarrow> passes ''ignore'' g i"
  by (auto simp: sound_graph_iff hasNode_getNode passes_def filter_node_def node_prop_def)

lemma sound_kept:
  assumes "sound_graph g" "kept g h"
  shows "sound_graph h"
  unfolding sound_graph_iff
proof (intro conjI allI impI)
  show "wf_graph h" using assms kept_wf unfolding sound_graph_def by blast
  fix i m assume m: "getNode h i = Some m"
  have "rel_option kept_node (getNode g i) (Some m)" using assms(2) m by (metis kept_def)
  then show "polar_node m" "\<not> n_ignore m"
    using assms(1) by (cases "getNode g i"; auto simp: sound_graph_iff kept_node_def)+
qed

lemma sound_marks:
  assumes "sound_graph g" "marks_only g h"
  shows "sound_graph h"
  unfolding sound_graph_iff
proof (intro conjI allI impI)
  show "wf_graph h" using assms marks_only_wf unfolding sound_graph_def by blast
  fix i m assume m: "getNode h i = Some m"
  have "rel_option same_node (getNode g i) (Some m)" using assms(2) m by (metis marks_only_def)
  then obtain n where n: "getNode g i = Some n" "same_node n m" by (cases "getNode g i") auto
  then have "polar_node n" "\<not> n_ignore n" using assms(1) by (simp_all add: sound_graph_iff)
  then show "polar_node m" "\<not> n_ignore m"
    using n(2) unfolding polar_node_def same_node_def by (cases m, cases n, simp)+
qed

lemma sound_compute:
  assumes "sound_graph (rd_graph r)" "hasNode (rd_graph r) (rd_root r)" "set (compute_props property) \<subseteq> layout_types"
  shows "\<exists>s. radial_compute offset property r = Some s \<and> sound_graph (rd_graph s)
    \<and> (\<forall>x. hasNode (rd_graph s) x = hasNode (rd_graph r) x)"
proof -
  have "\<forall>(i, n) \<in> set (g_nodes (rd_graph r)). polar_node n" using assms(1) by (auto simp: sound_graph_def)
  then obtain s g1 g2 where s: "radial_compute offset property r = Some s"
    "kept (rd_graph r) g1" "marks_only g1 g2" "kept g2 (rd_graph s)"
    using radial_compute_spec [of r property offset] sound_passes [OF assms(1,2)] assms(1,3)
    by (auto simp: sound_graph_def)
  have "sound_graph (rd_graph s)" by (rule sound_kept [OF sound_marks [OF sound_kept [OF assms(1) s(2)] s(3)] s(4)])
  moreover have "hasNode (rd_graph s) x = hasNode (rd_graph r) x" for x
    using kept_lookups(3) [OF s(2)] marks_only_lookups(3) [OF s(3)] kept_lookups(3) [OF s(4)] by simp
  ultimately show ?thesis using s(1) by blast
qed

lemma compute_needs_root: "radial_compute offset property r = Some s \<Longrightarrow> hasNode (rd_graph r) (rd_root r)"
proof -
  assume "radial_compute offset property r = Some s"
  then obtain g where "computeLevels (NodeDim_compute offset (rd_graph r)) (rd_root r) 0 ''ignore'' = Some g"
    by (auto simp: radial_compute_def Let_def split: bind_splits)
  then have "hasNode (eachNode (NodeDim_compute offset (rd_graph r)) (\<lambda>i g. set_depth (Some (- 1)) i (set_flag False i g)) ''ignore'') (rd_root r)"
    by (auto simp: computeLevels_def Let_def split: if_splits)
  then show ?thesis
    using reset_marks(1) [OF ignore_flag(2), THEN marks_only_lookups(3)] kept_lookups(3) [OF kept_NodeDim] by simp
qed

lemma kept_turn_end: "kept_node n (turn_end d n)"
proof -
  have "n_id (turn_end d n) = n_id n" "n_ignore (turn_end d n) = n_ignore n" "n_depth (turn_end d n) = n_depth n"
    "n_pos (turn_end d n) = n_pos n" "n_startPos (turn_end d n) = n_startPos n"
    "n_endPos (turn_end d n) = set_pos (n_endPos n) (PosP (polar_add (getp (n_endPos n)) (mkP d 0)))"
    by (simp_all add: turn_end_def)
  moreover have "n_ext (turn_end d n) = n_ext n" by (simp add: turn_end_def)
  moreover have "polar_node (turn_end d n)" if "polar_node n"
    using that calculation unfolding polar_node_def by (metis set_pos_polar)
  ultimately show ?thesis by (simp add: kept_node_def)
qed

lemma kept_tag_loop:
  assumes "tag_loop adjs nid j k g = Some h"
  shows "kept g h"
proof (rule tag_loop.raw_induct [where P = "\<lambda>adjs nid j k g h. kept g h", OF _ assms])
  fix f adjs nid j k g h
  assume IH: "\<And>adjs nid j k g h. f adjs nid j k g = Some h \<Longrightarrow> kept g h"
    and step: "(if nid = adjs ! j then Some g
      else f adjs nid ((j + 1) mod length adjs) (k + 1) (set_dist (adjs ! j) k g)) = Some h"
  have "kept g (set_dist (adjs ! j) k g)"
    unfolding set_dist_def by (rule kept_upd_node) (simp add: kept_node_def polar_node_def AList.update_conv')
  then show "kept g h" using step IH kept_trans by (auto split: if_splits)
qed

lemma kept_tagChildren:
  assumes "wf_graph g" "tagChildren par nid g = Inr h"
  shows "kept g h"
proof (cases par)
  case (Some p)
  obtain g1 calls where e: "eachAdjacency p ''ignore'' g = (g1, calls)" by force
  have "kept g g1"
    using eachAdjacency_linked(1) [OF assms(1), of p "''ignore''"] nodes_eachAdjacency [of p "''ignore''" g] e
    by (simp add: kept_same_nodes)
  moreover have "kept g1 h"
    using assms(2) Some by (auto simp: tagChildren_def e Let_def split: if_splits option.splits intro: kept_tag_loop)
  ultimately show ?thesis by (rule kept_trans)
qed (use assms in \<open>simp add: tagChildren_def\<close>)

lemma sound_onClick:
  assumes "sound_graph (rd_graph r)"
  shows "sound_graph (rd_graph (fst (rgraph_onClick offset nid r)))"
proof (cases "rd_root r \<noteq> nid \<and> \<not> rd_busy r")
  case click: True
  let ?r1 = "r\<lparr>rd_busy := True, rd_root := nid\<rparr>"
  show ?thesis
  proof (cases "getNodeAndParentAngle (rd_graph r) nid")
    case None
    then show ?thesis using click assms by (simp add: rgraph_onClick_def)
  next
    case (Some pt)
    obtain par theta where pt: "pt = (par, theta)" by force
    show ?thesis
    proof (cases "tagChildren par nid (rd_graph r)")
      case (Inl res)
      then show ?thesis using click assms Some by (simp add: rgraph_onClick_def pt)
    next
      case tagged: (Inr g)
      let ?r2 = "?r1\<lparr>rd_graph := g, rd_parent := par\<rparr>"
      have g: "sound_graph g"
        by (rule sound_kept [OF assms kept_tagChildren [OF _ tagged]]) (use assms in \<open>simp add: sound_graph_def\<close>)
      show ?thesis
      proof (cases "radial_compute offset (Some ''end'') ?r2")
        case None
        then show ?thesis using click g Some tagged by (simp add: rgraph_onClick_def pt)
      next
        case computed: (Some s)
        have "hasNode (rd_graph ?r2) (rd_root ?r2)" by (rule compute_needs_root [OF computed])
        then have s: "sound_graph (rd_graph s)"
          using sound_compute [of ?r2 "Some ''end''" offset] g computed by (simp add: compute_props_def layout_types_def)
        have turned: "sound_graph (eachNode (rd_graph s) (\<lambda>i. upd_node i (turn_end d)) [])" for d
          by (rule sound_kept [OF s kept_eachNode]) (intro kept_upd_node kept_turn_end)
        have "rd_graph (fst (rgraph_onClick offset nid r)) = rd_graph s
            \<or> (\<exists>d. rd_graph (fst (rgraph_onClick offset nid r)) = eachNode (rd_graph s) (\<lambda>i. upd_node i (turn_end d)) [])"
          using click Some tagged computed
          by (auto simp: rgraph_onClick_def pt Let_def split: option.splits)
        then show ?thesis using s turned by auto
      qed
    qed
  qed
qed (use assms in \<open>auto simp: rgraph_onClick_def\<close>)

text \<open>Loading makes fresh nodes at the origin, none of them ignored.\<close>

definition fresh_nodes :: "graph \<Rightarrow> bool" where
  "fresh_nodes g \<longleftrightarrow> g_opt g = rgraph_options \<and> (\<forall>(i, n) \<in> set (g_nodes g). polar_node n \<and> \<not> n_ignore n)"

lemma fresh_addNode: "fresh_nodes g \<Longrightarrow> fresh_nodes (addNode s g)"
proof -
  have "polar_node (node_initialize rgraph_options s)" "\<not> n_ignore (node_initialize rgraph_options s)"
    by (simp_all add: node_initialize_def rgraph_options_def node_set_prop_def polar_node_def Let_def)
  moreover have "set (AList.update k v al) \<subseteq> insert (k, v) (set al)" for k :: id and v :: gnode and al
    by (induction al) auto
  ultimately show "fresh_nodes g \<Longrightarrow> fresh_nodes (addNode s g)"
    by (fastforce simp: fresh_nodes_def addNode_def)
qed

lemma fresh_addAdjacence: "fresh_nodes g \<Longrightarrow> fresh_nodes (fst (addAdjacence a b d g))"
proof -
  have "fresh_nodes (g\<lparr>g_adjs := x\<rparr>) = fresh_nodes g" "fresh_nodes (set_adj i j r g) = fresh_nodes g" for g x i j r
    by (simp_all add: fresh_nodes_def set_adj_def)
  then show "fresh_nodes g \<Longrightarrow> fresh_nodes (fst (addAdjacence a b d g))"
    by (simp add: addAdjacence_def Let_def fresh_addNode)
qed

lemma fresh_construct: "fresh_nodes (construct rgraph_options Node Edge Label (Inr json))"
proof -
  have adj: "fresh_nodes g \<Longrightarrow> fresh_nodes (construct_adj json n a g)" for n a g
    by (auto simp: construct_adj_def construct_getNode_def Let_def fresh_addAdjacence fresh_addNode split: option.splits prod.splits)
  have adjs: "fresh_nodes g \<Longrightarrow> fresh_nodes (fold (construct_adj json n) as g)" for n as g
    by (induction as arbitrary: g) (simp_all add: adj)
  have node: "fresh_nodes g \<Longrightarrow> fresh_nodes (construct_node json n g)" for n g
    by (simp add: construct_node_def adjs fresh_addNode)
  have "fresh_nodes g \<Longrightarrow> fresh_nodes (fold (construct_node json) ns g)" for ns g
    by (induction ns arbitrary: g) (simp_all add: node)
  moreover have "fresh_nodes (initialize rgraph_options Node Edge Label)"
    by (simp add: fresh_nodes_def initialize_def)
  ultimately show ?thesis by (simp add: construct_def construct_graph_def)
qed

lemma sound_construct: "sound_graph (construct rgraph_options Node Edge Label (Inr json))"
  using fresh_construct construct_array by (simp add: sound_graph_def fresh_nodes_def)

lemma two_levels_links:
  "linked ''ignore'' two_levels ''a'' = [''b'']"
  "\<exists>theta. getNodeAndParentAngle two_levels ''b'' = Some (Some ''a'', Some theta)"
  "passes ''ignore'' two_levels ''a''" "passes ''ignore'' two_levels ''b''"
  "\<forall>(i, n) \<in> set (g_nodes two_levels). polar_node n"
proof -
  let ?g1 = "set_depth (Some 1) ''b'' (set_depth (Some 0) ''a'' two_nodes)"
  have m: "marks_only two_nodes ?g1" by (rule marks_only_trans [OF marks_only_set(2) marks_only_set(2)])
  have k: "kept ?g1 two_levels" by (rule kept_upd_node) (simp add: kept_node_def)
  have adjs: "g_adjs two_levels = [adjacence_initialize ''a'' ''b'' []]" "adjacencies two_nodes ''b'' = [(''a'', 0)]"
    by (simp_all add: set_depth_def addAdjacence_def adjacentTo_def adjacencies_def set_adj_def addNode_def hasNode_def initialize_def Let_def)
  have adj: "adjacencies two_levels ''a'' = [(''b'', 0)]" "adjacencies two_levels ''b'' = [(''a'', 0)]"
    using kept_lookups(1) [OF k] marks_only_lookups(1) [OF m] two_nodes_facts(6) adjs(2) by simp_all
  show "linked ''ignore'' two_levels ''a'' = [''b'']"
    unfolding linked_def adj adjs by (simp add: filter_adj_def adj_prop_def adjacence_initialize_def prop_of_def)
  show "passes ''ignore'' two_levels ''a''" "passes ''ignore'' two_levels ''b''"
    using kept_lookups(5) [OF k] marks_only_passes [OF m ignore_flag(2)] two_nodes_facts(4,5) by simp_all
  have "depth_of two_levels ''b'' = Some 1"
    using two_nodes_facts(2) by (simp add: kept_lookups(4) [OF k] depth_of_def set_depth_def getNode_def [of two_nodes])
  moreover have "other_end two_levels ''b'' 0 = ''a''" using other_end_key [OF two_levels_facts(1)] adj(2) by simp
  ultimately have par: "getParents two_levels ''b'' = [''a'']"
    unfolding getParents_def adj using two_levels_facts(5) by simp
  obtain n where n: "getNode two_levels ''b'' = Some n" using two_levels_facts(4) by blast
  obtain p where p: "getNode two_levels ''a'' = Some p"
    using two_levels_facts(5) by (cases "getNode two_levels ''a''") (simp_all add: depth_of_def)
  show "\<exists>theta. getNodeAndParentAngle two_levels ''b'' = Some (Some ''a'', Some theta)"
    unfolding getNodeAndParentAngle_def n p par by (simp add: p Let_def del: getNode_upd_node)
  show "\<forall>(i, n) \<in> set (g_nodes two_levels). polar_node n"
    using two_nodes_facts(2) by (simp add: upd_node_def set_depth_def polar_node_def node_initialize_def Let_def)
qed

section \<open>What tagging keeps\<close>

lemma tagChildren_kept:
  assumes "wf_graph g" "i < length (linked ''ignore'' g p)" "linked ''ignore'' g p ! i = nid"
  shows "\<exists>h. tagChildren (Some p) nid g = Inr h \<and> kept g h"
proof -
  from tagChildren_numbers [OF assms] obtain g1 where
    g1: "marks_only g g1" "g_nodes g1 = g_nodes g" "tagChildren (Some p) nid g = Inr (fold (\<lambda>t. set_dist
      (linked ''ignore'' g p ! ((i + 1 + t) mod length (linked ''ignore'' g p))) t)
        [0..<length (linked ''ignore'' g p) - 1] g1)" by blast
  show ?thesis unfolding g1(3)
    by (rule exI, rule conjI, rule refl, rule kept_trans [OF kept_same_nodes [OF g1(1,2)] kept_set_dist])
qed

lemma kept_polar:
  assumes "wf_graph h" "kept g h" "\<forall>(i, n) \<in> set (g_nodes g). polar_node n"
  shows "\<forall>(i, n) \<in> set (g_nodes h). polar_node n"
proof clarify
  fix i m assume "(i, m) \<in> set (g_nodes h)"
  then have m: "getNode h i = Some m" using assms(1) by (simp add: getNode_def wf_graph_def)
  have "rel_option kept_node (getNode g i) (Some m)" using assms(2) m by (metis kept_def)
  then obtain n where n: "getNode g i = Some n" "kept_node n m" by (cases "getNode g i") auto
  then have "polar_node n" using assms(3) by (auto simp: getNode_def dest: map_of_SomeD)
  then show "polar_node m" using n(2) by (simp add: kept_node_def)
qed

section \<open>Properties\<close>

text \<open>
  Tagging the siblings of a node from its parent ends, and numbers the nodes adjacent to the
  parent in their order: the one after the node gets 0, the next 1, and so on round the list,
  while the number of the node itself does not change.
\<close>

lemma tagChildren_order:
  assumes "wf_graph g" and "i < length (linked ''ignore'' g p)" and "linked ''ignore'' g p ! i = nid"
  shows "\<exists>h. tagChildren (Some p) nid g = Inr h
    \<and> (\<forall>t < length (linked ''ignore'' g p) - 1.
          dist_of h (linked ''ignore'' g p ! ((i + 1 + t) mod length (linked ''ignore'' g p))) = JNum (of_nat t))
    \<and> dist_of h nid = dist_of g nid"
proof -
  let ?adjs = "linked ''ignore'' g p"
  let ?n = "length ?adjs" and ?z = "\<lambda>t. ?adjs ! ((i + 1 + t) mod length ?adjs)"
  obtain g1 where g1: "g_nodes g1 = g_nodes g"
    "tagChildren (Some p) nid g = Inr (fold (\<lambda>t. set_dist (?z t) t) [0..<?n - 1] g1)"
    using tagChildren_numbers [OF assms] by blast
  have dist: "distinct ?adjs" unfolding linked_def
    using wf_distinct_adjacencies [OF assms(1), of p] by (rule distinct_map_filter)
  have len: "(i + 1 + t) mod ?n < ?n" for t using assms(2) by (intro mod_less_divisor) linarith
  have inj: "inj_on ?z {0..<?n}"
  proof (rule inj_onI)
    fix s t assume st: "s \<in> {0..<?n}" "t \<in> {0..<?n}" "?z s = ?z t"
    have eq: "(i + 1 + s) mod ?n = (i + 1 + t) mod ?n"
      using nth_eq_iff_index_eq [OF dist len [of s] len [of t]] st(3) by (rule iffD1)
    have "s \<in> {0..<0 + ?n}" "t \<in> {0..<0 + ?n}" using st(1,2) by (simp_all only: add_0)
    then show "s = t" by (rule inj_onD [OF mod_shift_inj [of "i + 1" ?n 0], of s t, OF eq])
  qed
  have has: "hasNode g1 (?z t)" for t
  proof -
    have "hasNode g (?z t)" by (rule linked_hasNode [OF assms(1) nth_mem [OF len]])
    then show ?thesis using g1(1) by (simp add: hasNode_def)
  qed
  have last: "?z (?n - 1) = nid"
  proof -
    have "i + 1 + (?n - 1) = i + ?n" using assms(2) by linarith
    then show ?thesis using assms(2,3) by simp
  qed
  have "nid \<notin> ?z ` {0..<?n - 1}"
  proof
    assume "nid \<in> ?z ` {0..<?n - 1}"
    then obtain t where "t < ?n - 1" "?z t = ?z (?n - 1)" using last by auto
    moreover have "?n - 1 < ?n" using assms(2) by linarith
    ultimately show False using inj_onD [OF inj, of t "?n - 1"] by simp
  qed
  moreover have "inj_on ?z {0..<?n - 1}" using inj by (rule inj_on_subset) auto
  moreover have "dist_of g1 nid = dist_of g nid" using g1(1) by (simp add: dist_of_def getNode_def)
  ultimately show ?thesis
    using dist_fold [of ?z 0 "?n - 1" g1] has g1(2) by auto
qed

text \<open>
  C18: a click on a node that is not the root, when no animation runs, succeeds when the node is
  adjacent to its first parent by an edge that is not ignored: the node becomes the root, the
  graph is busy until the animation completes, and the parent ends on the first circle in the
  direction it was seen in from the node before the click.
\<close>

theorem onClick_keeps_direction:
  assumes "wf_graph (rd_graph r)" and "\<forall>(i, n) \<in> set (g_nodes (rd_graph r)). polar_node n"
    and "rd_root r \<noteq> nid" and "\<not> rd_busy r"
    and "getNodeAndParentAngle (rd_graph r) nid = Some (Some p, Some theta)"
    and "nid \<in> set (linked ''ignore'' (rd_graph r) p)"
    and "passes ''ignore'' (rd_graph r) nid" and "passes ''ignore'' (rd_graph r) p" and "p \<noteq> nid"
  shows "\<exists>s m. rgraph_onClick offset nid r = (s, Animating) \<and> rd_root s = nid \<and> rd_busy s
    \<and> \<not> rd_busy (rgraph_onComplete s) \<and> getNode (rd_graph s) p = Some m
    \<and> n_endPos m = PosP (mkP theta (rd_levelDistance r))"
proof -
  let ?g = "rd_graph r" and ?r1 = "r\<lparr>rd_busy := True, rd_root := nid\<rparr>"
  obtain i where i: "i < length (linked ''ignore'' ?g p)" "linked ''ignore'' ?g p ! i = nid"
    using assms(6) by (auto simp: in_set_conv_nth)
  from tagChildren_kept [OF assms(1) i] obtain h where h: "tagChildren (Some p) nid ?g = Inr h" and k: "kept ?g h" by blast
  let ?r2 = "?r1\<lparr>rd_graph := h, rd_parent := Some p\<rparr>"
  have wf: "wf_graph h" by (rule kept_wf [OF assms(1) k])
  have polar: "\<forall>(i, n) \<in> set (g_nodes h). polar_node n" by (rule kept_polar [OF wf k assms(2)])
  have types: "set (compute_props (Some ''end'')) \<subseteq> layout_types" by (simp add: compute_props_def layout_types_def)
  have "passes ''ignore'' (rd_graph ?r2) (rd_root ?r2)" using assms(7) kept_lookups(5) [OF k] by simp
  from radial_compute_spec [of ?r2 "Some ''end''" offset, OF _ this _ types] wf polar
  obtain s where s: "radial_compute offset (Some ''end'') ?r2 = Some s" "wf_graph (rd_graph s)"
    and circ: "\<And>x k u. x \<in> set (layer (neighbours ''ignore'' h) nid k)
          \<and> (\<forall>j < k. x \<notin> set (layer (neighbours ''ignore'' h) nid j)) \<and> u \<in> set (compute_props (Some ''end''))
        \<Longrightarrow> \<exists>m theta. getNode (rd_graph s) x = Some m \<and> node_getPos m u = Some (PosP (mkP theta (of_nat k * rd_levelDistance r)))"
    by auto
  have "p \<in> set (neighbours ''ignore'' h nid)"
    using parent_neighbour [OF assms(1,6,8)] kept_neighbours [OF assms(1) k] by simp
  then have "p \<in> set (layer (neighbours ''ignore'' h) nid 1) \<and> (\<forall>j < 1. p \<notin> set (layer (neighbours ''ignore'' h) nid j))
      \<and> ''end'' \<in> set (compute_props (Some ''end''))"
    using assms(9) by (simp add: compute_props_def)
  from circ [OF this] obtain m th where m: "getNode (rd_graph s) p = Some m"
    "n_endPos m = PosP (mkP th (rd_levelDistance r))"
    by (auto simp: node_getPos_def type_or_current_def)
  let ?d = "theta - end_theta (rd_graph s) p"
  let ?g2 = "eachNode (rd_graph s) (\<lambda>i. upd_node i (turn_end ?d)) []"
  have "distinct (map fst (g_nodes (rd_graph s)))" using s(2) by (simp add: wf_graph_def)
  then have "getNode ?g2 p = Some (turn_end ?d m)" using m(1) by (simp add: getNode_eachNode_upd)
  moreover have "n_endPos (turn_end ?d m) = PosP (mkP theta (rd_levelDistance r))"
    using m by (simp add: turn_end_def end_theta_def polar_getp_def polar_add_def polar_set_def)
  moreover have "rgraph_onClick offset nid r = (s\<lparr>rd_graph := ?g2\<rparr>, Animating)"
    using assms(3-5) h s(1) by (simp add: rgraph_onClick_def)
  ultimately show ?thesis
    using radial_compute_fields [OF s(1)] by (auto simp: rgraph_onComplete_def)
qed

theorem onClick_keeps_direction_witness:
  "\<exists>s theta m. getNodeAndParentAngle two_levels ''b'' = Some (Some ''a'', Some theta)
     \<and> rgraph_onClick (\<lambda>w h t. (0, 0)) ''b'' (two_radial\<lparr>rd_graph := two_levels\<rparr>) = (s, Animating)
     \<and> getNode (rd_graph s) ''a'' = Some m \<and> n_endPos m = PosP (mkP theta 100)"
proof -
  obtain theta where th: "getNodeAndParentAngle two_levels ''b'' = Some (Some ''a'', Some theta)"
    using two_levels_links(2) by blast
  have "''b'' \<in> set (linked ''ignore'' two_levels ''a'')" unfolding two_levels_links(1) by simp
  then show ?thesis
    using onClick_keeps_direction [of "two_radial\<lparr>rd_graph := two_levels\<rparr>" "''b''" "''a''" theta "\<lambda>w h t. (0, 0)"]
      two_levels_facts(1) two_levels_links(3-5) th by auto
qed

text \<open>
  C40: a click on a node that has no parent, such as one that is not connected to the root, ends
  in an exception after the graph was marked busy: every later click on any node is ignored.
\<close>

theorem onClick_without_parent:
  assumes "hasNode (rd_graph r) nid" and "getParents (rd_graph r) nid = []"
    and "rd_root r \<noteq> nid" and "\<not> rd_busy r"
  shows "\<exists>s. rgraph_onClick offset nid r = (s, Failed) \<and> rd_busy s
    \<and> (\<forall>i. rgraph_onClick offset i s = (s, Ignored))"
proof -
  let ?r = "r\<lparr>rd_busy := True, rd_root := nid, rd_parent := None\<rparr>"
  have "getNodeAndParentAngle (rd_graph r) nid = Some (None, None)"
    using assms(1,2) by (auto simp: getNodeAndParentAngle_def hasNode_getNode)
  then have click: "rgraph_onClick offset nid r
      = (case radial_compute offset (Some ''end'') ?r of None \<Rightarrow> (?r, Failed) | Some s \<Rightarrow> (s, Failed))"
    using assms(3,4) by (simp add: rgraph_onClick_def tagChildren_def Let_def split: option.split)
  have "\<exists>s. rgraph_onClick offset nid r = (s, Failed) \<and> rd_busy s"
    unfolding click using radial_compute_fields(1) [of offset "Some ''end''" ?r]
    by (cases "radial_compute offset (Some ''end'') ?r") simp_all
  then show ?thesis by (auto simp: rgraph_onClick_def)
qed

theorem onClick_without_parent_witness:
  "\<exists>s. rgraph_onClick (\<lambda>w h t. (0, 0)) ''b'' two_radial = (s, Failed) \<and> rd_busy s"
proof -
  have "hasNode (rd_graph two_radial) ''b''"
    using two_nodes_facts(2) by (simp add: hasNode_def)
  moreover have "getParents (rd_graph two_radial) ''b'' = []"
  proof -
    have "getNode two_nodes ''b'' = Some (node_initialize \<lparr>go_complex = False, go_Node = []\<rparr> \<lparr>s_id = ''b'', s_name = [], s_data = []\<rparr>)"
      unfolding getNode_def two_nodes_facts(2) by simp
    then have "depth_of two_nodes ''b'' = None" by (simp add: depth_of_def node_initialize_def Let_def)
    then show ?thesis by (simp add: getParents_def filter_empty_conv split: option.splits)
  qed
  ultimately show ?thesis
    using onClick_without_parent [of two_radial "''b''" "\<lambda>w h t. (0, 0)"] by auto
qed

end
