(* ===== verification/Jit_Canvas.thy ===== *)
theory Jit_Canvas
  imports Jit_Helpers
begin

text \<open>
  The canvas widget of the graph library (\<^verbatim>\<open>rfweb/js/jit/jit.js\<close>, \<^verbatim>\<open>Canvas\<close>, \<^verbatim>\<open>Canvas.Base\<close> and
  \<^verbatim>\<open>Canvas.Background.Circles\<close>): a stack of canvas elements that are moved and scaled together.
  A base keeps its offsets and scales beside the transformation of its drawing context; the
  widget keeps its own copy, which the event handlers use to turn a position of the mouse into
  a position of the graph. The lemmas show that the three stay consistent under every
  operation and that the position of an event is the point drawn under the mouse.
\<close>

section \<open>Canvas.Base\<close>

datatype draw =
    ClearRect real real real real
  | VizPlot
  | VizResize real real

text \<open>
  A base: offsets and scales, the size of the element, the size cached by \<^verbatim>\<open>getSize\<close>, the
  transformation of the context (a point \<open>x\<close> is drawn at \<open>b_tx + b_kx * x\<close>), and what was drawn.
\<close>

record base =
  b_ox :: real
  b_oy :: real
  b_sx :: real
  b_sy :: real
  b_width :: real
  b_height :: real
  b_size :: "(real \<times> real) option"
  b_tx :: real
  b_ty :: real
  b_kx :: real
  b_ky :: real
  b_log :: "draw list"

definition ctx_translate :: "real \<Rightarrow> real \<Rightarrow> base \<Rightarrow> base" where
  "ctx_translate x y b = b\<lparr>b_tx := b_tx b + b_kx b * x, b_ty := b_ty b + b_ky b * y\<rparr>"

definition ctx_scale :: "real \<Rightarrow> real \<Rightarrow> base \<Rightarrow> base" where
  "ctx_scale x y b = b\<lparr>b_kx := b_kx b * x, b_ky := b_ky b * y\<rparr>"

definition base_getSize :: "base \<Rightarrow> (real \<times> real) \<times> base" where
  "base_getSize b =
     (case b_size b of
        Some s \<Rightarrow> (s, b)
      | None \<Rightarrow> ((b_width b, b_height b), b\<lparr>b_size := Some (b_width b, b_height b)\<rparr>))"

definition translateToCenter :: "(real \<times> real) option \<Rightarrow> base \<Rightarrow> base" where
  "translateToCenter ps b =
     (let (size, b) = base_getSize b;
          width = (case ps of Some p \<Rightarrow> fst size - fst p - b_ox b * 2 | None \<Rightarrow> fst size);
          height = (case ps of Some p \<Rightarrow> snd size - snd p - b_oy b * 2 | None \<Rightarrow> snd size);
          b = (if ps \<noteq> None then ctx_scale (1 / b_sx b) (1 / b_sy b) b else b)
      in ctx_translate (width / 2) (height / 2) b)"

definition createCanvas :: "real \<Rightarrow> real \<Rightarrow> base" where
  "createCanvas width height =
     \<lparr>b_ox = 0, b_oy = 0, b_sx = 1, b_sy = 1, b_width = width, b_height = height, b_size = None,
      b_tx = 0, b_ty = 0, b_kx = 1, b_ky = 1, b_log = []\<rparr>"

definition base_initialize :: "real \<Rightarrow> real \<Rightarrow> base" where
  "base_initialize width height = translateToCenter None (createCanvas width height)"

definition base_clear :: "base \<Rightarrow> base" where
  "base_clear b =
     (let (size, b) = base_getSize b;
          ox = b_ox b; oy = b_oy b; sx = b_sx b; sy = b_sy b
      in b\<lparr>b_log := b_log b @ [ClearRect ((- fst size / 2 - ox) * 1 / sx) ((- snd size / 2 - oy) * 1 / sy)
             (fst size * 1 / sx) (snd size * 1 / sy)]\<rparr>)"

definition base_plot :: "base \<Rightarrow> base" where
  "base_plot b = (let b = base_clear b in b\<lparr>b_log := b_log b @ [VizPlot]\<rparr>)"

definition base_translate :: "real \<Rightarrow> real \<Rightarrow> bool \<Rightarrow> base \<Rightarrow> base" where
  "base_translate x y disablePlot b =
     (let sx = b_sx b; sy = b_sy b;
          b = ctx_translate x y (b\<lparr>b_ox := b_ox b + x * sx, b_oy := b_oy b + y * sy\<rparr>)
      in if disablePlot then b else base_plot b)"

definition base_scale :: "real \<Rightarrow> real \<Rightarrow> bool \<Rightarrow> base \<Rightarrow> base" where
  "base_scale x y disablePlot b =
     (let b = ctx_scale x y (b\<lparr>b_sx := b_sx b * x, b_sy := b_sy b * y\<rparr>)
      in if disablePlot then b else base_plot b)"

text \<open>
  Setting the width of a canvas element resets its context; the emulation for browsers without
  canvas elements does not.
\<close>

definition base_resize :: "bool \<Rightarrow> real \<Rightarrow> real \<Rightarrow> base \<Rightarrow> base" where
  "base_resize supportsCanvas width height b =
     (let (size, b) = base_getSize b;
          b = b\<lparr>b_size := None, b_width := width, b_height := height\<rparr>;
          b = (if supportsCanvas then b\<lparr>b_tx := 0, b_ty := 0, b_kx := 1, b_ky := 1\<rparr> else b);
          b = (if \<not> supportsCanvas then translateToCenter (Some size) b else translateToCenter None b);
          b = b\<lparr>b_ox := 0, b_oy := 0, b_sx := 1, b_sy := 1\<rparr>;
          b = base_clear b
      in b\<lparr>b_log := b_log b @ [VizResize width height]\<rparr>)"

section \<open>The background circles\<close>

definition circles_plot :: "props \<Rightarrow> nat \<Rightarrow> real \<Rightarrow> ctx_cmd list" where
  "circles_plot CanvasStyles numberOfCircles levelDistance =
     map (\<lambda>(s, v). SetProp s v) CanvasStyles
     @ concat (map (\<lambda>i. [BeginPath, Arc 0 0 (levelDistance * of_nat i) 0 (2 * pi) False, Paint ''stroke'', ClosePath])
         [1..<numberOfCircles + 1])"

section \<open>Canvas\<close>

record canvas =
  cv_ox :: real
  cv_oy :: real
  cv_sx :: real
  cv_sy :: real
  cv_bases :: "base list"
  cv_pos :: "(real \<times> real) option"

text \<open>A widget has one base and, with a background, a second one, which is plotted at once.\<close>

definition canvas_initialize :: "real \<Rightarrow> real \<Rightarrow> bool \<Rightarrow> canvas" where
  "canvas_initialize width height background =
     \<lparr>cv_ox = 0, cv_oy = 0, cv_sx = 1, cv_sy = 1,
      cv_bases = base_initialize width height # (if background then [base_plot (base_initialize width height)] else []),
      cv_pos = None\<rparr>"

definition canvas_getSize :: "canvas \<Rightarrow> real \<times> real" where
  "canvas_getSize c = fst (base_getSize (hd (cv_bases c)))"

text \<open>The parameter \<open>elem\<close> is the position of the widget on the page, which is cached.\<close>

definition canvas_getPos :: "real \<times> real \<Rightarrow> bool \<Rightarrow> canvas \<Rightarrow> (real \<times> real) \<times> canvas" where
  "canvas_getPos elem force c =
     (case cv_pos c of
        Some p \<Rightarrow> if force then (elem, c\<lparr>cv_pos := Some elem\<rparr>) else (p, c)
      | None \<Rightarrow> (elem, c\<lparr>cv_pos := Some elem\<rparr>))"

definition canvas_translate :: "real \<Rightarrow> real \<Rightarrow> bool \<Rightarrow> canvas \<Rightarrow> canvas" where
  "canvas_translate x y disablePlot c =
     c\<lparr>cv_ox := cv_ox c + x * cv_sx c, cv_oy := cv_oy c + y * cv_sy c,
       cv_bases := map (base_translate x y disablePlot) (cv_bases c)\<rparr>"

definition canvas_scale :: "real \<Rightarrow> real \<Rightarrow> canvas \<Rightarrow> canvas" where
  "canvas_scale x y c =
     (let px = cv_sx c * x; py = cv_sy c * y;
          dx = cv_ox c * (x - 1) / px; dy = cv_oy c * (y - 1) / py;
          c = c\<lparr>cv_sx := px, cv_sy := py, cv_bases := map (base_scale x y True) (cv_bases c)\<rparr>
      in canvas_translate dx dy False c)"

definition canvas_resize :: "bool \<Rightarrow> real \<times> real \<Rightarrow> real \<Rightarrow> real \<Rightarrow> canvas \<Rightarrow> canvas" where
  "canvas_resize supportsCanvas elem width height c =
     (let c = snd (canvas_getPos elem True c)
      in c\<lparr>cv_ox := 0, cv_oy := 0, cv_sx := 1, cv_sy := 1,
           cv_bases := map (base_resize supportsCanvas width height) (cv_bases c)\<rparr>)"

definition canvas_clear :: "nat \<Rightarrow> canvas \<Rightarrow> canvas option" where
  "canvas_clear i c =
     (if i < length (cv_bases c) then Some (c\<lparr>cv_bases := (cv_bases c)[i := base_clear (cv_bases c ! i)]\<rparr>) else None)"

section \<open>Positions of events\<close>

definition isRightClick :: "jsval \<Rightarrow> jsval \<Rightarrow> bool" where
  "isRightClick which button \<longleftrightarrow> which = JNum 3 \<or> button = JNum 2"

definition getWheel :: "jsval \<Rightarrow> jsval \<Rightarrow> real" where
  "getWheel wheelDelta detail =
     (if truthy wheelDelta then num_of wheelDelta / 120 else - (if truthy detail then num_of detail else 0) / 3)"

text \<open>The position of an event in the coordinates of the graph, from its position on the page.\<close>

definition event_position :: "real \<times> real \<Rightarrow> canvas \<Rightarrow> real \<times> real \<Rightarrow> cpx \<times> canvas" where
  "event_position elem c page =
     (let s = canvas_getSize c;
          (p, c) = canvas_getPos elem False c;
          ox = cv_ox c; oy = cv_oy c; sx = cv_sx c; sy = cv_sy c
      in (mkC ((fst page - fst p - fst s / 2 - ox) * 1 / sx) ((snd page - snd p - snd s / 2 - oy) * 1 / sy), c))"

section \<open>Consistency\<close>

text \<open>Where a base draws a point, in pixels of its element.\<close>

definition to_screen :: "base \<Rightarrow> cpx \<Rightarrow> real \<times> real" where
  "to_screen b p = (b_tx b + b_kx b * c_x p, b_ty b + b_ky b * c_y p)"

definition base_ok :: "real \<Rightarrow> real \<Rightarrow> real \<Rightarrow> real \<Rightarrow> base \<Rightarrow> bool" where
  "base_ok ox oy sx sy b \<longleftrightarrow>
     b_ox b = ox \<and> b_oy b = oy \<and> b_sx b = sx \<and> b_sy b = sy \<and> b_kx b = sx \<and> b_ky b = sy
     \<and> b_tx b = b_width b / 2 + ox \<and> b_ty b = b_height b / 2 + oy
     \<and> (b_size b = None \<or> b_size b = Some (b_width b, b_height b))"

definition view_ok :: "canvas \<Rightarrow> bool" where
  "view_ok c \<longleftrightarrow> cv_sx c \<noteq> 0 \<and> cv_sy c \<noteq> 0 \<and> cv_bases c \<noteq> []
     \<and> list_all (base_ok (cv_ox c) (cv_oy c) (cv_sx c) (cv_sy c)) (cv_bases c)"

lemma base_getSize_ok:
  assumes "base_ok ox oy sx sy b"
  shows "fst (base_getSize b) = (b_width b, b_height b)" "base_ok ox oy sx sy (snd (base_getSize b))"
  using assms by (auto simp: base_getSize_def base_ok_def split: option.splits)

lemma base_log_ok [simp]: "base_ok ox oy sx sy (b\<lparr>b_log := l\<rparr>) = base_ok ox oy sx sy b"
  by (simp add: base_ok_def)

lemma base_plot_ok: "base_ok ox oy sx sy b \<Longrightarrow> base_ok ox oy sx sy (base_plot b)"
  using base_getSize_ok(2) by (simp add: base_plot_def base_clear_def Let_def case_prod_unfold)

lemma base_initialize_ok: "base_ok 0 0 1 1 (base_initialize width height)"
  by (simp add: base_ok_def base_initialize_def createCanvas_def translateToCenter_def base_getSize_def ctx_translate_def)

lemma base_translate_ok:
  assumes "base_ok ox oy sx sy b"
  shows "base_ok (ox + x * sx) (oy + y * sy) sx sy (base_translate x y disable b)"
proof -
  have "base_ok (ox + x * sx) (oy + y * sy) sx sy
      (ctx_translate x y (b\<lparr>b_ox := b_ox b + x * b_sx b, b_oy := b_oy b + y * b_sy b\<rparr>))"
    using assms by (simp add: base_ok_def ctx_translate_def mult.commute)
  then show ?thesis using base_plot_ok by (simp add: base_translate_def Let_def)
qed

text \<open>Scaling alone leaves the offsets behind; the translation that follows catches up.\<close>

lemma base_scale_translate_ok:
  assumes "base_ok ox oy sx sy b" "sx * x \<noteq> 0" "sy * y \<noteq> 0"
  shows "base_ok (ox * x) (oy * y) (sx * x) (sy * y)
    (base_translate (ox * (x - 1) / (sx * x)) (oy * (y - 1) / (sy * y)) False (base_scale x y True b))"
proof -
  have "base_ok (ox + ox * (x - 1) / (sx * x) * (sx * x)) (oy + oy * (y - 1) / (sy * y) * (sy * y)) (sx * x) (sy * y)
      (base_translate (ox * (x - 1) / (sx * x)) (oy * (y - 1) / (sy * y)) False (base_scale x y True b))"
    using assms(1) by (intro base_translate_ok) (simp add: base_ok_def base_scale_def ctx_scale_def)
  moreover have "ox + ox * (x - 1) / (sx * x) * (sx * x) = ox * x" "oy + oy * (y - 1) / (sy * y) * (sy * y) = oy * y"
    using assms(2,3) by (simp_all add: right_diff_distrib)
  ultimately show ?thesis by simp
qed

lemma base_resize_ok:
  assumes "base_ok ox oy sx sy b" "sx \<noteq> 0" "sy \<noteq> 0"
  shows "base_ok 0 0 1 1 (base_resize supports width height b)"
proof -
  obtain b1 where b1: "base_getSize b = ((b_width b, b_height b), b1)" "base_ok ox oy sx sy b1"
    "b_width b1 = b_width b" "b_height b1 = b_height b"
  proof
    show "base_getSize b = ((b_width b, b_height b), snd (base_getSize b))"
      using base_getSize_ok(1) [OF assms(1)] by (simp add: prod_eq_iff)
    show "base_ok ox oy sx sy (snd (base_getSize b))" by (rule base_getSize_ok(2) [OF assms(1)])
    show "b_width (snd (base_getSize b)) = b_width b" "b_height (snd (base_getSize b)) = b_height b"
      by (simp_all add: base_getSize_def split: option.splits)
  qed
  let ?b2 = "b1\<lparr>b_size := None, b_width := width, b_height := height\<rparr>"
  let ?b3 = "if supports then translateToCenter None (?b2\<lparr>b_tx := 0, b_ty := 0, b_kx := 1, b_ky := 1\<rparr>)
    else translateToCenter (Some (b_width b, b_height b)) ?b2"
  have "base_ok 0 0 1 1 (?b3\<lparr>b_ox := 0, b_oy := 0, b_sx := 1, b_sy := 1\<rparr>)"
    using b1(2-4) assms(2,3)
    by (simp add: base_ok_def translateToCenter_def base_getSize_def ctx_translate_def ctx_scale_def)
      (simp add: field_simps)
  then have "base_ok 0 0 1 1 (base_clear (?b3\<lparr>b_ox := 0, b_oy := 0, b_sx := 1, b_sy := 1\<rparr>))"
    using base_getSize_ok(2) by (simp add: base_clear_def Let_def case_prod_unfold)
  then show ?thesis by (simp add: base_resize_def b1(1) Let_def split: if_splits)
qed

lemma canvas_initialize_ok: "view_ok (canvas_initialize width height background)"
  by (simp add: view_ok_def canvas_initialize_def base_initialize_ok base_plot_ok)

lemma canvas_translate_ok: "view_ok c \<Longrightarrow> view_ok (canvas_translate x y disable c)"
  by (simp add: view_ok_def canvas_translate_def list_all_iff base_translate_ok)

lemma canvas_scale_ok:
  assumes "view_ok c" "x \<noteq> 0" "y \<noteq> 0"
  shows "view_ok (canvas_scale x y c)"
    and "cv_ox (canvas_scale x y c) = cv_ox c * x" "cv_oy (canvas_scale x y c) = cv_oy c * y"
    and "cv_sx (canvas_scale x y c) = cv_sx c * x" "cv_sy (canvas_scale x y c) = cv_sy c * y"
proof -
  have nz: "cv_sx c * x \<noteq> 0" "cv_sy c * y \<noteq> 0" using assms by (simp_all add: view_ok_def)
  show o: "cv_ox (canvas_scale x y c) = cv_ox c * x" "cv_oy (canvas_scale x y c) = cv_oy c * y"
    "cv_sx (canvas_scale x y c) = cv_sx c * x" "cv_sy (canvas_scale x y c) = cv_sy c * y"
    using nz by (simp_all add: canvas_scale_def canvas_translate_def Let_def right_diff_distrib)
  have "list_all (base_ok (cv_ox c * x) (cv_oy c * y) (cv_sx c * x) (cv_sy c * y)) (cv_bases (canvas_scale x y c))"
    using assms(1) nz
    by (auto simp: canvas_scale_def canvas_translate_def Let_def view_ok_def list_all_iff intro!: base_scale_translate_ok)
  moreover have "cv_bases (canvas_scale x y c) \<noteq> []"
    using assms(1) by (simp add: canvas_scale_def canvas_translate_def Let_def view_ok_def)
  ultimately show "view_ok (canvas_scale x y c)" using nz by (simp add: view_ok_def o)
qed

lemma canvas_resize_ok: "view_ok c \<Longrightarrow> view_ok (canvas_resize supports elem width height c)"
  by (auto simp: view_ok_def canvas_resize_def canvas_getPos_def list_all_iff Let_def base_resize_ok split: option.splits)

datatype canvas_op = Translate real real bool | Scale real real | Resize bool "real \<times> real" real real

fun canvas_step :: "canvas_op \<Rightarrow> canvas \<Rightarrow> canvas" where
  "canvas_step (Translate x y disable) c = canvas_translate x y disable c"
| "canvas_step (Scale x y) c = canvas_scale x y c"
| "canvas_step (Resize supports elem width height) c = canvas_resize supports elem width height c"

fun proper_op :: "canvas_op \<Rightarrow> bool" where
  "proper_op (Scale x y) \<longleftrightarrow> x \<noteq> 0 \<and> y \<noteq> 0"
| "proper_op _ \<longleftrightarrow> True"

lemma canvas_step_ok: "view_ok c \<Longrightarrow> proper_op a \<Longrightarrow> view_ok (canvas_step a c)"
  by (cases a) (simp_all add: canvas_translate_ok canvas_scale_ok(1) canvas_resize_ok)

lemma canvas_run_ok: "view_ok c \<Longrightarrow> list_all proper_op as \<Longrightarrow> view_ok (fold canvas_step as c)"
  by (induction as arbitrary: c) (simp_all add: canvas_step_ok)

lemma to_screen_ok:
  assumes "base_ok ox oy sx sy b"
  shows "to_screen b p = (b_width b / 2 + ox + sx * c_x p, b_height b / 2 + oy + sy * c_y p)"
  using assms by (simp add: to_screen_def base_ok_def)

section \<open>Properties\<close>

text \<open>
  C28: after any sequence of translations, scalings by factors other than zero and resizes of a
  widget, every canvas of it, the background included, draws a point at the centre of its
  element plus the offsets of the widget plus the scales of the widget times the point.
\<close>

theorem canvas_view_consistent:
  assumes "list_all proper_op as" and "c = fold canvas_step as (canvas_initialize width height background)"
    and "b \<in> set (cv_bases c)"
  shows "to_screen b p = (b_width b / 2 + cv_ox c + cv_sx c * c_x p, b_height b / 2 + cv_oy c + cv_sy c * c_y p)"
proof -
  have "view_ok c" unfolding assms(2) by (rule canvas_run_ok [OF canvas_initialize_ok assms(1)])
  then show ?thesis using assms(3) by (intro to_screen_ok) (simp add: view_ok_def list_all_iff)
qed

theorem canvas_view_consistent_witness:
  "\<exists>b \<in> set (cv_bases (fold canvas_step [Scale 2 2, Translate 3 4 False] (canvas_initialize 100 100 True))).
     to_screen b (mkC 1 1) = (58, 60)"
proof -
  let ?c = "fold canvas_step [Scale 2 2, Translate 3 4 False] (canvas_initialize 100 100 True)"
  have b: "hd (cv_bases ?c) \<in> set (cv_bases ?c)"
    by (rule hd_in_set) (simp add: canvas_initialize_def canvas_scale_def canvas_translate_def Let_def)
  have "b_width (hd (cv_bases ?c)) = 100" "b_height (hd (cv_bases ?c)) = 100"
    "cv_ox ?c = 6" "cv_oy ?c = 8" "cv_sx ?c = 2" "cv_sy ?c = 2"
    by (simp_all add: canvas_initialize_def canvas_scale_def canvas_translate_def Let_def base_translate_def
        base_scale_def base_plot_def base_clear_def base_getSize_def base_initialize_def createCanvas_def
        translateToCenter_def ctx_translate_def ctx_scale_def)
  then show ?thesis
    using canvas_view_consistent [of "[Scale 2 2, Translate 3 4 False]" ?c 100 100 True "hd (cv_bases ?c)" "mkC 1 1"] b
    by (intro bexI [OF _ b]) simp
qed

text \<open>
  The position an event object reports is the point of the graph drawn under the mouse: for
  a consistent widget at a known place on the page, the position of an event at the place where
  a point is drawn is that point.
\<close>

lemma event_position_roundtrip:
  assumes "view_ok c" and "cv_pos c = None \<or> cv_pos c = Some elem"
    and "page = (fst elem + fst (to_screen (hd (cv_bases c)) p), snd elem + snd (to_screen (hd (cv_bases c)) p))"
  shows "fst (event_position elem c page) = p"
proof -
  let ?b = "hd (cv_bases c)"
  have ok: "base_ok (cv_ox c) (cv_oy c) (cv_sx c) (cv_sy c) ?b" and nz: "cv_sx c \<noteq> 0" "cv_sy c \<noteq> 0"
    using assms(1) by (auto simp: view_ok_def list_all_iff)
  have "canvas_getSize c = (b_width ?b, b_height ?b)"
    using base_getSize_ok(1) [OF ok] by (simp add: canvas_getSize_def)
  moreover have "canvas_getPos elem False c = (elem, c\<lparr>cv_pos := Some elem\<rparr>)"
    using assms(2) by (auto simp: canvas_getPos_def)
  ultimately show ?thesis
    using nz by (simp add: event_position_def assms(3) to_screen_ok [OF ok])
qed

end
