(* ===== verification/Jit_Extras.thy ===== *)
theory Jit_Extras
  imports Jit_Canvas Jit_Levels
begin

text \<open>
  The interaction layer of the graph library (\<^verbatim>\<open>rfweb/js/jit/jit.js\<close>, \<^verbatim>\<open>MouseEventsManager\<close> and
  \<^verbatim>\<open>Extras.Classes\<close>): what an event object finds under the mouse, and the state machines of the
  event callbacks, of the tool tips and of panning and zooming. A handler is a list of steps,
  calls of the callbacks of the controller and assignments to its state, in the order of the
  code, so that a callback that raises an exception leaves the state as it was at the call.
  What the browser knows of an event (the label or element it hit) is part of the event.
  The lemmas show that the edge under the mouse is found whichever end it is listed under, that
  drags are properly bracketed, and that panning moves the drawing by the way of the mouse.
\<close>

section \<open>What is under the mouse\<close>

text \<open>
  The tests \<open>contains\<close> are those of the node and edge types of the visualization, false for a
  type without a test.
\<close>

definition event_getNode :: "(gnode \<Rightarrow> cpx \<Rightarrow> bool) \<Rightarrow> graph \<Rightarrow> cpx \<Rightarrow> id option" where
  "event_getNode contains g pos = map_option fst (find (\<lambda>(i, n). contains n pos) (g_nodes g))"

fun edge_scan :: "(adjacence \<Rightarrow> bool) \<Rightarrow> graph \<Rightarrow> id list \<Rightarrow> nat obj \<Rightarrow> nat option" where
  "edge_scan test g hashset [] = None"
| "edge_scan test g hashset ((edgeId, r) # edgeFrom) =
     (if edgeId \<in> set hashset then edge_scan test g hashset edgeFrom
      else if test (g_adjs g ! r) then Some r
      else edge_scan test g hashset edgeFrom)"

fun edges_scan :: "(adjacence \<Rightarrow> bool) \<Rightarrow> graph \<Rightarrow> id list \<Rightarrow> nat obj obj \<Rightarrow> nat option" where
  "edges_scan test g hashset [] = None"
| "edges_scan test g hashset ((i, edgeFrom) # edges) =
     (let hashset = i # hashset
      in case edge_scan test g hashset edgeFrom of
           Some r \<Rightarrow> Some r
         | None \<Rightarrow> edges_scan test g hashset edges)"

definition event_getEdge :: "(adjacence \<Rightarrow> cpx \<Rightarrow> bool) \<Rightarrow> graph \<Rightarrow> cpx \<Rightarrow> nat option" where
  "event_getEdge contains g pos = edges_scan (\<lambda>a. contains a pos) g [] (g_edges g)"

datatype target = TNode id | TEdge nat

text \<open>
  An event: the node and edge found under the mouse, the label it hit, its position in the
  graph and on the page, the elements around the one the mouse went to (innermost first), and
  the button.
\<close>

record mouse =
  ms_node :: "id option"
  ms_edge :: "nat option"
  ms_label :: "id option"
  ms_pos :: cpx
  ms_page :: "real \<times> real"
  ms_related :: "nat list"
  ms_right :: bool

text \<open>The loop over the parents of the related target: whether the mouse stays in the widget.\<close>

fun stays_in :: "nat \<Rightarrow> nat list \<Rightarrow> bool" where
  "stays_in widget [] = False"
| "stays_in widget (p # ps) = (if widget = p then True else stays_in widget ps)"

section \<open>Events\<close>

datatype ecall =
    RightClick "target option"
  | Click "target option"
  | DragStart "target option"
  | DragMove target
  | DragEnd target
  | DragCancel target
  | MouseEnter "target option"
  | MouseLeave "target option"
  | MouseMove "target option"
  | MouseWheel real
  | TouchStart "target option"
  | TouchMove target
  | TouchEnd target
  | TouchCancel target

record events =
  e_hovered :: "target option"
  e_pressed :: "target option"
  e_touched :: "target option"
  e_touchMoved :: bool
  e_moved :: bool

record events_config =
  ec_dom :: bool
  ec_edges :: bool
  ec_widget :: nat

datatype step = Call ecall | Assign events

definition events_initializePost :: events where
  "events_initializePost =
     \<lparr>e_hovered = None, e_pressed = None, e_touched = None, e_touchMoved = False, e_moved = False\<rparr>"

definition under_mouse :: "events_config \<Rightarrow> mouse \<Rightarrow> target option" where
  "under_mouse cfg m =
     (case ms_node m of
        Some i \<Rightarrow> Some (TNode i)
      | None \<Rightarrow> if ec_edges cfg then map_option TEdge (ms_edge m) else None)"

definition label_hit :: "events_config \<Rightarrow> mouse \<Rightarrow> id option" where
  "label_hit cfg m = (if ec_dom cfg then ms_label m else None)"

definition events_onMouseUp :: "mouse \<Rightarrow> events \<Rightarrow> step list" where
  "events_onMouseUp m st =
     (if \<not> e_moved st then
        (if ms_right m then [Call (RightClick (e_hovered st))] else [Call (Click (e_pressed st))])
      else [])
     @ (case e_pressed st of
          None \<Rightarrow> []
        | Some t \<Rightarrow>
            [Call (if e_moved st then DragEnd t else DragCancel t),
             Assign (st\<lparr>e_pressed := None, e_moved := False\<rparr>)])"

definition events_onMouseOut :: "events_config \<Rightarrow> mouse \<Rightarrow> events \<Rightarrow> step list" where
  "events_onMouseOut cfg m st =
     (case label_hit cfg m of
        Some l \<Rightarrow> [Call (MouseLeave (Some (TNode l))), Assign (st\<lparr>e_hovered := None\<rparr>)]
      | None \<Rightarrow>
          if stays_in (ec_widget cfg) (ms_related m) then []
          else if e_hovered st \<noteq> None
          then [Call (MouseLeave (e_hovered st)), Assign (st\<lparr>e_hovered := None\<rparr>)]
          else [])"

definition events_onMouseOver :: "events_config \<Rightarrow> mouse \<Rightarrow> events \<Rightarrow> step list" where
  "events_onMouseOver cfg m st =
     (case label_hit cfg m of
        Some l \<Rightarrow> [Assign (st\<lparr>e_hovered := Some (TNode l)\<rparr>), Call (MouseEnter (Some (TNode l)))]
      | None \<Rightarrow> [])"

text \<open>The parameter \<open>still\<close> tells whether the hovered target contains the position of the event.\<close>

definition events_onMouseMove :: "events_config \<Rightarrow> (target \<Rightarrow> bool) \<Rightarrow> mouse \<Rightarrow> events \<Rightarrow> step list" where
  "events_onMouseMove cfg still m st =
     (case e_pressed st of
        Some t \<Rightarrow> [Assign (st\<lparr>e_moved := True\<rparr>), Call (DragMove t)]
      | None \<Rightarrow>
          if ec_dom cfg then [Call (MouseMove (e_hovered st))]
          else
            (case e_hovered st of
               Some h \<Rightarrow> if still h then [Call (MouseMove (Some h))]
                 else [Call (MouseLeave (Some h)), Assign (st\<lparr>e_hovered := None\<rparr>)]
                   @ [Assign (st\<lparr>e_hovered := under_mouse cfg m\<rparr>),
                      Call (if under_mouse cfg m \<noteq> None then MouseEnter (under_mouse cfg m) else MouseMove None)]
             | None \<Rightarrow>
                 [Assign (st\<lparr>e_hovered := under_mouse cfg m\<rparr>),
                  Call (if under_mouse cfg m \<noteq> None then MouseEnter (under_mouse cfg m) else MouseMove None)]))"

definition events_onMouseWheel :: "real \<Rightarrow> events \<Rightarrow> step list" where
  "events_onMouseWheel delta st = [Call (MouseWheel delta)]"

definition events_onMouseDown :: "events_config \<Rightarrow> mouse \<Rightarrow> events \<Rightarrow> step list" where
  "events_onMouseDown cfg m st =
     [Assign (st\<lparr>e_pressed := under_mouse cfg m\<rparr>), Call (DragStart (under_mouse cfg m))]"

definition events_onTouchStart :: "events_config \<Rightarrow> mouse \<Rightarrow> events \<Rightarrow> step list" where
  "events_onTouchStart cfg m st =
     [Assign (st\<lparr>e_touched := under_mouse cfg m\<rparr>), Call (TouchStart (under_mouse cfg m))]"

definition events_onTouchMove :: "mouse \<Rightarrow> events \<Rightarrow> step list" where
  "events_onTouchMove m st =
     (case e_touched st of
        None \<Rightarrow> []
      | Some t \<Rightarrow> [Assign (st\<lparr>e_touchMoved := True\<rparr>), Call (TouchMove t)])"

definition events_onTouchEnd :: "mouse \<Rightarrow> events \<Rightarrow> step list" where
  "events_onTouchEnd m st =
     (case e_touched st of
        None \<Rightarrow> []
      | Some t \<Rightarrow>
          [Call (if e_touchMoved st then TouchEnd t else TouchCancel t),
           Assign (st\<lparr>e_touched := None, e_touchMoved := False\<rparr>)])"

text \<open>The events of the browser and their handlers.\<close>

datatype mouse_event =
    MUp mouse | MDown mouse | MMove "target \<Rightarrow> bool" mouse | MOver mouse | MOut mouse | MWheel real
  | TStart mouse | TMove mouse | TEnd mouse

fun handleEvent :: "events_config \<Rightarrow> mouse_event \<Rightarrow> events \<Rightarrow> step list" where
  "handleEvent cfg (MUp m) st = events_onMouseUp m st"
| "handleEvent cfg (MDown m) st = events_onMouseDown cfg m st"
| "handleEvent cfg (MMove still m) st = events_onMouseMove cfg still m st"
| "handleEvent cfg (MOver m) st = events_onMouseOver cfg m st"
| "handleEvent cfg (MOut m) st = events_onMouseOut cfg m st"
| "handleEvent cfg (MWheel delta) st = events_onMouseWheel delta st"
| "handleEvent cfg (TStart m) st = events_onTouchStart cfg m st"
| "handleEvent cfg (TMove m) st = events_onTouchMove m st"
| "handleEvent cfg (TEnd m) st = events_onTouchEnd m st"

text \<open>
  Running a handler: a callback takes the state of the page and may fail, which ends the
  handler.
\<close>

fun run_steps :: "(ecall \<Rightarrow> 'p \<Rightarrow> 'p \<times> bool) \<Rightarrow> step list \<Rightarrow> events \<times> 'p \<Rightarrow> events \<times> 'p" where
  "run_steps cb [] s = s"
| "run_steps cb (Assign e # ss) (st, p) = run_steps cb ss (e, p)"
| "run_steps cb (Call c # ss) (st, p) =
     (case cb c p of (q, ok) \<Rightarrow> if ok then run_steps cb ss (st, q) else (st, q))"

definition run_event :: "events_config \<Rightarrow> (ecall \<Rightarrow> 'p \<Rightarrow> 'p \<times> bool) \<Rightarrow> mouse_event \<Rightarrow> events \<times> 'p \<Rightarrow> events \<times> 'p" where
  "run_event cfg cb e s = run_steps cb (handleEvent cfg e (fst s)) s"

section \<open>Tool tips\<close>

datatype tcall = TipShow "id option" | TipHide

record tips =
  t_node :: "id option"
  t_shown :: bool
  t_top :: real
  t_left :: real

record tips_config =
  tc_dom :: bool
  tc_force :: bool
  tc_offsetX :: real
  tc_offsetY :: real
  tc_widget :: nat

definition tip_hide :: "bool \<Rightarrow> tips \<Rightarrow> tips \<times> tcall list" where
  "tip_hide triggerCallback t = (t\<lparr>t_shown := False\<rparr>, if triggerCallback then [TipHide] else [])"

text \<open>The sizes of the window and of the rendered tip are those of the browser.\<close>

definition setTooltipPosition :: "tips_config \<Rightarrow> real \<times> real \<Rightarrow> real \<times> real \<Rightarrow> real \<times> real \<Rightarrow> tips \<Rightarrow> tips" where
  "setTooltipPosition cfg win obj pos t =
     (let x = tc_offsetX cfg; y = tc_offsetY cfg; (width, height) = obj; (wwidth, wheight) = win
      in t\<lparr>t_shown := True,
           t_top := (if snd pos + y + height > wheight then snd pos - height - y else snd pos + y),
           t_left := (if fst pos + width + x > wwidth then fst pos - width - x else fst pos + x)\<rparr>)"

definition tips_onMouseOut :: "tips_config \<Rightarrow> mouse \<Rightarrow> tips \<Rightarrow> tips \<times> tcall list" where
  "tips_onMouseOut cfg m t =
     (if tc_dom cfg \<and> ms_label m \<noteq> None then tip_hide True t
      else if stays_in (tc_widget cfg) (ms_related m) then (t, [])
      else tip_hide False t)"

definition tips_onMouseOver :: "tips_config \<Rightarrow> mouse \<Rightarrow> tips \<Rightarrow> tips \<times> tcall list" where
  "tips_onMouseOver cfg m t =
     (if tc_dom cfg \<and> ms_label m \<noteq> None then (t\<lparr>t_node := ms_label m\<rparr>, [TipShow (ms_label m)]) else (t, []))"

definition tips_onMouseMove :: "tips_config \<Rightarrow> real \<times> real \<Rightarrow> real \<times> real \<Rightarrow> mouse \<Rightarrow> tips \<Rightarrow> tips \<times> tcall list" where
  "tips_onMouseMove cfg win obj m t =
     (if tc_dom cfg then
        (if ms_label m \<noteq> None then (setTooltipPosition cfg win obj (ms_page m) t, []) else (t, []))
      else
        (case ms_node m of
           None \<Rightarrow> tip_hide True t
         | Some i \<Rightarrow>
             (let (t, calls) = (if tc_force cfg \<or> t_node t \<noteq> Some i
                                then (t\<lparr>t_node := Some i\<rparr>, [TipShow (Some i)]) else (t, []))
              in (setTooltipPosition cfg win obj (ms_page m) t, calls))))"

section \<open>Navigation\<close>

record navigation =
  nav_pos :: "cpx option"
  nav_pressed :: bool

datatype panning = NoPanning | AvoidNodes | Panning

definition navigation_initializePost :: navigation where
  "navigation_initializePost = \<lparr>nav_pos = None, nav_pressed = False\<rparr>"

definition nav_onMouseWheel :: "real \<Rightarrow> real \<Rightarrow> canvas \<Rightarrow> canvas" where
  "nav_onMouseWheel zooming scroll c =
     (if zooming = 0 then c
      else (let val = zooming / 1000; ans = 1 + scroll * val in canvas_scale ans ans c))"

definition nav_onMouseDown :: "panning \<Rightarrow> mouse \<Rightarrow> canvas \<Rightarrow> navigation \<Rightarrow> navigation" where
  "nav_onMouseDown panning m c st =
     (if panning = NoPanning then st
      else if panning = AvoidNodes \<and> ms_node m \<noteq> None then st
      else st\<lparr>nav_pressed := True,
              nav_pos := Some (mkC (c_x (ms_pos m) * cv_sx c + cv_ox c) (c_y (ms_pos m) * cv_sy c + cv_oy c))\<rparr>)"

text \<open>A move while pressed always finds a position set by the press.\<close>

definition nav_onMouseMove :: "panning \<Rightarrow> mouse \<Rightarrow> canvas \<Rightarrow> navigation \<Rightarrow> canvas \<times> navigation" where
  "nav_onMouseMove panning m c st =
     (if panning = NoPanning \<or> \<not> nav_pressed st \<or> panning = AvoidNodes \<and> ms_node m \<noteq> None then (c, st)
      else
        (case nav_pos st of
           None \<Rightarrow> (c, st)
         | Some thispos \<Rightarrow>
             (let currentPos = mkC (c_x (ms_pos m) * cv_sx c + cv_ox c) (c_y (ms_pos m) * cv_sy c + cv_oy c);
                  x = c_x currentPos - c_x thispos; y = c_y currentPos - c_y thispos
              in (canvas_translate (x * 1 / cv_sx c) (y * 1 / cv_sy c) False c, st\<lparr>nav_pos := Some currentPos\<rparr>))))"

definition nav_onMouseUp :: "panning \<Rightarrow> navigation \<Rightarrow> navigation" where
  "nav_onMouseUp panning st = (if panning = NoPanning then st else st\<lparr>nav_pressed := False\<rparr>)"

section \<open>Node styles\<close>

datatype nscall = NodeFx id props | StopTimer

record nstyles =
  ns_hovered :: "id option"
  ns_down :: "id option"
  ns_move :: bool

record nstyles_config =
  nc_dom :: bool
  nc_widget :: nat
  nc_hover :: "props option"
  nc_click :: "props option"

text \<open>The saved styles of a node are its property \<^verbatim>\<open>styles\<close>.\<close>

definition node_styles :: "gnode \<Rightarrow> jsval" where
  "node_styles n = prop_of (n_ext n) ''styles''"

definition save_styles :: "graph \<Rightarrow> props \<Rightarrow> gnode \<Rightarrow> gnode" where
  "save_styles g styles n =
     (let saved = (case node_styles n of JObj ps \<Rightarrow> ps | _ \<Rightarrow> merge [JObj (ds_data (n_store n)), JObj []]);
          saved = fold (\<lambda>(s, v) ps. if CHR ''$'' # s \<in> set (map fst ps) then ps
                    else AList.update (CHR ''$'' # s)
                      (case getData (g_Node g) (n_store n) s [] False of None \<Rightarrow> JUndefined | Some w \<Rightarrow> w) ps) styles saved
      in n\<lparr>n_ext := AList.update ''styles'' (JObj saved) (n_ext n)\<rparr>)"

definition getRestoredStyles :: "props \<Rightarrow> gnode \<Rightarrow> props" where
  "getRestoredStyles styles n = map (\<lambda>(s, v). (s, get_prop (node_styles n) (CHR ''$'' # s))) styles"

definition toggleStylesOn :: "props option \<Rightarrow> id \<Rightarrow> bool \<Rightarrow> graph \<Rightarrow> graph \<times> nscall list" where
  "toggleStylesOn styles node on g =
     (case (styles, getNode g node) of
        (Some ss, Some n) \<Rightarrow>
          if on then (upd_node node (save_styles g ss) g, [NodeFx node ss])
          else (g, [NodeFx node (getRestoredStyles ss n)])
      | _ \<Rightarrow> (g, []))"

text \<open>The end values of a node that loses its style are its saved ones.\<close>

definition restore_end :: "props \<Rightarrow> gnode \<Rightarrow> gnode" where
  "restore_end styles n =
     (case fold (\<lambda>(s, v) st. Option.bind st (\<lambda>st. setData st s (get_prop (node_styles n) (CHR ''$'' # s)) ''end''))
        styles (Some (n_store n)) of None \<Rightarrow> n | Some st \<Rightarrow> n\<lparr>n_store := st\<rparr>)"

definition is_selected :: "graph \<Rightarrow> id \<Rightarrow> bool" where
  "is_selected g i = (case getNode g i of None \<Rightarrow> False | Some n \<Rightarrow> n_selected n)"

definition is_hovered :: "graph \<Rightarrow> id \<Rightarrow> bool" where
  "is_hovered g i = (case getNode g i of None \<Rightarrow> False | Some n \<Rightarrow> truthy (prop_of (n_ext n) ''hovered''))"

definition unhover :: "gnode \<Rightarrow> gnode" where
  "unhover n = n\<lparr>n_ext := AList.delete ''hovered'' (n_ext n)\<rparr>"

definition ns_onClick :: "nstyles_config \<Rightarrow> id option \<Rightarrow> graph \<Rightarrow> nstyles \<Rightarrow> graph \<times> nstyles \<times> nscall list" where
  "ns_onClick cfg node g st =
     (case (node, nc_click cfg) of
        (Some i, Some styles) \<Rightarrow>
          if is_selected g i then
            (let (g, calls) = toggleStylesOn (nc_click cfg) i False g
             in (upd_node i (\<lambda>n. n\<lparr>n_selected := False\<rparr>) g, st, calls))
          else
            (let g = eachNode g (\<lambda>j. upd_node j (\<lambda>n. if n_selected n then (restore_end styles n)\<lparr>n_selected := False\<rparr> else n)) [];
                 (g, calls) = toggleStylesOn (nc_click cfg) i True g
             in (upd_node i (\<lambda>n. unhover (n\<lparr>n_selected := True\<rparr>)) g, st\<lparr>ns_hovered := None\<rparr>, calls))
      | _ \<Rightarrow> (g, st, []))"

definition ns_onMouseOut :: "nstyles_config \<Rightarrow> mouse \<Rightarrow> graph \<Rightarrow> nstyles \<Rightarrow> graph \<times> nstyles \<times> nscall list" where
  "ns_onMouseOut cfg m g st =
     (let st = st\<lparr>ns_down := None, ns_move := False\<rparr>
      in case ns_hovered st of
           None \<Rightarrow> (g, st, [])
         | Some h \<Rightarrow>
             (let (g, calls1) = (if nc_dom cfg \<and> ms_label m \<noteq> None then toggleStylesOn (nc_hover cfg) h False g else (g, []))
              in if stays_in (nc_widget cfg) (ms_related m) then (g, st, calls1)
                 else (let (g, calls2) = toggleStylesOn (nc_hover cfg) h False g
                       in (g, st\<lparr>ns_hovered := None\<rparr>, calls1 @ calls2))))"

definition ns_onMouseOver :: "nstyles_config \<Rightarrow> mouse \<Rightarrow> graph \<Rightarrow> nstyles \<Rightarrow> graph \<times> nstyles \<times> nscall list" where
  "ns_onMouseOver cfg m g st =
     (case (if nc_dom cfg then ms_label m else None) of
        None \<Rightarrow> (g, st, [])
      | Some i \<Rightarrow>
          if is_selected g i then (g, st, [])
          else (let (g, calls) = toggleStylesOn (nc_hover cfg) i True g in (g, st\<lparr>ns_hovered := Some i\<rparr>, calls)))"

definition ns_onMouseDown :: "nstyles_config \<Rightarrow> mouse \<Rightarrow> nstyles \<Rightarrow> nstyles" where
  "ns_onMouseDown cfg m st =
     (if ms_right m then st
      else (let st = (if nc_dom cfg then (if ms_label m \<noteq> None then st\<lparr>ns_down := ms_label m\<rparr> else st)
                      else st\<lparr>ns_down := ms_node m\<rparr>)
            in st\<lparr>ns_move := False\<rparr>))"

definition ns_onMouseUp :: "nstyles_config \<Rightarrow> mouse \<Rightarrow> graph \<Rightarrow> nstyles \<Rightarrow> graph \<times> nstyles \<times> nscall list" where
  "ns_onMouseUp cfg m g st =
     (if ms_right m then (g, st, [])
      else (let (g, st, calls) = (if \<not> ns_move st then ns_onClick cfg (ms_node m) g st else (g, st, []))
            in (g, st\<lparr>ns_down := None, ns_move := False\<rparr>, calls)))"

text \<open>The parameter \<open>still\<close> tells whether the hovered node contains the position of the event.\<close>

definition ns_onMouseMove :: "nstyles_config \<Rightarrow> (id \<Rightarrow> bool) \<Rightarrow> mouse \<Rightarrow> graph \<Rightarrow> nstyles \<Rightarrow> graph \<times> nstyles \<times> nscall list" where
  "ns_onMouseMove cfg still m g st =
     (let st = (if ns_down st \<noteq> None then st\<lparr>ns_move := True\<rparr> else st)
      in case nc_hover cfg of
           None \<Rightarrow> (g, st, [])
         | Some styles \<Rightarrow>
             if nc_dom cfg then (g, st, [])
             else if (case ns_hovered st of None \<Rightarrow> False | Some h \<Rightarrow> still h) then (g, st, [])
             else
               (case ms_node m of
                  Some i \<Rightarrow>
                    if is_hovered g i then (g, st, [])
                    else if \<not> is_selected g i then
                      (let g = eachNode g (\<lambda>j. upd_node j (\<lambda>n. if truthy (prop_of (n_ext n) ''hovered'') \<and> \<not> n_selected n
                                 then unhover (restore_end styles n) else n)) [];
                           g = upd_node i (\<lambda>n. n\<lparr>n_ext := AList.update ''hovered'' (JBool True) (n_ext n)\<rparr>) g;
                           (g, calls) = toggleStylesOn (nc_hover cfg) i True g
                       in (g, st\<lparr>ns_hovered := Some i\<rparr>, StopTimer # calls))
                    else
                      (case ns_hovered st of
                         Some h \<Rightarrow>
                           if is_selected g h then (g, st, [])
                           else (let (g, calls) = toggleStylesOn (nc_hover cfg) h False g
                                 in (upd_node h unhover g, st\<lparr>ns_hovered := None\<rparr>, StopTimer # calls))
                       | None \<Rightarrow> (g, st, []))
                | None \<Rightarrow>
                    (case ns_hovered st of
                       Some h \<Rightarrow>
                         if is_selected g h then (g, st, [])
                         else (let (g, calls) = toggleStylesOn (nc_hover cfg) h False g
                               in (upd_node h unhover g, st\<lparr>ns_hovered := None\<rparr>, StopTimer # calls))
                     | None \<Rightarrow> (g, st, []))))"

section \<open>Lemmas\<close>

lemma stays_in_set [simp]: "stays_in widget ps \<longleftrightarrow> widget \<in> set ps"
  by (induction ps) auto

lemma edge_scan_Some:
  "edge_scan test g hs es = Some r \<Longrightarrow> \<exists>j. (j, r) \<in> set es \<and> j \<notin> set hs \<and> test (g_adjs g ! r)"
  by (induction es) (auto split: if_splits)

lemma edge_scan_None:
  "edge_scan test g hs es = None \<longleftrightarrow> (\<forall>(j, r) \<in> set es. j \<in> set hs \<or> \<not> test (g_adjs g ! r))"
  by (induction es) (auto split: if_splits)

lemma edges_scan_Some:
  "edges_scan test g hs ees = Some r
   \<Longrightarrow> \<exists>i es j. (i, es) \<in> set ees \<and> (j, r) \<in> set es \<and> j \<noteq> i \<and> test (g_adjs g ! r)"
proof (induction ees arbitrary: hs)
  case (Cons ie ees)
  obtain i es where ie: "ie = (i, es)" by force
  show ?case
  proof (cases "edge_scan test g (i # hs) es")
    case None
    then have "edges_scan test g (i # hs) ees = Some r" using Cons.prems by (simp add: ie Let_def)
    from Cons.IH [OF this] show ?thesis by (metis list.set_intros(2))
  next
    case (Some q)
    then have "q = r" using Cons.prems by (simp add: ie Let_def)
    with edge_scan_Some [OF Some] show ?thesis unfolding ie by (metis list.set_intros(1))
  qed
qed simp

lemma edges_scan_None:
  assumes "edges_scan test g hs (xs @ (i, es) # ys) = None" "(j, r) \<in> set es" "j \<noteq> i" "j \<notin> set hs" "j \<notin> fst ` set xs"
  shows "\<not> test (g_adjs g ! r)"
  using assms
proof (induction xs arbitrary: hs)
  case Nil
  then show ?case by (auto simp: edge_scan_None Let_def split: option.splits)
next
  case (Cons ie xs)
  obtain k ks where ie: "ie = (k, ks)" by force
  have "edges_scan test g (k # hs) (xs @ (i, es) # ys) = None"
    using Cons.prems(1) by (simp add: ie Let_def split: option.splits)
  then show ?case using Cons.IH Cons.prems(2-5) by (simp add: ie)
qed

lemma map_of_edges: "wf_graph g \<Longrightarrow> (i, es) \<in> set (g_edges g) \<Longrightarrow> adjacencies g i = es"
  by (simp add: adjacencies_def wf_graph_def)

text \<open>Of two different nodes one is listed first.\<close>

lemma listed_first:
  assumes "distinct (map fst ees)" "(a, es) \<in> set ees" "(b, fs) \<in> set ees" "a \<noteq> b"
  shows "(\<exists>xs ys. ees = xs @ (a, es) # ys \<and> b \<notin> fst ` set xs) \<or> (\<exists>xs ys. ees = xs @ (b, fs) # ys \<and> a \<notin> fst ` set xs)"
  using assms
proof (induction ees)
  case (Cons e ees)
  show ?case
  proof (cases "e = (a, es) \<or> e = (b, fs)")
    case True
    then show ?thesis by (metis append_Nil empty_iff image_empty list.set(1))
  next
    case False
    then have "fst e \<noteq> a" "fst e \<noteq> b" using Cons.prems by (auto intro: rev_image_eqI)
    moreover have "(\<exists>xs ys. ees = xs @ (a, es) # ys \<and> b \<notin> fst ` set xs) \<or> (\<exists>xs ys. ees = xs @ (b, fs) # ys \<and> a \<notin> fst ` set xs)"
      using Cons False by auto
    ultimately show ?thesis
      by (elim disjE exE conjE) (metis (no_types, lifting) append_Cons image_insert insertE list.set(2))+
  qed
qed simp

lemma is_selected_upd:
  "is_selected (upd_node i f g) j = (case getNode g j of None \<Rightarrow> False | Some n \<Rightarrow> n_selected (if j = i then f n else n))"
  by (cases "getNode g j") (simp_all add: is_selected_def)

lemma save_styles_selected [simp]: "n_selected (save_styles g ss n) = n_selected n"
  by (simp add: save_styles_def Let_def)

lemma toggle_selected: "is_selected (fst (toggleStylesOn ss i on g)) j = is_selected g j"
  by (cases "getNode g j")
    (simp_all add: toggleStylesOn_def is_selected_upd is_selected_def split: option.splits)

section \<open>Properties\<close>

text \<open>
  Looking for the edge under the mouse, which tests each edge only under the end that is
  listed first, finds one exactly if some edge between two different nodes contains the
  position, and finds only such edges; a loop from a node to itself is never found.
\<close>

lemma event_getEdge_iff:
  assumes "wf_graph g"
  shows "((event_getEdge contains g pos \<noteq> None)
      = (\<exists>a b r. a \<noteq> b \<and> getAdjacence g a b = Some r \<and> contains (g_adjs g ! r) pos))
    \<and> (\<forall>r. event_getEdge contains g pos = Some r \<longrightarrow> contains (g_adjs g ! r) pos)"
proof -
  let ?t = "\<lambda>a. contains a pos"
  have found: "\<exists>a b. a \<noteq> b \<and> getAdjacence g a b = Some r \<and> contains (g_adjs g ! r) pos"
    if some: "event_getEdge contains g pos = Some r" for r
  proof -
    obtain i es j where e: "(i, es) \<in> set (g_edges g)" "(j, r) \<in> set es" "j \<noteq> i" "contains (g_adjs g ! r) pos"
      using edges_scan_Some [of ?t g "[]" "g_edges g" r] some by (auto simp: event_getEdge_def)
    then have es: "adjacencies g i = es" using map_of_edges [OF assms] by blast
    have "distinct (map fst (adjacencies g i))" using assms by (simp add: wf_graph_iff)
    then have "getAdjacence g i j = Some r" using e(2) by (simp add: getAdjacence_def es)
    then show ?thesis using e(3,4) by metis
  qed
  have missed: "\<not> contains (g_adjs g ! r) pos"
    if none: "event_getEdge contains g pos = None" and ab: "a \<noteq> b" "getAdjacence g a b = Some r" for a b r
  proof -
    have ba: "getAdjacence g b a = Some r" using ab(2) wf_adj_sym [OF assms] by metis
    have entry: "(x, adjacencies g x) \<in> set (g_edges g)" if "getAdjacence g x y = Some r" for x y
      using that by (auto simp: adjacencies_def getAdjacence_def split: option.splits dest: map_of_SomeD)
    have dist: "distinct (map fst (g_edges g))" using assms by (simp add: wf_graph_def)
    consider (a) xs ys where "g_edges g = xs @ (a, adjacencies g a) # ys" "b \<notin> fst ` set xs"
      | (b) xs ys where "g_edges g = xs @ (b, adjacencies g b) # ys" "a \<notin> fst ` set xs"
      using listed_first [OF dist entry [OF ab(2)] entry [OF ba] ab(1)] by blast
    then show ?thesis
    proof cases
      case a
      have "(b, r) \<in> set (adjacencies g a)" using ab(2) by (simp add: getAdjacence_def map_of_SomeD)
      then show ?thesis
        using edges_scan_None [of ?t g "[]" xs a "adjacencies g a" ys b r] none a ab(1) by (simp add: event_getEdge_def)
    next
      case b
      have "(a, r) \<in> set (adjacencies g b)" using ba by (simp add: getAdjacence_def map_of_SomeD)
      then show ?thesis
        using edges_scan_None [of ?t g "[]" xs b "adjacencies g b" ys a r] none b ab(1) by (simp add: event_getEdge_def)
    qed
  qed
  have "(event_getEdge contains g pos \<noteq> None)
      = (\<exists>a b r. a \<noteq> b \<and> getAdjacence g a b = Some r \<and> contains (g_adjs g ! r) pos)"
    using found missed by (cases "event_getEdge contains g pos") blast+
  then show ?thesis using found by blast
qed

text \<open>
  While panning, the point of the graph that was under the mouse when the last position was
  taken is under the mouse after the move: a point \<open>w\<close> drawn at the saved position is drawn at
  the current position of the mouse (both relative to the centre of the widget), and that
  position is saved for the next move.
\<close>

lemma panning_follows_mouse:
  assumes "view_ok c" and "panning \<noteq> NoPanning" and "nav_pressed st"
    and "panning = AvoidNodes \<Longrightarrow> ms_node m = None"
    and "nav_pos st = Some (mkC (cv_ox c + cv_sx c * c_x w) (cv_oy c + cv_sy c * c_y w))"
    and "cur = mkC (c_x (ms_pos m) * cv_sx c + cv_ox c) (c_y (ms_pos m) * cv_sy c + cv_oy c)"
    and "nav_onMouseMove panning m c st = (c', st')"
  shows "cur = mkC (cv_ox c' + cv_sx c' * c_x w) (cv_oy c' + cv_sy c' * c_y w)
    \<and> nav_pos st' = Some cur \<and> view_ok c'"
proof -
  have nz: "cv_sx c \<noteq> 0" "cv_sy c \<noteq> 0" using assms(1) by (simp_all add: view_ok_def)
  have move: "\<not> (panning = NoPanning \<or> \<not> nav_pressed st \<or> panning = AvoidNodes \<and> ms_node m \<noteq> None)"
    using assms(2-4) by blast
  have c': "c' = canvas_translate ((c_x cur - (cv_ox c + cv_sx c * c_x w)) * 1 / cv_sx c)
        ((c_y cur - (cv_oy c + cv_sy c * c_y w)) * 1 / cv_sy c) False c" "st' = st\<lparr>nav_pos := Some cur\<rparr>"
    using assms(7) unfolding nav_onMouseMove_def if_not_P [OF move] assms(5) by (simp_all add: assms(6) Let_def)
  have "view_ok c'" unfolding c'(1) by (rule canvas_translate_ok [OF assms(1)])
  then show ?thesis using nz c' by (simp add: canvas_translate_def)
qed

text \<open>
  With styles for clicked nodes, clicking a node that is not selected selects it and no
  other node; clicking the selected node unselects it and leaves the others as they are.
\<close>

lemma ns_onClick_selects:
  assumes "nc_click cfg = Some styles" and "hasNode g i" and "distinct (map fst (g_nodes g))"
    and "ns_onClick cfg (Some i) g st = (h, st', calls)"
  shows "is_selected h j = (if is_selected g i then j \<noteq> i \<and> is_selected g j else j = i)"
proof (cases "is_selected g i")
  case True
  then have h: "h = upd_node i (\<lambda>n. n\<lparr>n_selected := False\<rparr>) (fst (toggleStylesOn (nc_click cfg) i False g))"
    using assms(1,4) by (auto simp: ns_onClick_def split: prod.splits)
  have "is_selected h j = (j \<noteq> i \<and> is_selected (fst (toggleStylesOn (nc_click cfg) i False g)) j)"
    by (cases "getNode (fst (toggleStylesOn (nc_click cfg) i False g)) j")
      (auto simp: h is_selected_upd is_selected_def)
  then show ?thesis using True by (simp add: toggle_selected)
next
  case False
  let ?f = "\<lambda>n. if n_selected n then (restore_end styles n)\<lparr>n_selected := False\<rparr> else n"
  let ?g1 = "eachNode g (\<lambda>j. upd_node j ?f) []"
  have none: "is_selected ?g1 j = False"
    by (cases "getNode g j") (simp_all add: is_selected_def getNode_eachNode_upd [OF assms(3)])
  have has: "hasNode (fst (toggleStylesOn (nc_click cfg) i True ?g1)) i"
    using assms(1,2) getNode_eachNode_upd [OF assms(3)]
    by (auto simp: toggleStylesOn_def hasNode_getNode split: option.splits)
  have "h = upd_node i (\<lambda>n. unhover (n\<lparr>n_selected := True\<rparr>)) (fst (toggleStylesOn (nc_click cfg) i True ?g1))"
    using False assms(1,4) by (auto simp: ns_onClick_def split: prod.splits)
  then have "is_selected h j = (j = i \<or> is_selected (fst (toggleStylesOn (nc_click cfg) i True ?g1)) j)"
    using has by (auto simp: is_selected_upd unhover_def hasNode_getNode is_selected_def split: option.splits)
  then show ?thesis using False none by (simp add: toggle_selected)
qed

end
