(* ===== verification/Jit_Shapes.thy ===== *)
theory Jit_Shapes
  imports Jit_Radial Jit_Canvas
begin

text \<open>
  The node and edge types of the visualizations and their labels (\<^verbatim>\<open>rfweb/js/jit/jit.js\<close>,
  \<^verbatim>\<open>RGraph.Plot.NodeTypes\<close>, \<^verbatim>\<open>RGraph.Plot.EdgeTypes\<close>, \<^verbatim>\<open>Hypertree.Plot.NodeTypes\<close>,
  \<^verbatim>\<open>Hypertree.Plot.EdgeTypes\<close> and \<^verbatim>\<open>Graph.Label\<close>): what each type draws for a node or an
  adjacence and which positions it contains, and where labels are placed. A type that is not
  registered has neither (\<open>None\<close>). The lemmas show that a node is found at its own position,
  that a label is placed where its node is drawn, and which labels remain after clearing.
\<close>

section \<open>Types of the radial graph\<close>

definition num_data :: "graph \<Rightarrow> gnode \<Rightarrow> string \<Rightarrow> real" where
  "num_data g n prop = num_of (node_data g n prop [])"

definition rgraph_node_render :: "graph \<Rightarrow> string \<Rightarrow> gnode \<Rightarrow> ctx_cmd list option" where
  "rgraph_node_render g type n =
     (let pos = getc (n_pos n); dimen = num_data g n ''dim'';
          width = num_data g n ''width''; height = num_data g n ''height''
      in if type = ''none'' then Some none_render
         else if type = ''circle'' then Some (circle_render ''fill'' pos dimen)
         else if type = ''ellipse'' then Some (ellipse_render ''fill'' pos width height)
         else if type = ''square'' then Some (square_render ''fill'' pos dimen)
         else if type = ''rectangle'' then Some (rectangle_render ''fill'' pos width height)
         else if type = ''triangle'' then Some (triangle_render ''fill'' pos dimen)
         else if type = ''star'' then Some (star_render ''fill'' pos dimen)
         else None)"

definition rgraph_node_contains :: "graph \<Rightarrow> string \<Rightarrow> gnode \<Rightarrow> cpx \<Rightarrow> bool option" where
  "rgraph_node_contains g type n pos =
     (let npos = getc (n_pos n); dimen = num_data g n ''dim'';
          width = num_data g n ''width''; height = num_data g n ''height''
      in if type = ''none'' then Some False
         else if type = ''circle'' then Some (circle_contains npos pos dimen)
         else if type = ''ellipse'' then Some (ellipse_contains npos pos width height)
         else if type = ''square'' then Some (square_contains npos pos dimen)
         else if type = ''rectangle'' then Some (rectangle_contains npos pos width height)
         else if type = ''triangle'' then Some (triangle_contains npos pos dimen)
         else if type = ''star'' then Some (star_contains npos pos dimen)
         else None)"

text \<open>The value of a property of an adjacence.\<close>

definition adj_data_of :: "graph \<Rightarrow> adjacence \<Rightarrow> string \<Rightarrow> jsval" where
  "adj_data_of g a prop = (case getData (g_Edge g) (a_store a) prop [] False of None \<Rightarrow> JUndefined | Some v \<Rightarrow> v)"

definition end_pos :: "graph \<Rightarrow> id \<Rightarrow> cpx" where
  "end_pos g i = (case getNode g i of None \<Rightarrow> mkC 0 0 | Some n \<Rightarrow> getc (n_pos n))"

text \<open>Whether an arrow points against the direction of its adjacence.\<close>

definition arrow_inverted :: "adjacence \<Rightarrow> bool" where
  "arrow_inverted a =
     (case prop_of (ds_data (a_store a)) ''$direction'' of
        JArr (d # e # ds) \<Rightarrow> d \<noteq> JStr (a_nodeFrom a)
      | JStr (d # e # ds) \<Rightarrow> [d] \<noteq> a_nodeFrom a
      | _ \<Rightarrow> False)"

definition rgraph_edge_render :: "graph \<Rightarrow> string \<Rightarrow> adjacence \<Rightarrow> ctx_cmd list option" where
  "rgraph_edge_render g type a =
     (let from = end_pos g (a_nodeFrom a); to = end_pos g (a_nodeTo a)
      in if type = ''none'' then Some []
         else if type = ''line'' then Some (line_render from to)
         else if type = ''arrow'' then
           Some (arrow_render from to (num_of (adj_data_of g a ''dim'')) (arrow_inverted a))
         else None)"

definition rgraph_edge_contains :: "graph \<Rightarrow> real \<Rightarrow> string \<Rightarrow> adjacence \<Rightarrow> cpx \<Rightarrow> bool option" where
  "rgraph_edge_contains g epsilon type a pos =
     (let from = end_pos g (a_nodeFrom a); to = end_pos g (a_nodeTo a)
      in if type = ''line'' then Some (line_contains from to pos epsilon)
         else if type = ''arrow'' then Some (arrow_contains from to pos epsilon)
         else None)"

section \<open>Types of the hyperbolic tree\<close>

definition node_scale :: "gnode \<Rightarrow> real" where
  "node_scale n = num_of (prop_of (n_ext n) ''scale'')"

definition hyper_shrink :: "bool \<Rightarrow> cpx \<Rightarrow> real \<Rightarrow> real" where
  "hyper_shrink transform p d = (if transform then d * (1 - squaredNorm p) else d)"

definition hyper_node_render :: "graph \<Rightarrow> bool \<Rightarrow> string \<Rightarrow> gnode \<Rightarrow> ctx_cmd list option" where
  "hyper_node_render g transform type n =
     (let p = getc (n_pos n);
          dimen = hyper_shrink transform p (num_data g n ''dim'');
          width = num_data g n ''width''; height = num_data g n ''height'';
          q = complex_m_scale p (node_scale n);
          w = hyper_shrink transform p width; h = hyper_shrink transform p height;
          big = dimen > 1 / 5
      in if type = ''none'' then Some none_render
         else if type = ''circle'' then Some (if big then circle_render ''fill'' q dimen else [])
         else if type = ''ellipse'' then Some (ellipse_render ''fill'' q width height)
         else if type = ''square'' then Some (if big then square_render ''fill'' q dimen else [])
         else if type = ''rectangle'' then
           Some (if w > 1 / 5 \<and> h > 1 / 5 then rectangle_render ''fill'' q w h else [])
         else if type = ''triangle'' then Some (if big then triangle_render ''fill'' q dimen else [])
         else if type = ''star'' then Some (if big then star_render ''fill'' q dimen else [])
         else None)"

text \<open>
  The tests of ellipses and rectangles call those of circles and squares, which take the width
  for a radius and drop the height.
\<close>

definition hyper_node_contains :: "graph \<Rightarrow> string \<Rightarrow> gnode \<Rightarrow> cpx \<Rightarrow> bool option" where
  "hyper_node_contains g type n pos =
     (let npos = complex_m_scale (getc (n_pos n)) (node_scale n); dimen = num_data g n ''dim'';
          width = num_data g n ''width''
      in if type = ''none'' then Some False
         else if type = ''circle'' then Some (circle_contains npos pos dimen)
         else if type = ''ellipse'' then Some (circle_contains npos pos width)
         else if type = ''square'' then Some (square_contains npos pos dimen)
         else if type = ''rectangle'' then Some (square_contains npos pos width)
         else if type = ''triangle'' then Some (triangle_contains npos pos dimen)
         else if type = ''star'' then Some (star_contains npos pos dimen)
         else None)"

definition end_scale :: "graph \<Rightarrow> id \<Rightarrow> real" where
  "end_scale g i = (case getNode g i of None \<Rightarrow> 0 | Some n \<Rightarrow> node_scale n)"

definition hyper_edge_render :: "graph \<Rightarrow> real \<Rightarrow> string \<Rightarrow> adjacence \<Rightarrow> ctx_cmd list option" where
  "hyper_edge_render g radius type a =
     (let from = end_pos g (a_nodeFrom a); to = end_pos g (a_nodeTo a); r = end_scale g (a_nodeFrom a);
          sfrom = mkC (c_x from * r) (c_y from * r); sto = mkC (c_x to * r) (c_y to * r)
      in if type = ''none'' then Some []
         else if type = ''line'' then Some (line_render sfrom sto)
         else if type = ''arrow'' then
           Some (arrow_render sfrom sto (num_of (adj_data_of g a ''dim'')) (arrow_inverted a))
         else if type = ''hyperline'' then Some (hyperline_render from to radius)
         else None)"

text \<open>The tests of lines and arrows do not return their result.\<close>

definition hyper_edge_contains :: "string \<Rightarrow> jsval option" where
  "hyper_edge_contains type =
     (if type = ''line'' then Some JUndefined
      else if type = ''arrow'' then Some JUndefined
      else if type = ''hyperline'' then Some (JBool False)
      else None)"

section \<open>Labels\<close>

definition label_plotLabel :: "graph \<Rightarrow> (string \<Rightarrow> jsval) \<Rightarrow> gnode \<Rightarrow> ctx_cmd list" where
  "label_plotLabel g getLabel n =
     (let pos = getc (n_pos n); color = getLabel ''color''
      in [SetProp ''font'' (JStr (to_str (getLabel ''style'') @ '' '' @ to_str (getLabel ''size'') @ ''px '' @ to_str (getLabel ''family''))),
          SetProp ''textAlign'' (getLabel ''textAlign''),
          SetProp ''strokeStyle'' color, SetProp ''fillStyle'' color,
          SetProp ''textBaseline'' (getLabel ''textBaseline''),
          FillText (n_name n) (c_x pos) (c_y pos + num_data g n ''height'' / 2)])"

definition fitsInCanvas :: "int \<times> int \<Rightarrow> real \<times> real \<Rightarrow> bool" where
  "fitsInCanvas pos csize =
     (if of_int (fst pos) \<ge> fst csize \<or> fst pos < 0 \<or> of_int (snd pos) \<ge> snd csize \<or> snd pos < 0 then False else True)"

text \<open>The position of a label, and for labels that are elements whether it is shown.\<close>

definition rgraph_placeLabel :: "canvas \<Rightarrow> gnode \<Rightarrow> int \<times> int" where
  "rgraph_placeLabel c n =
     (let pos = getc (n_pos n); radius = canvas_getSize c
      in (js_round (c_x pos * cv_sx c + cv_ox c + fst radius / 2),
          js_round (c_y pos * cv_sy c + cv_oy c + snd radius / 2)))"

definition rgraph_html_placeLabel :: "canvas \<Rightarrow> gnode \<Rightarrow> (int \<times> int) \<times> bool" where
  "rgraph_html_placeLabel c n =
     (let labelPos = rgraph_placeLabel c n in (labelPos, fitsInCanvas labelPos (canvas_getSize c)))"

definition hyper_placeLabel :: "canvas \<Rightarrow> real \<Rightarrow> gnode \<Rightarrow> int \<times> int" where
  "hyper_placeLabel c r n =
     (let pos = getc (n_pos n); radius = canvas_getSize c
      in (js_round ((c_x pos * cv_sx c) * r + cv_ox c + fst radius / 2),
          js_round ((c_y pos * cv_sy c) * r + cv_oy c + snd radius / 2)))"

definition hyper_html_placeLabel :: "canvas \<Rightarrow> real \<Rightarrow> gnode \<Rightarrow> (int \<times> int) \<times> bool" where
  "hyper_html_placeLabel c r n =
     (let labelPos = hyper_placeLabel c r n in (labelPos, fitsInCanvas labelPos (canvas_getSize c)))"

text \<open>
  Labels that are elements: the elements of the document by identifier, which of them are
  hidden, and the cache of the label class, where an element that was not found is null.
\<close>

record label_dom =
  ld_labels :: "nat option obj"
  ld_document :: "nat obj"
  ld_hidden :: "nat list"
  ld_labelsHidden :: bool
  ld_next :: nat

definition getLabel :: "id \<Rightarrow> label_dom \<Rightarrow> nat option \<times> label_dom" where
  "getLabel i d =
     (case map_of (ld_labels d) i of
        Some (Some e) \<Rightarrow> (Some e, d)
      | _ \<Rightarrow> (let e = map_of (ld_document d) i in (e, d\<lparr>ld_labels := AList.update i e (ld_labels d)\<rparr>)))"

definition hideLabels :: "bool \<Rightarrow> label_dom \<Rightarrow> label_dom" where
  "hideLabels hide d = d\<lparr>ld_labelsHidden := hide\<rparr>"

definition disposeLabel :: "id \<Rightarrow> label_dom \<Rightarrow> label_dom" where
  "disposeLabel i d =
     (let (elem, d) = getLabel i d
      in case elem of
           None \<Rightarrow> d
         | Some e \<Rightarrow> d\<lparr>ld_document := filter (\<lambda>(k, f). f \<noteq> e) (ld_document d)\<rparr>)"

definition clearLabels :: "graph \<Rightarrow> bool \<Rightarrow> label_dom \<Rightarrow> label_dom" where
  "clearLabels g force d =
     fold (\<lambda>i d. if force \<or> \<not> hasNode g i
             then (let d = disposeLabel i d in d\<lparr>ld_labels := AList.delete i (ld_labels d)\<rparr>)
             else d) (map fst (ld_labels d)) d"

definition hideLabel :: "id list \<Rightarrow> bool \<Rightarrow> label_dom \<Rightarrow> label_dom" where
  "hideLabel nodes show_it d =
     fold (\<lambda>i d. let (lab, d) = getLabel i d
             in case lab of
                  None \<Rightarrow> d
                | Some e \<Rightarrow> d\<lparr>ld_hidden := (if show_it then removeAll e (ld_hidden d) else e # removeAll e (ld_hidden d))\<rparr>)
       nodes d"

text \<open>Plotting a label creates its element at the first time.\<close>

definition html_plotLabel :: "id \<Rightarrow> label_dom \<Rightarrow> nat \<times> label_dom" where
  "html_plotLabel i d =
     (let (tag, d) = getLabel i d
      in case tag of
           Some e \<Rightarrow> (e, d)
         | None \<Rightarrow>
             (case map_of (ld_document d) i of
                Some e \<Rightarrow> (e, d)
              | None \<Rightarrow>
                  (let e = ld_next d
                   in (e, d\<lparr>ld_next := e + 1, ld_document := AList.update i e (ld_document d),
                            ld_labels := AList.update i (Some e) (ld_labels d)\<rparr>))))"

section \<open>Lemmas\<close>

lemma rgraph_contains_centre:
  assumes "type \<in> {''circle'', ''ellipse'', ''square'', ''rectangle'', ''triangle'', ''star''}"
    and "0 \<le> num_data g n ''dim''" "0 \<le> num_data g n ''width''" "0 \<le> num_data g n ''height''"
  shows "rgraph_node_contains g type n (getc (n_pos n)) = Some True"
  using assms
  by (auto simp: rgraph_node_contains_def Let_def circle_contains_def ellipse_contains_def square_contains_def
      rectangle_contains_def triangle_contains_def star_contains_def)

lemma label_at_node:
  assumes "view_ok c"
  shows "rgraph_placeLabel c n
    = (js_round (fst (to_screen (hd (cv_bases c)) (getc (n_pos n)))), js_round (snd (to_screen (hd (cv_bases c)) (getc (n_pos n)))))"
proof -
  have ok: "base_ok (cv_ox c) (cv_oy c) (cv_sx c) (cv_sy c) (hd (cv_bases c))"
    using assms by (auto simp: view_ok_def list_all_iff)
  have "canvas_getSize c = (b_width (hd (cv_bases c)), b_height (hd (cv_bases c)))"
    using base_getSize_ok(1) [OF ok] by (simp add: canvas_getSize_def)
  then show ?thesis by (simp add: rgraph_placeLabel_def to_screen_ok [OF ok] algebra_simps Let_def)
qed

lemma clear_labels_rest:
  "map_of (ld_labels (clearLabels g force d)) i
   = (if force \<or> \<not> hasNode g i then None else map_of (ld_labels d) i)"
proof -
  let ?step = "\<lambda>i d. if force \<or> \<not> hasNode g i
      then (let d = disposeLabel i d in d\<lparr>ld_labels := AList.delete i (ld_labels d)\<rparr>) else d"
  have dispose: "j \<noteq> i \<Longrightarrow> map_of (ld_labels (disposeLabel i d)) j = map_of (ld_labels d) j" for i j d
    by (auto simp: disposeLabel_def getLabel_def Let_def AList.update_conv' split: option.splits prod.splits)
  have "map_of (ld_labels (fold ?step is d)) i
      = (if i \<in> set is \<and> (force \<or> \<not> hasNode g i) then None else map_of (ld_labels d) i)" for "is" d
    by (induction "is" arbitrary: d) (auto simp: Let_def dispose AList.delete_conv')
  moreover have "i \<notin> set (map fst (ld_labels d)) \<Longrightarrow> map_of (ld_labels d) i = None"
    by (simp add: map_of_eq_None_iff)
  ultimately show ?thesis unfolding clearLabels_def by auto
qed

end
