(* ===== verification/Jit_Boxes.thy ===== *)
theory Jit_Boxes
  imports Jit_Sectors "HOL-Library.Disjoint_Sets"
begin

text \<open>
  What the space filling layouts of the library (treemaps and icicles) share: a node is drawn
  as a rectangle, given by its position and its data \<^verbatim>\<open>width\<close> and \<^verbatim>\<open>height\<close>, each of them kept
  for the current, the start and the end state of an animation. The meaning of a rectangle is
  its set of points, with its left and top sides and without its right and bottom ones, so
  that rectangles side by side have no point in common.
\<close>

named_theorems box_simps \<open>reading the boxes of nodes after an update\<close>

section \<open>Rectangles\<close>

text \<open>The coordinates object of the layouts.\<close>

record coords =
  co_top :: real
  co_left :: real
  co_width :: real
  co_height :: real

definition cells :: "coords \<Rightarrow> (real \<times> real) set" where
  "cells c = {(x, y). co_left c \<le> x \<and> x < co_left c + co_width c \<and> co_top c \<le> y \<and> y < co_top c + co_height c}"

definition coords_area :: "coords \<Rightarrow> real" where
  "coords_area c = co_width c * co_height c"

section \<open>The box of a node\<close>

text \<open>\<^verbatim>\<open>node.getPos(type).setc(x, y)\<close>.\<close>

definition node_setc :: "real \<Rightarrow> real \<Rightarrow> string \<Rightarrow> gnode \<Rightarrow> gnode" where
  "node_setc x y type n =
     (let type = type_or_current type
      in if type = ''current'' then n\<lparr>n_pos := setc (n_pos n) x y\<rparr>
         else if type = ''end'' then n\<lparr>n_endPos := setc (n_endPos n) x y\<rparr>
         else if type = ''start'' then n\<lparr>n_startPos := setc (n_startPos n) x y\<rparr>
         else n)"

text \<open>Placing a node: its position, then its width and its height.\<close>

definition set_size :: "string \<Rightarrow> real \<Rightarrow> real \<Rightarrow> gnode \<Rightarrow> gnode" where
  "set_size prop w h n = set_node_data ''height'' (JNum h) prop (set_node_data ''width'' (JNum w) prop n)"

definition place_box :: "string \<Rightarrow> id \<Rightarrow> real \<Rightarrow> real \<Rightarrow> real \<Rightarrow> real \<Rightarrow> graph \<Rightarrow> graph" where
  "place_box prop i x y w h g = upd_node i (\<lambda>n. set_size prop w h (node_setc x y prop n)) g"

text \<open>Reading a number of the data of a node, and its position.\<close>

definition node_num :: "graph \<Rightarrow> string \<Rightarrow> string \<Rightarrow> id \<Rightarrow> real" where
  "node_num g prop key i =
     num_of (case getNode g i of None \<Rightarrow> JUndefined | Some n \<Rightarrow> node_data g n key prop)"

definition node_xy :: "graph \<Rightarrow> string \<Rightarrow> id \<Rightarrow> cpx" where
  "node_xy g prop i =
     (case getNode g i of
        None \<Rightarrow> Complex_KER
      | Some n \<Rightarrow> (case node_getPos n prop of None \<Rightarrow> Complex_KER | Some p \<Rightarrow> getc p))"

definition box_of :: "graph \<Rightarrow> string \<Rightarrow> id \<Rightarrow> coords" where
  "box_of g prop i =
     \<lparr>co_top = c_y (node_xy g prop i), co_left = c_x (node_xy g prop i),
      co_width = node_num g prop ''width'' i, co_height = node_num g prop ''height'' i\<rparr>"

text \<open>
  The boxes of a group of nodes tile a set of points: every point of the set is in the box of
  exactly one of them, and no box reaches out of the set.
\<close>

definition tiles :: "graph \<Rightarrow> string \<Rightarrow> id set \<Rightarrow> (real \<times> real) set \<Rightarrow> bool" where
  "tiles g prop A S \<longleftrightarrow>
     (\<Union>i \<in> A. cells (box_of g prop i)) = S \<and> disjoint_family_on (\<lambda>i. cells (box_of g prop i)) A"

section \<open>Reading back a box\<close>

text \<open>The configuration lets the data of a node override it, and the type is one of the three.\<close>

definition box_graph :: "graph \<Rightarrow> string \<Rightarrow> bool" where
  "box_graph g prop \<longleftrightarrow>
     truthy (prop_of (g_Node g) ''overridable'') \<and> prop \<in> {''current'', ''start'', ''end''}"

lemma data_key_inj [simp]: "data_key [] k = data_key [] j \<longleftrightarrow> k = j"
  by (simp add: data_key_def)

lemma node_data_other:
  assumes "k \<noteq> j"
  shows "node_data g (set_node_data k v t n) j u = node_data g n j u"
  using assms
  by (auto simp: node_data_def set_node_data_def getData_def setData_def getDataInternal_def setDataInternal_def
      data_of_type_def Let_def prop_of_update)

lemma node_data_same:
  assumes "box_graph g t"
  shows "node_data g (set_node_data k v t n) k t = v"
  using assms getData_setData [of "g_Node g" t "n_store n" k v "[]"]
  by (auto simp: box_graph_def node_data_def set_node_data_def split: option.splits)

lemma node_data_setc [box_simps]: "node_data g (node_setc x y t n) k u = node_data g n k u"
  by (simp add: node_data_def node_setc_def Let_def)

lemma node_setc_getPos:
  assumes "t \<in> {''current'', ''start'', ''end''}"
  shows "map_option getc (node_getPos (node_setc x y t n) t) = Some (mkC x y)"
  using assms by (auto simp: node_getPos_def node_setc_def type_or_current_def Let_def node_position.getc_setc)

lemma set_size_getPos [box_simps]: "node_getPos (set_size t w h n) u = node_getPos n u"
  by (simp add: set_size_def)

lemma set_size_data:
  assumes "box_graph g t"
  shows "node_data g (set_size t w h n) k t
    = (if k = ''height'' then JNum h else if k = ''width'' then JNum w else node_data g n k t)"
  using assms by (simp add: set_size_def node_data_other node_data_same)

lemma set_size_data_other [box_simps]:
  "k \<noteq> ''width'' \<Longrightarrow> k \<noteq> ''height'' \<Longrightarrow> node_data g (set_size t w h n) k u = node_data g n k u"
  by (simp add: set_size_def node_data_other)

lemma node_data_config: "g_Node h = g_Node g \<Longrightarrow> node_data h n k u = node_data g n k u"
  by (simp add: node_data_def)

lemma upd_node_config [simp]: "g_Node (upd_node i f g) = g_Node g" "box_graph (upd_node i f g) = box_graph g"
  by (simp_all add: upd_node_def box_graph_def fun_eq_iff)

lemma box_of_place [box_simps]:
  assumes "box_graph g prop" "hasNode g i"
  shows "box_of (place_box prop i x y w h g) prop j
    = (if j = i then \<lparr>co_top = y, co_left = x, co_width = w, co_height = h\<rparr> else box_of g prop j)"
proof -
  obtain n where n: "getNode g i = Some n" using assms(2) by (auto simp: hasNode_getNode)
  have "map_option getc (node_getPos (node_setc x y prop n) prop) = Some (mkC x y)"
    using assms(1) by (intro node_setc_getPos) (simp add: box_graph_def)
  then obtain p where "node_getPos (node_setc x y prop n) prop = Some p" "getc p = mkC x y" by auto
  then show ?thesis
    using n by (cases "j = i"; cases "getNode g j") (simp_all add: place_box_def box_of_def node_xy_def node_num_def
        box_simps node_data_config [of "upd_node i _ g" g] set_size_data [OF assms(1)])
qed

lemma box_of_cong: "getNode h i = getNode g i \<Longrightarrow> g_Node h = g_Node g \<Longrightarrow> box_of h prop i = box_of g prop i"
  by (simp add: box_of_def node_xy_def node_num_def node_data_config [of h g] cong: option.case_cong)

section \<open>Updates of boxes\<close>

text \<open>
  What a layout changes: the boxes of some nodes and the adjacencies it turns around, and
  nothing else of the graph; a property other than width and height is kept.
\<close>

definition moves :: "graph \<Rightarrow> id set \<Rightarrow> graph \<Rightarrow> bool" where
  "moves g A h \<longleftrightarrow> kept g h \<and> g_Node h = g_Node g \<and> (\<forall>j. j \<notin> A \<longrightarrow> getNode h j = getNode g j)
     \<and> (\<forall>p k j. k \<noteq> ''width'' \<longrightarrow> k \<noteq> ''height'' \<longrightarrow> node_num h p k j = node_num g p k j)"

lemma movesD:
  assumes "moves g A h"
  shows "kept g h" "g_Node h = g_Node g" "j \<notin> A \<Longrightarrow> getNode h j = getNode g j"
    "j \<notin> A \<Longrightarrow> box_of h prop j = box_of g prop j" "box_graph h prop = box_graph g prop"
    "hasNode h j = hasNode g j" "k \<noteq> ''width'' \<Longrightarrow> k \<noteq> ''height'' \<Longrightarrow> node_num h p k j = node_num g p k j"
proof -
  show k: "kept g h" and c: "g_Node h = g_Node g" and n: "j \<notin> A \<Longrightarrow> getNode h j = getNode g j"
    and "k \<noteq> ''width'' \<Longrightarrow> k \<noteq> ''height'' \<Longrightarrow> node_num h p k j = node_num g p k j"
    using assms unfolding moves_def by blast+
  show "hasNode h j = hasNode g j" by (rule kept_lookups(3) [OF k])
  show "box_graph h prop = box_graph g prop" by (simp add: box_graph_def c)
  show "j \<notin> A \<Longrightarrow> box_of h prop j = box_of g prop j" using n c by (rule box_of_cong)
qed

lemma moves_refl [simp]: "moves g A g"
  by (simp add: moves_def)

lemma moves_trans:
  assumes "moves g A h" "moves h B k" "A \<subseteq> C" "B \<subseteq> C"
  shows "moves g C k"
  unfolding moves_def
proof (intro conjI allI impI)
  show "kept g k" using kept_trans [OF movesD(1) movesD(1)] assms by blast
  show "g_Node k = g_Node g" using movesD(2) assms by metis
  show "getNode k j = getNode g j" if "j \<notin> C" for j
    using that assms(3,4) movesD(3) [OF assms(1), of j] movesD(3) [OF assms(2), of j] by (metis subsetD)
  show "node_num k p q j = node_num g p q j" if "q \<noteq> ''width''" "q \<noteq> ''height''" for p q j
    using that movesD(7) [OF assms(1)] movesD(7) [OF assms(2)] by simp
qed

lemma moves_mono: "moves g A h \<Longrightarrow> A \<subseteq> C \<Longrightarrow> moves g C h"
  by (auto simp: moves_def)

lemma moves_upd_node:
  assumes "\<And>n. kept_node n (f n)"
    and "\<And>n k p. k \<noteq> ''width'' \<Longrightarrow> k \<noteq> ''height'' \<Longrightarrow> node_data g (f n) k p = node_data g n k p"
  shows "moves g {i} (upd_node i f g)"
proof -
  have "node_num (upd_node i f g) p k j = node_num g p k j" if "k \<noteq> ''width''" "k \<noteq> ''height''" for p k j
    using that assms(2) by (cases "getNode g j") (simp_all add: node_num_def node_data_config [of "upd_node i f g" g])
  moreover have "getNode (upd_node i f g) j = getNode g j" if "j \<noteq> i" for j
    using that by (cases "getNode g j") simp_all
  ultimately show ?thesis using assms(1) by (simp add: moves_def kept_upd_node)
qed

lemma kept_set_size [simp]: "kept_node n (set_size prop w h m) = kept_node n m"
  by (simp add: kept_node_def set_size_def) (simp add: set_node_data_def split: option.split)

lemma kept_node_setc [simp]: "kept_node n (node_setc x y prop n)"
  by (cases "n_pos n"; cases "n_startPos n"; cases "n_endPos n")
    (simp_all add: kept_node_def node_setc_def polar_node_def Let_def)

lemma moves_place [simp]: "moves g {i} (place_box prop i x y w h g)"
  unfolding place_box_def by (rule moves_upd_node) (simp_all add: box_simps)

lemma moves_level_graph [simp]: "moves g A (level_graph es g)"
proof -
  have "g_Node (level_graph es g) = g_Node g"
    by (induction es arbitrary: g) (auto simp: level_graph_def orient_def Let_def split: level_event.splits)
  then show ?thesis
    by (simp add: moves_def kept_same_nodes marks_only_level_graph node_num_def node_data_config [of "level_graph es g" g]
        cong: option.case_cong)
qed

lemma moves_orient: "moves g A (orient a r g)"
  using moves_level_graph [of g A "[Orient a r]"] by (simp add: level_graph_def)

lemma moves_num: "moves g A h \<Longrightarrow> k \<noteq> ''width'' \<Longrightarrow> k \<noteq> ''height'' \<Longrightarrow> node_num h p k = node_num g p k"
  by (simp add: fun_eq_iff movesD(7))

lemma level_graph_num [simp]: "node_num (level_graph es g) p k = node_num g p k"
  by (simp add: fun_eq_iff node_num_def node_data_config [OF movesD(2) [OF moves_level_graph]] cong: option.case_cong)

section \<open>Tilings\<close>

lemma tiles_empty [simp]: "tiles g prop {} S \<longleftrightarrow> S = {}"
  by (auto simp: tiles_def disjoint_family_on_def)

lemma tiles_cong: "(\<And>i. i \<in> A \<Longrightarrow> box_of h prop i = box_of g prop i) \<Longrightarrow> tiles h prop A S = tiles g prop A S"
  by (simp add: tiles_def disjoint_family_on_def)

lemma tiles_single: "box_of g prop i = c \<Longrightarrow> tiles g prop {i} (cells c)"
  by (simp add: tiles_def disjoint_family_on_def)

lemma tiles_union:
  assumes "tiles g prop A S" "tiles g prop B T" "S \<inter> T = {}"
  shows "tiles g prop (A \<union> B) (S \<union> T)"
proof -
  let ?c = "\<lambda>i. cells (box_of g prop i)"
  have "?c i \<inter> ?c j = {}" if "i \<in> A" "j \<in> B" for i j
    using that assms unfolding tiles_def by blast
  then have "?c i \<inter> ?c j = {}" if "i \<in> A \<union> B" "j \<in> A \<union> B" "i \<noteq> j" for i j
    using that assms unfolding tiles_def disjoint_family_on_def by (metis UnE inf_commute)
  moreover have "(\<Union>i \<in> A \<union> B. ?c i) = S \<union> T" using assms unfolding tiles_def by blast
  ultimately show ?thesis unfolding tiles_def disjoint_family_on_def by blast
qed

section \<open>Nodes below a node\<close>

text \<open>
  The layouts recurse over the nodes of the next level as the traversals pass them. A function
  gives these nodes; it is a tree when no node is passed twice.
\<close>

definition sub_step :: "(id \<Rightarrow> id list) \<Rightarrow> (id \<times> id) set" where
  "sub_step K = {(a, b). b \<in> set (K a)}"

definition below_of :: "(id \<Rightarrow> id list) \<Rightarrow> id \<Rightarrow> id set" where
  "below_of K a = (sub_step K)\<^sup>+ `` {a}"

definition one_parent :: "(id \<Rightarrow> id list) \<Rightarrow> bool" where
  "one_parent K \<longleftrightarrow> single_valued ((sub_step K)\<inverse>) \<and> (\<forall>a. distinct (K a))"

lemma children_below: "set (K a) \<subseteq> below_of K a"
  by (auto simp: below_of_def sub_step_def)

lemma below_refl: "insert c (below_of K c) = (sub_step K)\<^sup>* `` {c}"
  by (auto simp: below_of_def rtrancl_eq_or_trancl)

lemma below_Union: "below_of K a = (\<Union>c \<in> set (K a). insert c (below_of K c))"
  unfolding below_refl by (auto simp: below_of_def trancl_unfold_left sub_step_def)

lemma below_trans: "b \<in> below_of K a \<Longrightarrow> below_of K b \<subseteq> below_of K a"
  by (auto simp: below_of_def)

locale leveled_kids =
  fixes K :: "id \<Rightarrow> id list"
    and level :: "id \<Rightarrow> int option"
  assumes kid_level: "b \<in> set (K a) \<Longrightarrow> \<exists>d. level a = Some d \<and> level b = Some (d + 1)"
begin

lemma below_level:
  assumes "(a, b) \<in> (sub_step K)\<^sup>+"
  shows "\<exists>d e. level a = Some d \<and> level b = Some e \<and> d < e"
  using assms
proof (induction rule: trancl_induct)
  case (base b)
  then show ?case using kid_level by (fastforce simp: sub_step_def)
next
  case (step b c)
  then show ?case using kid_level [of c b] by (force simp: sub_step_def)
qed

lemma below_irrefl: "a \<notin> below_of K a"
  using below_level by (fastforce simp: below_of_def)

lemma siblings_disjoint:
  assumes "one_parent K" "c \<in> set (K a)" "c' \<in> set (K a)" "c \<noteq> c'"
  shows "insert c (below_of K c) \<inter> insert c' (below_of K c') = {}"
proof (rule ccontr)
  assume "\<not> ?thesis"
  then obtain x where "(c, x) \<in> (sub_step K)\<^sup>*" "(c', x) \<in> (sub_step K)\<^sup>*"
    unfolding below_refl by auto
  then have "(x, c) \<in> ((sub_step K)\<inverse>)\<^sup>*" "(x, c') \<in> ((sub_step K)\<inverse>)\<^sup>*" by (simp_all add: rtrancl_converse)
  then have "(c, c') \<in> ((sub_step K)\<inverse>)\<^sup>* \<or> (c', c) \<in> ((sub_step K)\<inverse>)\<^sup>*"
    using assms(1) unfolding one_parent_def by (metis single_valued_confluent)
  then have "(c', c) \<in> (sub_step K)\<^sup>+ \<or> (c, c') \<in> (sub_step K)\<^sup>+"
    using assms(4) by (auto simp: rtrancl_converse rtrancl_eq_or_trancl)
  moreover have "level c = level c'" using assms(2,3) kid_level [of c a] kid_level [of c' a] by auto
  ultimately show False using below_level by fastforce
qed

lemma sibling_not_below:
  assumes "one_parent K" "c \<in> set (K a)" "c' \<in> set (K a)"
  shows "c \<notin> below_of K c'"
  using siblings_disjoint [OF assms(1) assms(3) assms(2)] below_irrefl by (cases "c' = c") auto

end

lemma visit_visited: "Visit n d \<in> set es \<Longrightarrow> n \<in> set (visited es)"
  by (induction es rule: visited.induct) auto

lemma subnodes_level:
  assumes "b \<in> set (visited (eachSubnode g a flags))"
  shows "\<exists>d. depth_of g a = Some d \<and> depth_of g b = Some (d + 1)"
  using assms by (auto simp: subnodes_neighbours split: option.splits)

lemma subnodes_deeper:
  assumes "b \<in> set (visited (eachSubnode g a flags))"
  shows "card (deeper_nodes g b) < card (deeper_nodes g a)"
  using subnodes_level [OF assms] by (auto simp: deeper_def intro!: deeper_nodes_less)

lemma subnodes_hasNode: "b \<in> set (visited (eachSubnode g a flags)) \<Longrightarrow> hasNode g b"
  using subnodes_level [of b g a flags] by (cases "getNode g b") (auto simp: hasNode_getNode depth_of_def)

lemma subnodes_keys: "b \<in> set (visited (eachSubnode g a flags)) \<Longrightarrow> a \<in> set (map fst (g_nodes g))"
  using subnodes_level [of b g a flags]
  by (cases "getNode g a") (auto simp: keys_map_of getNode_def depth_of_def simp del: set_map)

interpretation sub_levels: leveled_kids "\<lambda>a. visited (eachSubnode g a flags)" "depth_of g" for g flags
  by unfold_locales (rule subnodes_level)

text \<open>Every node is passed at most once.\<close>

definition tree_shaped :: "graph \<Rightarrow> string \<Rightarrow> bool" where
  "tree_shaped g flags \<longleftrightarrow>
     distinct (concat (map (\<lambda>a. visited (eachSubnode g a flags)) (map fst (g_nodes g))))"

lemma distinct_concat_once:
  "distinct (concat (map f xs)) \<Longrightarrow> a \<in> set xs \<Longrightarrow> b \<in> set xs \<Longrightarrow> x \<in> set (f a) \<Longrightarrow> x \<in> set (f b) \<Longrightarrow> a = b"
  by (induction xs) auto

lemma distinct_concat_part: "distinct (concat (map f xs)) \<Longrightarrow> a \<in> set xs \<Longrightarrow> distinct (f a)"
  by (induction xs) auto

lemma tree_shaped_one_parent:
  assumes "tree_shaped g flags"
  shows "one_parent (\<lambda>a. visited (eachSubnode g a flags))"
proof -
  let ?K = "\<lambda>a. visited (eachSubnode g a flags)"
  have d: "distinct (concat (map ?K (map fst (g_nodes g))))" using assms by (simp only: tree_shaped_def)
  have "distinct (?K a)" for a
    using distinct_concat_part [OF d, of a] subnodes_keys [of _ g a flags] by (cases "?K a") auto
  moreover have "single_valued ((sub_step ?K)\<inverse>)"
    using distinct_concat_once [OF d] subnodes_keys [of _ g _ flags] by (auto simp: single_valued_def sub_step_def)
  ultimately show ?thesis by (simp add: one_parent_def)
qed

end
