(* ===== verification/Jit_Treemap.thy ===== *)
theory Jit_Treemap
  imports Jit_Boxes
begin

text \<open>
  The squarified and the strip treemap (\<^verbatim>\<open>rfweb/js/jit/jit.js\<close>, \<^verbatim>\<open>Layouts.TM.Area\<close>,
  \<^verbatim>\<open>Layouts.TM.Squarified\<close>, \<^verbatim>\<open>Layouts.TM.Strip\<close>): the children of a node divide its rectangle
  among them in the proportion of their areas. They are laid out in rows; \<^verbatim>\<open>computeDim\<close> grows a
  row while the aspect ratio its class gives does not get worse and then lays it out with the
  \<^verbatim>\<open>layoutRow\<close> of the class, which returns the rectangle left.

  The levels and adjacencies of the graph do not change during the layout, so the recursion
  reads them in the graph \<open>g0\<close> it starts with (\<open>moves\<close>). The positions of a treemap are
  complex numbers (\<^verbatim>\<open>graphOptions.complex\<close>). The lemmas state what a row does as the
  interface \<open>row_layout\<close>; \<^verbatim>\<open>computeDim\<close> is proved once for it and the two classes interpret it.
\<close>

section \<open>State\<close>

record treemap =
  tm_graph :: graph
  tm_root :: id
  tm_clicked :: "id option"
  tm_orientation :: string
  tm_titleHeight :: real
  tm_offset :: real
  tm_levelsToShow :: int
  tm_busy :: bool

definition layout_vertical :: "treemap \<Rightarrow> bool" where
  "layout_vertical tm \<longleftrightarrow> tm_orientation tm = ''v''"

definition layout_horizontal :: "treemap \<Rightarrow> bool" where
  "layout_horizontal tm \<longleftrightarrow> tm_orientation tm = ''h''"

definition layout_change :: "treemap \<Rightarrow> treemap" where
  "layout_change tm = tm\<lparr>tm_orientation := if layout_vertical tm then ''h'' else ''v''\<rparr>"

text \<open>The property \<^verbatim>\<open>_area\<close> of a node, and the area its data asks for.\<close>

definition area_of :: "graph \<Rightarrow> id \<Rightarrow> real" where
  "area_of g i = num_of (case getNode g i of None \<Rightarrow> JUndefined | Some n \<Rightarrow> prop_of (n_ext n) ''_area'')"

abbreviation weight :: "graph \<Rightarrow> string \<Rightarrow> id \<Rightarrow> real" where
  "weight g prop i \<equiv> node_num g prop ''area'' i"

definition areas :: "graph \<Rightarrow> id list \<Rightarrow> real" where
  "areas g ch = sum_list (map (area_of g) ch)"

section \<open>Rows\<close>

definition layoutLast :: "string \<Rightarrow> id list \<Rightarrow> coords \<Rightarrow> treemap \<Rightarrow> treemap" where
  "layoutLast prop ch coord tm =
     tm\<lparr>tm_graph := place_box prop (hd ch) (co_left coord) (co_top coord) (co_width coord) (co_height coord) (tm_graph tm)\<rparr>"

type_synonym row_layout = "string \<Rightarrow> id list \<Rightarrow> real \<Rightarrow> coords \<Rightarrow> treemap \<Rightarrow> coords \<times> real \<times> treemap"

text \<open>
  The nodes not yet in a row, the row that is growing, the side it is laid out along and the
  rectangle left; \<open>cmp\<close> rates a row.
\<close>

function computeDim ::
  "row_layout \<Rightarrow> (graph \<Rightarrow> id list \<Rightarrow> real \<Rightarrow> real) \<Rightarrow> string \<Rightarrow> id list \<Rightarrow> id list \<Rightarrow> real \<Rightarrow> coords \<Rightarrow> treemap \<Rightarrow> treemap" where
  "computeDim layoutRow cmp prop rest initElem w coord tm =
     (if length rest + length initElem = 1
      then layoutLast prop (if length rest = 1 then rest else initElem) coord tm
      else
        (let (rest, initElem) = (if length rest \<ge> 2 \<and> initElem = [] then (tl rest, [hd rest]) else (rest, initElem))
         in case rest of
              [] \<Rightarrow> if initElem \<noteq> [] then snd (snd (layoutRow prop initElem w coord tm)) else tm
            | c # cs \<Rightarrow>
                if cmp (tm_graph tm) initElem w \<ge> cmp (tm_graph tm) (c # initElem) w
                then computeDim layoutRow cmp prop cs (initElem @ [c]) w coord tm
                else (let (newCoords, d, tm) = layoutRow prop initElem w coord tm
                      in computeDim layoutRow cmp prop rest [] d newCoords tm)))"
  by pat_completeness auto
termination
  by (relation "measure (\<lambda>(_, _, _, rest, initElem, _). 2 * length rest + length initElem)")
    (auto simp: Suc_le_length_iff numeral_2_eq_2 neq_Nil_conv split: if_splits)

declare computeDim.simps [simp del]

text \<open>The largest number of the language.\<close>

definition Number_MAX_VALUE :: real where
  "Number_MAX_VALUE = (2 - 1 / 2 ^ 52) * 2 ^ 1023"

lemma MAX_VALUE_large: "4 \<le> Number_MAX_VALUE"
  by (simp add: Number_MAX_VALUE_def)

definition worstAspectRatio :: "graph \<Rightarrow> id list \<Rightarrow> real \<Rightarrow> real" where
  "worstAspectRatio g ch w =
     (if ch = [] then Number_MAX_VALUE
      else
        (let (areaSum, minArea, maxArea) =
               foldl (\<lambda>(s, mn, mx) i. let a = area_of g i
                  in (s + a, if mn < a then mn else a, if mx > a then mx else a)) (0, Number_MAX_VALUE, 0) ch;
             sqw = w * w; sqAreaSum = areaSum * areaSum
         in max (sqw * maxArea / sqAreaSum) (sqAreaSum / (sqw * minArea))))"

definition avgAspectRatio :: "graph \<Rightarrow> id list \<Rightarrow> real \<Rightarrow> real" where
  "avgAspectRatio g ch w =
     (if ch = [] then Number_MAX_VALUE
      else foldl (\<lambda>arSum i. let h = area_of g i / w in arSum + (if w > h then w / h else h / w)) 0 ch
             / real (length ch))"

section \<open>The squarified treemap\<close>

definition sq_layoutV :: row_layout where
  "sq_layoutV prop ch w coord tm =
     (let g = tm_graph tm;
          width = areas g ch / w;
          (g, top) = fold (\<lambda>i (g, top).
             let h = area_of g i / width
             in (place_box prop i (co_left coord) (co_top coord + top) width h g, top + h)) ch (g, 0);
          ans = \<lparr>co_top = co_top coord, co_left = co_left coord + width,
                 co_width = co_width coord - width, co_height = co_height coord\<rparr>;
          d = min (co_width ans) (co_height ans);
          tm = tm\<lparr>tm_graph := g\<rparr>
      in (ans, d, if d \<noteq> co_height ans then layout_change tm else tm))"

definition sq_layoutH :: row_layout where
  "sq_layoutH prop ch w coord tm =
     (let g = tm_graph tm;
          height = areas g ch / w;
          (g, left) = fold (\<lambda>i (g, left).
             let w = area_of g i / height
             in (place_box prop i (co_left coord + left) (co_top coord) w height g, left + w)) ch (g, 0);
          ans = \<lparr>co_top = co_top coord + height, co_left = co_left coord,
                 co_width = co_width coord, co_height = co_height coord - height\<rparr>;
          d = min (co_width ans) (co_height ans);
          tm = tm\<lparr>tm_graph := g\<rparr>
      in (ans, d, if d \<noteq> co_width ans then layout_change tm else tm))"

definition sq_layoutRow :: row_layout where
  "sq_layoutRow prop ch w coord tm =
     (if layout_horizontal tm then sq_layoutV prop ch w coord tm else sq_layoutH prop ch w coord tm)"

definition squarify :: "string \<Rightarrow> id list \<Rightarrow> id list \<Rightarrow> real \<Rightarrow> coords \<Rightarrow> treemap \<Rightarrow> treemap" where
  "squarify prop rest initElem w coord tm = computeDim sq_layoutRow worstAspectRatio prop rest initElem w coord tm"

text \<open>The children get their share of the area of the parent as \<^verbatim>\<open>_area\<close>.\<close>

definition set_areas :: "string \<Rightarrow> id list \<Rightarrow> coords \<Rightarrow> graph \<Rightarrow> graph" where
  "set_areas prop ch coord g =
     (let parentArea = co_width coord * co_height coord;
          totalChArea = sum_list (map (weight g prop) ch)
      in fold (\<lambda>(i, a) g. upd_node i (node_set_prop ''_area'' (JNum (parentArea * a / totalChArea))) g)
           (map (\<lambda>i. (i, weight g prop i)) ch) g)"

text \<open>Strings compare by their first different character, a prefix being less.\<close>

fun str_less :: "string \<Rightarrow> string \<Rightarrow> bool" where
  "str_less _ [] = False"
| "str_less [] (_ # _) = True"
| "str_less (a # as) (b # bs) =
     ((of_char a :: nat) < of_char b \<or> (a = b \<and> str_less as bs))"

definition compare_area :: "graph \<Rightarrow> id \<Rightarrow> id \<Rightarrow> int" where
  "compare_area g a b =
     (let diff = area_of g b - area_of g a
      in if diff \<noteq> 0 then (if diff > 0 then 1 else -1)
         else if b = a then 0 else if str_less b a then 1 else -1)"

text \<open>The children in the order of the layout, and the treemap with their boxes set.\<close>

definition sq_processChildrenLayout :: "string \<Rightarrow> id list \<Rightarrow> coords \<Rightarrow> treemap \<Rightarrow> id list \<times> treemap" where
  "sq_processChildrenLayout prop ch coord tm =
     (let tm = tm\<lparr>tm_graph := set_areas prop ch coord (tm_graph tm)\<rparr>;
          minimumSideValue = (if layout_horizontal tm then co_height coord else co_width coord);
          ch = sort_by (compare_area (tm_graph tm)) ch
      in (ch, squarify prop (tl ch) [hd ch] minimumSideValue coord tm))"

section \<open>The strip treemap\<close>

definition st_layoutV :: row_layout where
  "st_layoutV prop ch w coord tm =
     (let g = tm_graph tm;
          width = areas g ch / w;
          (g, top) = fold (\<lambda>i (g, top).
             let h = area_of g i / width
             in (place_box prop i (co_left coord) (co_top coord + (w - h - top)) width h g, top + h)) ch (g, 0)
      in (\<lparr>co_top = co_top coord, co_left = co_left coord + width,
           co_width = co_width coord - width, co_height = co_height coord\<rparr>, w, tm\<lparr>tm_graph := g\<rparr>))"

definition st_layoutH :: row_layout where
  "st_layoutH prop ch w coord tm =
     (let g = tm_graph tm;
          height = areas g ch / w;
          top = co_height coord - height;
          (g, left) = fold (\<lambda>i (g, left).
             let s = area_of g i / height
             in (place_box prop i (co_left coord + left) (co_top coord + top) s height g, left + s)) ch (g, 0)
      in (\<lparr>co_top = co_top coord, co_left = co_left coord,
           co_width = co_width coord, co_height = co_height coord - height\<rparr>, w, tm\<lparr>tm_graph := g\<rparr>))"

definition st_layoutRow :: row_layout where
  "st_layoutRow prop ch w coord tm =
     (if layout_horizontal tm then st_layoutH prop ch w coord tm else st_layoutV prop ch w coord tm)"

definition stripify :: "string \<Rightarrow> id list \<Rightarrow> id list \<Rightarrow> real \<Rightarrow> coords \<Rightarrow> treemap \<Rightarrow> treemap" where
  "stripify prop rest initElem w coord tm = computeDim st_layoutRow avgAspectRatio prop rest initElem w coord tm"

definition st_processChildrenLayout :: "string \<Rightarrow> id list \<Rightarrow> coords \<Rightarrow> treemap \<Rightarrow> treemap" where
  "st_processChildrenLayout prop ch coord tm =
     (let tm = tm\<lparr>tm_graph := set_areas prop ch coord (tm_graph tm)\<rparr>;
          side = (if layout_horizontal tm then co_width coord else co_height coord)
      in stripify prop (tl ch) [hd ch] side coord tm)"

section \<open>The whole tree\<close>

text \<open>The rectangle a child leaves to its own children, below its title.\<close>

definition inner_coords :: "string \<Rightarrow> id \<Rightarrow> treemap \<Rightarrow> coords" where
  "inner_coords prop i tm =
     (let g = tm_graph tm
      in \<lparr>co_top = c_y (node_xy g prop i) + tm_titleHeight tm, co_left = c_x (node_xy g prop i),
          co_width = node_num g prop ''width'' i - tm_offset tm,
          co_height = node_num g prop ''height'' i - tm_offset tm - tm_titleHeight tm\<rparr>)"

text \<open>The children of a node; reading them turns the adjacencies of the node.\<close>

definition read_children :: "graph \<Rightarrow> id \<Rightarrow> treemap \<Rightarrow> treemap" where
  "read_children g0 node tm = tm\<lparr>tm_graph := level_graph (eachSubnode g0 node ''ignore'') (tm_graph tm)\<rparr>"

lemma sq_order [simp]:
  "mset (fst (sq_processChildrenLayout prop ch coord tm)) = mset ch"
  "set (fst (sq_processChildrenLayout prop ch coord tm)) = set ch"
  by (simp_all add: sq_processChildrenLayout_def Let_def)

lemma children_deeper:
  assumes "c \<in> set (children g node)"
  shows "card (deeper_nodes g c) < card (deeper_nodes g node)"
  using assms unfolding children_def by (rule subnodes_deeper)

function sq_computePositions :: "graph \<Rightarrow> string \<Rightarrow> id \<Rightarrow> coords \<Rightarrow> treemap \<Rightarrow> treemap" where
  "sq_computePositions g0 prop node coord tm =
     (let tm = tm\<lparr>tm_orientation := if co_width coord \<ge> co_height coord then ''h'' else ''v''\<rparr>;
          tm = read_children g0 node tm;
          ch = children g0 node
      in if ch = [] then tm
         else
           (let s = sq_processChildrenLayout prop ch coord tm
            in fold (\<lambda>chi tm. sq_computePositions g0 prop chi (inner_coords prop chi tm) tm) (fst s) (snd s)))"
  by pat_completeness auto
termination
  by (relation "measure (\<lambda>(g0, _, node, _). card (deeper_nodes g0 node))") (auto intro: children_deeper)

declare sq_computePositions.simps [simp del]

function st_computePositions :: "graph \<Rightarrow> string \<Rightarrow> id \<Rightarrow> coords \<Rightarrow> treemap \<Rightarrow> treemap" where
  "st_computePositions g0 prop node coord tm =
     (let tm = read_children g0 node tm;
          ch = children g0 node
      in if ch = [] then tm
         else fold (\<lambda>chi tm. st_computePositions g0 prop chi (inner_coords prop chi tm) tm) ch
                (st_processChildrenLayout prop ch coord tm))"
  by pat_completeness auto
termination
  by (relation "measure (\<lambda>(g0, _, node, _). card (deeper_nodes g0 node))") (auto intro: children_deeper)

declare st_computePositions.simps [simp del]

section \<open>Laying out one row\<close>

lemma area_of_upd_node:
  "(\<And>n. n_ext (f n) = n_ext n) \<Longrightarrow> area_of (upd_node i f g) j = area_of g j"
  by (cases "getNode g j") (simp_all add: area_of_def)

lemma place_box_ext [simp]: "n_ext (set_size prop w h n) = n_ext n" "n_ext (node_setc x y prop n) = n_ext n"
  by (simp_all add: set_size_def set_node_data_def node_setc_def Let_def split: option.split)

lemma area_of_place [simp]: "area_of (place_box prop i x y w h g) j = area_of g j"
  by (simp add: place_box_def area_of_upd_node)

lemma areas_simps [simp]: "areas g [] = 0" "areas g (i # ch) = area_of g i + areas g ch"
  "areas g (ch @ ch') = areas g ch + areas g ch'"
  by (simp_all add: areas_def)

lemma areas_cong: "(\<And>i. area_of h i = area_of g i) \<Longrightarrow> areas h = areas g"
  by (simp add: areas_def fun_eq_iff cong: map_cong)

text \<open>A box that is divided along one side: the offset on the side and the length of the part.\<close>

definition divides :: "(real \<Rightarrow> real \<Rightarrow> coords) \<Rightarrow> bool" where
  "divides bx \<longleftrightarrow> (\<forall>a. cells (bx a 0) = {}) \<and> (\<forall>a l m. 0 \<le> l \<longrightarrow> 0 \<le> m \<longrightarrow>
     cells (bx a (l + m)) = cells (bx a l) \<union> cells (bx (a + l) m) \<and> cells (bx a l) \<inter> cells (bx (a + l) m) = {})"

definition lay_row :: "string \<Rightarrow> (real \<Rightarrow> real \<Rightarrow> coords) \<Rightarrow> real \<Rightarrow> id list \<Rightarrow> graph \<times> real \<Rightarrow> graph \<times> real" where
  "lay_row prop bx q ch s = fold (\<lambda>i (g, off).
     let l = area_of g i / q; b = bx off l
     in (place_box prop i (co_left b) (co_top b) (co_width b) (co_height b) g, off + l)) ch s"

text \<open>A group of nodes that can be laid out, and what laying it out gives.\<close>

definition row_ok :: "graph \<Rightarrow> string \<Rightarrow> id list \<Rightarrow> bool" where
  "row_ok g prop ch \<longleftrightarrow> distinct ch \<and> box_graph g prop \<and> (\<forall>i \<in> set ch. hasNode g i \<and> 0 < area_of g i)"

definition laid :: "graph \<Rightarrow> string \<Rightarrow> id list \<Rightarrow> (real \<times> real) set \<Rightarrow> graph \<Rightarrow> bool" where
  "laid g prop ch S h \<longleftrightarrow> moves g (set ch) h \<and> (\<forall>j. area_of h j = area_of g j) \<and> tiles h prop (set ch) S
     \<and> (\<forall>i \<in> set ch. coords_area (box_of h prop i) = area_of g i)"

lemma row_ok_simps [simp]:
  "row_ok g prop (i # ch) \<longleftrightarrow> i \<notin> set ch \<and> hasNode g i \<and> 0 < area_of g i \<and> row_ok g prop ch"
  "row_ok g prop (ch @ ch') \<longleftrightarrow> row_ok g prop ch \<and> row_ok g prop ch' \<and> set ch \<inter> set ch' = {}"
  by (auto simp: row_ok_def)

lemma row_ok_moves:
  assumes "moves g A h" "\<And>j. area_of h j = area_of g j"
  shows "row_ok h prop ch = row_ok g prop ch"
  using assms movesD(5,6) [OF assms(1)] by (simp add: row_ok_def)

lemma areas_pos: "row_ok g prop ch \<Longrightarrow> ch \<noteq> [] \<Longrightarrow> 0 < areas g ch"
  by (induction ch) (auto simp: row_ok_def intro!: add_pos_nonneg sum_list_nonneg simp: areas_def less_imp_le)

lemma areas_nonneg: "row_ok g prop ch \<Longrightarrow> 0 \<le> areas g ch"
  by (cases "ch = []") (simp, metis areas_pos less_imp_le)

lemma laid_Nil [simp]: "laid g prop [] S h \<longleftrightarrow> moves g {} h \<and> (\<forall>j. area_of h j = area_of g j) \<and> S = {}"
  by (auto simp: laid_def)

lemma laid_append:
  assumes "laid g prop ch S h" "laid h prop ch' T k" "set ch \<inter> set ch' = {}" "S \<inter> T = {}"
  shows "laid g prop (ch @ ch') (S \<union> T) k"
proof -
  have m: "moves g (set ch) h" "moves h (set ch') k" using assms by (simp_all add: laid_def)
  have b: "box_of k prop i = box_of h prop i" if "i \<in> set ch" for i
    using that assms(3) by (intro movesD(4) [OF m(2)]) auto
  have "tiles k prop (set ch) S" using assms(1) tiles_cong [OF b] by (simp add: laid_def)
  then have "tiles k prop (set ch \<union> set ch') (S \<union> T)"
    using assms by (intro tiles_union) (simp_all add: laid_def)
  moreover have "moves g (set ch \<union> set ch') k" using m by (rule moves_trans) auto
  moreover have "coords_area (box_of k prop i) = area_of g i" if "i \<in> set ch \<union> set ch'" for i
    using that b assms by (auto simp: laid_def)
  ultimately show ?thesis using assms by (simp add: laid_def)
qed

lemma laid_one:
  assumes "box_graph g prop" "hasNode g i" "coords_area c = area_of g i"
  shows "laid g prop [i] (cells c) (place_box prop i (co_left c) (co_top c) (co_width c) (co_height c) g)"
  using assms box_of_place [OF assms(1,2), of "co_left c" "co_top c" "co_width c" "co_height c" i]
  by (cases c) (simp add: laid_def tiles_single coords_area_def)

lemma lay_row_laid:
  assumes "divides bx" "0 < q" "\<And>a l. coords_area (bx a l) = l * q" "row_ok g prop ch"
  shows "laid g prop ch (cells (bx off (areas g ch / q))) (fst (lay_row prop bx q ch (g, off)))"
  using assms(4)
proof (induction ch arbitrary: g off)
  case Nil
  then show ?case using assms(1) by (simp add: lay_row_def divides_def)
next
  case (Cons i ch)
  let ?l = "area_of g i / q" and ?m = "areas g ch / q"
  let ?b = "bx off ?l"
  let ?h = "place_box prop i (co_left ?b) (co_top ?b) (co_width ?b) (co_height ?b) g"
  have one: "laid g prop [i] (cells ?b) ?h"
    using Cons.prems assms(2,3) by (intro laid_one) (simp_all add: row_ok_def)
  have ok: "row_ok ?h prop ch" using Cons.prems row_ok_moves [OF moves_place area_of_place] by simp
  have "areas ?h = areas g" by (rule areas_cong) simp
  then have "laid ?h prop ch (cells (bx (off + ?l) ?m)) (fst (lay_row prop bx q ch (?h, off + ?l)))"
    using Cons.IH [OF ok, of "off + ?l"] by simp
  moreover have "0 \<le> ?l" "0 \<le> ?m" using Cons.prems assms(2) by (auto simp: areas_nonneg)
  then have "cells (bx off (?l + ?m)) = cells ?b \<union> cells (bx (off + ?l) ?m)" "cells ?b \<inter> cells (bx (off + ?l) ?m) = {}"
    using assms(1) by (simp_all add: divides_def)
  ultimately have "laid g prop ([i] @ ch) (cells (bx off (?l + ?m))) (fst (lay_row prop bx q ch (?h, off + ?l)))"
    using Cons.prems laid_append [OF one] by simp
  then show ?case by (simp add: lay_row_def Let_def add_divide_distrib)
qed

section \<open>Rows of rows\<close>

text \<open>Only the graph and the orientation of a treemap change.\<close>

definition same_config :: "treemap \<Rightarrow> treemap \<Rightarrow> bool" where
  "same_config tm tm' \<longleftrightarrow> tm' = tm\<lparr>tm_graph := tm_graph tm', tm_orientation := tm_orientation tm'\<rparr>"

lemma same_config_refl [simp]: "same_config tm tm"
  by (simp add: same_config_def)

lemma same_config_trans: "same_config a b \<Longrightarrow> same_config b c \<Longrightarrow> same_config a c"
  by (cases a; cases b; cases c) (simp add: same_config_def)

lemma same_config_upd [simp]: "same_config tm (tm\<lparr>tm_graph := g\<rparr>)" "same_config tm (tm\<lparr>tm_orientation := o'\<rparr>)"
  "same_config tm (layout_change tm)" "same_config tm (layout_change (tm\<lparr>tm_graph := g\<rparr>))"
  by (simp_all add: same_config_def layout_change_def)

lemma same_config_fields: "same_config tm tm' \<Longrightarrow> tm_titleHeight tm' = tm_titleHeight tm \<and> tm_offset tm' = tm_offset tm"
  by (cases tm; cases tm') (simp add: same_config_def)

lemma computeDim_step:
  fixes cmp layoutRow rest initElem w c tm
  assumes "length rest + length initElem \<noteq> 1" "initElem @ rest \<noteq> []"
  obtains i r where "i @ r = initElem @ rest" "i \<noteq> []"
    "2 * length r + length i \<le> 2 * length rest + length initElem"
    "computeDim layoutRow cmp pr rest initElem w c tm =
      (case r of [] \<Rightarrow> snd (snd (layoutRow pr i w c tm))
       | x # cs \<Rightarrow> if cmp (tm_graph tm) i w \<ge> cmp (tm_graph tm) (x # i) w
           then computeDim layoutRow cmp pr cs (i @ [x]) w c tm
           else (let (c', d, tm) = layoutRow pr i w c tm in computeDim layoutRow cmp pr r [] d c' tm))"
proof -
  define r i where "r = (if length rest \<ge> 2 \<and> initElem = [] then tl rest else rest)"
    and "i = (if length rest \<ge> 2 \<and> initElem = [] then [hd rest] else initElem)"
  have ir: "i @ r = initElem @ rest" "i \<noteq> []"
    using assms by (cases rest; cases "tl rest"; cases initElem; auto simp: r_def i_def)+
  moreover have "2 * length r + length i \<le> 2 * length rest + length initElem"
    by (cases rest) (auto simp: r_def i_def)
  ultimately show ?thesis
    using assms(1) by (intro that) (assumption+, subst computeDim.simps, auto simp: r_def i_def split: list.split)
qed

lemma computeDim_last:
  assumes "length rest + length initElem = 1"
  obtains i where "initElem @ rest = [i]" "computeDim layoutRow cmp pr rest initElem w c tm = layoutLast pr [i] c tm"
proof -
  have "\<exists>i. initElem @ rest = [i] \<and> (if length rest = 1 then rest else initElem) = [i]"
    using assms by (cases rest; cases initElem) auto
  then show ?thesis using assms that by (subst (asm) computeDim.simps) auto
qed

text \<open>
  What a row layout promises while its invariant on the orientation, the side and the
  rectangle holds: the row takes its area from the rectangle and leaves the rest, on which the
  invariant holds again unless nothing is left.
\<close>

definition row_result ::
  "(treemap \<Rightarrow> real \<Rightarrow> coords \<Rightarrow> bool) \<Rightarrow> string \<Rightarrow> id list \<Rightarrow> coords \<Rightarrow> treemap \<Rightarrow> coords \<times> real \<times> treemap \<Rightarrow> bool" where
  "row_result side_inv pr ch c tm = (\<lambda>(c', d, tm').
     laid (tm_graph tm) pr ch (cells c - cells c') (tm_graph tm') \<and> cells c' \<subseteq> cells c \<and> same_config tm tm'
     \<and> coords_area c' = coords_area c - areas (tm_graph tm) ch
     \<and> (coords_area c' = 0 \<longrightarrow> cells c' = {}) \<and> (0 < coords_area c' \<longrightarrow> side_inv tm' d c'))"

locale rows =
  fixes layoutRow :: row_layout
    and pr :: string
    and side_inv :: "treemap \<Rightarrow> real \<Rightarrow> coords \<Rightarrow> bool"
  assumes row_laid:
    "\<lbrakk>side_inv tm w c; row_ok (tm_graph tm) pr ch; ch \<noteq> []; areas (tm_graph tm) ch \<le> coords_area c\<rbrakk>
     \<Longrightarrow> row_result side_inv pr ch c tm (layoutRow pr ch w c tm)"
begin

lemma computeDim_laid:
  assumes "side_inv tm w c" "row_ok (tm_graph tm) pr (initElem @ rest)" "initElem @ rest \<noteq> []"
    and "areas (tm_graph tm) (initElem @ rest) = coords_area c"
  shows "laid (tm_graph tm) pr (initElem @ rest) (cells c)
      (tm_graph (computeDim layoutRow cmp pr rest initElem w c tm))
    \<and> same_config tm (computeDim layoutRow cmp pr rest initElem w c tm)"
  using assms
proof (induction "2 * length rest + length initElem" arbitrary: rest initElem w c tm rule: less_induct)
  case less
  let ?g = "tm_graph tm"
  note side_inv = less.prems(1) and ok = less.prems(2) and ne = less.prems(3) and sum = less.prems(4)
  show ?case
  proof (cases "length rest + length initElem = 1")
    case True
    then obtain i where i: "initElem @ rest = [i]"
      "computeDim layoutRow cmp pr rest initElem w c tm = layoutLast pr [i] c tm"
      by (rule computeDim_last)
    then have "laid ?g pr [i] (cells c) (place_box pr i (co_left c) (co_top c) (co_width c) (co_height c) ?g)"
      using ok sum by (intro laid_one) (simp_all add: row_ok_def)
    then show ?thesis using i by (simp add: layoutLast_def)
  next
    case False
    obtain i r where ir: "i @ r = initElem @ rest" "i \<noteq> []"
      and small: "2 * length r + length i \<le> 2 * length rest + length initElem"
      and unfolded: "computeDim layoutRow cmp pr rest initElem w c tm =
      (case r of [] \<Rightarrow> snd (snd (layoutRow pr i w c tm))
       | x # cs \<Rightarrow> if cmp ?g i w \<ge> cmp ?g (x # i) w then computeDim layoutRow cmp pr cs (i @ [x]) w c tm
           else (let (c', d, tm) = layoutRow pr i w c tm in computeDim layoutRow cmp pr r [] d c' tm))"
      by (rule computeDim_step [OF False ne])
    obtain c' d tm' where row: "layoutRow pr i w c tm = (c', d, tm')" by (metis prod_cases3)
    have ok': "row_ok ?g pr i" "row_ok ?g pr r" "set i \<inter> set r = {}"
      using ok by (simp_all flip: ir(1))
    have sum': "areas ?g i + areas ?g r = coords_area c" using sum by (simp flip: ir(1))
    have "areas ?g i \<le> coords_area c" using sum' areas_nonneg [OF ok'(2)] by simp
    note R = row_laid [OF side_inv ok'(1) ir(2) this, unfolded row row_result_def prod.case]
    show ?thesis
    proof (cases r)
      case Nil
      then have "cells c' = {}" using R sum' by simp
      then show ?thesis using R Nil unfolding unfolded row by (simp flip: ir(1))
    next
      case (Cons x cs)
      show ?thesis
      proof (cases "cmp ?g i w \<ge> cmp ?g (x # i) w")
        case True
        have e: "(i @ [x]) @ cs = initElem @ rest" using ir(1) Cons by simp
        then show ?thesis
          using less.hyps [of cs "i @ [x]" tm w c] small True side_inv ok ne sum Cons
          unfolding unfolded by (simp del: append_assoc)
      next
        case F: False
        have m: "moves ?g (set i) (tm_graph tm')" "\<And>j. area_of (tm_graph tm') j = area_of ?g j"
          using R by (simp_all add: laid_def)
        have left: "areas (tm_graph tm') r = coords_area c'"
          using R sum' unfolding areas_cong [OF m(2)] by simp
        have okr: "row_ok (tm_graph tm') pr r" using ok'(2) row_ok_moves [OF m] by simp
        have "0 < coords_area c'" using areas_pos [OF okr] left Cons by simp
        then have "laid (tm_graph tm') pr r (cells c') (tm_graph (computeDim layoutRow cmp pr r [] d c' tm'))
            \<and> same_config tm' (computeDim layoutRow cmp pr r [] d c' tm')"
          using less.hyps [of r "[]" tm' d c'] small ir(2) okr left R Cons by (cases i) simp_all
        moreover have "laid ?g pr i (cells c - cells c') (tm_graph tm')" "(cells c - cells c') \<union> cells c' = cells c"
          "same_config tm tm'" using R by blast+
        ultimately show ?thesis
          using laid_append [of ?g pr i "cells c - cells c'" "tm_graph tm'" r "cells c'"] ok'(3) F Cons
            same_config_trans unfolding unfolded row by (simp flip: ir(1) add: Let_def) blast
      qed
    qed
  qed
qed

end

section \<open>The two classes\<close>

lemma row_step:
  assumes "divides bx" "\<And>a l. coords_area (bx a l) = l * (areas g ch / w)" "row_ok g prop ch" "ch \<noteq> []" "0 < w"
  shows "laid g prop ch (cells (bx 0 w)) (fst (lay_row prop bx (areas g ch / w) ch (g, 0)))"
proof -
  have "0 < areas g ch" using assms(3,4) by (rule areas_pos)
  then show ?thesis using lay_row_laid [OF assms(1) _ assms(2,3), of 0] assms(5) by simp
qed

text \<open>Parts of a box from its left side, its top or its bottom, in the two directions.\<close>

lemma divides_down: "divides (\<lambda>a l. \<lparr>co_top = t + a, co_left = x, co_width = q, co_height = l\<rparr>)"
  by (auto simp: divides_def cells_def)

lemma divides_up: "divides (\<lambda>a l. \<lparr>co_top = t + (w - l - a), co_left = x, co_width = q, co_height = l\<rparr>)"
  by (auto simp: divides_def cells_def)

lemma divides_right: "divides (\<lambda>a l. \<lparr>co_top = t, co_left = x + a, co_width = l, co_height = q\<rparr>)"
  by (auto simp: divides_def cells_def)

lemmas row_divides = divides_down divides_up divides_right

lemma cut_left:
  assumes "0 \<le> q" "q \<le> co_width c"
  defines "c' \<equiv> \<lparr>co_top = co_top c, co_left = co_left c + q, co_width = co_width c - q, co_height = co_height c\<rparr>"
  shows "cells \<lparr>co_top = co_top c, co_left = co_left c, co_width = q, co_height = co_height c\<rparr> = cells c - cells c'"
    "cells c' \<subseteq> cells c" "coords_area c' = coords_area c - q * co_height c"
    "0 < co_height c \<Longrightarrow> coords_area c' = 0 \<Longrightarrow> cells c' = {}"
  using assms(1,2) by (auto simp: c'_def cells_def coords_area_def algebra_simps)

lemma cut_top:
  assumes "0 \<le> q" "q \<le> co_height c"
  defines "c' \<equiv> \<lparr>co_top = co_top c + q, co_left = co_left c, co_width = co_width c, co_height = co_height c - q\<rparr>"
  shows "cells \<lparr>co_top = co_top c, co_left = co_left c, co_width = co_width c, co_height = q\<rparr> = cells c - cells c'"
    "cells c' \<subseteq> cells c" "coords_area c' = coords_area c - q * co_width c"
    "0 < co_width c \<Longrightarrow> coords_area c' = 0 \<Longrightarrow> cells c' = {}"
  using assms(1,2) by (auto simp: c'_def cells_def coords_area_def algebra_simps)

lemma cut_bottom:
  assumes "0 \<le> q" "q \<le> co_height c"
  defines "c' \<equiv> \<lparr>co_top = co_top c, co_left = co_left c, co_width = co_width c, co_height = co_height c - q\<rparr>"
  shows "cells \<lparr>co_top = co_top c + (co_height c - q), co_left = co_left c, co_width = co_width c, co_height = q\<rparr>
      = cells c - cells c'"
    "cells c' \<subseteq> cells c" "coords_area c' = coords_area c - q * co_width c"
    "0 < co_width c \<Longrightarrow> coords_area c' = 0 \<Longrightarrow> cells c' = {}"
  using assms(1,2) by (auto simp: c'_def cells_def coords_area_def algebra_simps)

text \<open>A row whose length is one side of the rectangle takes part of the other side.\<close>

lemma row_breadth:
  assumes "row_ok g prop ch" "areas g ch \<le> a * b" "0 < a"
  shows "0 \<le> areas g ch / a" "areas g ch / a \<le> b" "areas g ch / a * a = areas g ch"
  using assms areas_nonneg [OF assms(1)] by (simp_all add: divide_le_eq mult.commute)

definition sq_inv :: "treemap \<Rightarrow> real \<Rightarrow> coords \<Rightarrow> bool" where
  "sq_inv tm w c \<longleftrightarrow> 0 < co_width c \<and> 0 < co_height c
     \<and> (layout_horizontal tm \<and> w = co_height c \<or> layout_vertical tm \<and> w = co_width c)"

definition st_inv :: "treemap \<Rightarrow> real \<Rightarrow> coords \<Rightarrow> bool" where
  "st_inv tm w c \<longleftrightarrow> 0 < co_width c \<and> 0 < co_height c \<and> w = (if layout_horizontal tm then co_width c else co_height c)"

lemma layout_flags:
  "layout_vertical tm \<Longrightarrow> \<not> layout_horizontal tm" "layout_horizontal (tm\<lparr>tm_graph := g\<rparr>) = layout_horizontal tm"
  "layout_vertical (tm\<lparr>tm_graph := g\<rparr>) = layout_vertical tm"
  "layout_horizontal (layout_change tm) = layout_vertical tm" "layout_vertical (layout_change tm) = (\<not> layout_vertical tm)"
  "tm_graph (layout_change tm) = tm_graph tm"
  by (simp_all add: layout_horizontal_def layout_vertical_def layout_change_def)

lemma coords_area_pos: "0 < coords_area c \<Longrightarrow> 0 < co_width c \<Longrightarrow> 0 < co_height c"
  "0 < coords_area c \<Longrightarrow> 0 < co_height c \<Longrightarrow> 0 < co_width c"
  by (simp_all add: coords_area_def zero_less_mult_iff)

text \<open>The four ways to lay out a row.\<close>

lemma sq_layoutV_laid:
  assumes ok: "row_ok (tm_graph tm) prop ch" "ch \<noteq> []" and le: "areas (tm_graph tm) ch \<le> coords_area c"
    and pos: "0 < co_height c" and o: "layout_horizontal tm"
  shows "row_result sq_inv prop ch c tm (sq_layoutV prop ch (co_height c) c tm)"
proof -
  let ?q = "areas (tm_graph tm) ch / co_height c"
  let ?bx = "\<lambda>a l. \<lparr>co_top = co_top c + a, co_left = co_left c, co_width = ?q, co_height = l\<rparr>"
  let ?c = "\<lparr>co_top = co_top c, co_left = co_left c + ?q, co_width = co_width c - ?q, co_height = co_height c\<rparr>"
  let ?h = "fst (lay_row prop ?bx ?q ch (tm_graph tm, 0))" and ?d = "min (co_width c - ?q) (co_height c)"
  let ?tm = "if ?d \<noteq> co_height c then layout_change (tm\<lparr>tm_graph := ?h\<rparr>) else tm\<lparr>tm_graph := ?h\<rparr>"
  have row: "sq_layoutV prop ch (co_height c) c tm = (?c, ?d, ?tm)"
    by (simp add: sq_layoutV_def lay_row_def Let_def case_prod_unfold)
  have q: "0 \<le> ?q" "?q \<le> co_width c" "?q * co_height c = areas (tm_graph tm) ch"
    using row_breadth [OF ok(1) _ pos, of "co_width c"] le by (simp_all add: coords_area_def mult.commute)
  have "laid (tm_graph tm) prop ch (cells (?bx 0 (co_height c))) ?h"
    by (rule row_step [OF divides_down _ ok pos]) (simp add: coords_area_def)
  moreover have "sq_inv ?tm ?d ?c" if "0 < coords_area ?c"
    using coords_area_pos(2) [OF that] pos o by (auto simp: sq_inv_def layout_flags)
  ultimately show ?thesis
    using cut_left [OF q(1,2)] pos q(3) by (simp add: row row_result_def layout_flags(6))
qed

lemma sq_layoutH_laid:
  assumes ok: "row_ok (tm_graph tm) prop ch" "ch \<noteq> []" and le: "areas (tm_graph tm) ch \<le> coords_area c"
    and pos: "0 < co_width c" and o: "layout_vertical tm"
  shows "row_result sq_inv prop ch c tm (sq_layoutH prop ch (co_width c) c tm)"
proof -
  let ?q = "areas (tm_graph tm) ch / co_width c"
  let ?bx = "\<lambda>a l. \<lparr>co_top = co_top c, co_left = co_left c + a, co_width = l, co_height = ?q\<rparr>"
  let ?c = "\<lparr>co_top = co_top c + ?q, co_left = co_left c, co_width = co_width c, co_height = co_height c - ?q\<rparr>"
  let ?h = "fst (lay_row prop ?bx ?q ch (tm_graph tm, 0))" and ?d = "min (co_width c) (co_height c - ?q)"
  let ?tm = "if ?d \<noteq> co_width c then layout_change (tm\<lparr>tm_graph := ?h\<rparr>) else tm\<lparr>tm_graph := ?h\<rparr>"
  have row: "sq_layoutH prop ch (co_width c) c tm = (?c, ?d, ?tm)"
    by (simp add: sq_layoutH_def lay_row_def Let_def case_prod_unfold)
  have q: "0 \<le> ?q" "?q \<le> co_height c" "?q * co_width c = areas (tm_graph tm) ch"
    using row_breadth [OF ok(1) _ pos, of "co_height c"] le by (simp_all add: coords_area_def)
  have "laid (tm_graph tm) prop ch (cells (?bx 0 (co_width c))) ?h"
    by (rule row_step [OF divides_right _ ok pos]) (simp add: coords_area_def)
  moreover have "sq_inv ?tm ?d ?c" if "0 < coords_area ?c"
    using coords_area_pos(1) [OF that] pos o by (auto simp: sq_inv_def layout_flags)
  ultimately show ?thesis
    using cut_top [OF q(1,2)] pos q(3) by (simp add: row row_result_def layout_flags(6))
qed

lemma st_layoutV_laid:
  assumes ok: "row_ok (tm_graph tm) prop ch" "ch \<noteq> []" and le: "areas (tm_graph tm) ch \<le> coords_area c"
    and pos: "0 < co_height c" and o: "\<not> layout_horizontal tm"
  shows "row_result st_inv prop ch c tm (st_layoutV prop ch (co_height c) c tm)"
proof -
  let ?q = "areas (tm_graph tm) ch / co_height c"
  let ?bx = "\<lambda>a l. \<lparr>co_top = co_top c + (co_height c - l - a), co_left = co_left c, co_width = ?q, co_height = l\<rparr>"
  let ?c = "\<lparr>co_top = co_top c, co_left = co_left c + ?q, co_width = co_width c - ?q, co_height = co_height c\<rparr>"
  let ?h = "fst (lay_row prop ?bx ?q ch (tm_graph tm, 0))"
  have row: "st_layoutV prop ch (co_height c) c tm = (?c, co_height c, tm\<lparr>tm_graph := ?h\<rparr>)"
    by (simp add: st_layoutV_def lay_row_def Let_def case_prod_unfold)
  have q: "0 \<le> ?q" "?q \<le> co_width c" "?q * co_height c = areas (tm_graph tm) ch"
    using row_breadth [OF ok(1) _ pos, of "co_width c"] le by (simp_all add: coords_area_def mult.commute)
  have "laid (tm_graph tm) prop ch (cells (?bx 0 (co_height c))) ?h"
    by (rule row_step [OF divides_up _ ok pos]) (simp add: coords_area_def)
  moreover have "st_inv (tm\<lparr>tm_graph := ?h\<rparr>) (co_height c) ?c" if "0 < coords_area ?c"
    using coords_area_pos(2) [OF that] pos o by (simp add: st_inv_def layout_flags)
  ultimately show ?thesis
    using cut_left [OF q(1,2)] pos q(3) by (simp add: row row_result_def)
qed

lemma st_layoutH_laid:
  assumes ok: "row_ok (tm_graph tm) prop ch" "ch \<noteq> []" and le: "areas (tm_graph tm) ch \<le> coords_area c"
    and pos: "0 < co_width c" and o: "layout_horizontal tm"
  shows "row_result st_inv prop ch c tm (st_layoutH prop ch (co_width c) c tm)"
proof -
  let ?q = "areas (tm_graph tm) ch / co_width c"
  let ?bx = "\<lambda>a l. \<lparr>co_top = co_top c + (co_height c - ?q), co_left = co_left c + a, co_width = l, co_height = ?q\<rparr>"
  let ?c = "\<lparr>co_top = co_top c, co_left = co_left c, co_width = co_width c, co_height = co_height c - ?q\<rparr>"
  let ?h = "fst (lay_row prop ?bx ?q ch (tm_graph tm, 0))"
  have row: "st_layoutH prop ch (co_width c) c tm = (?c, co_width c, tm\<lparr>tm_graph := ?h\<rparr>)"
    by (simp add: st_layoutH_def lay_row_def Let_def case_prod_unfold)
  have q: "0 \<le> ?q" "?q \<le> co_height c" "?q * co_width c = areas (tm_graph tm) ch"
    using row_breadth [OF ok(1) _ pos, of "co_height c"] le by (simp_all add: coords_area_def)
  have "laid (tm_graph tm) prop ch (cells (?bx 0 (co_width c))) ?h"
    by (rule row_step [OF divides_right _ ok pos]) (simp add: coords_area_def)
  moreover have "st_inv (tm\<lparr>tm_graph := ?h\<rparr>) (co_width c) ?c" if "0 < coords_area ?c"
    using coords_area_pos(1) [OF that] pos o by (simp add: st_inv_def layout_flags)
  ultimately show ?thesis
    using cut_bottom [OF q(1,2)] pos q(3) by (simp add: row row_result_def)
qed

interpretation sq_rows: rows sq_layoutRow "prop" sq_inv for "prop"
  by unfold_locales (auto simp: sq_inv_def sq_layoutRow_def layout_flags(1) intro: sq_layoutV_laid sq_layoutH_laid)

interpretation st_rows: rows st_layoutRow "prop" st_inv for "prop"
  by unfold_locales (auto simp: st_inv_def st_layoutRow_def intro: st_layoutV_laid st_layoutH_laid)

end
