(* ===== verification/Jit_TreemapTiling.thy ===== *)
theory Jit_TreemapTiling
  imports Jit_Treemap
begin

text \<open>
  The treemap of a whole tree: at every node whose rectangle has room for its title, the
  children tile the rectangle below the title exactly, and the area of each is its share. The
  interface \<open>area_layout\<close> states what the layout of the children of one node promises; the
  recursion over the tree is treated once for it, and the squarified and the strip treemap
  interpret it.
\<close>

section \<open>Areas of the children\<close>

lemma moves_set_area [simp]: "moves g {i} (upd_node i (node_set_prop ''_area'' v) g)"
proof (rule moves_upd_node)
  show "kept_node n (node_set_prop ''_area'' v n)" for n
    by (simp add: kept_node_def node_set_prop_def polar_node_def AList.update_conv')
  show "node_data g (node_set_prop ''_area'' v n) k p = node_data g n k p" for n k p
    by (simp add: node_data_def node_set_prop_def)
qed

lemma moves_fold:
  assumes "\<And>i s. i \<in> set ch \<Longrightarrow> moves (F s) {i} (F (f i s))"
  shows "moves (F s) (set ch) (F (fold f ch s))"
  using assms
proof (induction ch arbitrary: s)
  case (Cons i ch)
  have "moves (F s) {i} (F (f i s))" "moves (F (f i s)) (set ch) (F (fold f ch (f i s)))"
    using Cons by simp_all
  then have "moves (F s) (insert i (set ch)) (F (fold f ch (f i s)))" by (rule moves_trans) auto
  then show ?case by simp
qed simp

lemma set_area_one:
  assumes "hasNode g j"
  shows "area_of (upd_node j (node_set_prop ''_area'' (JNum a)) g) i = (if i = j then a else area_of g i)"
  using assms
  by (cases "getNode g i") (auto simp: area_of_def node_set_prop_def prop_of_update hasNode_getNode)

lemma set_area_fold:
  assumes "distinct ch" "\<forall>i \<in> set ch. hasNode g i"
  shows "area_of (fold (\<lambda>i g. upd_node i (node_set_prop ''_area'' (JNum (a i))) g) ch g) i
    = (if i \<in> set ch then a i else area_of g i)"
  using assms by (induction ch arbitrary: g) (simp_all add: set_area_one)

lemma set_areas_fold:
  "set_areas prop ch c g = fold (\<lambda>i h. upd_node i (node_set_prop ''_area''
     (JNum (co_width c * co_height c * weight g prop i / sum_list (map (weight g prop) ch)))) h) ch g"
  by (simp add: set_areas_def fold_map comp_def)

lemma moves_set_areas: "moves g (set ch) (set_areas prop ch c g)"
  unfolding set_areas_fold by (rule moves_fold [of ch "\<lambda>g. g"]) simp

lemma area_set_areas:
  assumes "distinct ch" "\<forall>i \<in> set ch. hasNode g i" "i \<in> set ch"
  shows "area_of (set_areas prop ch c g) i = coords_area c * weight g prop i / sum_list (map (weight g prop) ch)"
  unfolding set_areas_fold using assms(3) set_area_fold [OF assms(1,2)] by (simp add: coords_area_def)

text \<open>The shares add up to the area of the rectangle.\<close>

lemma shares_sum:
  fixes f :: "id \<Rightarrow> real"
  assumes "sum_list (map f ch) \<noteq> 0"
  shows "sum_list (map (\<lambda>i. a * f i / sum_list (map f ch)) ch) = a"
proof -
  have "sum_list (map (\<lambda>i. a * f i / t) ch) = a * sum_list (map f ch) / t" for t
    by (induction ch) (simp_all add: distrib_left add_divide_distrib)
  then show ?thesis using assms by simp
qed

lemma weights_pos:
  fixes f :: "id \<Rightarrow> real"
  shows "\<forall>i \<in> set ch. 0 < f i \<Longrightarrow> ch \<noteq> [] \<Longrightarrow> 0 < sum_list (map f ch)"
proof (induction ch)
  case (Cons i ch)
  then show ?case by (cases "ch = []") simp_all
qed simp

section \<open>The layout of the children of one node\<close>

text \<open>
  The children can be laid out: they are distinct nodes with positive areas and the rectangle
  has an inside.
\<close>

definition layout_ok :: "graph \<Rightarrow> string \<Rightarrow> id list \<Rightarrow> coords \<Rightarrow> bool" where
  "layout_ok g prop ch c \<longleftrightarrow> distinct ch \<and> ch \<noteq> [] \<and> box_graph g prop \<and> 0 < co_width c \<and> 0 < co_height c
     \<and> (\<forall>i \<in> set ch. hasNode g i \<and> 0 < weight g prop i)"

text \<open>The rectangle is tiled, and each box has its share of its area.\<close>

definition shared_out :: "graph \<Rightarrow> string \<Rightarrow> id list \<Rightarrow> coords \<Rightarrow> bool" where
  "shared_out g prop ch c \<longleftrightarrow> tiles g prop (set ch) (cells c)
     \<and> (\<forall>i \<in> set ch. coords_area (box_of g prop i)
          = coords_area c * weight g prop i / sum_list (map (weight g prop) ch))"

lemma set_areas_row_ok:
  assumes "layout_ok g prop ch c" "mset ch' = mset ch"
  defines "h \<equiv> set_areas prop ch c g"
  shows "row_ok h prop ch'" "areas h ch' = coords_area c"
proof -
  have facts: "moves g (set ch) h" "\<And>i. i \<in> set ch \<Longrightarrow> area_of h i
      = coords_area c * weight g prop i / sum_list (map (weight g prop) ch)"
    unfolding h_def using assms(1) by (simp_all add: layout_ok_def moves_set_areas area_set_areas)
  have same: "set ch' = set ch" "distinct ch'"
    using assms(1,2) by (metis mset_eq_setD, metis layout_ok_def mset_eq_imp_distinct_iff)
  have pos: "0 < sum_list (map (weight g prop) ch)" "0 < coords_area c"
    using assms(1) weights_pos [of ch "weight g prop"] by (simp_all add: layout_ok_def coords_area_def)
  show "row_ok h prop ch'"
    using assms(1) pos same facts movesD(5,6) [OF facts(1)] by (simp add: row_ok_def layout_ok_def)
  have "areas h ch' = sum_list (map (area_of h) ch)"
    unfolding areas_def using assms(2) by (metis mset_map sum_mset_sum_list)
  also have "\<dots> = sum_list (map (\<lambda>i. coords_area c * weight g prop i / sum_list (map (weight g prop) ch)) ch)"
    by (intro arg_cong [of _ _ sum_list] map_cong refl) (rule facts(2))
  also have "\<dots> = coords_area c" using shares_sum pos(1) by simp
  finally show "areas h ch' = coords_area c" .
qed

lemma laid_shared_out:
  assumes "layout_ok g prop ch c" "set ch' = set ch" "laid (set_areas prop ch c g) prop ch' (cells c) k"
  shows "shared_out k prop ch c"
proof -
  have m: "moves g (set ch) (set_areas prop ch c g)" "moves (set_areas prop ch c g) (set ch) k"
    using assms by (simp_all add: moves_set_areas laid_def)
  have "weight k prop = weight g prop" by (simp add: moves_num [OF m(2)] moves_num [OF m(1)])
  then show ?thesis
    using assms by (simp add: shared_out_def laid_def layout_ok_def area_set_areas)
qed

lemma moves_lay_out:
  assumes "\<And>i s. moves (fst s) {i} (fst (f i s))"
  shows "moves g (set ch) (fst (fold f ch (g, off)))"
  using moves_fold [of ch fst f "(g, off)"] assms by simp

lemma row_graphs:
  "tm_graph (snd (snd (sq_layoutV prop ch w c tm))) = fst (fold (\<lambda>i (g, top).
     let h = area_of g i / (areas (tm_graph tm) ch / w)
     in (place_box prop i (co_left c) (co_top c + top) (areas (tm_graph tm) ch / w) h g, top + h)) ch (tm_graph tm, 0))"
  "tm_graph (snd (snd (sq_layoutH prop ch w c tm))) = fst (fold (\<lambda>i (g, left).
     let s = area_of g i / (areas (tm_graph tm) ch / w)
     in (place_box prop i (co_left c + left) (co_top c) s (areas (tm_graph tm) ch / w) g, left + s)) ch (tm_graph tm, 0))"
  by (simp_all add: sq_layoutV_def sq_layoutH_def Let_def case_prod_unfold layout_flags(6))

lemma row_moves:
  "moves (tm_graph tm) (set ch) (tm_graph (snd (snd (sq_layoutRow prop ch w c tm))))"
  "moves (tm_graph tm) (set ch) (tm_graph (snd (snd (st_layoutRow prop ch w c tm))))"
proof -
  show "moves (tm_graph tm) (set ch) (tm_graph (snd (snd (sq_layoutRow prop ch w c tm))))"
    by (cases "layout_horizontal tm")
      (simp_all add: sq_layoutRow_def row_graphs moves_lay_out case_prod_unfold Let_def)
  show "moves (tm_graph tm) (set ch) (tm_graph (snd (snd (st_layoutRow prop ch w c tm))))"
    by (cases "layout_horizontal tm")
      (simp_all add: st_layoutRow_def st_layoutV_def st_layoutH_def moves_lay_out case_prod_unfold Let_def)
qed

lemma row_config:
  "same_config tm (snd (snd (sq_layoutRow prop ch w c tm)))"
  "same_config tm (snd (snd (st_layoutRow prop ch w c tm)))"
  by (simp_all add: sq_layoutRow_def sq_layoutV_def sq_layoutH_def st_layoutRow_def st_layoutV_def st_layoutH_def
      Let_def case_prod_unfold)

lemma computeDim_moves:
  assumes "\<And>ch w c tm. moves (tm_graph tm) (set ch) (tm_graph (snd (snd (layoutRow prop ch w c tm))))"
    "\<And>ch w c tm. same_config tm (snd (snd (layoutRow prop ch w c tm)))"
  shows "moves (tm_graph tm) (set rest \<union> set initElem) (tm_graph (computeDim layoutRow cmp prop rest initElem w c tm))
    \<and> same_config tm (computeDim layoutRow cmp prop rest initElem w c tm)"
proof (induction "2 * length rest + length initElem" arbitrary: rest initElem w c tm rule: less_induct)
  case less
  note row = assms(1) [of tm] and config = assms(2) [of tm]
  consider "rest = []" "initElem = []" | "length rest + length initElem = 1"
    | "length rest + length initElem \<noteq> 1" "initElem @ rest \<noteq> []" by auto
  then show ?case
  proof cases
    case 1
    then show ?thesis by (subst (1 2) computeDim.simps) simp
  next
    case 2
    then show ?thesis
    proof (rule computeDim_last)
      fix i
      assume "initElem @ rest = [i]" "computeDim layoutRow cmp prop rest initElem w c tm = layoutLast prop [i] c tm"
      moreover from this(1) have "set rest \<union> set initElem = {i}" by (metis Un_commute empty_set list.simps(15) set_append)
      ultimately show ?thesis by (simp add: layoutLast_def)
    qed
  next
    case 3
    then show ?thesis
    proof (rule computeDim_step)
      fix i r
      assume ir: "i @ r = initElem @ rest" "i \<noteq> []"
        and small: "2 * length r + length i \<le> 2 * length rest + length initElem"
        and eq: "computeDim layoutRow cmp prop rest initElem w c tm =
          (case r of [] \<Rightarrow> snd (snd (layoutRow prop i w c tm))
           | x # cs \<Rightarrow> if cmp (tm_graph tm) i w \<ge> cmp (tm_graph tm) (x # i) w
               then computeDim layoutRow cmp prop cs (i @ [x]) w c tm
               else (let (c', d, tm) = layoutRow prop i w c tm in computeDim layoutRow cmp prop r [] d c' tm))"
      have A: "set rest \<union> set initElem = set i \<union> set r" using ir(1) by (metis set_append sup_commute)
      obtain c' d tm' where R: "layoutRow prop i w c tm = (c', d, tm')" by (metis prod_cases3)
      have m: "moves (tm_graph tm) (set i) (tm_graph tm')" "same_config tm tm'"
        using row [of i w c] config [of i w c] by (simp_all add: R)
      show ?thesis
      proof (cases r)
        case Nil
        then show ?thesis unfolding A eq R using m by simp
      next
        case (Cons x cs)
        have "moves (tm_graph tm) (set i \<union> set r) (tm_graph (computeDim layoutRow cmp prop cs (i @ [x]) w c tm))
            \<and> same_config tm (computeDim layoutRow cmp prop cs (i @ [x]) w c tm)"
          using less [of cs "i @ [x]" tm w c] small Cons by (simp add: Un_commute)
        moreover have "moves (tm_graph tm) (set i \<union> set r) (tm_graph (computeDim layoutRow cmp prop r [] d c' tm'))
            \<and> same_config tm (computeDim layoutRow cmp prop r [] d c' tm')"
        proof -
          have "moves (tm_graph tm') (set r) (tm_graph (computeDim layoutRow cmp prop r [] d c' tm'))
              \<and> same_config tm' (computeDim layoutRow cmp prop r [] d c' tm')"
            using less [of r "[]" tm' d c'] small ir(2) by (cases i) simp_all
          then show ?thesis using moves_trans [OF m(1)] same_config_trans [OF m(2)] by blast
        qed
        ultimately show ?thesis unfolding A eq R using Cons by (simp add: Let_def)
      qed
    qed
  qed
qed

lemma hd_tl: "xs \<noteq> [] \<Longrightarrow> [hd xs] @ tl xs = xs"
  by simp

lemma sq_process_shared_out:
  assumes ok: "layout_ok (tm_graph tm) prop ch c" and o: "tm_orientation tm \<in> {''h'', ''v''}"
  shows "shared_out (tm_graph (snd (sq_processChildrenLayout prop ch c tm))) prop ch c"
proof -
  let ?g = "tm_graph tm" and ?h = "set_areas prop ch c (tm_graph tm)"
  let ?tm = "tm\<lparr>tm_graph := ?h\<rparr>" and ?ch = "sort_by (compare_area ?h) ch"
  let ?w = "if layout_horizontal ?tm then co_height c else co_width c"
  have ch: "?ch \<noteq> []" using ok by (metis layout_ok_def mset_sort_by mset_zero_iff)
  have row: "row_ok ?h prop ?ch" "areas ?h ?ch = coords_area c" by (simp_all add: set_areas_row_ok [OF ok])
  have "sq_inv ?tm ?w c"
    using ok o by (auto simp: sq_inv_def layout_ok_def layout_horizontal_def layout_vertical_def)
  then have "laid ?h prop ?ch (cells c) (tm_graph (squarify prop (tl ?ch) [hd ?ch] ?w c ?tm))"
    using sq_rows.computeDim_laid [of ?tm ?w c "prop" "[hd ?ch]" "tl ?ch" worstAspectRatio] row ch
    unfolding hd_tl [OF ch] by (simp add: squarify_def)
  then show ?thesis
    using laid_shared_out [OF ok, of ?ch] by (simp add: sq_processChildrenLayout_def Let_def)
qed

lemma st_process_shared_out:
  assumes ok: "layout_ok (tm_graph tm) prop ch c"
  shows "shared_out (tm_graph (st_processChildrenLayout prop ch c tm)) prop ch c"
proof -
  let ?h = "set_areas prop ch c (tm_graph tm)"
  let ?tm = "tm\<lparr>tm_graph := ?h\<rparr>"
  let ?w = "if layout_horizontal ?tm then co_width c else co_height c"
  have ch: "ch \<noteq> []" using ok by (simp add: layout_ok_def)
  have row: "row_ok ?h prop ch" "areas ?h ch = coords_area c" by (simp_all add: set_areas_row_ok [OF ok])
  have "st_inv ?tm ?w c" using ok by (simp add: st_inv_def layout_ok_def)
  then have "laid ?h prop ch (cells c) (tm_graph (stripify prop (tl ch) [hd ch] ?w c ?tm))"
    using st_rows.computeDim_laid [of ?tm ?w c "prop" "[hd ch]" "tl ch" avgAspectRatio] row ch
    unfolding hd_tl [OF ch] by (simp add: stripify_def)
  then show ?thesis
    using laid_shared_out [OF ok, of ch] by (simp add: st_processChildrenLayout_def Let_def)
qed

lemma process_moves:
  assumes "ch \<noteq> []"
  shows "moves (tm_graph tm) (set ch) (tm_graph (snd (sq_processChildrenLayout prop ch c tm)))
      \<and> same_config tm (snd (sq_processChildrenLayout prop ch c tm))"
    "moves (tm_graph tm) (set ch) (tm_graph (st_processChildrenLayout prop ch c tm))
      \<and> same_config tm (st_processChildrenLayout prop ch c tm)"
proof -
  let ?tm = "tm\<lparr>tm_graph := set_areas prop ch c (tm_graph tm)\<rparr>"
  have first: "moves (tm_graph tm) (set ch) (tm_graph ?tm)" "same_config tm ?tm" by (simp_all add: moves_set_areas)
  have step: "moves (tm_graph tm) (set ch) (tm_graph t) \<and> same_config tm t"
    if "moves (tm_graph ?tm) (set rest \<union> set init) (tm_graph t) \<and> same_config ?tm t" "set rest \<union> set init = set ch" for t rest init
    using that moves_trans [OF first(1), of "set rest \<union> set init" "tm_graph t" "set ch"] same_config_trans [OF first(2)] by simp
  have parts: "set (tl xs) \<union> set [hd xs] = set xs" if "xs \<noteq> []" for xs :: "id list"
    using that by (cases xs) simp_all
  have ne: "sort_by (compare_area (tm_graph ?tm)) ch \<noteq> []" using assms by (metis mset_sort_by mset_zero_iff)
  have e: "set (sort_by (compare_area (tm_graph ?tm)) ch) = set ch" by (metis mset_sort_by mset_eq_setD)
  show "moves (tm_graph tm) (set ch) (tm_graph (snd (sq_processChildrenLayout prop ch c tm)))
      \<and> same_config tm (snd (sq_processChildrenLayout prop ch c tm))"
    unfolding sq_processChildrenLayout_def Let_def snd_conv squarify_def
    by (rule step [OF computeDim_moves [OF row_moves(1) row_config(1)]]) (use parts [OF ne] e in simp)
  show "moves (tm_graph tm) (set ch) (tm_graph (st_processChildrenLayout prop ch c tm))
      \<and> same_config tm (st_processChildrenLayout prop ch c tm)"
    unfolding st_processChildrenLayout_def Let_def stripify_def
    by (rule step [OF computeDim_moves [OF row_moves(2) row_config(2)]]) (use parts [OF assms] in simp)
qed

section \<open>The recursion over the tree\<close>

abbreviation below_node :: "graph \<Rightarrow> id \<Rightarrow> id set" where
  "below_node g \<equiv> below_of (children g)"

lemma children_fun: "children g = (\<lambda>a. visited (eachSubnode g a ''ignore''))"
  by (simp add: fun_eq_iff children_def)

lemmas child_levels = sub_levels.below_irrefl [where flags = "''ignore''", folded children_fun children_def]
  sub_levels.siblings_disjoint [where flags = "''ignore''", folded children_fun children_def]
  sub_levels.sibling_not_below [where flags = "''ignore''", folded children_fun children_def]

text \<open>Every node below has room or no claim is made: the boxes at a node in the finished layout.\<close>

definition node_shared :: "graph \<Rightarrow> string \<Rightarrow> id \<Rightarrow> coords \<Rightarrow> graph \<Rightarrow> bool" where
  "node_shared g0 prop v c g \<longleftrightarrow>
     (0 < co_width c \<and> 0 < co_height c \<and> children g0 v \<noteq> [] \<longrightarrow> shared_out g prop (children g0 v) c)"

lemma shared_out_moves:
  assumes "moves g A h" "set ch \<inter> A = {}"
  shows "shared_out h prop ch c = shared_out g prop ch c"
proof -
  have "box_of h prop i = box_of g prop i" if "i \<in> set ch" for i
    using that assms(2) by (intro movesD(4) [OF assms(1)]) auto
  moreover have "weight h prop = weight g prop" by (simp add: moves_num [OF assms(1)])
  ultimately show ?thesis using tiles_cong [of "set ch" h "prop" g] by (simp add: shared_out_def)
qed

lemma inner_coords_moves:
  assumes "moves (tm_graph tm) A (tm_graph tm')" "same_config tm tm'" "v \<notin> A"
  shows "inner_coords prop v tm' = inner_coords prop v tm"
proof -
  have "box_of (tm_graph tm') prop v = box_of (tm_graph tm) prop v" using assms by (intro movesD(4))
  then show ?thesis
    using same_config_fields [OF assms(2)] by (simp add: inner_coords_def box_of_def Let_def)
qed

text \<open>
  What the layout of one level promises: it orders the children, changes their boxes only, and
  shares the rectangle out among them where that is possible; the layout of the tree goes on
  with each child in that order.
\<close>

locale area_layout =
  fixes g0 :: graph
    and pr :: string
    and level :: "id \<Rightarrow> coords \<Rightarrow> treemap \<Rightarrow> id list \<times> treemap"
    and positions :: "id \<Rightarrow> coords \<Rightarrow> treemap \<Rightarrow> treemap"
  assumes positions: "positions node c tm =
      fold (\<lambda>i tm. positions i (inner_coords pr i tm) tm) (fst (level node c tm)) (snd (level node c tm))"
    and level_order: "mset (fst (level node c tm)) = mset (children g0 node)"
    and level_moves: "moves (tm_graph tm) (set (children g0 node)) (tm_graph (snd (level node c tm)))
      \<and> same_config tm (snd (level node c tm))"
    and level_shared: "layout_ok (tm_graph tm) pr (children g0 node) c
      \<Longrightarrow> shared_out (tm_graph (snd (level node c tm))) pr (children g0 node) c"
begin

abbreviation go_on :: "id \<Rightarrow> treemap \<Rightarrow> treemap" where
  "go_on i tm \<equiv> positions i (inner_coords pr i tm) tm"

lemma level_set: "set (fst (level node c tm)) = set (children g0 node)"
  using level_order by (metis mset_eq_setD)

lemma fold_moves:
  assumes "\<And>i tm. i \<in> set is \<Longrightarrow> moves (tm_graph tm) (below_node g0 i) (tm_graph (go_on i tm)) \<and> same_config tm (go_on i tm)"
  shows "moves (tm_graph tm) (\<Union>i \<in> set is. below_node g0 i) (tm_graph (fold go_on is tm)) \<and> same_config tm (fold go_on is tm)"
  using assms
proof (induction "is" arbitrary: tm)
  case (Cons i "is")
  have "moves (tm_graph tm) (below_node g0 i) (tm_graph (go_on i tm))" "same_config tm (go_on i tm)"
    and "moves (tm_graph (go_on i tm)) (\<Union>i \<in> set is. below_node g0 i) (tm_graph (fold go_on is (go_on i tm)))"
      "same_config (go_on i tm) (fold go_on is (go_on i tm))"
    using Cons by simp_all
  then show ?case using moves_trans same_config_trans by (auto intro: moves_trans)
qed simp

lemma positions_moves:
  "moves (tm_graph tm) (below_node g0 node) (tm_graph (positions node c tm)) \<and> same_config tm (positions node c tm)"
proof (induction "card (deeper_nodes g0 node)" arbitrary: node c tm rule: less_induct)
  case less
  let ?s = "level node c tm"
  have "moves (tm_graph (snd ?s)) (\<Union>i \<in> set (fst ?s). below_node g0 i) (tm_graph (fold go_on (fst ?s) (snd ?s)))
      \<and> same_config (snd ?s) (fold go_on (fst ?s) (snd ?s))"
    by (rule fold_moves) (use less children_deeper in \<open>simp add: level_set\<close>)
  moreover have "set (children g0 node) \<subseteq> below_node g0 node" "(\<Union>i \<in> set (fst ?s). below_node g0 i) \<subseteq> below_node g0 node"
    using children_below by (auto simp: level_set below_Union [of "children g0" node])
  ultimately show ?case
    using level_moves [of tm node c] moves_trans [of "tm_graph tm" _ "tm_graph (snd ?s)"] same_config_trans [of tm "snd ?s"]
    unfolding positions [of node c tm] by (metis (no_types, lifting))
qed

lemma fold_shared:
  assumes "one_parent (children g0)" "set is \<subseteq> set (children g0 node)" "distinct is" "P tm"
    and "\<And>i tm. i \<in> set is \<Longrightarrow> P tm \<Longrightarrow> P (go_on i tm)
        \<and> (\<forall>v \<in> insert i (below_node g0 i). node_shared g0 pr v (inner_coords pr v (go_on i tm)) (tm_graph (go_on i tm)))"
    and v: "v \<in> (\<Union>i \<in> set is. insert i (below_node g0 i))"
  shows "node_shared g0 pr v (inner_coords pr v (fold go_on is tm)) (tm_graph (fold go_on is tm))"
  using assms
proof (induction "is" arbitrary: tm)
  case (Cons i "is")
  let ?tm = "go_on i tm"
  let ?out = "fold go_on is ?tm"
  have step: "P ?tm" "\<forall>v \<in> insert i (below_node g0 i). node_shared g0 pr v (inner_coords pr v ?tm) (tm_graph ?tm)"
    using Cons.prems(4,5) by simp_all
  show ?case
  proof (cases "v \<in> (\<Union>j \<in> set is. insert j (below_node g0 j))")
    case True
    then show ?thesis using Cons step(1) by simp
  next
    case False
    then have vi: "v \<in> insert i (below_node g0 i)" using Cons.prems(6) by simp
    let ?B = "\<Union>j \<in> set is. below_node g0 j"
    have m: "moves (tm_graph ?tm) ?B (tm_graph ?out)" "same_config ?tm ?out"
      using fold_moves positions_moves by blast+
    have "insert i (below_node g0 i) \<inter> ?B = {}"
    proof -
      have "insert i (below_node g0 i) \<inter> insert j (below_node g0 j) = {}" if "j \<in> set is" for j
        using that Cons.prems(2,3) by (intro child_levels(2) [OF Cons.prems(1), of i node]) auto
      then show ?thesis by auto
    qed
    moreover have "insert v (set (children g0 v)) \<subseteq> insert i (below_node g0 i)"
      using vi children_below below_trans [of v "children g0" i] by blast
    ultimately have "insert v (set (children g0 v)) \<inter> ?B = {}" by (metis (no_types, lifting) disjoint_iff subsetD)
    then have "v \<notin> ?B" "set (children g0 v) \<inter> ?B = {}" by simp_all
    then have "inner_coords pr v ?out = inner_coords pr v ?tm"
      "shared_out (tm_graph ?out) pr (children g0 v) = shared_out (tm_graph ?tm) pr (children g0 v)"
      using inner_coords_moves [OF m] shared_out_moves [OF m(1)] by (blast, simp add: fun_eq_iff)
    moreover have "node_shared g0 pr v (inner_coords pr v ?tm) (tm_graph ?tm)" using step(2) vi by blast
    ultimately show ?thesis by (simp add: node_shared_def)
  qed
qed simp

text \<open>Areas are positive below the node, in the graph that is laid out and in every later one.\<close>

definition sized :: "id \<Rightarrow> treemap \<Rightarrow> bool" where
  "sized node tm \<longleftrightarrow> box_graph (tm_graph tm) pr
     \<and> (\<forall>v \<in> below_node g0 node. hasNode (tm_graph tm) v \<and> 0 < weight (tm_graph tm) pr v)"

lemma sized_moves: "moves (tm_graph tm) A (tm_graph tm') \<Longrightarrow> sized node tm \<Longrightarrow> sized node tm'"
  using movesD(5,6,7) [of "tm_graph tm" A "tm_graph tm'"] by (simp add: sized_def)

lemma sized_below: "sized node tm \<Longrightarrow> v \<in> below_node g0 node \<Longrightarrow> sized v tm"
  using below_trans by (fastforce simp: sized_def)

lemma positions_shared:
  assumes "one_parent (children g0)" "sized node tm"
  shows "node_shared g0 pr node c (tm_graph (positions node c tm))
    \<and> (\<forall>v \<in> below_node g0 node. node_shared g0 pr v (inner_coords pr v (positions node c tm)) (tm_graph (positions node c tm)))"
  using assms(2)
proof (induction "card (deeper_nodes g0 node)" arbitrary: node c tm rule: less_induct)
  case less
  let ?ch = "children g0 node" and ?s = "level node c tm"
  let ?is = "fst ?s" and ?tm = "snd ?s"
  let ?out = "fold go_on ?is ?tm"
  have "is": "set ?is = set ?ch" "distinct ?is"
    using level_set level_order [of node c tm] assms(1) mset_eq_imp_distinct_iff by (blast, metis one_parent_def)
  have st: "sized node ?tm" using level_moves less.prems sized_moves by blast
  have one: "sized node (go_on i t) \<and> (\<forall>v \<in> insert i (below_node g0 i).
      node_shared g0 pr v (inner_coords pr v (go_on i t)) (tm_graph (go_on i t)))"
    if i: "i \<in> set ?is" and t: "sized node t" for i t
  proof -
    have ch: "i \<in> set ?ch" "i \<in> below_node g0 node" using i "is"(1) children_below by auto
    note m = positions_moves [of t i "inner_coords pr i t"]
    have "inner_coords pr i (go_on i t) = inner_coords pr i t"
      using m by (intro inner_coords_moves) (auto simp: child_levels(1))
    moreover have "node_shared g0 pr i (inner_coords pr i t) (tm_graph (go_on i t))
        \<and> (\<forall>v \<in> below_node g0 i. node_shared g0 pr v (inner_coords pr v (go_on i t)) (tm_graph (go_on i t)))"
      using less.hyps [OF children_deeper [OF ch(1)] sized_below [OF t ch(2)]] .
    ultimately show ?thesis using m t sized_moves by auto
  qed
  have below: "node_shared g0 pr v (inner_coords pr v ?out) (tm_graph ?out)" if "v \<in> below_node g0 node" for v
  proof (rule fold_shared [where P = "sized node" and node = node, OF assms(1) _ "is"(2) st one])
    show "v \<in> (\<Union>i \<in> set ?is. insert i (below_node g0 i))"
      using that by (simp add: "is"(1) flip: below_Union)
  qed (simp_all add: "is"(1))
  have "node_shared g0 pr node c (tm_graph ?tm)"
    unfolding node_shared_def
  proof (intro impI level_shared)
    assume "0 < co_width c \<and> 0 < co_height c \<and> ?ch \<noteq> []"
    then show "layout_ok (tm_graph tm) pr ?ch c"
      using less.prems assms(1) subsetD [OF children_below] by (simp add: layout_ok_def sized_def one_parent_def)
  qed
  moreover have "moves (tm_graph ?tm) (\<Union>i \<in> set ?is. below_node g0 i) (tm_graph ?out)"
    using fold_moves positions_moves by blast
  moreover have "set ?ch \<inter> (\<Union>i \<in> set ?is. below_node g0 i) = {}"
    using child_levels(3) [OF assms(1)] by (fastforce simp: "is"(1))
  ultimately have "node_shared g0 pr node c (tm_graph ?out)"
    using shared_out_moves by (simp add: node_shared_def)
  then show ?case using below unfolding positions [of node c tm] by blast
qed

end

section \<open>The two treemaps\<close>

definition sq_level :: "graph \<Rightarrow> string \<Rightarrow> id \<Rightarrow> coords \<Rightarrow> treemap \<Rightarrow> id list \<times> treemap" where
  "sq_level g0 prop node c tm =
     (let tm = read_children g0 node (tm\<lparr>tm_orientation := if co_width c \<ge> co_height c then ''h'' else ''v''\<rparr>)
      in if children g0 node = [] then ([], tm) else sq_processChildrenLayout prop (children g0 node) c tm)"

definition st_level :: "graph \<Rightarrow> string \<Rightarrow> id \<Rightarrow> coords \<Rightarrow> treemap \<Rightarrow> id list \<times> treemap" where
  "st_level g0 prop node c tm =
     (let tm = read_children g0 node tm
      in (children g0 node,
          if children g0 node = [] then tm else st_processChildrenLayout prop (children g0 node) c tm))"

lemma read_children_moves:
  "moves (tm_graph tm) A (tm_graph (read_children g0 node tm))" "same_config tm (read_children g0 node tm)"
  "tm_orientation (read_children g0 node tm) = tm_orientation tm"
  by (simp_all add: read_children_def)

lemma layout_ok_moves: "moves g A h \<Longrightarrow> layout_ok h prop ch c = layout_ok g prop ch c"
  using movesD(5,6,7) [of g A h] by (simp add: layout_ok_def)

interpretation sq_layout: area_layout g0 "prop" "sq_level g0 prop" "sq_computePositions g0 prop" for g0 "prop"
proof
  fix node tm and c :: coords
  let ?o = "if co_width c \<ge> co_height c then ''h'' else ''v''"
  let ?tm = "read_children g0 node (tm\<lparr>tm_orientation := ?o\<rparr>)" and ?ch = "children g0 node"
  have m: "moves (tm_graph tm) A (tm_graph ?tm)" "same_config tm ?tm" "tm_orientation ?tm = ?o" for A
    using read_children_moves [where tm = "tm\<lparr>tm_orientation := ?o\<rparr>"] same_config_trans same_config_upd(2)
    by (simp add: read_children_def, blast, simp add: read_children_def)
  show "sq_computePositions g0 prop node c tm =
      fold (\<lambda>i tm. sq_computePositions g0 prop i (inner_coords prop i tm) tm)
        (fst (sq_level g0 prop node c tm)) (snd (sq_level g0 prop node c tm))"
    by (subst sq_computePositions.simps) (simp add: sq_level_def Let_def)
  show "mset (fst (sq_level g0 prop node c tm)) = mset ?ch" by (simp add: sq_level_def Let_def)
  show "moves (tm_graph tm) (set ?ch) (tm_graph (snd (sq_level g0 prop node c tm)))
      \<and> same_config tm (snd (sq_level g0 prop node c tm))"
  proof (cases "?ch = []")
    case True
    then show ?thesis using m by (simp add: sq_level_def Let_def)
  next
    case False
    then show ?thesis
      using moves_trans [OF m(1) [of "set ?ch"] conjunct1 [OF process_moves(1) [OF False]] order_refl order_refl, of "prop" c]
        same_config_trans [OF m(2) conjunct2 [OF process_moves(1) [OF False]], of "prop" c]
      by (simp add: sq_level_def Let_def)
  qed
  show "shared_out (tm_graph (snd (sq_level g0 prop node c tm))) prop ?ch c"
    if "layout_ok (tm_graph tm) prop ?ch c"
    using that m(3) sq_process_shared_out [of ?tm "prop" ?ch c] layout_ok_moves [OF m(1)]
    by (simp add: sq_level_def Let_def) (simp add: layout_ok_def)
qed

interpretation st_layout: area_layout g0 "prop" "st_level g0 prop" "st_computePositions g0 prop" for g0 "prop"
proof
  fix node tm and c :: coords
  let ?tm = "read_children g0 node tm" and ?ch = "children g0 node"
  have m: "moves (tm_graph tm) A (tm_graph ?tm)" "same_config tm ?tm" for A by (rule read_children_moves)+
  show "st_computePositions g0 prop node c tm =
      fold (\<lambda>i tm. st_computePositions g0 prop i (inner_coords prop i tm) tm)
        (fst (st_level g0 prop node c tm)) (snd (st_level g0 prop node c tm))"
    by (subst st_computePositions.simps) (simp add: st_level_def Let_def)
  show "mset (fst (st_level g0 prop node c tm)) = mset ?ch" by (simp add: st_level_def Let_def)
  show "moves (tm_graph tm) (set ?ch) (tm_graph (snd (st_level g0 prop node c tm)))
      \<and> same_config tm (snd (st_level g0 prop node c tm))"
  proof (cases "?ch = []")
    case True
    then show ?thesis using m by (simp add: st_level_def Let_def)
  next
    case False
    then show ?thesis
      using moves_trans [OF m(1) [of "set ?ch"] conjunct1 [OF process_moves(2) [OF False]] order_refl order_refl, of "prop" c]
        same_config_trans [OF m(2) conjunct2 [OF process_moves(2) [OF False]], of "prop" c]
      by (simp add: st_level_def Let_def)
  qed
  show "shared_out (tm_graph (snd (st_level g0 prop node c tm))) prop ?ch c"
    if "layout_ok (tm_graph tm) prop ?ch c"
    using that st_process_shared_out [of ?tm "prop" ?ch c] layout_ok_moves [OF m(1)]
    by (simp add: st_level_def Let_def) (simp add: layout_ok_def)
qed

section \<open>Computing the treemap\<close>

text \<open>
  The layout of the classes with rows, on a canvas of the given size: the levels are computed
  from the root of the tree, the layout starts at the node that was clicked last. The
  exception raised for an unknown node or an unknown type of position is \<open>None\<close>.
\<close>

definition layout_root :: "treemap \<Rightarrow> id" where
  "layout_root tm = (case tm_clicked tm of None \<Rightarrow> tm_root tm | Some c \<Rightarrow> c)"

definition canvas_coords :: "real \<times> real \<Rightarrow> treemap \<Rightarrow> coords" where
  "canvas_coords sz tm =
     (let width = fst sz; height = snd sz;
          offwdth = width - tm_offset tm; offhght = height - tm_offset tm
      in \<lparr>co_top = - height / 2 + tm_titleHeight tm, co_left = - width / 2,
          co_width = offwdth, co_height = offhght - tm_titleHeight tm\<rparr>)"

definition area_compute ::
  "(graph \<Rightarrow> string \<Rightarrow> id \<Rightarrow> coords \<Rightarrow> treemap \<Rightarrow> treemap) \<Rightarrow> real \<times> real \<Rightarrow> string \<Rightarrow> treemap \<Rightarrow> treemap option" where
  "area_compute positions sz prop tm =
     (let prop = type_or_current prop; rid = layout_root tm
      in Option.bind (computeLevels (tm_graph tm) (tm_root tm) 0 ''ignore'') (\<lambda>g0.
         Option.bind (getNode g0 rid) (\<lambda>n.
         Option.bind (node_getPos n prop) (\<lambda>_.
           let g = place_box prop rid (- fst sz / 2) (- snd sz / 2) (fst sz) (snd sz) g0
           in Some (positions g0 prop rid (canvas_coords sz tm) (tm\<lparr>tm_graph := g\<rparr>))))))"

definition sq_compute :: "real \<times> real \<Rightarrow> string \<Rightarrow> treemap \<Rightarrow> treemap option" where
  "sq_compute = area_compute sq_computePositions"

definition st_compute :: "real \<times> real \<Rightarrow> string \<Rightarrow> treemap \<Rightarrow> treemap option" where
  "st_compute = area_compute st_computePositions"

definition areas_positive :: "graph \<Rightarrow> string \<Rightarrow> id \<Rightarrow> bool" where
  "areas_positive g prop rid \<longleftrightarrow> list_all (\<lambda>v. v = rid \<or> 0 < weight g prop v) (map fst (g_nodes g))"

lemma sized_start:
  assumes "box_graph g0 prop" "areas_positive g0 prop rid" "moves g0 A (tm_graph tm)"
  shows "area_layout.sized g0 prop rid tm"
proof -
  have "hasNode g0 v \<and> 0 < weight g0 prop v" if v: "v \<in> below_node g0 rid" for v
  proof -
    obtain a where "v \<in> set (children g0 a)"
      using v by (auto simp: below_of_def sub_step_def elim: tranclE)
    then have h: "hasNode g0 v" using children_hasNode by (fastforce simp: hasNode_getNode)
    moreover have "v \<noteq> rid" using v child_levels(1) by blast
    ultimately show ?thesis using assms(2) by (auto simp: areas_positive_def list_all_iff hasNode_def)
  qed
  then show ?thesis using assms(1) movesD(5,6,7) [OF assms(3)] by (simp add: sq_layout.sized_def)
qed

lemma area_compute_runs:
  assumes "computeLevels (tm_graph tm) (tm_root tm) 0 ''ignore'' = Some g0" "hasNode g0 (layout_root tm)"
    and "box_graph g0 prop"
  obtains g where "moves g0 {layout_root tm} g"
    "area_compute P sz prop tm = Some (P g0 prop (layout_root tm) (canvas_coords sz tm) (tm\<lparr>tm_graph := g\<rparr>))"
proof -
  obtain n where n: "getNode g0 (layout_root tm) = Some n" using assms(2) by (auto simp: hasNode_getNode)
  moreover have "type_or_current prop = prop" "\<exists>p. node_getPos n prop = Some p"
    using assms(3) by (auto simp: box_graph_def type_or_current_def node_getPos_def)
  ultimately show ?thesis
    using that [OF moves_place] assms(1) by (auto simp: area_compute_def Let_def)
qed

section \<open>Properties\<close>

definition three_boxes :: treemap where
  "three_boxes =
     (let spec = (\<lambda>i a. \<lparr>s_id = i, s_name = [], s_data = [(''$area'', JNum a)]\<rparr>);
          g = initialize \<lparr>go_complex = True, go_Node = []\<rparr> [(''overridable'', JBool True)] [] [];
          g = fst (addAdjacence (spec ''r'' 1) (spec ''a'' 1) [] g);
          g = fst (addAdjacence (spec ''r'' 1) (spec ''b'' 2) [] g);
          g = fst (addAdjacence (spec ''r'' 1) (spec ''c'' 1) [] g)
      in \<lparr>tm_graph = g, tm_root = ''r'', tm_clicked = None, tm_orientation = ''h'', tm_titleHeight = 0,
          tm_offset = 0, tm_levelsToShow = 0, tm_busy = False\<rparr>)"

definition three_boxes_levels :: graph where
  "three_boxes_levels = the (computeLevels (tm_graph three_boxes) ''r'' 0 ''ignore'')"

text \<open>
  C9: the squarified layout of a tree with positive areas returns, and at the node it starts
  from and at every node below it whose rectangle has an inside below its title, the boxes of
  the children tile that rectangle: every point of it is in the box of exactly one child and no
  box reaches out of it, and the area of each box is the share of its node in the area of the
  rectangle.
\<close>

theorem squarified_tiles:
  assumes "computeLevels (tm_graph tm) (tm_root tm) 0 ''ignore'' = Some g0" "hasNode g0 (layout_root tm)"
    and "box_graph g0 prop" "tree_shaped g0 ''ignore''" "areas_positive g0 prop (layout_root tm)"
  shows "\<exists>tm'. sq_compute sz prop tm = Some tm'
    \<and> node_shared g0 prop (layout_root tm) (canvas_coords sz tm) (tm_graph tm')
    \<and> (\<forall>v \<in> below_node g0 (layout_root tm). node_shared g0 prop v (inner_coords prop v tm') (tm_graph tm'))"
proof -
  obtain g where g: "moves g0 {layout_root tm} g" "sq_compute sz prop tm
      = Some (sq_computePositions g0 prop (layout_root tm) (canvas_coords sz tm) (tm\<lparr>tm_graph := g\<rparr>))"
    unfolding sq_compute_def using assms(1-3) by (rule area_compute_runs)
  then have "area_layout.sized g0 prop (layout_root tm) (tm\<lparr>tm_graph := g\<rparr>)"
    using assms(3,5) by (intro sized_start) simp_all
  then show ?thesis
    using sq_layout.positions_shared [OF tree_shaped_one_parent [OF assms(4), folded children_fun]] g(2) by blast
qed

text \<open>
  The strip layout of a tree with positive areas returns and tiles the rectangle of every
  node in the same way.
\<close>

lemma strip_tiles:
  assumes "computeLevels (tm_graph tm) (tm_root tm) 0 ''ignore'' = Some g0" "hasNode g0 (layout_root tm)"
    and "box_graph g0 prop" "tree_shaped g0 ''ignore''" "areas_positive g0 prop (layout_root tm)"
  shows "\<exists>tm'. st_compute sz prop tm = Some tm'
    \<and> node_shared g0 prop (layout_root tm) (canvas_coords sz tm) (tm_graph tm')
    \<and> (\<forall>v \<in> below_node g0 (layout_root tm). node_shared g0 prop v (inner_coords prop v tm') (tm_graph tm'))"
proof -
  obtain g where g: "moves g0 {layout_root tm} g" "st_compute sz prop tm
      = Some (st_computePositions g0 prop (layout_root tm) (canvas_coords sz tm) (tm\<lparr>tm_graph := g\<rparr>))"
    unfolding st_compute_def using assms(1-3) by (rule area_compute_runs)
  then have "area_layout.sized g0 prop (layout_root tm) (tm\<lparr>tm_graph := g\<rparr>)"
    using assms(3,5) by (intro sized_start) simp_all
  then show ?thesis
    using st_layout.positions_shared [OF tree_shaped_one_parent [OF assms(4), folded children_fun]] g(2) by blast
qed

lemma three_boxes_facts:
  "computeLevels (tm_graph three_boxes) ''r'' 0 ''ignore'' = Some three_boxes_levels"
  "box_graph three_boxes_levels ''current''" "tree_shaped three_boxes_levels ''ignore''" "hasNode three_boxes_levels ''r''"
  "areas_positive three_boxes_levels ''current'' ''r''"
  "children three_boxes_levels ''r'' = [''a'', ''b'', ''c'']"
  "layout_root three_boxes = ''r''" "tm_root three_boxes = ''r''"
  "canvas_coords (4, 2) three_boxes = \<lparr>co_top = -1, co_left = -2, co_width = 4, co_height = 2\<rparr>"
  by (code_simp; fail)+

theorem squarified_tiles_witness:
  "\<exists>tm'. sq_compute (4, 2) ''current'' three_boxes = Some tm'
    \<and> tiles (tm_graph tm') ''current'' {''a'', ''b'', ''c''} (cells \<lparr>co_top = -1, co_left = -2, co_width = 4, co_height = 2\<rparr>)"
  using squarified_tiles [of three_boxes three_boxes_levels "''current''" "(4, 2)"]
  by (auto simp: three_boxes_facts node_shared_def shared_out_def)

end
