(* ===== verification/Jit_TreemapRatios.thy ===== *)
theory Jit_TreemapRatios
  imports Jit_TreemapTiling
begin

text \<open>
  How the treemaps rate a row: the rating of the squarified treemap is the worst aspect ratio
  among the boxes the row would get; the rating of the strip treemap is the average of the
  aspect ratios its nodes would have in rows of their own.
\<close>

definition aspect_ratio :: "coords \<Rightarrow> real" where
  "aspect_ratio c = max (co_width c / co_height c) (co_height c / co_width c)"

section \<open>The boxes of a row\<close>

lemma lay_row_boxes:
  assumes "row_ok g prop ch" "i \<in> set ch"
  shows "\<exists>a. box_of (fst (lay_row prop bx q ch (g, off))) prop i = bx a (area_of g i / q)"
  using assms
proof (induction ch arbitrary: g off)
  case (Cons j ch)
  let ?b = "bx off (area_of g j / q)"
  let ?h = "place_box prop j (co_left ?b) (co_top ?b) (co_width ?b) (co_height ?b) g"
  have step: "lay_row prop bx q (j # ch) (g, off) = lay_row prop bx q ch (?h, off + area_of g j / q)"
    by (simp add: lay_row_def Let_def)
  have ok: "row_ok ?h prop ch" using Cons.prems row_ok_moves [OF moves_place area_of_place] by simp
  show ?case
  proof (cases "i \<in> set ch")
    case True
    then show ?thesis using Cons.IH [OF ok True] unfolding step by simp
  next
    case False
    have "moves ?h (set ch) (fst (lay_row prop bx q ch (?h, off + area_of g j / q)))"
      unfolding lay_row_def by (rule moves_lay_out) (simp add: case_prod_unfold Let_def)
    then have "box_of (fst (lay_row prop bx q (j # ch) (g, off))) prop i = box_of ?h prop i"
      unfolding step using False by (rule movesD(4))
    also have "\<dots> = ?b" using Cons.prems False by (cases ?b) (auto simp: box_of_place row_ok_def)
    finally show ?thesis using Cons.prems False by auto
  qed
qed simp

lemma sq_row_sizes:
  assumes "row_ok (tm_graph tm) prop ch" "i \<in> set ch" and row: "sq_layoutRow prop ch w c tm = (c', d, tm')"
  defines "q \<equiv> areas (tm_graph tm) ch / w" and "l \<equiv> area_of (tm_graph tm) i / (areas (tm_graph tm) ch / w)"
  shows "aspect_ratio (box_of (tm_graph tm') prop i) = max (q / l) (l / q)"
proof -
  let ?V = "\<lambda>a l. \<lparr>co_top = co_top c + a, co_left = co_left c, co_width = q, co_height = l\<rparr>"
  let ?H = "\<lambda>a l. \<lparr>co_top = co_top c, co_left = co_left c + a, co_width = l, co_height = q\<rparr>"
  have "tm_graph tm' = fst (lay_row prop (if layout_horizontal tm then ?V else ?H) q ch (tm_graph tm, 0))"
    using arg_cong [OF row, of "\<lambda>r. tm_graph (snd (snd r))"]
    by (auto simp: sq_layoutRow_def row_graphs lay_row_def q_def Let_def)
  then have "\<exists>a. box_of (tm_graph tm') prop i = (if layout_horizontal tm then ?V else ?H) a l"
    using lay_row_boxes [OF assms(1,2)] unfolding l_def q_def [symmetric] by simp
  then show ?thesis by (auto simp: aspect_ratio_def max.commute split: if_splits)
qed

lemma st_single_size:
  assumes "box_graph (tm_graph tm) prop" "hasNode (tm_graph tm) i" "0 < area_of (tm_graph tm) i"
  shows "aspect_ratio (box_of (tm_graph (snd (snd (st_layoutRow prop [i] w c tm)))) prop i)
    = max (area_of (tm_graph tm) i / w / w) (w / (area_of (tm_graph tm) i / w))"
  using assms
  by (cases "w = 0"; cases "layout_horizontal tm")
    (simp_all add: st_layoutRow_def st_layoutV_def st_layoutH_def Let_def box_of_place aspect_ratio_def max.commute)

section \<open>The worst ratio\<close>

lemma area_fold:
  "foldl (\<lambda>(s, mn, mx) i. let a = area_of g i
      in (s + a, if mn < a then mn else a, if mx > a then mx else a)) (s, mn, mx) ch
   = (s + areas g ch, Min (insert mn (area_of g ` set ch)), Max (insert mx (area_of g ` set ch)))"
proof (induction ch arbitrary: s mn mx)
  case (Cons i ch)
  let ?A = "area_of g ` set ch"
  have "Min (insert (if mn < area_of g i then mn else area_of g i) ?A) = Min (insert mn (insert (area_of g i) ?A))"
    "Max (insert (if mx > area_of g i then mx else area_of g i) ?A) = Max (insert mx (insert (area_of g i) ?A))"
    by (cases "?A = {}"; auto simp: min_def max_def)+
  then show ?case
    by (simp only: foldl_Cons prod.case Let_def Cons.IH [unfolded Let_def] areas_simps list.set image_insert add.assoc)
qed simp

text \<open>A function that is \<open>x\<close> or its inverse is largest at the largest or at the smallest argument.\<close>

lemma Max_ratio:
  fixes A :: "real set"
  assumes "finite A" "A \<noteq> {}" "\<forall>a \<in> A. 0 < a" "0 < k"
  shows "Max ((\<lambda>a. max (k * a) (1 / (k * a))) ` A) = max (k * Max A) (1 / (k * Min A))"
proof (rule Max_eqI)
  have pos: "0 < Min A" "0 < Max A" using assms(1,2,3) by simp_all
  show "y \<le> max (k * Max A) (1 / (k * Min A))" if y: "y \<in> (\<lambda>a. max (k * a) (1 / (k * a))) ` A" for y
  proof -
    obtain a where a: "a \<in> A" "y = max (k * a) (1 / (k * a))" using y by blast
    then have "Min A \<le> a" "a \<le> Max A" using assms(1) by simp_all
    then have "k * a \<le> k * Max A" "1 / (k * a) \<le> 1 / (k * Min A)"
      using assms(4) pos by (simp_all add: frac_le)
    then show ?thesis unfolding a(2) by linarith
  qed
  have in_A: "Max A \<in> A" "Min A \<in> A" using assms(1,2) by simp_all
  show "max (k * Max A) (1 / (k * Min A)) \<in> (\<lambda>a. max (k * a) (1 / (k * a))) ` A"
  proof (cases "k * Max A \<ge> 1 / (k * Min A)")
    case True
    have "1 / (k * Max A) \<le> 1 / (k * Min A)" using assms(1,2,4) pos in_A by (intro frac_le) simp_all
    then show ?thesis using in_A(1) True by (intro image_eqI [of _ _ "Max A"]) auto
  next
    case False
    have "k * Min A \<le> k * Max A" using assms(1,4) in_A by simp
    then show ?thesis using in_A(2) False by (intro image_eqI [of _ _ "Min A"]) auto
  qed
qed (use assms(1) in simp)

section \<open>Properties\<close>

definition row_example :: treemap where
  "row_example = three_boxes\<lparr>tm_graph := set_areas ''current'' [''a'', ''b'', ''c'']
     \<lparr>co_top = 0, co_left = 0, co_width = 4, co_height = 2\<rparr> (tm_graph three_boxes)\<rparr>"

lemma row_example_ok:
  "row_ok (tm_graph row_example) ''current'' [''a'', ''b'']"
  "area_of (tm_graph row_example) ''a'' = 2" "area_of (tm_graph row_example) ''b'' = 4"
  by (code_simp; fail)+

text \<open>
  C23: the number by which the squarified treemap rates a row is the worst aspect ratio of the
  boxes the nodes of the row get when the row is laid out, whatever the orientation and the
  rectangle.
\<close>

theorem worst_ratio_of_row:
  assumes "row_ok (tm_graph tm) prop ch" "ch \<noteq> []" "0 < w"
    and "\<forall>i \<in> set ch. area_of (tm_graph tm) i \<le> Number_MAX_VALUE"
    and "sq_layoutRow prop ch w c tm = (c', d, tm')"
  shows "worstAspectRatio (tm_graph tm) ch w = Max ((\<lambda>i. aspect_ratio (box_of (tm_graph tm') prop i)) ` set ch)"
proof -
  let ?g = "tm_graph tm"
  let ?A = "area_of ?g ` set ch" and ?S = "areas ?g ch"
  let ?k = "w * w / (?S * ?S)"
  have S: "0 < ?S" using assms(1,2) by (rule areas_pos)
  have A: "finite ?A" "?A \<noteq> {}" "\<forall>a \<in> ?A. 0 < a" using assms(1,2) by (auto simp: row_ok_def)
  have k: "0 < ?k" using S assms(3) by simp
  have "Min (insert Number_MAX_VALUE ?A) = Min ?A" "Max (insert 0 ?A) = Max ?A"
  proof -
    have "Min ?A \<in> ?A" "Max ?A \<in> ?A" using A(1,2) by (rule Min_in, intro Max_in A)
    then have "Min ?A \<le> Number_MAX_VALUE" "0 \<le> Max ?A" using A(3) assms(4) by (auto intro: less_imp_le)
    then show "Min (insert Number_MAX_VALUE ?A) = Min ?A" "Max (insert 0 ?A) = Max ?A" using A(1,2) by simp_all
  qed
  then have "worstAspectRatio ?g ch w = max (w * w * Max ?A / (?S * ?S)) (?S * ?S / (w * w * Min ?A))"
    using assms(2) unfolding worstAspectRatio_def area_fold by (simp add: Let_def del: Min_insert Max_insert)
  also have "\<dots> = max (?k * Max ?A) (1 / (?k * Min ?A))" by simp
  also have "\<dots> = Max ((\<lambda>a. max (?k * a) (1 / (?k * a))) ` ?A)" using Max_ratio [OF A k] by simp
  also have "\<dots> = Max ((\<lambda>i. aspect_ratio (box_of (tm_graph tm') prop i)) ` set ch)"
  proof (intro arg_cong [of _ _ Max])
    have "max (?k * area_of ?g i) (1 / (?k * area_of ?g i)) = aspect_ratio (box_of (tm_graph tm') prop i)"
      if "i \<in> set ch" for i
      using sq_row_sizes [OF assms(1) that assms(5)] S assms(3) by (simp add: max.commute mult.commute)
    then show "(\<lambda>a. max (?k * a) (1 / (?k * a))) ` ?A = (\<lambda>i. aspect_ratio (box_of (tm_graph tm') prop i)) ` set ch"
      unfolding image_image by (rule image_cong [OF refl])
  qed
  finally show ?thesis .
qed

theorem worst_ratio_of_row_witness:
  "worstAspectRatio (tm_graph row_example) [''a'', ''b''] 2 =
     Max ((\<lambda>i. aspect_ratio (box_of (tm_graph (snd (snd (sq_layoutRow ''current'' [''a'', ''b''] 2
       \<lparr>co_top = 0, co_left = 0, co_width = 4, co_height = 2\<rparr> row_example)))) ''current'' i)) ` {''a'', ''b''})"
  using worst_ratio_of_row [OF row_example_ok(1), of 2] MAX_VALUE_large
  by (simp add: row_example_ok prod_eq_iff)

text \<open>
  The number by which the strip treemap rates a row is the average of the aspect ratios
  its nodes would have if each were laid out in a row of its own, not of the boxes they get in
  the row.
\<close>

lemma strip_rates_nodes_alone:
  assumes "row_ok (tm_graph tm) prop ch" "ch \<noteq> []" "0 < w"
  shows "avgAspectRatio (tm_graph tm) ch w =
    sum_list (map (\<lambda>i. aspect_ratio (box_of (tm_graph (snd (snd (st_layoutRow prop [i] w c tm)))) prop i)) ch)
      / real (length ch)"
proof -
  let ?g = "tm_graph tm"
  have ratio: "(if w > area_of ?g i / w then w / (area_of ?g i / w) else area_of ?g i / w / w)
      = aspect_ratio (box_of (tm_graph (snd (snd (st_layoutRow prop [i] w c tm)))) prop i)" if "i \<in> set ch" for i
  proof -
    have a: "0 < area_of ?g i" "hasNode ?g i" "box_graph ?g prop" using assms(1) that by (simp_all add: row_ok_def)
    have "area_of ?g i / w / w \<le> w / (area_of ?g i / w) \<longleftrightarrow> area_of ?g i \<le> w * w"
      using a(1) assms(3) abs_le_square_iff [of "area_of ?g i" "w * w"] by (simp add: field_simps power2_eq_square)
    then show ?thesis
      using assms(3) a by (auto simp: st_single_size max_def divide_less_eq less_divide_eq)
  qed
  have "foldl (\<lambda>s i. s + f i) r xs = r + sum_list (map f xs)" for f r and xs :: "id list"
    by (induction xs arbitrary: r) (simp_all add: add.assoc)
  note sum = this
  show ?thesis
    using assms(2) map_cong [OF refl ratio, of ch]
    by (simp only: avgAspectRatio_def Let_def sum if_False add_0)
qed

end
