(* ===== verification/Jit_Slices.thy ===== *)
theory Jit_Slices
  imports Jit_TreemapTiling
begin

text \<open>
  The slice and dice treemap and the icicle (\<^verbatim>\<open>rfweb/js/jit/jit.js\<close>, \<^verbatim>\<open>Layouts.TM.SliceAndDice\<close>,
  \<^verbatim>\<open>Layouts.Icicle\<close>): the nodes of the next level cut a rectangle into slices, one after the
  other. In the treemap it is the rectangle of the node below its title, cut in a direction
  that changes with the level; in the icicle it is the rectangle beside the node or below it.
  The loop over the slices is treated once for the two (\<open>slices_tile\<close>).
\<close>

section \<open>Slice and dice\<close>

text \<open>The loop passes the nodes while the traversal turns the adjacencies, as its events say.\<close>

function sd_computePositions :: "real \<Rightarrow> graph \<Rightarrow> string \<Rightarrow> id \<Rightarrow> id \<Rightarrow> string \<Rightarrow> graph \<Rightarrow> graph" where
  "sd_computePositions titleHeight g0 prop par ch orn g =
     (let g = level_graph (eachSubnode g0 par []) g;
          totalArea = sum_list (map (weight g prop) (visited (eachSubnode g0 par [])));
          width = node_num g prop ''width'' par;
          height = node_num g prop ''height'' par - titleHeight;
          fact = (if par = ch then 1 else weight g prop ch / totalArea);
          horizontal = (orn = ''h'');
          otherSize = (if horizontal then height else height * fact);
          sz = (if horizontal then width * fact else width);
          g = upd_node ch (set_size prop sz otherSize) g
      in fst (fold (\<lambda>e (g, offsetSize).
           case e of
             Orient a r \<Rightarrow> (orient a r g, offsetSize)
           | Visit n d \<Rightarrow>
               (let cpos = node_xy g prop ch;
                    x = (if horizontal then c_x cpos else offsetSize + c_x cpos);
                    y = (if horizontal then offsetSize + c_y cpos + titleHeight else c_y cpos + titleHeight);
                    g = upd_node n (node_setc x y prop) g;
                    g = sd_computePositions titleHeight g0 prop ch n (if horizontal then ''v'' else ''h'') g
                in (g, offsetSize + node_num g prop (if horizontal then ''height'' else ''width'') n)))
         (eachSubnode g0 ch []) (g, 0)))"
  by pat_completeness auto
termination sd_computePositions
  by (relation "measure (\<lambda>(_, g0, _, _, ch, _, _). card (deeper_nodes g0 ch))")
    (auto intro: subnodes_deeper visit_visited)

declare sd_computePositions.simps [simp del]

definition sd_compute :: "real \<times> real \<Rightarrow> string \<Rightarrow> treemap \<Rightarrow> treemap option" where
  "sd_compute sz prop tm =
     (let prop = type_or_current prop; rid = layout_root tm
      in Option.bind (computeLevels (tm_graph tm) (tm_root tm) 0 ''ignore'') (\<lambda>g0.
         Option.bind (getNode g0 rid) (\<lambda>n.
         Option.bind (node_getPos n prop) (\<lambda>_.
           let g = place_box prop rid (- fst sz / 2) (- snd sz / 2) (fst sz) (snd sz + tm_titleHeight tm) g0
           in Some (tm\<lparr>tm_graph := sd_computePositions (tm_titleHeight tm) g0 prop rid rid (tm_orientation tm) g\<rparr>)))))"

section \<open>The icicle\<close>

function computeSubtree ::
  "bool \<Rightarrow> graph \<Rightarrow> string \<Rightarrow> id \<Rightarrow> real \<Rightarrow> real \<Rightarrow> real \<Rightarrow> real \<Rightarrow> graph \<Rightarrow> graph" where
  "computeSubtree horizontal g0 posType node x y width height g =
     (let g = place_box posType node x y width height g;
          g = level_graph (eachSubnode g0 node []) g;
          kids = visited (eachSubnode g0 node [])
      in if kids = [] then g
         else
           (let totalDim = sum_list (map (node_num g ''current'' ''dim'') kids)
            in fst (fold (\<lambda>k (g, off).
                 if horizontal then
                   (let nodeLength = height * node_num g ''current'' ''dim'' k / totalDim
                    in (computeSubtree horizontal g0 posType k (x + width) (y + off) width nodeLength g, off + nodeLength))
                 else
                   (let nodeLength = width * node_num g ''current'' ''dim'' k / totalDim
                    in (computeSubtree horizontal g0 posType k (x + off) (y + height) nodeLength height g, off + nodeLength)))
               kids (g, 0))))"
  by pat_completeness auto
termination computeSubtree
  by (relation "measure (\<lambda>(_, g0, _, node, _). card (deeper_nodes g0 node))") (auto intro: subnodes_deeper)

declare computeSubtree.simps [simp del]

text \<open>The state of the icicle that its layout reads.\<close>

record icicle =
  ic_graph :: graph
  ic_root :: id
  ic_clicked :: "id option"
  ic_orientation :: string
  ic_constrained :: bool
  ic_levelsToShow :: real

definition tree_depth :: "graph \<Rightarrow> id \<Rightarrow> int" where
  "tree_depth g rid = foldl (\<lambda>t d. if d > t then d else t) 0
     (map (\<lambda>i. case depth_of g i of None \<Rightarrow> 0 | Some d \<Rightarrow> d) (visited (eachLevel g rid 0 None [])))"

text \<open>
  A division by zero, of the canvas among no level when none is to be shown, gives an infinite
  size in the code and an unspecified one here.
\<close>

definition icicle_compute :: "real \<times> real \<Rightarrow> string \<Rightarrow> icicle \<Rightarrow> icicle option" where
  "icicle_compute sz posType ic =
     (let posType = type_or_current posType;
          width = fst sz; height = snd sz;
          levelsToShow = (if ic_constrained ic then ic_levelsToShow ic else Number_MAX_VALUE);
          start = (case ic_clicked ic of None \<Rightarrow> ic_root ic | Some c \<Rightarrow> c)
      in Option.bind (computeLevels (ic_graph ic) (ic_root ic) 0 ''ignore'') (\<lambda>g0.
         Option.bind (getNode g0 start) (\<lambda>n.
         Option.bind (node_getPos n posType) (\<lambda>_.
           let g = level_graph (eachLevel g0 (ic_root ic) 0 None []) g0;
               maxDepth = min (of_int (tree_depth g0 (ic_root ic))) (levelsToShow - 1)
           in Some (ic\<lparr>ic_graph :=
                if ic_orientation ic = ''h''
                then computeSubtree True g0 posType start (- width / 2) (- height / 2) (js_quot width (maxDepth + 1)) height g
                else computeSubtree False g0 posType start (- width / 2) (- height / 2) width (js_quot height (maxDepth + 1)) g\<rparr>)))))"

section \<open>The loop over the slices\<close>

lemma moves_then_orient: "moves g A h \<Longrightarrow> moves g A (orient b r h)"
  by (rule moves_trans [OF _ moves_orient [of h "{}"]]) auto

lemma ball_conj_right: "\<forall>k \<in> A. P k \<and> Q k \<Longrightarrow> \<forall>k \<in> A. Q k"
  by blast

definition slice_event :: "(id \<Rightarrow> graph \<times> real \<Rightarrow> graph \<times> real) \<Rightarrow> level_event \<Rightarrow> graph \<times> real \<Rightarrow> graph \<times> real" where
  "slice_event f e s = (case e of Orient b r \<Rightarrow> (orient b r (fst s), snd s) | Visit k d \<Rightarrow> f k s)"

text \<open>
  One step of the loop lays out a node and what is below it as the next slice; \<open>P\<close> is kept by
  the steps, and \<open>Q k\<close> says of a node that was passed what later slices do not change.
\<close>

context leveled_kids
begin

lemma slices_tile:
  fixes pr :: string and P :: "graph \<Rightarrow> bool" and len :: "id \<Rightarrow> real" and f g es
  assumes tree: "one_parent K"
    and slices: "divides bx"
    and kept_orient: "\<And>g b r. P g \<Longrightarrow> P (orient b r g)"
    and step: "\<And>k g off. k \<in> set (K a) \<Longrightarrow> P g \<Longrightarrow> snd (f k (g, off)) = off + len k \<and> P (fst (f k (g, off)))
        \<and> moves g (insert k (below_of K k)) (fst (f k (g, off)))
        \<and> box_of (fst (f k (g, off))) pr k = bx off (len k) \<and> Q k (fst (f k (g, off)))"
    and stable: "\<And>k g A h. Q k g \<Longrightarrow> moves g A h \<Longrightarrow> A \<inter> insert k (below_of K k) = {} \<Longrightarrow> Q k h"
    and es: "set (visited es) \<subseteq> set (K a)" "distinct (visited es)" "P g"
  defines "r \<equiv> \<lambda>off. fst (fold (slice_event f) es (g, off))"
  shows "moves g (\<Union>k \<in> set (visited es). insert k (below_of K k)) (r off) \<and> P (r off)
    \<and> ((\<forall>k \<in> set (K a). 0 \<le> len k) \<longrightarrow>
         tiles (r off) pr (set (visited es)) (cells (bx off (sum_list (map len (visited es))))))
    \<and> (\<forall>k \<in> set (visited es). Q k (r off) \<and> (\<exists>b. box_of (r off) pr k = bx b (len k)))"
  using es unfolding r_def
proof (induction es arbitrary: g off rule: visited.induct)
  case 1
  then show ?case using slices by (simp add: divides_def)
next
  case (3 b r es)
  have "P (orient b r g)" using kept_orient 3(4) .
  then show ?case
    using "3.IH" [of "orient b r g" off] 3(2,3) moves_trans [OF moves_orient [of g "{}" b r]]
    by (simp add: slice_event_def) blast
next
  case (2 k d es)
  let ?h = "fst (f k (g, off))" and ?ks = "visited es"
  let ?m = "sum_list (map len ?ks)" and ?out = "fst (fold (slice_event f) es (?h, off + len k))"
  let ?B = "\<Union>k \<in> set ?ks. insert k (below_of K k)"
  have ks: "k \<in> set (K a)" "set ?ks \<subseteq> set (K a)" "k \<notin> set ?ks" "distinct ?ks" using 2(2,3) by simp_all
  have first: "f k (g, off) = (?h, off + len k)" "P ?h" "moves g (insert k (below_of K k)) ?h"
    "box_of ?h pr k = bx off (len k)" "Q k ?h"
    using step [OF ks(1) 2(4), of off] by (simp_all add: prod_eq_iff)
  have IH: "moves ?h ?B ?out" "P ?out" "(\<forall>k \<in> set (K a). 0 \<le> len k) \<longrightarrow> tiles ?out pr (set ?ks) (cells (bx (off + len k) ?m))"
    "\<forall>j \<in> set ?ks. Q j ?out \<and> (\<exists>b. box_of ?out pr j = bx b (len j))"
    using "2.IH" [OF ks(2,4) first(2), of "off + len k"] by blast+
  have "insert k (below_of K k) \<inter> insert j (below_of K j) = {}" if "j \<in> set ?ks" for j
    using that ks by (intro siblings_disjoint [OF tree, of k a]) auto
  then have apart: "?B \<inter> insert k (below_of K k) = {}" by blast
  then have "k \<notin> ?B" by blast
  then have box: "box_of ?out pr k = bx off (len k)" using movesD(4) [OF IH(1)] first(4) by simp
  have "tiles ?out pr (insert k (set ?ks)) (cells (bx off (len k + ?m)))" if len: "\<forall>k \<in> set (K a). 0 \<le> len k"
  proof -
    have "0 \<le> len k" "0 \<le> ?m" using len ks(1) subsetD [OF ks(2)] by (auto intro!: sum_list_nonneg)
    then have "cells (bx off (len k + ?m)) = cells (bx off (len k)) \<union> cells (bx (off + len k) ?m)"
      "cells (bx off (len k)) \<inter> cells (bx (off + len k) ?m) = {}"
      using slices by (simp_all add: divides_def)
    then show ?thesis using tiles_union [OF tiles_single [OF box]] IH(3) len by simp
  qed
  moreover have "Q k ?out" using stable [OF first(5) IH(1) apart] .
  moreover have "moves g (insert k (below_of K k) \<union> ?B) ?out" using first(3) IH(1) by (rule moves_trans) auto
  moreover have "fst (fold (slice_event f) (Visit k d # es) (g, off)) = ?out"
    using arg_cong [OF first(1), of "\<lambda>s. fst (fold (slice_event f) es s)"] by (simp add: slice_event_def)
  moreover have "\<exists>b. box_of ?out pr k = bx b (len k)" using box by blast
  ultimately show ?case
    using IH(2,4) unfolding visited.simps list.set list.map sum_list.Cons UN_insert by simp
qed

lemma below_ballI: "\<forall>k \<in> set (K a). (\<forall>v \<in> insert k (below_of K k). P v) \<and> Q k \<Longrightarrow> \<forall>v \<in> below_of K a. P v"
  by (subst below_Union) blast

lemma below_stable:
  assumes stable: "\<And>v g A h. moves g A h \<Longrightarrow> A \<inter> insert v (set (K v)) = {} \<Longrightarrow> R g v \<Longrightarrow> R h v"
    and "\<forall>v \<in> insert k (below_of K k). R g v" "moves g A h" "A \<inter> insert k (below_of K k) = {}"
  shows "\<forall>v \<in> insert k (below_of K k). R h v"
proof
  fix v
  assume v: "v \<in> insert k (below_of K k)"
  then have "insert v (set (K v)) \<subseteq> insert k (below_of K k)"
    using children_below [of K v] below_trans [of v K k] by blast
  then have "A \<inter> insert v (set (K v)) = {}" using assms(4) by blast
  then show "R h v" using stable [OF assms(3)] assms(2) v by blast
qed

text \<open>All the slices of a node: \<open>R\<close> is what holds of a node and the boxes of the next level.\<close>

lemma node_slices:
  fixes pr :: string and len :: "id \<Rightarrow> real" and R :: "graph \<Rightarrow> id \<Rightarrow> bool" and f gs es
  assumes tree: "one_parent K" and slices: "divides bx" and es: "visited es = K a"
    and stable: "\<And>v g A h. moves g A h \<Longrightarrow> A \<inter> insert v (set (K v)) = {} \<Longrightarrow> R g v \<Longrightarrow> R h v"
    and step: "\<And>k h off. k \<in> set (K a) \<Longrightarrow> moves gs (below_of K a) h \<Longrightarrow> snd (f k (h, off)) = off + len k
        \<and> moves h (insert k (below_of K k)) (fst (f k (h, off)))
        \<and> box_of (fst (f k (h, off))) pr k = bx off (len k)
        \<and> (\<forall>v \<in> insert k (below_of K k). R (fst (f k (h, off))) v)"
  defines "r \<equiv> fst (fold (slice_event f) es (gs, 0))"
  shows "moves gs (below_of K a) r" "\<forall>v \<in> below_of K a. R r v"
    "\<forall>k \<in> set (K a). \<exists>b. box_of r pr k = bx b (len k)"
    "(\<forall>k \<in> set (K a). 0 \<le> len k) \<longrightarrow> tiles r pr (set (K a)) (cells (bx 0 (sum_list (map len (K a)))))"
proof -
  have step': "snd (f k (h, off)) = off + len k \<and> moves gs (below_of K a) (fst (f k (h, off)))
      \<and> moves h (insert k (below_of K k)) (fst (f k (h, off))) \<and> box_of (fst (f k (h, off))) pr k = bx off (len k)
      \<and> (\<forall>v \<in> insert k (below_of K k). R (fst (f k (h, off))) v)"
    if k: "k \<in> set (K a)" and h: "moves gs (below_of K a) h" for k h off
  proof -
    have "insert k (below_of K k) \<subseteq> below_of K a" using k below_Union [of K a] by blast
    then show ?thesis using step [OF k h] moves_trans [OF h _ order_refl] by blast
  qed
  have "set (visited es) \<subseteq> set (K a)" "distinct (visited es)" "moves gs (below_of K a) gs"
    using tree by (simp_all add: es one_parent_def)
  note all = slices_tile [where P = "moves gs (below_of K a)" and Q = "\<lambda>k g. \<forall>v \<in> insert k (below_of K k). R g v"
      and f = f and bx = bx and a = a and pr = pr and len = len and off = 0, OF tree slices moves_then_orient step'
      below_stable [where R = R, OF stable] this, folded r_def, unfolded es]
  note parts = all [THEN conjunct2]
  note each = parts [THEN conjunct2, THEN conjunct2]
  show "moves gs (below_of K a) r" by (rule parts [THEN conjunct1])
  show "(\<forall>k \<in> set (K a). 0 \<le> len k) \<longrightarrow> tiles r pr (set (K a)) (cells (bx 0 (sum_list (map len (K a)))))"
    by (rule parts [THEN conjunct2, THEN conjunct1])
  show "\<forall>k \<in> set (K a). \<exists>b. box_of r pr k = bx b (len k)" using each by (rule ball_conj_right)
  show "\<forall>v \<in> below_of K a. R r v" using each by (rule below_ballI)
qed

end

section \<open>The slices of the treemap\<close>

abbreviation kids :: "graph \<Rightarrow> id \<Rightarrow> id list" where
  "kids g a \<equiv> visited (eachSubnode g a [])"

text \<open>The rectangle below the title of a node, and the size of a node from its parent.\<close>

definition sd_inner :: "real \<Rightarrow> graph \<Rightarrow> string \<Rightarrow> id \<Rightarrow> coords" where
  "sd_inner th g prop v =
     (let b = box_of g prop v in b\<lparr>co_top := co_top b + th, co_height := co_height b - th\<rparr>)"

definition sd_size :: "real \<Rightarrow> graph \<Rightarrow> string \<Rightarrow> id \<Rightarrow> id \<Rightarrow> string \<Rightarrow> graph \<Rightarrow> real \<times> real" where
  "sd_size th g0 prop par ch orn g =
     (let fact = (if par = ch then 1 else weight g prop ch / sum_list (map (weight g prop) (kids g0 par)));
          w = co_width (box_of g prop par); h = co_height (box_of g prop par) - th
      in if orn = ''h'' then (w * fact, h) else (w, h * fact))"

definition sd_shared :: "real \<Rightarrow> graph \<Rightarrow> string \<Rightarrow> graph \<Rightarrow> id \<Rightarrow> bool" where
  "sd_shared th g0 prop g v \<longleftrightarrow>
     (0 \<le> co_width (sd_inner th g prop v) \<and> 0 \<le> co_height (sd_inner th g prop v) \<and> kids g0 v \<noteq> []
        \<longrightarrow> shared_out g prop (kids g0 v) (sd_inner th g prop v))"

lemma sd_shared_moves:
  assumes "moves g A h" "A \<inter> insert v (set (kids g0 v)) = {}"
  shows "sd_shared th g0 prop h v = sd_shared th g0 prop g v"
proof -
  have "box_of h prop v = box_of g prop v" using assms by (intro movesD(4) [OF assms(1)]) auto
  then have "sd_inner th h prop v = sd_inner th g prop v" by (simp add: sd_inner_def)
  moreover have "shared_out h prop (kids g0 v) = shared_out g prop (kids g0 v)"
    using assms(2) shared_out_moves [OF assms(1)] by (auto simp: fun_eq_iff)
  ultimately show ?thesis by (simp add: sd_shared_def)
qed

lemma box_of_resize:
  assumes "box_graph g prop" "hasNode g i"
  shows "box_of (upd_node i (set_size prop w h) g) prop i = (box_of g prop i)\<lparr>co_width := w, co_height := h\<rparr>"
proof -
  obtain n where "getNode g i = Some n" using assms(2) by (auto simp: hasNode_getNode)
  then show ?thesis
    by (simp add: box_of_def node_xy_def node_num_def box_simps node_data_config [of "upd_node i _ g" g]
        set_size_data [OF assms(1)])
qed

lemma box_of_setc:
  assumes "box_graph g prop" "hasNode g i"
  shows "box_of (upd_node i (node_setc x y prop) g) prop i = (box_of g prop i)\<lparr>co_top := y, co_left := x\<rparr>"
proof -
  obtain n where n: "getNode g i = Some n" using assms(2) by (auto simp: hasNode_getNode)
  obtain p where "node_getPos (node_setc x y prop n) prop = Some p" "getc p = mkC x y"
    using node_setc_getPos [of "prop" x y n] assms(1) by (auto simp: box_graph_def)
  then show ?thesis
    using n by (simp add: box_of_def node_xy_def node_num_def box_simps node_data_config [of "upd_node i _ g" g])
qed

lemma moves_resize: "moves g {i} (upd_node i (set_size prop w h) g)" "moves g {i} (upd_node i (node_setc x y prop) g)"
  by (rule moves_upd_node; simp add: box_simps)+

definition sd_child :: "real \<Rightarrow> graph \<Rightarrow> string \<Rightarrow> id \<Rightarrow> bool \<Rightarrow> id \<Rightarrow> graph \<times> real \<Rightarrow> graph \<times> real" where
  "sd_child th g0 prop ch horizontal n = (\<lambda>(g, off).
     let b = box_of g prop ch;
         x = (if horizontal then co_left b else off + co_left b);
         y = (if horizontal then off + co_top b + th else co_top b + th);
         g = sd_computePositions th g0 prop ch n (if horizontal then ''v'' else ''h'') (upd_node n (node_setc x y prop) g)
     in (g, off + (if horizontal then co_height (box_of g prop n) else co_width (box_of g prop n))))"

lemma sd_unfold:
  "sd_computePositions th g0 prop par ch orn g =
     fst (fold (slice_event (sd_child th g0 prop ch (orn = ''h''))) (eachSubnode g0 ch [])
       (upd_node ch (set_size prop (fst (sd_size th g0 prop par ch orn g)) (snd (sd_size th g0 prop par ch orn g)))
          (level_graph (eachSubnode g0 par []) g), 0))"
proof -
  have body: "(\<lambda>e (g, offsetSize).
           case e of
             Orient a r \<Rightarrow> (orient a r g, offsetSize)
           | Visit n d \<Rightarrow>
               (let cpos = node_xy g prop ch;
                    x = (if orn = ''h'' then c_x cpos else offsetSize + c_x cpos);
                    y = (if orn = ''h'' then offsetSize + c_y cpos + th else c_y cpos + th);
                    g = upd_node n (node_setc x y prop) g;
                    g = sd_computePositions th g0 prop ch n (if orn = ''h'' then ''v'' else ''h'') g
                in (g, offsetSize + node_num g prop (if orn = ''h'' then ''height'' else ''width'') n)))
      = slice_event (sd_child th g0 prop ch (orn = ''h''))"
    by (auto simp: sd_child_def slice_event_def box_of_def Let_def fun_eq_iff split: level_event.split)
  show ?thesis
    by (subst sd_computePositions.simps) (simp add: body Let_def, simp add: sd_size_def box_of_def Let_def)
qed

text \<open>The slices of a node: the boxes in the direction of the cut, and their lengths.\<close>

definition sd_bx :: "bool \<Rightarrow> coords \<Rightarrow> real \<Rightarrow> real \<Rightarrow> coords" where
  "sd_bx horizontal c a l =
     (if horizontal then c\<lparr>co_top := co_top c + a, co_height := l\<rparr> else c\<lparr>co_left := co_left c + a, co_width := l\<rparr>)"

lemma sd_bx_facts:
  "divides (sd_bx horizontal c)"
  "sd_bx horizontal c 0 (if horizontal then co_height c else co_width c) = c"
  by (cases c; auto simp: divides_def sd_bx_def cells_def)+

definition sd_sized :: "graph \<Rightarrow> string \<Rightarrow> id \<Rightarrow> graph \<Rightarrow> bool" where
  "sd_sized g0 prop ch g \<longleftrightarrow> box_graph g prop \<and> hasNode g ch
     \<and> (\<forall>v \<in> below_of (kids g0) ch. hasNode g v \<and> 0 < weight g prop v)"

lemma sd_sized_moves: "moves g A h \<Longrightarrow> sd_sized g0 prop ch h = sd_sized g0 prop ch g"
  using movesD(5,6,7) [of g A h] by (simp add: sd_sized_def)

lemma sd_sized_below: "sd_sized g0 prop ch g \<Longrightarrow> k \<in> below_of (kids g0) ch \<Longrightarrow> sd_sized g0 prop k g"
  using below_trans by (fastforce simp: sd_sized_def)

lemma sd_child_step:
  fixes hz :: bool and off :: real
  assumes k: "k \<in> set (kids g0 ch)" and sized: "sd_sized g0 prop ch g"
    and call: "\<And>h orn. sd_sized g0 prop k h \<Longrightarrow>
      moves h (insert k (below_of (kids g0) k)) (sd_computePositions th g0 prop ch k orn h)
      \<and> box_of (sd_computePositions th g0 prop ch k orn h) prop k
        = (box_of h prop k)\<lparr>co_width := fst (sd_size th g0 prop ch k orn h), co_height := snd (sd_size th g0 prop ch k orn h)\<rparr>
      \<and> (\<forall>v \<in> insert k (below_of (kids g0) k). sd_shared th g0 prop (sd_computePositions th g0 prop ch k orn h) v)"
  defines "c \<equiv> sd_inner th g prop ch"
    and "len \<equiv> (if hz then co_height (sd_inner th g prop ch) else co_width (sd_inner th g prop ch))
        * (weight g prop k / sum_list (map (weight g prop) (kids g0 ch)))"
    and "s \<equiv> sd_child th g0 prop ch hz k (g, off)"
  shows "snd s = off + len \<and> moves g (insert k (below_of (kids g0) k)) (fst s)
    \<and> box_of (fst s) prop k = sd_bx hz c off len
    \<and> (\<forall>v \<in> insert k (below_of (kids g0) k). sd_shared th g0 prop (fst s) v)"
proof -
  let ?b = "box_of g prop ch" and ?orn = "if hz then ''v'' else ''h''"
  let ?h = "upd_node k (node_setc (if hz then co_left ?b else off + co_left ?b)
      (if hz then off + co_top ?b + th else co_top ?b + th) prop) g"
  let ?r = "sd_computePositions th g0 prop ch k ?orn ?h"
  have below: "k \<in> below_of (kids g0) ch" using k subsetD [OF children_below [of "kids g0" ch]] by simp
  then have ne: "ch \<noteq> k" using sub_levels.below_irrefl by blast
  have m: "moves g {k} ?h" by (rule moves_resize)
  have node: "box_graph g prop" "hasNode g k" using sized below by (auto simp: sd_sized_def)
  have sized_k: "sd_sized g0 prop k ?h"
    using sd_sized_moves [OF m] sd_sized_below [OF sized below] by blast
  have chb: "box_of ?h prop ch = ?b" using ne by (intro movesD(4) [OF m]) simp
  have size: "sd_size th g0 prop ch k ?orn ?h
      = (if hz then (co_width c, len) else (len, co_height c))"
    using ne by (simp add: sd_size_def chb moves_num [OF m] c_def len_def sd_inner_def Let_def)
  have "box_of ?r prop k = sd_bx hz c off len"
    using call [OF sized_k, of ?orn] unfolding size
    by (simp add: box_of_setc [OF node] sd_bx_def c_def sd_inner_def Let_def)
  moreover have "moves g (insert k (below_of (kids g0) k)) ?r"
    by (rule moves_trans [OF m conjunct1 [OF call [OF sized_k]]]) auto
  moreover have "s = (?r, off + (if hz then co_height (box_of ?r prop k) else co_width (box_of ?r prop k)))"
    by (simp add: s_def sd_child_def Let_def)
  ultimately show ?thesis
    using call [OF sized_k, of ?orn] by (auto simp: sd_bx_def)
qed

text \<open>Boxes that cut a rectangle into slices in the proportion of their weights.\<close>

lemma slices_divide:
  fixes hz :: bool and wt :: "id \<Rightarrow> real"
  assumes "\<forall>k \<in> set ks. 0 < wt k" "ks \<noteq> []" "0 \<le> co_width c" "0 \<le> co_height c"
  defines "len \<equiv> \<lambda>k. (if hz then co_height c else co_width c) * (wt k / sum_list (map wt ks))"
  assumes tiles: "(\<forall>k \<in> set ks. 0 \<le> len k) \<longrightarrow> tiles g prop (set ks) (cells (sd_bx hz c 0 (sum_list (map len ks))))"
    and boxes: "\<forall>k \<in> set ks. \<exists>b. box_of g prop k = sd_bx hz c b (len k)"
  shows "tiles g prop (set ks) (cells c)
    \<and> (\<forall>k \<in> set ks. coords_area (box_of g prop k) = coords_area c * wt k / sum_list (map wt ks))"
proof -
  let ?S = "sum_list (map wt ks)" and ?L = "if hz then co_height c else co_width c"
  have S: "0 < ?S" using assms(1,2) by (rule weights_pos)
  have "0 \<le> len k" if "k \<in> set ks" for k
  proof -
    have "0 \<le> wt k / ?S" using assms(1) S that by (simp add: less_imp_le)
    then show ?thesis unfolding len_def using assms(3,4) by (intro mult_nonneg_nonneg) simp_all
  qed
  moreover have "sum_list (map len ks) = ?L" using shares_sum [of wt ks ?L] S unfolding len_def by simp
  ultimately have "tiles g prop (set ks) (cells c)" using tiles sd_bx_facts(2) [of hz c] by simp
  moreover have "coords_area (box_of g prop k) = coords_area c * wt k / ?S" if k: "k \<in> set ks" for k
  proof -
    obtain b where "box_of g prop k = sd_bx hz c b (len k)" using boxes k by blast
    then show ?thesis by (cases hz) (simp_all add: sd_bx_def len_def coords_area_def)
  qed
  ultimately show ?thesis by blast
qed

lemma sd_computePositions_shared:
  assumes "one_parent (kids g0)" "sd_sized g0 prop ch g"
  shows "moves g (insert ch (below_of (kids g0) ch)) (sd_computePositions th g0 prop par ch orn g)
    \<and> box_of (sd_computePositions th g0 prop par ch orn g) prop ch = (box_of g prop ch)\<lparr>co_width := fst (sd_size th g0 prop par ch orn g),
        co_height := snd (sd_size th g0 prop par ch orn g)\<rparr>
    \<and> (\<forall>v \<in> insert ch (below_of (kids g0) ch). sd_shared th g0 prop (sd_computePositions th g0 prop par ch orn g) v)"
  using assms(2)
proof (induction "card (deeper_nodes g0 ch)" arbitrary: ch par orn g rule: less_induct)
  case less
  let ?B = "below_of (kids g0) ch" and ?sz = "sd_size th g0 prop par ch orn g" and ?hz = "orn = ''h''"
  let ?lg = "level_graph (eachSubnode g0 par []) g"
  let ?gs = "upd_node ch (set_size prop (fst ?sz) (snd ?sz)) ?lg"
  let ?f = "sd_child th g0 prop ch ?hz" and ?c = "sd_inner th ?gs prop ch"
  let ?len = "\<lambda>k. (if ?hz then co_height ?c else co_width ?c)
      * (weight ?gs prop k / sum_list (map (weight ?gs prop) (kids g0 ch)))"
  have m: "moves g {ch} ?gs" using moves_trans [OF moves_level_graph moves_resize(1)] by blast
  have sz: "sd_sized g0 prop ch ?gs" using sd_sized_moves [OF m] less.prems by blast
  have lg: "box_graph ?lg prop" "hasNode ?lg ch"
    using less.prems movesD(5,6) [OF moves_level_graph [of g "{}"]] by (simp_all add: sd_sized_def)
  have box: "box_of ?gs prop ch = (box_of g prop ch)\<lparr>co_width := fst ?sz, co_height := snd ?sz\<rparr>"
    using box_of_resize [OF lg] movesD(4) [OF moves_level_graph [of g "{}"]] by simp
  have irr: "ch \<notin> ?B" by (rule sub_levels.below_irrefl)
  let ?r = "sd_computePositions th g0 prop par ch orn g"
  have step: "snd (?f k (h, off)) = off + ?len k \<and> moves h (insert k (below_of (kids g0) k)) (fst (?f k (h, off)))
      \<and> box_of (fst (?f k (h, off))) prop k = sd_bx ?hz ?c off (?len k)
      \<and> (\<forall>v \<in> insert k (below_of (kids g0) k). sd_shared th g0 prop (fst (?f k (h, off))) v)"
    if k: "k \<in> set (kids g0 ch)" and h: "moves ?gs ?B h" for k h off
  proof -
    have "sd_sized g0 prop ch h" using sd_sized_moves [OF h] sz by blast
    note one = sd_child_step [OF k this less.hyps [OF subnodes_deeper [OF k]], of ?hz off]
    have "sd_inner th h prop ch = ?c" using movesD(4) [OF h irr] by (simp add: sd_inner_def)
    then show ?thesis using one by (simp add: moves_num [OF h])
  qed
  note all = sub_levels.node_slices [where f = ?f and a = ch and bx = "sd_bx ?hz ?c" and pr = "prop" and gs = ?gs
      and len = ?len and R = "sd_shared th g0 prop", OF assms(1) sd_bx_facts(1) refl
      iffD2 [OF sd_shared_moves] step, folded sd_unfold [of th g0 "prop" par ch orn g]]
  have m2: "moves ?gs ?B ?r" by (rule all(1))
  have inner: "sd_inner th ?r prop ch = ?c" "box_of ?r prop ch = box_of ?gs prop ch"
    using movesD(4) [OF m2 irr] by (simp_all add: sd_inner_def)
  have w: "weight ?r prop = weight ?gs prop" by (simp add: moves_num [OF m2])
  have "sd_shared th g0 prop ?r ch"
    unfolding sd_shared_def inner(1)
  proof (intro impI)
    assume dims: "0 \<le> co_width ?c \<and> 0 \<le> co_height ?c \<and> kids g0 ch \<noteq> []"
    have "\<forall>k \<in> set (kids g0 ch). 0 < weight ?r prop k"
      using sz subsetD [OF children_below [of "kids g0" ch]] by (simp add: w sd_sized_def)
    then show "shared_out ?r prop (kids g0 ch) ?c"
      unfolding shared_out_def using dims all(3,4) by (intro slices_divide [where hz = ?hz]) (simp_all add: w)
  qed
  moreover have "moves g (insert ch ?B) ?r" by (rule moves_trans [OF m m2]) auto
  ultimately show ?case using all(2) inner(2) box by simp
qed

section \<open>The slices of the icicle\<close>

text \<open>The band of the next level beside or below a node.\<close>

definition ic_band :: "bool \<Rightarrow> coords \<Rightarrow> coords" where
  "ic_band horizontal b =
     (if horizontal then b\<lparr>co_left := co_left b + co_width b\<rparr> else b\<lparr>co_top := co_top b + co_height b\<rparr>)"

abbreviation dim_of :: "graph \<Rightarrow> id \<Rightarrow> real" where
  "dim_of g \<equiv> node_num g ''current'' ''dim''"

definition ic_shared :: "bool \<Rightarrow> graph \<Rightarrow> string \<Rightarrow> graph \<Rightarrow> id \<Rightarrow> bool" where
  "ic_shared horizontal g0 prop g v \<longleftrightarrow>
     (let c = ic_band horizontal (box_of g prop v); ks = kids g0 v
      in 0 \<le> co_width c \<and> 0 \<le> co_height c \<and> ks \<noteq> [] \<longrightarrow>
           tiles g prop (set ks) (cells c)
           \<and> (\<forall>k \<in> set ks. coords_area (box_of g prop k) = coords_area c * dim_of g k / sum_list (map (dim_of g) ks)))"

lemma ic_shared_moves:
  assumes "moves g A h" "A \<inter> insert v (set (kids g0 v)) = {}"
  shows "ic_shared hz g0 prop h v = ic_shared hz g0 prop g v"
proof -
  have "box_of h prop i = box_of g prop i" if "i \<in> insert v (set (kids g0 v))" for i
    using that assms(2) by (intro movesD(4) [OF assms(1)]) blast
  then show ?thesis
    using tiles_cong [of "set (kids g0 v)" h "prop" g] by (simp add: ic_shared_def moves_num [OF assms(1)] Let_def)
qed

definition ic_child :: "bool \<Rightarrow> graph \<Rightarrow> string \<Rightarrow> coords \<Rightarrow> real \<Rightarrow> id \<Rightarrow> graph \<times> real \<Rightarrow> graph \<times> real" where
  "ic_child hz g0 prop c tot k = (\<lambda>(g, off).
     let len = (if hz then co_height c else co_width c) * (dim_of g k / tot); b = sd_bx hz c off len
     in (computeSubtree hz g0 prop k (co_left b) (co_top b) (co_width b) (co_height b) g, off + len))"

lemma fold_visits:
  "fold f ks s = fold (slice_event f) (map (\<lambda>k. Visit k 0) ks) s" "visited (map (\<lambda>k. Visit k 0) ks) = ks"
  by (induction ks arbitrary: s) (simp_all add: slice_event_def)

lemma ic_unfold:
  "computeSubtree hz g0 prop node x y w h g =
     (let g = level_graph (eachSubnode g0 node []) (place_box prop node x y w h g);
          c = ic_band hz \<lparr>co_top = y, co_left = x, co_width = w, co_height = h\<rparr>
      in fst (fold (slice_event (ic_child hz g0 prop c (sum_list (map (dim_of g) (kids g0 node)))))
           (map (\<lambda>k. Visit k 0) (kids g0 node)) (g, 0)))"
  unfolding fold_visits(1) [symmetric]
  by (subst computeSubtree.simps)
    (auto simp: ic_child_def ic_band_def sd_bx_def Let_def intro!: arg_cong [of _ _ fst] fold_cong)

definition ic_sized :: "graph \<Rightarrow> string \<Rightarrow> id \<Rightarrow> graph \<Rightarrow> bool" where
  "ic_sized g0 prop node g \<longleftrightarrow> box_graph g prop \<and> hasNode g node
     \<and> (\<forall>v \<in> below_of (kids g0) node. hasNode g v \<and> 0 < dim_of g v)"

lemma ic_sized_moves: "moves g A h \<Longrightarrow> ic_sized g0 prop node h = ic_sized g0 prop node g"
  using movesD(5,6,7) [of g A h] by (simp add: ic_sized_def)

lemma ic_sized_below: "ic_sized g0 prop node g \<Longrightarrow> k \<in> below_of (kids g0) node \<Longrightarrow> ic_sized g0 prop k g"
  using below_trans by (fastforce simp: ic_sized_def)

lemma computeSubtree_shared:
  assumes "one_parent (kids g0)" "ic_sized g0 prop node g"
  shows "moves g (insert node (below_of (kids g0) node)) (computeSubtree hz g0 prop node x y w h g)
    \<and> box_of (computeSubtree hz g0 prop node x y w h g) prop node = \<lparr>co_top = y, co_left = x, co_width = w, co_height = h\<rparr>
    \<and> (\<forall>v \<in> insert node (below_of (kids g0) node). ic_shared hz g0 prop (computeSubtree hz g0 prop node x y w h g) v)"
  using assms(2)
proof (induction "card (deeper_nodes g0 node)" arbitrary: node x y w h g rule: less_induct)
  case less
  let ?B = "below_of (kids g0) node" and ?b = "\<lparr>co_top = y, co_left = x, co_width = w, co_height = h\<rparr>"
  let ?gs = "level_graph (eachSubnode g0 node []) (place_box prop node x y w h g)"
  let ?c = "ic_band hz ?b" and ?tot = "sum_list (map (dim_of ?gs) (kids g0 node))"
  let ?f = "ic_child hz g0 prop ?c ?tot"
  let ?len = "\<lambda>k. (if hz then co_height ?c else co_width ?c) * (dim_of ?gs k / ?tot)"
  let ?r = "computeSubtree hz g0 prop node x y w h g"
  have m: "moves g {node} ?gs" using moves_trans [OF moves_place moves_level_graph] by blast
  have sz: "ic_sized g0 prop node ?gs" using ic_sized_moves [OF m] less.prems by blast
  have box: "box_of ?gs prop node = ?b"
    using less.prems box_of_place [of g "prop" node x y w h node]
      movesD(4) [OF moves_level_graph [of "place_box prop node x y w h g" "{}"]] by (simp add: ic_sized_def)
  have irr: "node \<notin> ?B" by (rule sub_levels.below_irrefl)
  have step: "snd (?f k (t, off)) = off + ?len k \<and> moves t (insert k (below_of (kids g0) k)) (fst (?f k (t, off)))
      \<and> box_of (fst (?f k (t, off))) prop k = sd_bx hz ?c off (?len k)
      \<and> (\<forall>v \<in> insert k (below_of (kids g0) k). ic_shared hz g0 prop (fst (?f k (t, off))) v)"
    if k: "k \<in> set (kids g0 node)" and t: "moves ?gs ?B t" for k t off
  proof -
    have "k \<in> ?B" using k below_Union [of "kids g0" node] by blast
    then have "ic_sized g0 prop k t" using ic_sized_moves [OF t] ic_sized_below [OF sz] by blast
    note one = less.hyps [OF subnodes_deeper [OF k] this]
    let ?bk = "sd_bx hz ?c off (?len k)"
    have "?f k (t, off) = (computeSubtree hz g0 prop k (co_left ?bk) (co_top ?bk) (co_width ?bk) (co_height ?bk) t, off + ?len k)"
      by (simp add: ic_child_def Let_def moves_num [OF t])
    then show ?thesis using one [of "co_left ?bk" "co_top ?bk" "co_width ?bk" "co_height ?bk"] by simp
  qed
  have r: "?r = fst (fold (slice_event ?f) (map (\<lambda>k. Visit k 0) (kids g0 node)) (?gs, 0))"
    using ic_unfold [of hz g0 "prop" node x y w h g] by (simp add: Let_def)
  note all = sub_levels.node_slices [where f = ?f and a = node and bx = "sd_bx hz ?c" and pr = "prop" and gs = ?gs
      and len = ?len and R = "ic_shared hz g0 prop", OF assms(1) sd_bx_facts(1) fold_visits(2)
      iffD2 [OF ic_shared_moves] step, folded r]
  have m2: "moves ?gs ?B ?r" by (rule all(1))
  have here: "box_of ?r prop node = ?b" "dim_of ?r = dim_of ?gs"
    using movesD(4) [OF m2 irr] box by (simp_all add: moves_num [OF m2])
  have "ic_shared hz g0 prop ?r node"
    unfolding ic_shared_def here Let_def
  proof (intro impI)
    assume dims: "0 \<le> co_width ?c \<and> 0 \<le> co_height ?c \<and> kids g0 node \<noteq> []"
    have "\<forall>k \<in> set (kids g0 node). 0 < dim_of ?gs k"
      using sz subsetD [OF children_below [of "kids g0" node]] by (simp add: ic_sized_def)
    then show "tiles ?r prop (set (kids g0 node)) (cells ?c)
      \<and> (\<forall>k \<in> set (kids g0 node). coords_area (box_of ?r prop k) = coords_area ?c * dim_of ?gs k / ?tot)"
      using dims all(3,4) by (intro slices_divide [where hz = hz]) simp_all
  qed
  moreover have "moves g (insert node ?B) ?r" by (rule moves_trans [OF m m2]) auto
  ultimately show ?case using all(2) here(1) by simp
qed

section \<open>Properties\<close>

lemma below_start:
  assumes "v \<in> below_of (kids g0) rid"
  shows "hasNode g0 v" "v \<in> set (map fst (g_nodes g0))" "v \<noteq> rid"
proof -
  obtain a where "v \<in> set (kids g0 a)" using assms by (auto simp: below_of_def sub_step_def elim: tranclE)
  then show "hasNode g0 v" by (rule subnodes_hasNode)
  then show "v \<in> set (map fst (g_nodes g0))" by (simp add: hasNode_def)
  show "v \<noteq> rid" using assms sub_levels.below_irrefl by blast
qed

lemma positions_of_type: "box_graph g prop \<Longrightarrow> type_or_current prop = prop \<and> (\<exists>p. node_getPos n prop = Some p)"
  by (auto simp: box_graph_def type_or_current_def node_getPos_def)

text \<open>
  C15: the slice and dice layout of a tree with positive areas returns with the box of the node
  it starts from on the canvas, and at that node and every node below it whose box is not
  smaller than its title, the boxes of the children tile the box below the title and have their
  shares of its area.
\<close>

theorem slice_and_dice_tiles:
  assumes "computeLevels (tm_graph tm) (tm_root tm) 0 ''ignore'' = Some g0" "hasNode g0 (layout_root tm)"
    and "box_graph g0 prop" "tree_shaped g0 []" "areas_positive g0 prop (layout_root tm)"
  shows "\<exists>tm'. sd_compute sz prop tm = Some tm'
    \<and> box_of (tm_graph tm') prop (layout_root tm)
      = \<lparr>co_top = - snd sz / 2, co_left = - fst sz / 2, co_width = fst sz, co_height = snd sz\<rparr>
    \<and> (\<forall>v \<in> insert (layout_root tm) (below_of (kids g0) (layout_root tm)).
         sd_shared (tm_titleHeight tm) g0 prop (tm_graph tm') v)"
proof -
  let ?rid = "layout_root tm" and ?th = "tm_titleHeight tm"
  let ?g = "place_box prop ?rid (- fst sz / 2) (- snd sz / 2) (fst sz) (snd sz + ?th) g0"
  let ?r = "sd_computePositions ?th g0 prop ?rid ?rid (tm_orientation tm) ?g"
  obtain n where n: "getNode g0 ?rid = Some n" using assms(2) by (auto simp: hasNode_getNode)
  then have run: "sd_compute sz prop tm = Some (tm\<lparr>tm_graph := ?r\<rparr>)"
    using assms(1) positions_of_type [OF assms(3), of n] by (auto simp: sd_compute_def Let_def)
  have "0 < weight g0 prop v" if "v \<in> below_of (kids g0) ?rid" for v
    using assms(5) below_start(2,3) [OF that] unfolding areas_positive_def list_all_iff by blast
  then have "sd_sized g0 prop ?rid g0" using assms(2,3) below_start(1) by (simp add: sd_sized_def)
  then have "sd_sized g0 prop ?rid ?g" using sd_sized_moves [OF moves_place] by blast
  note shared = sd_computePositions_shared [OF tree_shaped_one_parent [OF assms(4)] this, of ?th ?rid "tm_orientation tm"]
  have box: "box_of ?g prop ?rid = \<lparr>co_top = - snd sz / 2, co_left = - fst sz / 2, co_width = fst sz, co_height = snd sz + ?th\<rparr>"
    using box_of_place [OF assms(3,2)] by simp
  then have "sd_size ?th g0 prop ?rid ?rid (tm_orientation tm) ?g = (fst sz, snd sz)" by (simp add: sd_size_def Let_def)
  then have "box_of ?r prop ?rid = \<lparr>co_top = - snd sz / 2, co_left = - fst sz / 2, co_width = fst sz, co_height = snd sz\<rparr>"
    using shared box by simp
  then show ?thesis using run shared by (intro exI [of _ "tm\<lparr>tm_graph := ?r\<rparr>"]) simp
qed

theorem slice_and_dice_tiles_witness:
  "\<exists>tm'. sd_compute (4, 2) ''current'' three_boxes = Some tm'
    \<and> tiles (tm_graph tm') ''current'' {''a'', ''b'', ''c''} (cells \<lparr>co_top = -1, co_left = -2, co_width = 4, co_height = 2\<rparr>)"
proof -
  have "tree_shaped three_boxes_levels []" "kids three_boxes_levels ''r'' = [''a'', ''b'', ''c'']"
    "tm_titleHeight three_boxes = 0" by (code_simp; fail)+
  then show ?thesis
    using slice_and_dice_tiles [of three_boxes three_boxes_levels "''current''" "(4, 2)"]
    by (auto simp: three_boxes_facts sd_shared_def sd_inner_def shared_out_def)
qed

definition dims_positive :: "graph \<Rightarrow> id \<Rightarrow> bool" where
  "dims_positive g rid \<longleftrightarrow> list_all (\<lambda>v. v = rid \<or> 0 < dim_of g v) (map fst (g_nodes g))"

definition ic_start :: "icicle \<Rightarrow> id" where
  "ic_start ic = (case ic_clicked ic of None \<Rightarrow> ic_root ic | Some c \<Rightarrow> c)"

text \<open>The number of levels that share the canvas.\<close>

definition ic_bands :: "graph \<Rightarrow> icicle \<Rightarrow> real" where
  "ic_bands g0 ic = min (of_int (tree_depth g0 (ic_root ic)))
     ((if ic_constrained ic then ic_levelsToShow ic else Number_MAX_VALUE) - 1) + 1"

text \<open>
  C22: the layout of the icicle of a tree with positive dimensions returns; the box of the node
  it starts from takes the whole height of the canvas, or its whole width in the vertical
  orientation, and its part of the other side (infinite in the code, and unspecified here, when
  \<^verbatim>\<open>levelsToShow\<close> is 0); beside every box, or below it, the boxes of the
  children tile the band of the next level in the proportion of their dimensions.
\<close>

theorem icicle_tiles:
  assumes "computeLevels (ic_graph ic) (ic_root ic) 0 ''ignore'' = Some g0" "hasNode g0 (ic_start ic)"
    and "box_graph g0 prop" "tree_shaped g0 []" "dims_positive g0 (ic_start ic)"
  shows "\<exists>ic'. icicle_compute sz prop ic = Some ic'
    \<and> box_of (ic_graph ic') prop (ic_start ic)
      = \<lparr>co_top = - snd sz / 2, co_left = - fst sz / 2,
         co_width = (if ic_orientation ic = ''h'' then js_quot (fst sz) (ic_bands g0 ic) else fst sz),
         co_height = (if ic_orientation ic = ''h'' then snd sz else js_quot (snd sz) (ic_bands g0 ic))\<rparr>
    \<and> (\<forall>v \<in> insert (ic_start ic) (below_of (kids g0) (ic_start ic)).
         ic_shared (ic_orientation ic = ''h'') g0 prop (ic_graph ic') v)"
proof -
  let ?s = "ic_start ic" and ?g = "level_graph (eachLevel g0 (ic_root ic) 0 None []) g0" and ?hz = "ic_orientation ic = ''h''"
  let ?w = "if ?hz then js_quot (fst sz) (ic_bands g0 ic) else fst sz" and ?h = "if ?hz then snd sz else js_quot (snd sz) (ic_bands g0 ic)"
  let ?r = "computeSubtree ?hz g0 prop ?s (- fst sz / 2) (- snd sz / 2) ?w ?h ?g"
  obtain n where n: "getNode g0 ?s = Some n" using assms(2) by (auto simp: hasNode_getNode)
  then have run: "icicle_compute sz prop ic = Some (ic\<lparr>ic_graph := ?r\<rparr>)"
    using assms(1) positions_of_type [OF assms(3), of n]
    by (cases ?hz) (auto simp: icicle_compute_def ic_start_def ic_bands_def Let_def)
  have "0 < dim_of g0 v" if "v \<in> below_of (kids g0) ?s" for v
    using assms(5) below_start(2,3) [OF that] unfolding dims_positive_def list_all_iff by blast
  then have "ic_sized g0 prop ?s g0" using assms(2,3) below_start(1) by (simp add: ic_sized_def)
  then have "ic_sized g0 prop ?s ?g" using ic_sized_moves [OF moves_level_graph] by blast
  note shared = computeSubtree_shared [OF tree_shaped_one_parent [OF assms(4)] this, of ?hz "- fst sz / 2" "- snd sz / 2" ?w ?h]
  show ?thesis by (rule exI [of _ "ic\<lparr>ic_graph := ?r\<rparr>"]) (use run shared in simp)
qed

definition three_bands :: icicle where
  "three_bands = \<lparr>ic_graph = (tm_graph three_boxes)\<lparr>g_Node := [(''overridable'', JBool True), (''dim'', JNum 2)]\<rparr>,
     ic_root = ''r'', ic_clicked = None, ic_orientation = ''h'', ic_constrained = False, ic_levelsToShow = 3\<rparr>"

definition three_bands_levels :: graph where
  "three_bands_levels = the (computeLevels (ic_graph three_bands) ''r'' 0 ''ignore'')"

lemma three_bands_facts:
  "computeLevels (ic_graph three_bands) (ic_root three_bands) 0 ''ignore'' = Some three_bands_levels"
  "hasNode three_bands_levels ''r''" "box_graph three_bands_levels ''end''" "tree_shaped three_bands_levels []"
  "dims_positive three_bands_levels ''r''" "kids three_bands_levels ''r'' = [''a'', ''b'', ''c'']"
  "ic_start three_bands = ''r''" "ic_orientation three_bands = ''h''"
  by (code_simp; fail)+

theorem icicle_tiles_witness:
  "\<exists>ic'. icicle_compute (4, 3) ''end'' three_bands = Some ic'
    \<and> tiles (ic_graph ic') ''end'' {''a'', ''b'', ''c''} (cells \<lparr>co_top = -3 / 2, co_left = 0, co_width = 2, co_height = 3\<rparr>)"
proof -
  have "tree_depth three_bands_levels (ic_root three_bands) = 1" "ic_constrained three_bands = False"
    by (code_simp; fail)+
  then have "ic_bands three_bands_levels three_bands = 2"
    using MAX_VALUE_large by (simp add: ic_bands_def)
  then show ?thesis
    using icicle_tiles [of three_bands three_bands_levels "''end''" "(4, 3)"]
    by (auto simp: three_bands_facts ic_shared_def ic_band_def js_quot_def Let_def)
qed

end
