(* ===== verification/Jit_TreemapView.thy ===== *)
theory Jit_TreemapView
  imports Jit_TreemapTiling Jit_Helpers
begin

text \<open>
  What the treemaps share besides the layout (\<^verbatim>\<open>rfweb/js/jit/jit.js\<close>, \<^verbatim>\<open>TM.Base\<close>, \<^verbatim>\<open>TM.Geom\<close>,
  \<^verbatim>\<open>TM.Plot.NodeTypes\<close>): which levels are shown, entering a node and going back to its parent,
  the leaves to ask more nodes for, and the node under the mouse. The layout of the class is
  the parameter \<open>compute\<close>, \<open>None\<close> when it raises an exception. Modelled is the configuration
  without animation and without a request handler, which is the default; plotting and the
  labels are left out.
\<close>

section \<open>Operations\<close>

definition tm_leaf :: "treemap \<Rightarrow> id \<Rightarrow> bool" where
  "tm_leaf tm n \<longleftrightarrow> getSubnodes (tm_graph tm) n (Inr (1, 1)) ''ignore'' = []"

definition getRightLevelToShow :: "treemap \<Rightarrow> int" where
  "getRightLevelToShow tm = tm_levelsToShow tm"

definition show_node :: "bool \<Rightarrow> gnode \<Rightarrow> gnode" where
  "show_node b n = n\<lparr>n_drawn := b, n_exist := b, n_ignore := \<not> b\<rparr>"

definition setRightLevelToShow :: "id \<Rightarrow> treemap \<Rightarrow> treemap" where
  "setRightLevelToShow node tm =
     (let level = getRightLevelToShow tm; g0 = tm_graph tm;
          d0 = (case depth_of g0 node of None \<Rightarrow> 0 | Some d \<Rightarrow> d);
          g = fold (\<lambda>e g. case e of
                  Orient a r \<Rightarrow> orient a r g
                | Visit n depth \<Rightarrow> upd_node n (show_node (\<not> depth - d0 > level)) g)
                (eachLevel g0 node 0 (Some (level + 1)) []) g0
      in tm\<lparr>tm_graph := upd_node node (\<lambda>n. n\<lparr>n_drawn := True, n_ignore := False\<rparr>) g\<rparr>)"

text \<open>Whether the call raised an exception, and the treemap it leaves.\<close>

definition tm_refresh :: "(treemap \<Rightarrow> treemap option) \<Rightarrow> treemap \<Rightarrow> bool \<times> treemap" where
  "tm_refresh compute tm =
     (if tm_busy tm then (False, tm)
      else (case compute (tm\<lparr>tm_busy := False\<rparr>) of
              None \<Rightarrow> (True, tm\<lparr>tm_busy := False\<rparr>)
            | Some tm \<Rightarrow>
                (False, if tm_levelsToShow tm > 0 then setRightLevelToShow (layout_root tm) tm else tm)))"

definition tm_enter :: "(treemap \<Rightarrow> treemap option) \<Rightarrow> id \<Rightarrow> treemap \<Rightarrow> bool \<times> treemap" where
  "tm_enter compute n tm =
     (if tm_busy tm then (False, tm)
      else
        (let tm = tm\<lparr>tm_busy := True\<rparr>;
             tm = (if tm_levelsToShow tm > 0 then setRightLevelToShow n tm else tm)
         in case (if tm_levelsToShow tm > 0 then compute tm else Some tm) of
              None \<Rightarrow> (True, tm)
            | Some tm \<Rightarrow> tm_refresh compute (tm\<lparr>tm_busy := False, tm_clicked := Some n\<rparr>)))"

definition tm_out :: "(treemap \<Rightarrow> treemap option) \<Rightarrow> treemap \<Rightarrow> bool \<times> treemap" where
  "tm_out compute tm =
     (if tm_busy tm then (False, tm)
      else
        (let tm = tm\<lparr>tm_busy := True\<rparr>
         in if \<not> hasNode (tm_graph tm) (layout_root tm) then (True, tm)
            else
              (case getParents (tm_graph tm) (layout_root tm) of
                 [] \<Rightarrow> (False, tm\<lparr>tm_busy := False\<rparr>)
               | parent # _ \<Rightarrow>
                   (let tm = (if tm_levelsToShow tm > 0 then setRightLevelToShow parent tm else tm);
                        tm = tm\<lparr>tm_clicked := Some parent\<rparr>
                    in case compute tm of
                         None \<Rightarrow> (True, tm)
                       | Some tm \<Rightarrow> (False, tm\<lparr>tm_busy := False\<rparr>)))))"

text \<open>The leaves to ask more nodes for, each with the number of levels still to show.\<close>

definition request_leaves :: "treemap \<Rightarrow> id \<Rightarrow> (id \<times> int) list" where
  "request_leaves tm node =
     (let g = tm_graph tm; lev = tm_levelsToShow tm;
          d = (case depth_of g node of None \<Rightarrow> 0 | Some d \<Rightarrow> d);
          nodeLevel = (\<lambda>n. lev - ((case depth_of g n of None \<Rightarrow> 0 | Some e \<Rightarrow> e) - d))
      in map (\<lambda>n. (n, nodeLevel n))
           (filter (\<lambda>n. (case getNode g n of None \<Rightarrow> False | Some x \<Rightarrow> n_drawn x)
                \<and> \<not> anySubnode g n (\<lambda>_. True) [] \<and> nodeLevel n > 0)
             (visited (eachLevel g node 0 (Some lev) []))))"

text \<open>The node under a position: the title of an inner node, the whole box of a leaf.\<close>

definition tm_contains :: "treemap \<Rightarrow> id \<Rightarrow> cpx \<Rightarrow> bool" where
  "tm_contains tm i pos =
     (let g = tm_graph tm
      in case getNode g i of
           None \<Rightarrow> False
         | Some node \<Rightarrow>
             if (case tm_clicked tm of None \<Rightarrow> False | Some c \<Rightarrow> \<not> isDescendantOf g i c) \<or> n_ignore node then False
             else
               (let npos = getc (n_pos node);
                    width = node_num g ''current'' ''width'' i;
                    height = (if tm_leaf tm i then node_num g ''current'' ''height'' i else tm_titleHeight tm)
                in rectangle_contains (mkC (c_x npos + width / 2) (c_y npos + height / 2)) pos width height))"

section \<open>Showing levels\<close>

lemma tm_leaf_children: "tm_leaf tm n \<longleftrightarrow> children (tm_graph tm) n = []"
  by (simp add: tm_leaf_def getSubnodes_def children_def eachSubnode_def)

lemma visit_depth:
  "Visit n e \<in> set (loopLevel g flags lb le node) \<Longrightarrow> depth_of g n = Some e"
proof (induction g flags lb le node rule: loopLevel.induct)
  case (1 g flags lb le node)
  show ?case
  proof (cases "depth_of g node")
    case None
    then show ?thesis using "1.prems" by (subst (asm) loopLevel.simps) simp
  next
    case (Some d)
    then show ?thesis
      using "1.prems" "1.IH" [OF Some] unfolding loopLevel.simps [of g flags lb le node]
      by (auto simp: Let_def split: if_splits)
  qed
qed

lemma visit_iff: "n \<in> set (visited es) \<longleftrightarrow> (\<exists>e. Visit n e \<in> set es)"
  by (induction es rule: visited.induct) auto

abbreviation show_event :: "int \<Rightarrow> level_event \<Rightarrow> graph \<Rightarrow> graph" where
  "show_event k e g \<equiv> (case e of Orient a r \<Rightarrow> orient a r g | Visit n depth \<Rightarrow> upd_node n (show_node (\<not> depth > k)) g)"

lemma orient_parts:
  "getNode (orient a r g) j = getNode g j" "g_edges (orient a r g) = g_edges g"
  "list_all2 same_adj (g_adjs g) (g_adjs (orient a r g))"
  using movesD(3) [OF moves_orient [of g "{}"]] marks_only_orient [of g a r] by (auto simp: marks_only_def)

lemma show_fold:
  assumes "\<forall>n e. Visit n e \<in> set es \<longrightarrow> D n = e"
  shows "getNode (fold (show_event k) es g) i
    = map_option (\<lambda>n. if i \<in> set (visited es) then show_node (\<not> D i > k) n else n) (getNode g i)"
  using assms
proof (induction es arbitrary: g rule: visited.induct)
  case (2 n e es)
  have "show_node b (show_node b x) = show_node b x" for b x by (simp add: show_node_def)
  moreover have "D n = e" "\<forall>n e. Visit n e \<in> set es \<longrightarrow> D n = e" using 2(2) by auto
  ultimately show ?case using 2(1) by (cases "getNode g i") auto
next
  case (3 a r es)
  then show ?case by (simp add: orient_parts(1))
qed (simp add: option.map_ident)

lemma show_fold_adjs:
  "g_edges (fold (show_event k) es g) = g_edges g
   \<and> list_all2 same_adj (g_adjs g) (g_adjs (fold (show_event k) es g))"
proof (induction es arbitrary: g rule: visited.induct)
  case 1
  then show ?case by (simp add: list_all2_refl)
next
  case (2 n e es)
  have "g_edges (upd_node n f g) = g_edges g" "g_adjs (upd_node n f g) = g_adjs g" for f
    by (simp_all add: upd_node_def)
  then show ?case using 2 [of "upd_node n (show_node (\<not> e > k)) g"] by simp
next
  case (3 a r es)
  then show ?case
    using "3" orient_parts(2,3) [where a = a and r = r and g = g] by (auto intro: list_all2_trans [OF same_adj_trans])
qed

lemma setRightLevelToShow_parts:
  assumes "depth_of (tm_graph tm) node = Some d" "0 \<le> tm_levelsToShow tm"
  defines "h \<equiv> tm_graph (setRightLevelToShow node tm)"
    and "vs \<equiv> set (visited (eachLevel (tm_graph tm) node 0 (Some (tm_levelsToShow tm + 1)) []))"
  shows "getNode h i = map_option (\<lambda>n. if i \<in> vs
        then show_node (the (depth_of (tm_graph tm) i) \<le> d + tm_levelsToShow tm) n else n) (getNode (tm_graph tm) i)"
    "adjacencies h i = adjacencies (tm_graph tm) i" "list_all2 same_adj (g_adjs (tm_graph tm)) (g_adjs h)"
proof -
  let ?g = "tm_graph tm" and ?L = "tm_levelsToShow tm"
  let ?es = "eachLevel ?g node 0 (Some (?L + 1)) []"
  let ?f = "fold (show_event (d + ?L)) ?es ?g"
  have h: "h = upd_node node (\<lambda>n. n\<lparr>n_drawn := True, n_ignore := False\<rparr>) ?f"
    using assms(1) by (simp add: h_def setRightLevelToShow_def getRightLevelToShow_def Let_def diff_less_eq add.commute
        not_less [symmetric] less_diff_eq cong: level_event.case_cong)
  have "\<forall>n e. Visit n e \<in> set ?es \<longrightarrow> the (depth_of ?g n) = e"
    using visit_depth assms(1) by (fastforce simp: eachLevel_def)
  note f = show_fold [OF this, of "d + ?L" ?g]
  have "node \<in> vs"
    unfolding vs_def using assms(1,2) by (subst eachLevel_visits [OF assms(1)])
      (cases "getNode ?g node"; simp add: up_to_def passes_def filter_node_def flag_props_def depth_of_def)
  then show "getNode h i = map_option (\<lambda>n. if i \<in> vs
        then show_node (the (depth_of ?g i) \<le> d + ?L) n else n) (getNode ?g i)"
    using assms(1,2) by (auto simp: h f vs_def not_less show_node_def option.map_comp comp_def intro!: option.map_cong0)
  show "adjacencies h i = adjacencies ?g i" "list_all2 same_adj (g_adjs ?g) (g_adjs h)"
    using show_fold_adjs [of "d + ?L" ?es ?g] by (simp_all add: h adjacencies_def upd_node_def)
qed

lemma other_end_same_adj:
  assumes "wf_graph g" "list_all2 same_adj (g_adjs g) (g_adjs h)" "(k, r) \<in> set (adjacencies g a)"
  shows "other_end h a r = other_end g a r"
proof -
  have "getAdjacence g a k = Some r"
    using assms(3) wf_distinct_adjacencies [OF assms(1), of a] by (simp add: getAdjacence_def)
  then have ok: "adj_ok g a k r" using assms(1) by (intro wf_adj_ok)
  then have same: "same_adj (g_adjs g ! r) (g_adjs h ! r)"
    using assms(2) by (simp add: adj_ok_def list_all2_conv_all_nth)
  have "a_nodeFrom (g_adjs h ! r) = a \<and> a_nodeTo (g_adjs h ! r) = k
      \<or> a_nodeFrom (g_adjs h ! r) = k \<and> a_nodeTo (g_adjs h ! r) = a"
    using ok same unfolding adj_ok_def same_adj_def by (elim conjE disjE) simp_all
  then have "other_end h a r = k" by (auto simp: other_end_def Let_def)
  then show ?thesis using other_end_key [OF assms(1,3)] by simp
qed

lemma child_reach:
  assumes "depth_of g v = Some e" "(k, r) \<in> set (adjacencies g v)" "depth_of g (other_end g v r) = Some (e + 1)"
  shows "(v, other_end g v r) \<in> child g"
  using assms by (auto simp: child_def deeper_def)

section \<open>Properties\<close>

text \<open>
  C31: showing a number of levels below a node draws every node at most that many levels below it,
  hides and ignores every node exactly one level further, and makes each node of the last level
  shown count as a leaf, whatever children it has. All other nodes are left as they are: those more
  than one level beyond the last level shown keep their state and are not hidden by this call.
\<close>

theorem levels_shown:
  assumes wf: "wf_graph (tm_graph tm)" and node: "depth_of (tm_graph tm) node = Some d" and L: "0 \<le> tm_levelsToShow tm"
  shows "if (node, v) \<in> (child (tm_graph tm))\<^sup>* \<and> depth_of (tm_graph tm) v = Some e \<and> e \<le> d + tm_levelsToShow tm + 1
    then (\<exists>n. getNode (tm_graph (setRightLevelToShow node tm)) v = Some n
        \<and> n_drawn n = (e \<le> d + tm_levelsToShow tm) \<and> n_exist n = (e \<le> d + tm_levelsToShow tm)
        \<and> n_ignore n = (e > d + tm_levelsToShow tm))
      \<and> (e = d + tm_levelsToShow tm \<longrightarrow> tm_leaf (setRightLevelToShow node tm) v)
    else depth_of (tm_graph tm) v = Some e \<longrightarrow> getNode (tm_graph (setRightLevelToShow node tm)) v = getNode (tm_graph tm) v"
proof -
  let ?g = "tm_graph tm" and ?L = "tm_levelsToShow tm" and ?h = "tm_graph (setRightLevelToShow node tm)"
  note parts = setRightLevelToShow_parts [OF node L]
  have visits: "u \<in> set (visited (eachLevel ?g node 0 (Some (?L + 1)) [])) \<longleftrightarrow> (node, u) \<in> (child ?g)\<^sup>* \<and> k \<le> d + ?L + 1"
    if k: "depth_of ?g u = Some k" for u k
  proof -
    obtain n where "getNode ?g u = Some n" using k by (cases "getNode ?g u") (simp_all add: depth_of_def)
    moreover have "d \<le> k" if "(node, u) \<in> (child ?g)\<^sup>*" using child_depth [OF that k] node k by force
    ultimately show ?thesis
      using k by (subst eachLevel_visits [OF node]) (auto simp: up_to_def passes_def filter_node_def flag_props_def)
  qed
  have state: "\<exists>n. getNode ?h u = Some n \<and> n_drawn n = (k \<le> d + ?L) \<and> n_exist n = (k \<le> d + ?L) \<and> n_ignore n = (k > d + ?L)"
    if u: "(node, u) \<in> (child ?g)\<^sup>*" "depth_of ?g u = Some k" "k \<le> d + ?L + 1" for u k
  proof -
    have "\<exists>n. getNode ?g u = Some n" using u(2) by (cases "getNode ?g u") (simp_all add: depth_of_def)
    then show ?thesis using u visits [OF u(2)] by (auto simp: parts(1) show_node_def)
  qed
  have "tm_leaf (setRightLevelToShow node tm) v"
    if v: "(node, v) \<in> (child ?g)\<^sup>*" "depth_of ?g v = Some e" and e: "e = d + ?L"
  proof -
    have depth: "depth_of ?h u = depth_of ?g u" for u
      by (cases "getNode ?g u") (simp_all add: depth_of_def parts(1) show_node_def)
    have "\<not> passes ''ignore'' ?h c" if c: "(k, r) \<in> set (adjacencies ?g v)" "c = other_end ?g v r" "depth_of ?g c = Some (e + 1)" for c k r
    proof -
      have "(node, c) \<in> (child ?g)\<^sup>*" using v(1) child_reach [OF v(2) c(1)] c(2,3) by (auto intro: rtrancl_into_rtrancl)
      from state [OF this c(3)] show ?thesis using e by (auto simp: passes_def filter_node_def node_prop_def)
    qed
    then show ?thesis
      using other_end_same_adj [OF wf parts(3)]
      by (auto simp: tm_leaf_children children_neighbours parts(2) depth v(2) filter_empty_conv)
  qed
  moreover have "getNode ?h v = getNode ?g v"
    if "\<not> ((node, v) \<in> (child ?g)\<^sup>* \<and> depth_of ?g v = Some e \<and> e \<le> d + ?L + 1)" "depth_of ?g v = Some e"
    using that visits [OF that(2)] by (auto simp: parts(1) option.map_ident)
  ultimately show ?thesis using state by (simp split: if_split)
qed

text \<open>The three boxes below the node are hidden when no level below it is shown.\<close>

theorem levels_shown_witness:
  "\<exists>m n. getNode three_boxes_levels ''a'' = Some m \<and> \<not> n_ignore m
     \<and> getNode (tm_graph (setRightLevelToShow ''r'' (three_boxes\<lparr>tm_graph := three_boxes_levels\<rparr>))) ''a'' = Some n
     \<and> \<not> n_drawn n \<and> n_ignore n \<and> tm_leaf (setRightLevelToShow ''r'' (three_boxes\<lparr>tm_graph := three_boxes_levels\<rparr>)) ''r''"
proof -
  let ?t = "three_boxes\<lparr>tm_graph := three_boxes_levels\<rparr>"
  have g: "wf_graph three_boxes_levels" "depth_of three_boxes_levels ''r'' = Some 0" "tm_levelsToShow three_boxes = 0"
    "depth_of three_boxes_levels ''a'' = Some 1" "map fst (adjacencies three_boxes_levels ''r'') = [''a'', ''b'', ''c'']"
    "map_option n_ignore (getNode three_boxes_levels ''a'') = Some False"
    by (code_simp; fail)+
  obtain k where k: "(''a'', k) \<in> set (adjacencies three_boxes_levels ''r'')"
    using g(5) by (cases "adjacencies three_boxes_levels ''r''") auto
  have "(''r'', ''a'') \<in> (child three_boxes_levels)\<^sup>*"
    using child_reach [OF g(2) k] g(4) other_end_key [OF g(1) k] by auto
  then show ?thesis
    using levels_shown [of ?t "''r''" 0 "''a''" 1] levels_shown [of ?t "''r''" 0 "''r''" 0] g by auto
qed

end
