(* ===== verification/Jit_Op.thy ===== *)
theory Jit_Op
  imports Jit_Loader Jit_Boxes Jit_RGraph
begin

text \<open>
  The operations on a visualization (\<^verbatim>\<open>rfweb/js/jit/jit.js\<close>, \<^verbatim>\<open>Graph.Op\<close>): removing nodes and
  edges, adding a graph to the one that is shown, morphing it into another one, and collapsing
  and expanding a node, with the types of transition the code offers. The visualization is the
  radial graph of the network page (\<^verbatim>\<open>RGraph\<close>), whose \<^verbatim>\<open>refresh\<close>, \<^verbatim>\<open>reposition\<close> and \<^verbatim>\<open>compute\<close> the
  operations run. A transition is modelled by the state it ends with, after the callbacks of its
  animations. An exception is \<open>None\<close>, also when it is raised in such a callback: for an unknown
  type, for an unknown node, and when the layout finds no root in the graph. The interpolation of
  positions and colours, the labels and the drawing, with the marks \<^verbatim>\<open>visited\<close> that it turns, are
  left out.
\<close>

section \<open>State\<close>

type_synonym label_sizes = "string \<Rightarrow> string \<Rightarrow> string \<Rightarrow> real \<times> real"

definition on_graph :: "(graph \<Rightarrow> graph) \<Rightarrow> radial \<Rightarrow> radial" where
  "on_graph f r = r\<lparr>rd_graph := f (rd_graph r)\<rparr>"

text \<open>\<^verbatim>\<open>viz.root = opt.id || viz.root\<close>.\<close>

definition new_root :: "id option \<Rightarrow> radial \<Rightarrow> id" where
  "new_root opt_id r = (case opt_id of None \<Rightarrow> rd_root r | Some i \<Rightarrow> if i = [] then rd_root r else i)"

definition node_spec_of :: "gnode \<Rightarrow> node_spec" where
  "node_spec_of n = \<lparr>s_id = n_id n, s_name = n_name n, s_data = ds_data (n_store n)\<rparr>"

definition spec_at :: "graph \<Rightarrow> id \<Rightarrow> node_spec" where
  "spec_at g i = (case getNode g i of None \<Rightarrow> \<lparr>s_id = i, s_name = [], s_data = []\<rparr> | Some n \<Rightarrow> node_spec_of n)"

definition upd_adj :: "nat \<Rightarrow> (datastore \<Rightarrow> datastore) \<Rightarrow> graph \<Rightarrow> graph" where
  "upd_adj r f g = g\<lparr>g_adjs := (g_adjs g)[r := (g_adjs g ! r)\<lparr>a_store := f (a_store (g_adjs g ! r))\<rparr>]\<rparr>"

text \<open>\<^verbatim>\<open>for (prop in src) dst.data[prop] = src[prop]\<close>.\<close>

definition copy_data :: "props \<Rightarrow> datastore \<Rightarrow> datastore" where
  "copy_data src s = s\<lparr>ds_data := fold (\<lambda>(k, v) d. AList.update k v d) src (ds_data s)\<rparr>"

text \<open>The opacity of the three states.\<close>

definition set_store :: "string \<Rightarrow> jsval \<Rightarrow> string \<Rightarrow> datastore \<Rightarrow> datastore" where
  "set_store k v type s = (case setData s k v type of None \<Rightarrow> s | Some t \<Rightarrow> t)"

definition fade_store :: "real \<Rightarrow> real \<Rightarrow> datastore \<Rightarrow> datastore" where
  "fade_store a b s =
     set_store ''alpha'' (JNum b) ''end'' (set_store ''alpha'' (JNum a) ''start'' (set_store ''alpha'' (JNum a) ''current'' s))"

definition viz_construct :: "radial \<Rightarrow> jtree + props list \<Rightarrow> graph" where
  "viz_construct r json = (let g = rd_graph r in construct (g_opt g) (g_Node g) (g_Edge g) (g_Label g) json)"

definition node_ignored :: "graph \<Rightarrow> id \<Rightarrow> bool" where
  "node_ignored g i = (case getNode g i of None \<Rightarrow> False | Some n \<Rightarrow> n_ignore n)"

section \<open>Removing nodes and edges\<close>

definition hide_node :: "bool \<Rightarrow> id \<Rightarrow> graph \<Rightarrow> graph option" where
  "hide_node con i g =
     (if hasNode g i
      then Some (upd_node i (\<lambda>n. n\<lparr>n_store := set_store ''alpha'' (JNum 0) ''end'' (n_store n),
                                  n_ignore := con \<or> n_ignore n\<rparr>) g)
      else None)"

fun fold_opt :: "('a \<Rightarrow> 's \<Rightarrow> 's option) \<Rightarrow> 'a list \<Rightarrow> 's \<Rightarrow> 's option" where
  "fold_opt f [] s = Some s"
| "fold_opt f (x # xs) s = Option.bind (f x s) (fold_opt f xs)"

text \<open>
  The steps of \<^verbatim>\<open>fx.sequence\<close>, one in each interval, with a refresh after each of them and after
  the interval that finds nothing left to do.
\<close>

definition fx_sequence ::
  "label_sizes \<Rightarrow> ('a \<Rightarrow> radial \<Rightarrow> radial option) \<Rightarrow> 'a list \<Rightarrow> radial \<Rightarrow> radial option" where
  "fx_sequence offset step n r =
     Option.bind (fold_opt (\<lambda>x r. Option.bind (step x r) (rgraph_refresh offset)) n r) (rgraph_refresh offset)"

definition op_removeNode :: "label_sizes \<Rightarrow> string \<Rightarrow> id list \<Rightarrow> radial \<Rightarrow> radial option" where
  "op_removeNode offset type n r =
     (let remove = on_graph (fold removeNode n)
      in if type = ''nothing'' then Some (remove r)
         else if type = ''replot'' then rgraph_refresh offset (remove r)
         else if type = ''fade:seq'' \<or> type = ''fade'' then
           Option.bind (fold_opt (hide_node False) n (rd_graph r)) (\<lambda>g. reposition offset (remove (r\<lparr>rd_graph := g\<rparr>)))
         else if type = ''fade:con'' then
           Option.bind (fold_opt (hide_node True) n (rd_graph r))
             (\<lambda>g. map_option remove (reposition offset (r\<lparr>rd_graph := g\<rparr>)))
         else if type = ''iter'' then fx_sequence offset (\<lambda>i r. Some (on_graph (removeNode i) r)) n r
         else None)"

definition hide_edge :: "bool \<Rightarrow> id \<times> id \<Rightarrow> graph \<Rightarrow> graph" where
  "hide_edge con = (\<lambda>(a, b) g.
     case getAdjacence g a b of
       None \<Rightarrow> g
     | Some r \<Rightarrow>
         (let g = upd_adj r (set_store ''alpha'' (JNum 0) ''end'') g
          in if con then g\<lparr>g_adjs := (g_adjs g)[r := (g_adjs g ! r)
               \<lparr>a_ext := AList.update ''ignore'' (JBool True) (a_ext (g_adjs g ! r))\<rparr>]\<rparr>
             else g))"

definition remove_pairs :: "(id \<times> id) list \<Rightarrow> radial \<Rightarrow> radial option" where
  "remove_pairs vs r = map_option (\<lambda>g. r\<lparr>rd_graph := g\<rparr>) (fold_opt (\<lambda>(a, b). removeAdjacence a b) vs (rd_graph r))"

definition op_removeEdge :: "label_sizes \<Rightarrow> string \<Rightarrow> (id \<times> id) list \<Rightarrow> radial \<Rightarrow> radial option" where
  "op_removeEdge offset type vs r =
     (if type = ''nothing'' then remove_pairs vs r
      else if type = ''replot'' then Option.bind (remove_pairs vs r) (rgraph_refresh offset)
      else if type = ''fade:seq'' \<or> type = ''fade'' then
        Option.bind (remove_pairs vs (on_graph (fold (hide_edge False) vs) r)) (reposition offset)
      else if type = ''fade:con'' then
        Option.bind (reposition offset (on_graph (fold (hide_edge True) vs) r)) (remove_pairs vs)
      else if type = ''iter'' then fx_sequence offset (\<lambda>e. remove_pairs [e]) vs r
      else None)"

section \<open>Adding a graph\<close>

text \<open>The pair is the graph that was constructed, whose adjacencies the loop turns, and the one shown.\<close>

definition sum_node :: "id \<Rightarrow> graph \<times> graph \<Rightarrow> graph \<times> graph" where
  "sum_node i = (\<lambda>(graph, vg).
     let (graph, calls) = eachAdjacency i [] graph
     in (graph, fold (\<lambda>(r, n) vg. fst (addAdjacence (spec_at graph i) (spec_at graph n)
                  (ds_data (a_store (g_adjs graph ! r))) vg)) calls vg))"

definition sum_nothing :: "graph \<Rightarrow> graph \<Rightarrow> graph" where
  "sum_nothing graph vg = snd (fold sum_node (map fst (g_nodes graph)) (graph, vg))"

text \<open>
  Preparing the nodes and edges that are new for a fade. The opacities \<^verbatim>\<open>startAlpha\<close> and
  \<^verbatim>\<open>endAlpha\<close> the code compares are never set, so that they are always equal.
\<close>

definition add_faded :: "graph \<Rightarrow> id \<Rightarrow> graph \<Rightarrow> graph" where
  "add_faded graph i vg =
     (if hasNode vg i then vg
      else upd_node i (\<lambda>n. n\<lparr>n_store := fade_store 0 1 (n_store n)\<rparr>) (addNode (spec_at graph i) vg))"

definition link_faded :: "id \<Rightarrow> graph \<times> graph \<times> bool \<Rightarrow> graph \<times> graph \<times> bool" where
  "link_faded i = (\<lambda>(graph, vg, fadeEdges).
     let (graph, calls) = eachAdjacency i [] graph
     in (graph, fold (\<lambda>(r, n) (vg, fadeEdges).
          if adjacentTo vg i n then (vg, fadeEdges)
          else (case addAdjacence (spec_at vg i) (spec_at vg n) (ds_data (a_store (g_adjs graph ! r))) vg of
                  (vg, None) \<Rightarrow> (vg, fadeEdges)
                | (vg, Some q) \<Rightarrow> (upd_adj q (fade_store 0 1) vg, True))) calls (vg, fadeEdges)))"

definition preprocessSum :: "graph \<Rightarrow> graph \<Rightarrow> graph \<times> bool" where
  "preprocessSum graph vg =
     (let vg = fold (add_faded graph) (map fst (g_nodes graph)) vg
      in snd (fold link_faded (map fst (g_nodes graph)) (graph, vg, False)))"

definition fade_types :: "string list" where
  "fade_types = [''fade:seq'', ''fade'', ''fade:con'']"

text \<open>
  A node at the origin that is not the root starts its animation from where it ends; \<open>old\<close> is the
  root before the operation.
\<close>

definition start_new :: "id \<Rightarrow> graph \<Rightarrow> graph" where
  "start_new old g = eachNode g (\<lambda>i. upd_node i (\<lambda>n.
     if n_id n \<noteq> old \<and> polar_equals (getp (n_pos n)) Polar_KER
     then n\<lparr>n_pos := set_pos (n_pos n) (n_endPos n), n_startPos := set_pos (n_startPos n) (n_endPos n)\<rparr>
     else n)) []"

definition op_sum :: "label_sizes \<Rightarrow> string \<Rightarrow> id option \<Rightarrow> jtree + props list \<Rightarrow> radial \<Rightarrow> radial option" where
  "op_sum offset type opt_id json r =
     (let old = rd_root r;
          r = r\<lparr>rd_root := new_root opt_id r\<rparr>;
          graph = viz_construct r json
      in if type = ''nothing'' then Some (on_graph (sum_nothing graph) r)
         else if type = ''replot'' then
           Option.bind (rgraph_refresh offset r) (\<lambda>r. rgraph_refresh offset (on_graph (sum_nothing graph) r))
         else if type \<in> set fade_types then
           Option.bind (reposition offset (on_graph (\<lambda>g. fst (preprocessSum graph g)) r))
             (\<lambda>r. Some (if type = ''fade:con'' then on_graph (start_new old) r else r))
         else None)"

section \<open>Morphing\<close>

definition morph_adj :: "graph \<Rightarrow> id \<Rightarrow> nat \<times> id \<Rightarrow> graph \<Rightarrow> graph" where
  "morph_adj graph i = (\<lambda>(r, n) vg.
     let data = ds_data (a_store (g_adjs graph ! r));
         adjExists = (getAdjacence vg i n \<noteq> None);
         vg = fst (addAdjacence (spec_at graph i) (spec_at graph n) data vg)
     in if adjExists
        then (case getAdjacence vg i n of None \<Rightarrow> vg | Some q \<Rightarrow> upd_adj q (copy_data data) vg)
        else vg)"

definition morph_node :: "id \<Rightarrow> graph \<times> graph \<Rightarrow> graph \<times> graph" where
  "morph_node i = (\<lambda>(graph, vg).
     let nodeExists = hasNode vg i;
         (graph, calls) = eachAdjacency i [] graph;
         vg = fold (morph_adj graph i) calls vg
     in (graph, if nodeExists
                then upd_node i (\<lambda>n. n\<lparr>n_store := copy_data (s_data (spec_at graph i)) (n_store n)\<rparr>) vg
                else vg))"

text \<open>What the new graph does not have is removed.\<close>

definition morph_clean :: "graph \<Rightarrow> id \<Rightarrow> graph \<Rightarrow> graph" where
  "morph_clean graph i vg =
     (let (vg, calls) = eachAdjacency i [] vg;
          vg = fold (\<lambda>(r, n) vg. if getAdjacence graph i n = None
                 then graph_step (RemoveAdjacence i n) vg else vg) calls vg
      in if hasNode graph i then vg else removeNode i vg)"

definition morph_nothing :: "graph \<Rightarrow> graph \<Rightarrow> graph" where
  "morph_nothing graph vg =
     (let (graph, vg) = fold morph_node (map fst (g_nodes graph)) (graph, vg)
      in eachNode vg (morph_clean graph) [])"

text \<open>The preparation of a fade: what will be removed is marked; \<open>nodeModes\<close> are the keys to interpolate.\<close>

definition mark_node :: "string list \<Rightarrow> graph \<Rightarrow> id \<Rightarrow> graph \<Rightarrow> graph" where
  "mark_node nodeModes graph i vg =
     (case getNode graph i of
        None \<Rightarrow> upd_node i (\<lambda>n. n\<lparr>n_store := fade_store 1 0 (n_store n), n_ignore := True\<rparr>) vg
      | Some gn \<Rightarrow>
          upd_node i (\<lambda>n. n\<lparr>n_store := fold (\<lambda>(k, v) s.
             if k \<in> set nodeModes then s\<lparr>ds_endData := AList.update k v (ds_endData s)\<rparr>
             else s\<lparr>ds_data := AList.update k v (ds_data s)\<rparr>) (ds_data (n_store gn)) (n_store n)\<rparr>) vg)"

definition mark_edges :: "graph \<Rightarrow> id \<Rightarrow> graph \<Rightarrow> graph" where
  "mark_edges graph i vg =
     (if node_ignored vg i then vg
      else
        (let (vg, calls) = eachAdjacency i [] vg
         in fold (\<lambda>(r, n) vg.
              if node_ignored vg i \<or> node_ignored vg n then vg
              else if adjacentTo graph i n then vg
              else (case getAdjacence vg i n of None \<Rightarrow> vg | Some q \<Rightarrow> upd_adj q (fade_store 1 0) vg)) calls vg))"

definition drop_ignored_edges :: "id \<Rightarrow> graph \<Rightarrow> graph" where
  "drop_ignored_edges i vg =
     (let (vg, calls) = eachAdjacency i [] vg
      in fold (\<lambda>(r, n) vg. if adj_prop (g_adjs vg ! r) ''ignore''
           then graph_step (RemoveAdjacence i n) vg else vg) calls vg)"

definition morph_complete :: "graph \<Rightarrow> graph" where
  "morph_complete vg =
     (let vg = eachNode vg (\<lambda>i g. if node_ignored g i then removeNode i g else g) []
      in eachNode vg drop_ignored_edges [])"

definition morph_prepare :: "string list \<Rightarrow> graph \<Rightarrow> graph \<Rightarrow> graph" where
  "morph_prepare nodeModes graph vg =
     (let vg = eachNode vg (mark_node nodeModes graph) [];
          vg = eachNode vg (mark_edges graph) []
      in fst (preprocessSum graph vg))"

text \<open>\<open>nodeProps\<close> are the node properties named by \<^verbatim>\<open>extraModes\<close>; an unknown type does nothing.\<close>

definition op_morph ::
  "label_sizes \<Rightarrow> string \<Rightarrow> id option \<Rightarrow> string list \<Rightarrow> jtree + props list \<Rightarrow> radial \<Rightarrow> radial option" where
  "op_morph offset type opt_id nodeProps json r =
     (let old = rd_root r;
          r = r\<lparr>rd_root := new_root opt_id r\<rparr>;
          graph = viz_construct r json; nodeModes = map (\<lambda>n. ''$'' @ n) nodeProps
      in if type = ''nothing'' then Some (on_graph (morph_nothing graph) r)
         else if type = ''replot'' then
           Option.bind (rgraph_refresh offset (on_graph (morph_nothing graph) r)) (rgraph_refresh offset)
         else if type \<in> set fade_types then
           map_option (on_graph (\<lambda>g. morph_complete (start_new old g)))
             (reposition offset (on_graph (morph_prepare nodeModes graph) r))
         else Some r)"

section \<open>Contracting and expanding\<close>

text \<open>A loop over all nodes below a node, each before the nodes below it.\<close>

function subn :: "(gnode \<Rightarrow> gnode) \<Rightarrow> graph \<Rightarrow> id \<Rightarrow> graph \<Rightarrow> graph" where
  "subn f g0 n g =
     fold (\<lambda>e g. case e of
              Orient a r \<Rightarrow> orient a r g
            | Visit ch d \<Rightarrow> subn f g0 ch (upd_node ch f g)) (eachSubnode g0 n []) g"
  by pat_completeness auto
termination
  by (relation "measure (\<lambda>(_, g0, n, _). card (deeper_nodes g0 n))") (auto intro: subnodes_deeper visit_visited)

declare subn.simps [simp del]

definition collapsed_mark :: "graph \<Rightarrow> id \<Rightarrow> jsval option" where
  "collapsed_mark g i = Option.bind (getNode g i) (\<lambda>n. map_of (n_ext n) ''collapsed'')"

definition fade_node :: "bool \<Rightarrow> string \<Rightarrow> gnode \<Rightarrow> gnode" where
  "fade_node hide type n =
     n\<lparr>n_ignore := hide,
       n_store := set_store ''alpha'' (JNum (if hide then 0 else 1)) (if type = ''animate'' then ''end'' else ''current'')
         (n_store n)\<rparr>"

definition move_to :: "pos option \<Rightarrow> gnode \<Rightarrow> gnode" where
  "move_to p n =
     (case p of None \<Rightarrow> n
      | Some p \<Rightarrow> (case node_setPos p ''end'' n of None \<Rightarrow> n | Some m \<Rightarrow> m))"

definition op_contract :: "label_sizes \<Rightarrow> string \<Rightarrow> id \<Rightarrow> radial \<Rightarrow> radial option" where
  "op_contract offset type i r =
     (let g = rd_graph r
      in if (case collapsed_mark g i of None \<Rightarrow> False | Some b \<Rightarrow> truthy b) \<or> \<not> anySubnode g i (\<lambda>_. True) [] then Some r
         else
           (let g = upd_node i (node_set_prop ''collapsed'' (JBool True)) g;
                r = r\<lparr>rd_graph := subn (fade_node True type) g i g\<rparr>
            in if type = ''animate'' then
                 map_option (on_graph (\<lambda>g.
                     subn (move_to (Option.bind (getNode g i) (\<lambda>n. node_getPos n ''end''))) g i g))
                   (reposition offset r)
               else if type = ''replot'' then rgraph_refresh offset r
               else Some r))"

definition op_expand :: "label_sizes \<Rightarrow> string \<Rightarrow> id \<Rightarrow> radial \<Rightarrow> radial option" where
  "op_expand offset type i r =
     (let g = rd_graph r
      in if collapsed_mark g i = None then Some r
         else
           (let g = upd_node i (\<lambda>n. n\<lparr>n_ext := AList.delete ''collapsed'' (n_ext n)\<rparr>) g;
                r = r\<lparr>rd_graph := subn (fade_node False type) g i g\<rparr>
            in if type = ''animate'' then reposition offset r
               else if type = ''replot'' then rgraph_refresh offset r
               else Some r))"

end
