(* ===== verification/Jit_OpGraph.thy ===== *)
theory Jit_OpGraph
  imports Jit_Op
begin

text \<open>
  The graphs that the operations of \<^verbatim>\<open>Graph.Op\<close> leave, as sets of vertices and edges. Each loop
  of an operation is simulated by a loop on such sets (\<open>loop_simulates\<close>), which is then solved.
  The layout of a visualization has a contract, the locale \<open>viz_layout\<close>: it raises an exception when
  the root is not in the graph, and otherwise moves nodes and marks them, but adds, removes, hides
  and shows none. The \<^verbatim>\<open>refresh\<close> and the \<^verbatim>\<open>reposition\<close> of the radial graph satisfy it.
\<close>

section \<open>Graphs and their vertices and edges\<close>

definition depicts :: "graph \<Rightarrow> ugraph \<Rightarrow> bool" where
  "depicts g G \<longleftrightarrow> wf_graph g \<and> abs_graph g = G"

lemma loop_simulates:
  assumes "\<And>x s G. x \<in> set xs \<Longrightarrow> R s G \<Longrightarrow> R (f x s) (h x G)" "R s G"
  shows "R (fold f xs s) (fold h xs G)"
  using assms by (induction xs arbitrary: s G) auto

lemma depicts_step: "depicts g G \<Longrightarrow> depicts (graph_step p g) (ugraph_step p G)"
  using graph_impl.step_inv graph_impl.step_abs by (auto simp: depicts_def)

lemma depicts_wf: "depicts g G \<Longrightarrow> wf_graph g"
  by (simp add: depicts_def)

lemma depicts_node: "depicts g (V, E) \<Longrightarrow> hasNode g i \<longleftrightarrow> i \<in> V"
  by (auto simp: depicts_def abs_graph_def)

lemma depicts_adjacence:
  assumes "depicts g (V, E)"
  shows "getAdjacence g a b = None \<longleftrightarrow> {a, b} \<notin> E"
  using assms wf_adj_sym [of g a b] by (auto simp: depicts_def abs_graph_def doubleton_eq_iff)

lemma depicts_edge:
  assumes "depicts g (V, E)" "e \<in> E"
  obtains a b where "e = {a, b}" "a \<in> V" "b \<in> V"
proof -
  obtain a b where e: "e = {a, b}" "getAdjacence g a b \<noteq> None" using assms by (auto simp: depicts_def abs_graph_def)
  then have "hasNode g a \<and> hasNode g b" using wf_hasNode [OF depicts_wf [OF assms(1)]] by blast
  then show ?thesis using that e(1) depicts_node [OF assms(1)] by blast
qed

lemma depicts_meets: "depicts g (V, E) \<Longrightarrow> e \<in> E \<Longrightarrow> e \<inter> V \<noteq> {} \<and> e \<subseteq> V"
  by (erule depicts_edge) auto

lemma depicts_same:
  assumes "depicts g G" "wf_graph h" "g_edges h = g_edges g" "map fst (g_nodes h) = map fst (g_nodes g)"
  shows "depicts h G"
proof -
  have "hasNode h i = hasNode g i" "getAdjacence h i j = getAdjacence g i j" for i j
    using assms(3,4) by (simp_all add: hasNode_def getAdjacence_edges flip: set_map)
  then show ?thesis using assms(1,2) by (simp add: depicts_def abs_graph_def)
qed

lemma depicts_upd_node:
  "depicts g G \<Longrightarrow> (\<And>n. n_id (f n) = n_id n) \<Longrightarrow> depicts (upd_node i f g) G"
  by (rule depicts_same) (simp_all add: wf_upd_node depicts_wf)

lemma upd_adj_parts [simp]:
  "g_nodes (upd_adj r f g) = g_nodes g" "g_edges (upd_adj r f g) = g_edges g" "g_opt (upd_adj r f g) = g_opt g"
  "length (g_adjs (upd_adj r f g)) = length (g_adjs g)"
  by (simp_all add: upd_adj_def)

lemma upd_adj_ends:
  "q < length (g_adjs g) \<Longrightarrow> a_nodeFrom (g_adjs (upd_adj r f g) ! q) = a_nodeFrom (g_adjs g ! q)
    \<and> a_nodeTo (g_adjs (upd_adj r f g) ! q) = a_nodeTo (g_adjs g ! q)
    \<and> a_ext (g_adjs (upd_adj r f g) ! q) = a_ext (g_adjs g ! q)"
  by (cases "r = q") (simp_all add: upd_adj_def)

lemma wf_change_adj:
  assumes wf: "wf_graph g" and f: "a_nodeFrom a = a_nodeFrom (g_adjs g ! r)" "a_nodeTo a = a_nodeTo (g_adjs g ! r)"
  shows "wf_graph (g\<lparr>g_adjs := (g_adjs g)[r := a]\<rparr>)"
proof -
  let ?h = "g\<lparr>g_adjs := (g_adjs g)[r := a]\<rparr>"
  have "adj_ok ?h b c q" if "adj_ok g b c q" for b c q
    using that f by (cases "r = q") (auto simp: adj_ok_def)
  then show ?thesis using wf by (simp add: wf_graph_iff getNode_def)
qed

lemma depicts_change_adj:
  assumes "depicts g G" "a_nodeFrom a = a_nodeFrom (g_adjs g ! r)" "a_nodeTo a = a_nodeTo (g_adjs g ! r)"
  shows "depicts (g\<lparr>g_adjs := (g_adjs g)[r := a]\<rparr>) G"
  using assms by (intro depicts_same [OF assms(1)]) (simp_all add: wf_change_adj depicts_wf)

lemma depicts_upd_adj: "depicts g G \<Longrightarrow> depicts (upd_adj r f g) G"
  unfolding upd_adj_def by (rule depicts_change_adj) simp_all

lemma depicts_marks:
  assumes "depicts g G" "marks_only g h"
  shows "depicts h G"
  using assms marks_only_wf [OF depicts_wf [OF assms(1)] assms(2)] by (auto simp: marks_only_def intro: depicts_same)

text \<open>The loop over the adjacencies of a node calls its action once for each of its neighbours.\<close>

lemma depicts_eachAdjacency:
  assumes "depicts g (V, E)" "eachAdjacency i [] g = (h, calls)"
  shows "marks_only g h" "depicts h (V, E)" "g_nodes h = g_nodes g" "snd ` set calls = {n. {i, n} \<in> E}"
proof -
  note adj = eachAdjacency_linked [OF depicts_wf [OF assms(1)], of i "[]", unfolded assms(2) fst_conv snd_conv linked_all]
  show m: "marks_only g h" by (rule adj(1))
  then show "depicts h (V, E)" using assms(1) depicts_marks by blast
  show "g_nodes h = g_nodes g" using nodes_eachAdjacency [of i "[]" g] by (simp add: assms(2))
  have "snd ` set calls = set (map fst (adjacencies g i))" using adj(2) by (metis set_map)
  also have "\<dots> = {n. {i, n} \<in> E}"
    using depicts_adjacence [OF assms(1), of i] by (auto simp: getAdjacence_def keys_map_of simp del: set_map)
  finally show "snd ` set calls = {n. {i, n} \<in> E}" .
qed

text \<open>The loop over the nodes.\<close>

lemma eachNode_simulates:
  assumes "\<And>i s V E. R s (V, E) \<Longrightarrow> depicts s (V, E)" "R g G"
    and "\<And>i s V E. R s (V, E) \<Longrightarrow> i \<in> V \<Longrightarrow> R (action i s) (h i (V, E))"
    and "\<And>i s V E. R s (V, E) \<Longrightarrow> i \<notin> V \<Longrightarrow> h i (V, E) = (V, E)"
  shows "R (eachNode g action []) (fold h (map fst (g_nodes g)) G)"
  unfolding eachNode_def
proof (rule loop_simulates [where R = R, OF _ assms(2)])
  fix i s and G :: ugraph
  assume r: "R s G"
  obtain V E where G: "G = (V, E)" by force
  show "R (case getNode s i of None \<Rightarrow> s | Some n \<Rightarrow> if filter_node [] n then action i s else s) (h i G)"
    using r assms(3,4) [of s V E i] depicts_node [OF assms(1), of s V E i]
    by (auto simp: G filter_node_def flag_props_def hasNode_getNode split: option.splits)
qed

section \<open>The graph of a JSON object\<close>

definition json_graph :: "jtree + props list \<Rightarrow> ugraph" where
  "json_graph json = (case json of Inl t \<Rightarrow> (tree_nodes t, tree_edges t) | Inr ns \<Rightarrow> (json_nodes ns, json_edges ns))"

lemma viz_construct_depicts: "depicts (viz_construct v json) (json_graph json)"
  using construct_array construct_tree_json
  by (auto simp: depicts_def viz_construct_def json_graph_def Let_def split: sum.splits)

lemma spec_at_id: "wf_graph g \<Longrightarrow> s_id (spec_at g i) = i"
  by (auto simp: spec_at_def node_spec_of_def wf_graph_iff split: option.splits)

section \<open>Adding a graph\<close>

definition add_star :: "id set set \<Rightarrow> id \<Rightarrow> ugraph \<Rightarrow> ugraph" where
  "add_star F i = (\<lambda>(V, E). (V \<union> \<Union> {e \<in> F. i \<in> e}, E \<union> {e \<in> F. i \<in> e}))"

lemma add_stars: "fold (add_star F) is (V, E) = (V \<union> \<Union> {e \<in> F. e \<inter> set is \<noteq> {}}, E \<union> {e \<in> F. e \<inter> set is \<noteq> {}})"
  by (induction "is" arbitrary: V E) (auto simp: add_star_def)

lemma add_all_stars:
  assumes "depicts g (VG, EG)"
  shows "fold (add_star EG) (map fst (g_nodes g)) (V, E) = (V \<union> \<Union> EG, E \<union> EG)"
proof -
  have "set (map fst (g_nodes g)) = VG" using depicts_node [OF assms] by (auto simp: hasNode_def)
  moreover have "{e \<in> EG. e \<inter> VG \<noteq> {}} = EG" using depicts_edge [OF assms] by blast
  ultimately show ?thesis by (simp add: add_stars del: set_map)
qed

text \<open>The edges of a node added one after the other.\<close>

definition add_edge :: "id \<Rightarrow> nat \<times> id \<Rightarrow> ugraph \<Rightarrow> ugraph" where
  "add_edge i c = (\<lambda>(V, E). (insert i (insert (snd c) V), insert {i, snd c} E))"

lemma add_edges:
  "fold (add_edge i) calls (V, E) = (V \<union> \<Union> ((\<lambda>n. {i, n}) ` snd ` set calls), E \<union> (\<lambda>n. {i, n}) ` snd ` set calls)"
  by (induction calls arbitrary: V E) (auto simp: add_edge_def)

lemma edges_at:
  assumes "depicts g (V, E)"
  shows "(\<lambda>n. {i, n}) ` {n. {i, n} \<in> E} = {e \<in> E. i \<in> e}"
proof -
  have "\<exists>n. e = {i, n}" if "e \<in> E" "i \<in> e" for e
  proof -
    obtain a b where "e = {a, b}" using depicts_edge [OF assms \<open>e \<in> E\<close>] by metis
    then show ?thesis using that(2) by blast
  qed
  then show ?thesis by blast
qed

lemma add_edges_star:
  assumes "depicts g (VG, EG)" "snd ` set calls = {n. {i, n} \<in> EG}"
  shows "fold (add_edge i) calls G = add_star EG i G"
  by (cases G) (simp add: add_edges assms(2) edges_at [OF assms(1)] add_star_def)

text \<open>
  A loop over the nodes of the new graph that does something for each adjacence of each of
  them, such that an edge is added to the graph shown. The adjacencies of the new graph are
  turned on the way.
\<close>

lemma star_step:
  assumes gr: "depicts gr (VG, EG)" "eachAdjacency i [] gr = (gr', calls)" and vg: "depicts vg G"
    and act: "\<And>c vg G. depicts vg G \<Longrightarrow> depicts (f c vg) (add_edge i c G)"
  shows "depicts (fold f calls vg) (add_star EG i G)"
  unfolding add_edges_star [OF gr(1) depicts_eachAdjacency(4) [OF gr], symmetric]
  using act vg by (rule loop_simulates [where R = depicts])

lemma addAdjacence_edge:
  assumes "wf_graph gr" "depicts vg G"
  shows "depicts (fst (addAdjacence (spec_at gr i) (spec_at gr (snd c)) d vg)) (add_edge i c G)"
  using depicts_step [OF assms(2), of "AddAdjacence (spec_at gr i) (spec_at gr (snd c)) d"]
  by (cases G) (simp add: spec_at_id [OF assms(1)] add_edge_def)

lemma sum_nothing_depicts:
  assumes "depicts graph (VG, EG)" "depicts vg (V, E)"
  shows "depicts (sum_nothing graph vg) (V \<union> \<Union> EG, E \<union> EG)"
proof -
  let ?R = "\<lambda>s G. depicts (fst s) (VG, EG) \<and> depicts (snd s) G"
  have step: "?R (sum_node i s) (add_star EG i G)" if r: "?R s G" for i s G
  proof -
    obtain gr vg where s: "s = (gr, vg)" by force
    obtain gr' calls where e: "eachAdjacency i [] gr = (gr', calls)" by force
    have gr: "depicts gr (VG, EG)" using r s by simp
    note gr' = depicts_eachAdjacency(2) [OF gr e]
    have "depicts (fold (\<lambda>(r, n) vg. fst (addAdjacence (spec_at gr' i) (spec_at gr' n)
        (ds_data (a_store (g_adjs gr' ! r))) vg)) calls vg) (add_star EG i G)"
      using r addAdjacence_edge [OF depicts_wf [OF gr']]
      by (intro star_step [OF gr e]) (auto simp: s case_prod_unfold)
    then show ?thesis using gr' by (simp add: s sum_node_def e)
  qed
  have "?R (fold sum_node (map fst (g_nodes graph)) (graph, vg)) (fold (add_star EG) (map fst (g_nodes graph)) (V, E))"
    by (rule loop_simulates [where R = ?R, OF step]) (use assms in auto)
  then show ?thesis by (simp add: sum_nothing_def add_all_stars [OF assms(1)])
qed

section \<open>What a layout keeps\<close>

definition layout_node :: "gnode \<Rightarrow> gnode \<Rightarrow> bool" where
  "layout_node n m \<longleftrightarrow> n_id m = n_id n \<and> n_ignore m = n_ignore n
     \<and> map_of (n_ext m) ''collapsed'' = map_of (n_ext n) ''collapsed''"

definition relaid :: "graph \<Rightarrow> graph \<Rightarrow> bool" where
  "relaid g h \<longleftrightarrow> g_edges h = g_edges g \<and> list_all2 same_adj (g_adjs g) (g_adjs h)
     \<and> map fst (g_nodes h) = map fst (g_nodes g) \<and> (\<forall>i. rel_option layout_node (getNode g i) (getNode h i))"

text \<open>Which nodes are ignored, while no adjacence is.\<close>

definition ignores :: "graph \<Rightarrow> id set \<Rightarrow> bool" where
  "ignores g I \<longleftrightarrow> {i. node_ignored g i} = I \<and> (\<forall>a \<in> set (g_adjs g). \<not> adj_prop a ''ignore'')"

lemma relaid_trans:
  assumes "relaid g h" "relaid h k"
  shows "relaid g k"
proof -
  have "rel_option layout_node (getNode g i) (getNode k i)" for i
  proof -
    have "rel_option layout_node (getNode g i) (getNode h i)" "rel_option layout_node (getNode h i) (getNode k i)"
      using assms by (simp_all add: relaid_def)
    then show ?thesis
      by (cases "getNode g i"; cases "getNode h i"; cases "getNode k i") (auto simp: layout_node_def)
  qed
  moreover have "list_all2 same_adj (g_adjs g) (g_adjs k)"
    using assms by (auto simp: relaid_def intro: list_all2_trans [OF same_adj_trans])
  ultimately show ?thesis using assms by (simp add: relaid_def)
qed

lemma kept_relaid: "kept g h \<Longrightarrow> relaid g h"
  by (auto simp: relaid_def kept_def layout_node_def kept_node_def intro: option.rel_mono_strong [of kept_node])

lemma relaid_upd_node: "(\<And>n. layout_node n (f n)) \<Longrightarrow> relaid g (upd_node i f g)"
  by (simp add: relaid_def list_all2_refl option.rel_map option.rel_refl layout_node_def)

lemma relaid_eachNode:
  assumes "\<And>i h. relaid h (action i h)"
  shows "relaid g (eachNode g action flags)"
proof -
  have refl: "relaid g g" by (rule kept_relaid) simp
  have "relaid g h \<Longrightarrow> relaid g (fold (\<lambda>i g. case getNode g i of None \<Rightarrow> g
      | Some n \<Rightarrow> if filter_node flags n then action i g else g) is h)" for "is" h
    by (induction "is" arbitrary: h) (auto split: option.splits intro: relaid_trans [OF _ assms])
  then show ?thesis using refl by (simp add: eachNode_def)
qed

lemma relaid_depicts:
  assumes "depicts g G" "relaid g h"
  shows "depicts h G"
proof -
  have "rel_option (\<lambda>n m. n_id m = n_id n) (getNode g i) (getNode h i)" for i
    using assms(2) by (auto simp: relaid_def layout_node_def intro: option.rel_mono_strong [of layout_node])
  then have "wf_graph h" using assms by (intro wf_same_links [OF depicts_wf [OF assms(1)]]) (simp_all add: relaid_def)
  then show ?thesis using assms by (auto simp: relaid_def intro: depicts_same)
qed

lemma relaid_marks:
  assumes "relaid g h"
  shows "node_ignored h i = node_ignored g i" "collapsed_mark h i = collapsed_mark g i"
proof -
  have "rel_option layout_node (getNode g i) (getNode h i)" using assms by (simp add: relaid_def)
  then show "node_ignored h i = node_ignored g i" "collapsed_mark h i = collapsed_mark g i"
    by (cases "getNode g i"; cases "getNode h i"; simp add: node_ignored_def collapsed_mark_def layout_node_def)+
qed

lemma relaid_ignores:
  assumes "relaid g h" "ignores g I"
  shows "ignores h I"
proof -
  have "a_ext (g_adjs g ! r) = a_ext (g_adjs h ! r)" "length (g_adjs h) = length (g_adjs g)"
    if "r < length (g_adjs h)" for r
    using that assms(1) by (auto simp: relaid_def same_adj_def list_all2_conv_all_nth)
  then have "\<forall>a \<in> set (g_adjs h). \<not> adj_prop a ''ignore''"
    using assms(2) by (auto simp: ignores_def all_set_conv_all_nth adj_prop_def)
  then show ?thesis using assms(2) by (simp add: ignores_def relaid_marks [OF assms(1)])
qed

lemma level_visit_marks:
  assumes "wf_graph g"
  shows "marks_only g (fst (level_visit sd flags node queue g))"
proof -
  let ?g = "set_flag True node g" and ?f = "\<lambda>(r, n) s. level_action sd flags (depth_of (fst s) node) n s"
  obtain h calls where e: "eachAdjacency node flags ?g = (h, calls)" by force
  have wf: "wf_graph ?g" using assms marks_only_set(1) by (rule marks_only_wf)
  have h: "marks_only g h"
    using marks_only_trans [OF marks_only_set(1) eachAdjacency_linked(1) [OF wf, of node flags]] by (simp add: e)
  have one: "marks_only (fst s) (fst (?f c s))" for c s
    by (auto simp: level_action_def Let_def split: prod.splits option.splits)
  have "marks_only g (fst s) \<Longrightarrow> marks_only g (fst (fold ?f cs s))" for s cs
  proof (induction cs arbitrary: s)
    case (Cons c cs)
    then show ?case using Cons.IH [OF marks_only_trans [OF Cons.prems one [of s c]]] by simp
  qed simp
  from this [of "(h, queue)" calls] show ?thesis using h by (simp add: level_visit_def e)
qed

lemma levels_loop_marks: "wf_graph g \<Longrightarrow> marks_only g (levels_loop sd flags queue g)"
proof (induction sd flags queue g rule: levels_loop.induct)
  case (1 sd flags queue g)
  let ?v = "level_visit sd flags (last queue) (butlast queue) g"
  have v: "marks_only g (fst ?v)" "wf_graph (fst ?v)"
    using level_visit_marks [OF "1.prems"] marks_only_wf [OF "1.prems"] by auto
  have "marks_only (fst ?v) (levels_loop sd flags (snd ?v) (fst ?v))" if "queue \<noteq> []" "hasNode g (last queue)"
    using "1.IH"(1) [OF that(1) refl refl that(2) refl, of "fst ?v" "snd ?v"] v(2) by simp
  then show ?case
    using "1.IH"(2) "1.prems" v(1)
    by (subst levels_loop.simps) (auto simp: case_prod_unfold Let_def intro: marks_only_trans)
qed

lemma reset_marks_only: "marks_only g (eachNode g (\<lambda>i g. set_depth d i (set_flag b i g)) flags)"
proof -
  let ?a = "\<lambda>i g. set_depth d i (set_flag b i g)"
  have a: "marks_only k (?a i k)" for i k by (rule marks_only_trans [OF marks_only_set])
  have "marks_only g k \<Longrightarrow> marks_only g (fold (\<lambda>i g. case getNode g i of None \<Rightarrow> g
      | Some n \<Rightarrow> if filter_node flags n then ?a i g else g) is k)" for k "is"
    by (induction "is" arbitrary: k) (auto intro: marks_only_trans [OF _ a] split: option.splits)
  then show ?thesis by (simp add: eachNode_def)
qed

lemma computeLevels_defined: "(computeLevels g rid sd flags = None) = (\<not> hasNode g rid)"
proof -
  have "hasNode (eachNode g (\<lambda>i g. set_depth (Some (-1)) i (set_flag False i g)) flags) rid = hasNode g rid"
    using reset_marks_only [of g "Some (-1)" False flags] by (simp add: marks_only_def hasNode_def flip: set_map)
  then show ?thesis by (simp add: computeLevels_def Let_def)
qed

lemma computeLevels_marks:
  assumes "wf_graph g" "computeLevels g rid sd flags = Some h"
  shows "marks_only g h"
proof -
  let ?g = "set_depth (Some sd) rid (eachNode g (\<lambda>i g. set_depth (Some (-1)) i (set_flag False i g)) flags)"
  have "marks_only g ?g" by (rule marks_only_trans [OF reset_marks_only marks_only_set(2)])
  moreover have "h = levels_loop sd flags [rid] ?g"
    using assms(2) by (simp add: computeLevels_def Let_def split: if_splits)
  ultimately show ?thesis
    using levels_loop_marks [OF marks_only_wf [OF assms(1)]] by (auto intro: marks_only_trans)
qed

lemma marks_only_relaid:
  assumes "marks_only g h"
  shows "relaid g h"
proof -
  have "layout_node n m" if "same_node n m" for n m
    using that unfolding same_node_def layout_node_def by (cases n, cases m) simp
  then show ?thesis using assms
    by (auto simp: relaid_def marks_only_def intro: option.rel_mono_strong [of same_node])
qed

text \<open>The layout of the radial graph finds its root in the graph or raises an exception.\<close>

lemma radial_compute_relaid:
  assumes wf: "wf_graph (rd_graph r)" and has: "hasNode (rd_graph r) (rd_root r)"
    and types: "set (compute_props p) \<subseteq> layout_types"
  shows "\<exists>s. radial_compute offset p r = Some s \<and> relaid (rd_graph r) (rd_graph s) \<and> rd_root s = rd_root r"
proof -
  let ?rid = "rd_root r" and ?props = "compute_props p"
  let ?g1 = "NodeDim_compute offset (rd_graph r)"
  note k1 = kept_NodeDim [of "rd_graph r" offset]
  have wf1: "wf_graph ?g1" by (rule kept_wf [OF wf k1])
  obtain g2 where g2: "computeLevels ?g1 ?rid 0 ''ignore'' = Some g2"
    using has kept_lookups(3) [OF k1] computeLevels_defined [of ?g1 ?rid 0 "''ignore''"] by auto
  note m2 = computeLevels_marks [OF wf1 g2]
  have wf2: "wf_graph g2" "hasNode g2 ?rid"
    using marks_only_wf [OF wf1 m2] marks_only_lookups [OF m2] has kept_lookups(3) [OF k1] by simp_all
  from computeAngularWidths_kept [of "r\<lparr>rd_graph := g2\<rparr>" ?props] wf2
  obtain r3 where r3: "computeAngularWidths (r\<lparr>rd_graph := g2\<rparr>) ?props = Some r3" "kept g2 (rd_graph r3)" "rd_root r3 = ?rid"
    by auto
  let ?f = "\<lambda>n. (fold (\<lambda>p n. set_node_data ''span'' (JNum (pi * 2)) p (set_node_pos (PosP (mkP 0 0)) p n)) ?props n)
    \<lparr>n_angleSpan := (0, 2 * pi)\<rparr>"
  let ?g4 = "clean (upd_node ?rid ?f (rd_graph r3))"
  have k4: "kept (rd_graph r3) ?g4"
    by (rule kept_trans [OF kept_upd_node flag_clean(2)]) (use kept_place_root [OF types] in blast)
  note k = kept_trans [OF r3(2) kept_trans [OF k4 kept_radial_loop [OF kept_wf [OF kept_wf [OF wf2(1) r3(2)] k4] types]]]
  have "computePositions r3 ?props = Some (r3\<lparr>rd_graph := radial_loop r3 ?props [?rid] ?g4\<rparr>)"
    using wf2(2) kept_lookups(3) [OF r3(2)] by (simp add: computePositions_def Let_def r3(3))
  then have "radial_compute offset p r = Some (r3\<lparr>rd_graph := radial_loop r3 ?props [?rid] ?g4\<rparr>)"
    by (simp add: radial_compute_def Let_def g2 r3(1))
  moreover have "relaid (rd_graph r) (radial_loop r3 ?props [?rid] ?g4)"
    using relaid_trans [OF kept_relaid [OF k1] relaid_trans [OF marks_only_relaid [OF m2] kept_relaid [OF k]]] .
  ultimately show ?thesis using r3(3) by simp
qed

lemma radial_compute_raises:
  assumes "\<not> hasNode (rd_graph r) (rd_root r)"
  shows "radial_compute offset p r = None"
proof -
  have "computeLevels (NodeDim_compute offset (rd_graph r)) (rd_root r) 0 ''ignore'' = None"
    using assms kept_lookups(3) [OF kept_NodeDim [of "rd_graph r" offset]] by (simp add: computeLevels_defined)
  then show ?thesis by (simp add: radial_compute_def Let_def)
qed

section \<open>The contract of a layout\<close>

text \<open>An operation that leaves a graph with a root under a condition, and raises an exception otherwise.\<close>

definition outcome :: "bool \<Rightarrow> radial option \<Rightarrow> id \<Rightarrow> ugraph \<Rightarrow> bool" where
  "outcome ok res rid G \<longleftrightarrow>
     (if ok then \<exists>s. res = Some s \<and> depicts (rd_graph s) G \<and> rd_root s = rid else res = None)"

lemma outcome_graph:
  assumes "outcome ok res rid G"
  shows "if ok then \<exists>s. res = Some s \<and> rd_root s = rid \<and> wf_graph (rd_graph s) \<and> abs_graph (rd_graph s) = G else res = None"
  using assms by (cases ok) (auto simp: outcome_def depicts_def)

lemma outcome_Some: "depicts (rd_graph s) G \<Longrightarrow> rd_root s = rid \<Longrightarrow> outcome True (Some s) rid G"
  by (simp add: outcome_def)

lemma outcome_bind:
  assumes "outcome a res rid G" "\<And>s. depicts (rd_graph s) G \<Longrightarrow> rd_root s = rid \<Longrightarrow> outcome b (f s) rid H"
  shows "outcome (a \<and> b) (Option.bind res f) rid H"
  using assms by (cases a) (auto simp: outcome_def)

lemma outcome_map:
  assumes "outcome a res rid G"
    and "\<And>s. depicts (rd_graph s) G \<Longrightarrow> rd_root s = rid \<Longrightarrow> depicts (rd_graph (f s)) H \<and> rd_root (f s) = rid"
  shows "outcome a (map_option f res) rid H"
  using assms by (cases a) (auto simp: outcome_def)

locale viz_layout =
  fixes layout :: "radial \<Rightarrow> radial option"
  assumes layout_relaid: "wf_graph (rd_graph r) \<Longrightarrow> hasNode (rd_graph r) (rd_root r) \<Longrightarrow>
      \<exists>s. layout r = Some s \<and> relaid (rd_graph r) (rd_graph s) \<and> rd_root s = rd_root r"
    and layout_raises: "\<not> hasNode (rd_graph r) (rd_root r) \<Longrightarrow> layout r = None"
begin

lemma layout_outcome:
  assumes "depicts (rd_graph r) (V, E)" "rd_root r = rid"
  shows "outcome (rid \<in> V) (layout r) rid (V, E)"
proof (cases "rid \<in> V")
  case True
  then have "hasNode (rd_graph r) (rd_root r)" using depicts_node [OF assms(1)] assms(2) by simp
  from layout_relaid [OF depicts_wf [OF assms(1)] this] show ?thesis
    using True assms relaid_depicts [OF assms(1)] by (auto simp: outcome_def)
next
  case False
  then show ?thesis using layout_raises [of r] depicts_node [OF assms(1)] assms(2) by (simp add: outcome_def)
qed

end

interpretation refreshed: viz_layout "rgraph_refresh offset" for offset
  unfolding rgraph_refresh_def
  by unfold_locales (auto intro!: radial_compute_relaid radial_compute_raises simp: compute_props_def layout_types_def)

interpretation repositioned: viz_layout "reposition offset" for offset
  unfolding reposition_def
  by unfold_locales (auto intro!: radial_compute_relaid radial_compute_raises simp: compute_props_def layout_types_def)

lemma start_new_relaid: "relaid g (start_new old g)"
  unfolding start_new_def by (intro relaid_eachNode relaid_upd_node) (simp add: layout_node_def)

lemma on_graph_fields [simp]: "rd_graph (on_graph f r) = f (rd_graph r)" "rd_root (on_graph f r) = rd_root r"
  by (simp_all add: on_graph_def)

end
