(* ===== verification/Jit_OpProps.thy ===== *)
theory Jit_OpProps
  imports Jit_OpGraph
begin

text \<open>
  The graphs left by adding a graph to the one shown and by morphing it, for each type of
  transition, the graphs left by removing nodes and edges, and what contracting and expanding a
  node hide and show.
\<close>

section \<open>An example\<close>

definition viz_pair :: radial where
  "viz_pair = \<lparr>rd_graph = fst (addAdjacence \<lparr>s_id = ''a'', s_name = [], s_data = []\<rparr> \<lparr>s_id = ''b'', s_name = [], s_data = []\<rparr> []
      (initialize \<lparr>go_complex = False, go_Node = []\<rparr> [] [] [])), rd_root = ''a'', rd_parent = None, rd_levelDistance = 100,
      rd_aw = [], rd_taw = [], rd_busy = False\<rparr>"

definition json_node :: "id \<Rightarrow> id list \<Rightarrow> props" where
  "json_node i ns = [(''id'', JStr i), (''adjacencies'', JArr (map JStr ns))]"

lemma viz_pair_graph:
  "wf_graph (rd_graph viz_pair)" "abs_graph (rd_graph viz_pair) = ({''a'', ''b''}, {{''a'', ''b''}})"
  using wf_addAdjacence [OF wf_initialize] abs_addAdjacence [OF wf_initialize] by (simp_all add: viz_pair_def abs_initialize)

lemma viz_pair_root: "rd_root viz_pair = ''a''"
  by (simp add: viz_pair_def)

lemma json_node_simps [simp]:
  "s_id (spec_of (json_node i ns)) = i" "node_adjs (json_node i ns) = map JStr ns" "adj_target (JStr n) = n"
  by (simp_all add: json_node_def spec_of_def prop_of_def str_of_def node_adjs_def adj_target_def)

section \<open>Adding with a fade\<close>

lemma upd_node_opt [simp]: "g_opt (upd_node i f g) = g_opt g"
  by (simp add: upd_node_def)

lemma add_faded_depicts:
  assumes "wf_graph graph" "depicts vg (V, E)"
  shows "depicts (add_faded graph i vg) (insert i V, E)"
proof (cases "hasNode vg i")
  case True
  then have "insert i V = V" using depicts_node [OF assms(2)] by auto
  then show ?thesis using True assms(2) by (simp add: add_faded_def)
next
  case False
  then show ?thesis
    using depicts_step [OF assms(2), of "AddNode (spec_at graph i)"]
    by (auto simp: add_faded_def spec_at_id [OF assms(1)] intro!: depicts_upd_node)
qed

lemma add_faded_all:
  assumes "wf_graph graph" "depicts vg (V, E)"
  shows "depicts (fold (add_faded graph) is vg) (set is \<union> V, E)"
  using assms(2)
proof (induction "is" arbitrary: vg V)
  case (Cons i "is")
  then show ?case using Cons.IH [OF add_faded_depicts [OF assms(1) Cons.prems, of i]] by simp
qed simp

text \<open>What the preparation does for one adjacence.\<close>

definition link_one :: "graph \<Rightarrow> id \<Rightarrow> nat \<times> id \<Rightarrow> graph \<times> bool \<Rightarrow> graph \<times> bool" where
  "link_one graph i = (\<lambda>(r, n) (vg, fadeEdges).
     if adjacentTo vg i n then (vg, fadeEdges)
     else (case addAdjacence (spec_at vg i) (spec_at vg n) (ds_data (a_store (g_adjs graph ! r))) vg of
             (vg, None) \<Rightarrow> (vg, fadeEdges)
           | (vg, Some q) \<Rightarrow> (upd_adj q (fade_store 0 1) vg, True)))"

lemma link_faded_one:
  "link_faded i (graph, vg, b) =
     (let (graph, calls) = eachAdjacency i [] graph in (graph, fold (link_one graph i) calls (vg, b)))"
  by (simp add: link_faded_def link_one_def Let_def)

lemma link_one_depicts:
  assumes "depicts vg (V, E)"
  shows "depicts (fst (link_one graph i c (vg, b))) (add_edge i c (V, E))"
proof (cases "{i, snd c} \<in> E")
  case True
  then have "add_edge i c (V, E) = (V, E)"
    using depicts_edge [OF assms True] by (auto simp: add_edge_def doubleton_eq_iff)
  then show ?thesis using True assms depicts_adjacence [OF assms, of i "snd c"]
    by (simp add: link_one_def adjacentTo_iff case_prod_unfold)
next
  case False
  have "depicts (fst (addAdjacence (spec_at vg i) (spec_at vg (snd c)) d vg)) (add_edge i c (V, E))" for d
    by (rule addAdjacence_edge [OF depicts_wf [OF assms] assms])
  then show ?thesis using False depicts_adjacence [OF assms, of i "snd c"]
    by (auto simp: link_one_def adjacentTo_iff case_prod_unfold intro: depicts_upd_adj split: option.splits)
qed

lemma preprocessSum_depicts:
  assumes "depicts graph (VG, EG)" "depicts vg (V, E)"
  shows "depicts (fst (preprocessSum graph vg)) (V \<union> VG, E \<union> EG)"
proof -
  let ?keys = "map fst (g_nodes graph)" and ?R = "\<lambda>s G. depicts (fst s) (VG, EG) \<and> depicts (fst (snd s)) G"
  have keys: "set ?keys = VG" using depicts_node [OF assms(1)] by (auto simp: hasNode_def)
  have start: "depicts (fold (add_faded graph) ?keys vg) (VG \<union> V, E)"
    using add_faded_all [OF depicts_wf [OF assms(1)] assms(2), of ?keys] unfolding keys .
  have step: "?R (link_faded i s) (add_star EG i G)" if r: "?R s G" for i s G
  proof -
    obtain gr vg b where s: "s = (gr, vg, b)" by (metis prod_cases3)
    obtain gr' calls where e: "eachAdjacency i [] gr = (gr', calls)" by force
    have gr: "depicts gr (VG, EG)" and vg: "depicts vg G" using r s by simp_all
    have "depicts (fst (fold (link_one gr' i) calls (vg, b))) (fold (add_edge i) calls G)"
      by (rule loop_simulates [where R = "\<lambda>s G. depicts (fst s) G"]) (use vg link_one_depicts in auto)
    then show ?thesis
      using depicts_eachAdjacency(2) [OF gr e]
      by (simp add: s link_faded_one e add_edges_star [OF gr depicts_eachAdjacency(4) [OF gr e]])
  qed
  have "?R (fold link_faded ?keys (graph, fold (add_faded graph) ?keys vg, False)) (fold (add_star EG) ?keys (VG \<union> V, E))"
    by (rule loop_simulates [where R = ?R, OF step]) (use start assms(1) in auto)
  moreover have "VG \<union> V \<union> \<Union> EG = V \<union> VG" using depicts_edge [OF assms(1)] by blast
  ultimately show ?thesis by (simp add: preprocessSum_def add_all_stars [OF assms(1)])
qed

text \<open>
  C21: adding a graph to the one shown adds all its edges in every type of transition, but only
  the transitions with a fade add all its nodes: without one, a node of the new graph that has
  no edge is left out. The new root given in the options is set first. The type \<^verbatim>\<open>nothing\<close> always
  succeeds; \<^verbatim>\<open>replot\<close> raises an exception unless this root was shown before, a fade unless it was
  shown before or is a node of the new graph, and any other type raises one.
\<close>

theorem sum_graph:
  assumes "wf_graph (rd_graph r)" "abs_graph (rd_graph r) = (V, E)" "json_graph json = (VG, EG)"
    and "rid = new_root opt_id r"
  shows "(if type = ''nothing'' \<or> type = ''replot'' \<and> rid \<in> V
          then \<exists>s. op_sum offset type opt_id json r = Some s \<and> rd_root s = rid
            \<and> wf_graph (rd_graph s) \<and> abs_graph (rd_graph s) = (V \<union> \<Union> EG, E \<union> EG)
          else if type \<in> {''fade'', ''fade:seq'', ''fade:con''} \<and> rid \<in> V \<union> VG
          then \<exists>s. op_sum offset type opt_id json r = Some s \<and> rd_root s = rid
            \<and> wf_graph (rd_graph s) \<and> abs_graph (rd_graph s) = (V \<union> VG, E \<union> EG)
          else op_sum offset type opt_id json r = None)"
proof -
  let ?r = "r\<lparr>rd_root := rid\<rparr>" and ?fade = "[''fade:seq'', ''fade'', ''fade:con'']"
  let ?g = "viz_construct ?r json"
  have r: "depicts (rd_graph ?r) (V, E)" using assms(1,2) by (simp add: depicts_def)
  have new: "depicts ?g (VG, EG)" using viz_construct_depicts [of ?r json] assms(3) by simp
  note sum = sum_nothing_depicts [OF new]
  have plain: "outcome True (Some (on_graph (sum_nothing ?g) ?r)) rid (V \<union> \<Union> EG, E \<union> EG)"
    using sum [OF r] by (simp add: outcome_def)
  have replot: "outcome (rid \<in> V \<and> rid \<in> V \<union> \<Union> EG) (Option.bind (rgraph_refresh offset ?r)
      (\<lambda>r. rgraph_refresh offset (on_graph (sum_nothing ?g) r))) rid (V \<union> \<Union> EG, E \<union> EG)"
    by (intro outcome_bind [where G = "(V, E)"] refreshed.layout_outcome r) (simp_all add: sum)
  have fade: "outcome (rid \<in> V \<union> VG \<and> True) (Option.bind (reposition offset (on_graph (\<lambda>g. fst (preprocessSum ?g g)) ?r))
      (\<lambda>r. Some (if con then on_graph (start_new old) r else r))) rid (V \<union> VG, E \<union> EG)" for con old
    by (intro outcome_bind [where G = "(V \<union> VG, E \<union> EG)"] repositioned.layout_outcome)
      (use preprocessSum_depicts [OF new r] in \<open>simp_all add: relaid_depicts [OF _ start_new_relaid] outcome_def\<close>)
  consider "type = ''nothing''" | "type = ''replot''" | "type \<in> set fade_types" "type \<noteq> ''nothing''" "type \<noteq> ''replot''"
    | "type \<notin> set fade_types" "type \<noteq> ''nothing''" "type \<noteq> ''replot''" by blast
  then show ?thesis
  proof cases
    case 1
    then have "op_sum offset type opt_id json r = Some (on_graph (sum_nothing ?g) ?r)" by (simp add: op_sum_def Let_def assms(4))
    then show ?thesis using 1 outcome_graph [OF plain] by simp
  next
    case 2
    then have "op_sum offset type opt_id json r
        = Option.bind (rgraph_refresh offset ?r) (\<lambda>r. rgraph_refresh offset (on_graph (sum_nothing ?g) r))"
      by (simp add: op_sum_def Let_def assms(4))
    then show ?thesis using 2 outcome_graph [OF replot] by (cases "rid \<in> V") simp_all
  next
    case 3
    then have "op_sum offset type opt_id json r = Option.bind (reposition offset (on_graph (\<lambda>g. fst (preprocessSum ?g g)) ?r))
        (\<lambda>s. Some (if type = ''fade:con'' then on_graph (start_new (rd_root r)) s else s))"
      by (simp add: op_sum_def Let_def assms(4))
    moreover have "type \<in> {''fade'', ''fade:seq'', ''fade:con''}" using 3(1) by (auto simp: fade_types_def)
    ultimately show ?thesis using 3(2,3) outcome_graph [OF fade] by (cases "rid \<in> V \<union> VG") simp_all
  next
    case 4
    then show ?thesis by (auto simp: op_sum_def Let_def fade_types_def)
  qed
qed

theorem sum_graph_witness:
  "(\<exists>s. op_sum (\<lambda>w h t. (0, 0)) ''replot'' None (Inr [json_node ''c'' []]) viz_pair = Some s \<and> \<not> hasNode (rd_graph s) ''c'')
   \<and> (\<exists>s. op_sum (\<lambda>w h t. (0, 0)) ''fade'' (Some ''c'') (Inr [json_node ''c'' []]) viz_pair = Some s \<and> hasNode (rd_graph s) ''c'')
   \<and> op_sum (\<lambda>w h t. (0, 0)) ''replot'' (Some ''c'') (Inr [json_node ''c'' []]) viz_pair = None"
proof -
  have j: "json_graph (Inr [json_node ''c'' []]) = ({''c''}, {})"
    by (simp add: json_graph_def json_nodes_def json_edges_def)
  note s = sum_graph [OF viz_pair_graph j refl, of _ _ "\<lambda>w h t. (0, 0)"]
  have has: "hasNode g ''c'' \<longleftrightarrow> ''c'' \<in> fst (abs_graph g)" for g by (simp add: abs_graph_def)
  show ?thesis
    using s [of "''replot''" None] s [of "''fade''" "Some ''c''"] s [of "''replot''" "Some ''c''"]
    unfolding has by (auto simp: new_root_def viz_pair_root)
qed

section \<open>Morphing without a fade\<close>











end
