(* ===== verification/Jit_OpFade.thy ===== *)
theory Jit_OpFade
  imports Jit_OpProps
begin

text \<open>
  Morphing with a fade: the nodes that go are marked as ignored, the new ones are added, and
  when the animation ends the ignored nodes and edges are removed. The lemmas follow the marks
  through the steps (\<open>fade_marks\<close>).
\<close>

section \<open>Marks\<close>

text \<open>The nodes that are ignored, while no adjacence is and new nodes will not be.\<close>

definition fade_marks :: "graph \<Rightarrow> id set \<Rightarrow> bool" where
  "fade_marks g I \<longleftrightarrow> ignores g I \<and> ''ignore'' \<notin> fst ` set (go_Node (g_opt g))"

lemma foldl_not_ignored:
  "''ignore'' \<notin> fst ` set ps \<Longrightarrow> n_ignore (foldl (\<lambda>n (k, v). node_set_prop k v n) n ps) = n_ignore n"
proof (induction ps arbitrary: n)
  case (Cons p ps)
  then have "n_ignore (node_set_prop (fst p) (snd p) n) = n_ignore n" by (auto simp: node_set_prop_def)
  then show ?case using Cons by (simp add: case_prod_unfold)
qed simp

lemma initialize_not_ignored: "''ignore'' \<notin> fst ` set (go_Node opt) \<Longrightarrow> \<not> n_ignore (node_initialize opt obj)"
  by (simp add: node_initialize_def Let_def foldl_not_ignored)

lemma fade_marks_same:
  assumes "fade_marks g I" "\<And>i. node_ignored h i = node_ignored g i"
    and "list_all2 same_adj (g_adjs g) (g_adjs h)" "g_opt h = g_opt g"
  shows "fade_marks h I"
proof -
  have "\<forall>a \<in> set (g_adjs h). \<not> adj_prop a ''ignore''"
    using assms(1,3) by (auto simp: fade_marks_def ignores_def all_set_conv_all_nth list_all2_conv_all_nth same_adj_def adj_prop_def)
  then show ?thesis using assms(1,2,4) by (simp add: fade_marks_def ignores_def)
qed

lemma fade_marks_addNode: "fade_marks g I \<Longrightarrow> fade_marks (addNode obj g) I"
proof (cases "hasNode g (s_id obj)")
  case False
  assume m: "fade_marks g I"
  have "getNode (addNode obj g) i = (if i = s_id obj then Some (node_initialize (g_opt g) obj) else getNode g i)" for i
    using False by (simp add: addNode_def getNode_def update_conv')
  then have "node_ignored (addNode obj g) i = node_ignored g i" for i
    using False m by (auto simp: node_ignored_def fade_marks_def initialize_not_ignored hasNode_getNode)
  then show ?thesis using m False by (intro fade_marks_same [OF m]) (simp_all add: addNode_def list_all2_refl)
qed (simp add: addNode_hasNode)

lemma fade_marks_addAdjacence: "fade_marks g I \<Longrightarrow> fade_marks (fst (addAdjacence obj obj2 d g)) I"
proof -
  assume m: "fade_marks g I"
  let ?g = "addNode obj2 (addNode obj g)"
  have g: "fade_marks ?g I" using m by (intro fade_marks_addNode)
  have "g_opt (link a b d ?g) = g_opt ?g" "node_ignored (link a b d ?g) i = node_ignored ?g i" for a b i
    by (simp_all add: link_def set_adj_def node_ignored_def getNode_def)
  then have "fade_marks (link a b d ?g) I" for a b
    using g by (auto simp: fade_marks_def ignores_def link_lookups(2) adjacence_initialize_def adj_prop_def prop_of_def)
  then show ?thesis using g unfolding addAdjacence_link Let_def by simp
qed

lemma fade_marks_upd_adj: "fade_marks g I \<Longrightarrow> fade_marks (upd_adj r f g) I"
  by (erule fade_marks_same)
    (auto simp: node_ignored_def getNode_def list_all2_conv_all_nth same_adj_def upd_adj_ends)

lemma fade_marks_upd_node:
  assumes "fade_marks g I" "\<And>n. n_ignore (f n) = n_ignore n"
  shows "fade_marks (upd_node i f g) I"
  using assms(2) by (intro fade_marks_same [OF assms(1)]) (auto simp: node_ignored_def list_all2_refl split: option.splits)

lemma opt_eachAdjacency [simp]: "g_opt (fst (eachAdjacency node flags g)) = g_opt g"
proof -
  have "g_opt (fst (fold (adj_step flags node) as s)) = g_opt (fst s)" for as s
    by (induction as arbitrary: s) (auto simp: adj_step_def orient_def Let_def)
  then show ?thesis by (simp add: eachAdjacency_def)
qed

lemma fade_marks_eachAdjacency:
  assumes "fade_marks g I" "depicts g G" "eachAdjacency i [] g = (h, calls)"
  shows "fade_marks h I"
proof (rule fade_marks_same [OF assms(1)])
  obtain V E where G: "G = (V, E)" by force
  note e = depicts_eachAdjacency [OF assms(2) [unfolded G] assms(3)]
  show "node_ignored h j = node_ignored g j" for j using e(3) by (simp add: node_ignored_def getNode_def)
  show "list_all2 same_adj (g_adjs g) (g_adjs h)" using e(1) by (simp add: marks_only_def)
  show "g_opt h = g_opt g" using opt_eachAdjacency [of i "[]" g] by (simp add: assms(3))
qed

lemma fade_marks_preprocessSum:
  assumes "fade_marks vg I"
  shows "fade_marks (fst (preprocessSum graph vg)) I"
proof -
  have add: "fade_marks (add_faded graph i vg) I" if "fade_marks vg I" for i vg
    using that by (auto simp: add_faded_def intro: fade_marks_upd_node fade_marks_addNode)
  have one: "fade_marks (fst (link_one gr i c s)) I" if "fade_marks (fst s) I" for gr i c s
    using that fade_marks_addAdjacence [OF that]
    by (auto simp: link_one_def case_prod_unfold intro: fade_marks_upd_adj split: option.splits)
  have calls: "fade_marks (fst (fold (link_one gr i) cs s)) I" if "fade_marks (fst s) I" for gr i cs s
    by (rule fold_invariant [where Q = "\<lambda>_. True" and P = "\<lambda>s. fade_marks (fst s) I"]) (use that one in auto)
  have "fade_marks (fst (snd (link_faded i s))) I" if "fade_marks (fst (snd s)) I" for i s
    using that calls [of "snd s"] by (cases s) (auto simp: link_faded_one split: prod.splits)
  then have "fade_marks (fst (snd (fold link_faded is s))) I" if "fade_marks (fst (snd s)) I" for "is" s
    using that by (intro fold_invariant [where Q = "\<lambda>_. True" and P = "\<lambda>s. fade_marks (fst (snd s)) I"]) auto
  moreover have "fade_marks (fold (add_faded graph) is vg) I" for "is"
    using assms by (induction "is" arbitrary: vg) (auto intro: add)
  ultimately show ?thesis by (simp add: preprocessSum_def)
qed
section \<open>Preparing the fade\<close>

text \<open>The nodes that the new graph does not have are marked.\<close>

definition mark_of :: "string list \<Rightarrow> graph \<Rightarrow> id \<Rightarrow> gnode \<Rightarrow> gnode" where
  "mark_of nodeModes graph i n =
     (case getNode graph i of
        None \<Rightarrow> n\<lparr>n_store := fade_store 1 0 (n_store n), n_ignore := True\<rparr>
      | Some gn \<Rightarrow>
          n\<lparr>n_store := fold (\<lambda>(k, v) s.
             if k \<in> set nodeModes then s\<lparr>ds_endData := AList.update k v (ds_endData s)\<rparr>
             else s\<lparr>ds_data := AList.update k v (ds_data s)\<rparr>) (ds_data (n_store gn)) (n_store n)\<rparr>)"

lemma mark_node_of: "mark_node nodeModes graph i = upd_node i (mark_of nodeModes graph i)"
  by (cases "getNode graph i") (simp_all add: fun_eq_iff mark_node_def mark_of_def [abs_def])

lemma mark_nodes:
  fixes nodeModes
  assumes gr: "depicts graph (VG, EG)" and vg: "depicts vg (V, E)" "fade_marks vg {}"
  defines "h \<equiv> eachNode vg (mark_node nodeModes graph) []"
  shows "depicts h (V, E)" "fade_marks h (V - VG)"
proof -
  have "n_id (mark_of nodeModes graph i n) = n_id n" for i n by (simp add: mark_of_def split: option.splits)
  then have "depicts h (fold (\<lambda>_ G. G) (map fst (g_nodes vg)) (V, E)) \<and> g_adjs h = g_adjs vg \<and> g_opt h = g_opt vg"
    unfolding h_def
    by (intro eachNode_simulates [where R = "\<lambda>s G. depicts s G \<and> g_adjs s = g_adjs vg \<and> g_opt s = g_opt vg"])
      (use vg(1) in \<open>auto simp: mark_node_of intro: depicts_upd_node\<close>)
  moreover have "fold (\<lambda>_ G. G) xs G = G" for xs :: "id list" and G :: ugraph by (induction xs) auto
  ultimately have h: "depicts h (V, E)" "g_adjs h = g_adjs vg" "g_opt h = g_opt vg" by auto
  then show "depicts h (V, E)" by simp
  have "getNode h i = map_option (mark_of nodeModes graph i) (getNode vg i)" for i
    unfolding h_def mark_node_of using vg(1) by (intro getNode_eachNode_each) (simp add: depicts_def wf_graph_def)
  moreover have "n_ignore (mark_of nodeModes graph i n) = (i \<notin> VG \<or> n_ignore n)" for i n
    using depicts_node [OF gr, of i] by (auto simp: mark_of_def hasNode_getNode split: option.splits)
  ultimately have "node_ignored h i = (i \<in> V \<and> i \<notin> VG \<or> node_ignored vg i)" for i
    using depicts_node [OF vg(1), of i] by (cases "getNode vg i") (auto simp: node_ignored_def hasNode_getNode)
  then show "fade_marks h (V - VG)" using vg(2) h(2,3) by (auto simp: fade_marks_def ignores_def)
qed

lemma mark_edges_keeps:
  assumes "depicts vg G" "fade_marks vg I"
  shows "depicts (mark_edges graph i vg) G" "fade_marks (mark_edges graph i vg) I"
proof -
  let ?f = "\<lambda>(r, n) vg. if node_ignored vg i \<or> node_ignored vg n then vg
     else if adjacentTo graph i n then vg
     else (case getAdjacence vg i n of None \<Rightarrow> vg | Some q \<Rightarrow> upd_adj q (fade_store 1 0) vg)"
  obtain V E where G: "G = (V, E)" by force
  obtain h calls where e: "eachAdjacency i [] vg = (h, calls)" by force
  have "depicts h G \<and> fade_marks h I"
    using depicts_eachAdjacency(2) [OF _ e] assms(1) fade_marks_eachAdjacency [OF assms(2,1) e] by (auto simp: G)
  then have "depicts (fold ?f calls h) G \<and> fade_marks (fold ?f calls h) I"
    by (intro fold_invariant [where Q = "\<lambda>_. True" and P = "\<lambda>s. depicts s G \<and> fade_marks s I"])
      (auto intro: depicts_upd_adj fade_marks_upd_adj split: option.splits)
  then show "depicts (mark_edges graph i vg) G" "fade_marks (mark_edges graph i vg) I"
    using assms by (simp_all add: mark_edges_def e)
qed

text \<open>A loop over the nodes whose action keeps the graph and its marks.\<close>

lemma eachNode_keeps:
  assumes "\<And>i s. depicts s G \<Longrightarrow> fade_marks s I \<Longrightarrow> depicts (action i s) G \<and> fade_marks (action i s) I"
    and "depicts g G" "fade_marks g I"
  shows "depicts (eachNode g action []) G" "fade_marks (eachNode g action []) I"
proof -
  have "depicts (eachNode g action []) G \<and> fade_marks (eachNode g action []) I"
    unfolding eachNode_def using assms
    by (intro fold_invariant [where Q = "\<lambda>_. True" and P = "\<lambda>s. depicts s G \<and> fade_marks s I"])
      (auto split: option.splits)
  then show "depicts (eachNode g action []) G" "fade_marks (eachNode g action []) I" by simp_all
qed

section \<open>The end of the animation\<close>

lemma remove_ignored:
  assumes "depicts g (V, E)" "ignores g I"
  defines "h \<equiv> eachNode g (\<lambda>i g. if node_ignored g i then removeNode i g else g) []"
  shows "depicts h (V - I, {e \<in> E. e \<inter> I = {}})" "ignores h {}"
proof -
  let ?h = "\<lambda>i (V, E). (V - ({i} \<inter> I), {e \<in> E. i \<in> e \<longrightarrow> i \<notin> I})"
  let ?R = "\<lambda>s G. depicts s G \<and> ignores s (I \<inter> fst G)"
  have sub: "I \<subseteq> V"
    using assms(2) depicts_node [OF assms(1)] by (auto simp: ignores_def node_ignored_def hasNode_getNode split: option.splits)
  have step: "?R (if node_ignored s i then removeNode i s else s) (?h i (U, F))" if "?R s (U, F)" "i \<in> U" for i s U F
  proof -
    have i: "node_ignored s i \<longleftrightarrow> i \<in> I" using that by (auto simp: ignores_def)
    have wf: "wf_graph s" using that by (simp add: depicts_def)
    have "ignores (removeNode i s) (I \<inter> (U - {i}))"
      using that(1) by (auto simp: ignores_def node_ignored_def removeNode_lookups [OF wf])
    moreover have "?h i (U, F) = (if i \<in> I then (U - {i}, {e \<in> F. i \<notin> e}) else (U, F))" by auto
    ultimately show ?thesis using that(1) depicts_step [of s "(U, F)" "RemoveNode i"] by (simp add: i)
  qed
  have "?R h (fold ?h (map fst (g_nodes g)) (V, E))"
    unfolding h_def
  proof (rule eachNode_simulates [where R = ?R])
    show "?h i (U, F) = (U, F)" if "?R s (U, F)" "i \<notin> U" for i s U F
      using that(2) depicts_meets [of s U F] that(1) by fastforce
    show "?R g (V, E)" using assms(1,2) sub by (simp add: Int_absorb2)
    show "?R (if node_ignored s i then removeNode i s else s) (?h i (U, F))" if "?R s (U, F)" "i \<in> U" for i s U F
      by (rule step [OF that])
  qed simp
  moreover have "fold ?h xs (U, F) = (U - (set xs \<inter> I), {e \<in> F. e \<inter> set xs \<inter> I = {}})" for xs U F
    by (induction xs arbitrary: U F) auto
  moreover have "set (map fst (g_nodes g)) = V" using depicts_node [OF assms(1)] by (auto simp: hasNode_def)
  ultimately have "?R h (V - (V \<inter> I), {e \<in> E. e \<inter> V \<inter> I = {}})" by simp
  moreover have "V \<inter> I = I" "e \<inter> V \<inter> I = e \<inter> I" for e using sub by auto
  moreover have "I \<inter> (V - I) = {}" by blast
  ultimately show "depicts h (V - I, {e \<in> E. e \<inter> I = {}})" "ignores h {}" by simp_all
qed

lemma calls_of_adjacencies: "fst ` set (snd (eachAdjacency i flags g)) \<subseteq> snd ` set (adjacencies g i)"
proof -
  have "fst ` set (snd (fold (adj_step flags i) as s)) \<subseteq> fst ` set (snd s) \<union> snd ` set as" for as s
  proof (induction as arbitrary: s)
    case (Cons a as)
    have "fst ` set (snd (adj_step flags i a s)) \<subseteq> insert (snd a) (fst ` set (snd s))"
      by (cases s) (auto simp: adj_step_def case_prod_unfold Let_def)
    then show ?case unfolding fold_simps list.set(2) image_insert using Cons.IH [of "adj_step flags i a s"] by blast
  qed simp
  from this [of "adjacencies g i" "(g, [])"] show ?thesis by (simp add: eachAdjacency_def)
qed

lemma nothing_to_drop:
  assumes "depicts vg G" "ignores vg {}"
  shows "depicts (drop_ignored_edges i vg) G \<and> ignores (drop_ignored_edges i vg) {}"
proof -
  obtain V E where G: "G = (V, E)" by force
  obtain h calls where e: "eachAdjacency i [] vg = (h, calls)" by force
  note h = depicts_eachAdjacency [OF assms(1) [unfolded G] e]
  have ign: "ignores h {}"
  proof -
    have "\<forall>r < length (g_adjs h). a_ext (g_adjs h ! r) = a_ext (g_adjs vg ! r) \<and> length (g_adjs h) = length (g_adjs vg)"
      using h(1) by (auto simp: marks_only_def list_all2_conv_all_nth same_adj_def)
    then show ?thesis
      using assms(2) h(3) by (auto simp: ignores_def node_ignored_def getNode_def all_set_conv_all_nth adj_prop_def)
  qed
  have "r < length (g_adjs h)" if c: "(r, n) \<in> set calls" for r n
  proof -
    obtain b where b: "(b, r) \<in> set (adjacencies vg i)"
      using calls_of_adjacencies [of i "[]" vg] c by (force simp: e)
    then have "getAdjacence vg i b = Some r"
      using wf_distinct_adjacencies [OF depicts_wf [OF assms(1)]] by (simp add: getAdjacence_def)
    then have "adj_ok vg i b r" by (rule wf_adj_ok [OF depicts_wf [OF assms(1)]])
    then show ?thesis using h(1) by (simp add: adj_ok_def marks_only_def list_all2_conv_all_nth)
  qed
  then have "\<not> adj_prop (g_adjs h ! r) ''ignore''" if "(r, n) \<in> set calls" for r n
    using ign that by (auto simp: ignores_def)
  then have "fold (\<lambda>(r, n) vg. if adj_prop (g_adjs vg ! r) ''ignore'' then graph_step (RemoveAdjacence i n) vg else vg) cs h = h"
    if "set cs \<subseteq> set calls" for cs
    using that by (induction cs) auto
  then show ?thesis using h(2) ign by (simp add: drop_ignored_edges_def e G)
qed
lemma morph_complete_depicts:
  assumes "depicts g (V, E)" "ignores g I"
  shows "depicts (morph_complete g) (V - I, {e \<in> E. e \<inter> I = {}})"
proof -
  note r = remove_ignored [OF assms]
  let ?h = "eachNode g (\<lambda>i g. if node_ignored g i then removeNode i g else g) []"
  have "depicts (eachNode ?h drop_ignored_edges []) (V - I, {e \<in> E. e \<inter> I = {}}) \<and> ignores (eachNode ?h drop_ignored_edges []) {}"
    unfolding eachNode_def [of ?h] using r nothing_to_drop
    by (intro fold_invariant [where Q = "\<lambda>_. True"
          and P = "\<lambda>s. depicts s (V - I, {e \<in> E. e \<inter> I = {}}) \<and> ignores s {}"]) (auto split: option.splits)
  then show ?thesis by (simp add: morph_complete_def Let_def)
qed

lemma morph_prepare_depicts:
  assumes gr: "depicts graph (VG, EG)" and vg: "depicts vg (V, E)" "fade_marks vg {}"
  shows "depicts (morph_prepare nodeModes graph vg) (V \<union> VG, E \<union> EG)" "ignores (morph_prepare nodeModes graph vg) (V - VG)"
proof -
  note m = mark_nodes [OF gr vg, of nodeModes]
  let ?h = "eachNode (eachNode vg (mark_node nodeModes graph) []) (mark_edges graph) []"
  have h: "depicts ?h (V, E)" "fade_marks ?h (V - VG)"
    using eachNode_keeps [OF conjI [OF mark_edges_keeps] m] by auto
  then show "depicts (morph_prepare nodeModes graph vg) (V \<union> VG, E \<union> EG)" "ignores (morph_prepare nodeModes graph vg) (V - VG)"
    using preprocessSum_depicts [OF gr h(1)] fade_marks_preprocessSum [OF h(2)]
    by (simp_all add: morph_prepare_def Let_def fade_marks_def)
qed

lemma morph_end_depicts:
  assumes "depicts g (V \<union> VG, E \<union> EG)" "ignores g (V - VG)" "relaid g h"
    and "\<And>e. e \<in> EG \<Longrightarrow> e \<subseteq> VG" "\<And>e. e \<in> E \<Longrightarrow> e \<subseteq> V"
  shows "depicts (morph_complete (start_new old h)) (VG, EG \<union> {e \<in> E. e \<subseteq> VG})"
proof -
  note l = relaid_trans [OF assms(3) start_new_relaid]
  have "depicts (morph_complete (start_new old h)) (V \<union> VG - (V - VG), {e \<in> E \<union> EG. e \<inter> (V - VG) = {}})"
    using relaid_depicts [OF assms(1) l] relaid_ignores [OF l assms(2)] by (rule morph_complete_depicts)
  moreover have "V \<union> VG - (V - VG) = VG" by blast
  moreover have "{e \<in> E \<union> EG. e \<inter> (V - VG) = {}} = EG \<union> {e \<in> E. e \<subseteq> VG}" using assms(4,5) by blast
  ultimately show ?thesis by simp
qed

section \<open>Properties\<close>

lemma unmarked:
  assumes "list_all (\<lambda>(k, n). \<not> n_ignore n) (g_nodes g)" "list_all (\<lambda>a. \<not> adj_prop a ''ignore'') (g_adjs g)"
    and "list_all (\<lambda>(k, v). k \<noteq> ''ignore'') (go_Node (g_opt g))"
  shows "fade_marks g {}"
proof -
  have "\<not> node_ignored g i" for i
    using assms(1) map_of_SomeD [of "g_nodes g" i] by (auto simp: node_ignored_def getNode_def list_all_iff split: option.splits)
  then show ?thesis using assms(2,3) by (auto simp: fade_marks_def ignores_def list_all_iff)
qed

text \<open>
  C10: morphing with a fade a graph in which nothing is ignored, with node options that ignore no
  new node, leaves exactly the nodes of the new graph, and its edges, but also every old edge
  between two nodes that stay: the edges that fade out are made transparent and never removed. An
  exception is raised when the root is neither shown before nor a node of the new graph.
\<close>

theorem morph_fade_keeps_edges:
  assumes "wf_graph (rd_graph r)" "abs_graph (rd_graph r) = (V, E)" "json_graph json = (VG, EG)"
    and "rid = new_root opt_id r" "type \<in> {''fade'', ''fade:seq'', ''fade:con''}"
    and "list_all (\<lambda>(i, n). \<not> n_ignore n) (g_nodes (rd_graph r))"
    and "list_all (\<lambda>a. \<not> adj_prop a ''ignore'') (g_adjs (rd_graph r))"
    and "list_all (\<lambda>(k, v). k \<noteq> ''ignore'') (go_Node (g_opt (rd_graph r)))"
  shows "if rid \<in> V \<union> VG
    then \<exists>s. op_morph offset type opt_id nodeProps json r = Some s \<and> rd_root s = rid
      \<and> wf_graph (rd_graph s) \<and> abs_graph (rd_graph s) = (VG, EG \<union> {e \<in> E. e \<subseteq> VG})
    else op_morph offset type opt_id nodeProps json r = None"
proof -
  let ?r = "r\<lparr>rd_root := rid\<rparr>"
  obtain modes where modes: "modes = map (\<lambda>n. ''$'' @ n) nodeProps" by blast
  let ?g = "viz_construct ?r json"
  let ?p = "on_graph (morph_prepare modes ?g) ?r"
  have r: "depicts (rd_graph ?r) (V, E)" using assms(1,2) by (simp add: depicts_def)
  have new: "depicts ?g (VG, EG)" using viz_construct_depicts [of ?r json] assms(3) by simp
  have "fade_marks (rd_graph ?r) {}" using unmarked [OF assms(6-8)] by simp
  note p = morph_prepare_depicts [OF new r this, of modes]
  have op: "op_morph offset type opt_id nodeProps json r
      = map_option (on_graph (\<lambda>g. morph_complete (start_new (rd_root r) g))) (reposition offset ?p)"
    using assms(5) by (auto simp: op_morph_def Let_def assms(4) fade_types_def modes)
  show ?thesis
  proof (cases "rid \<in> V \<union> VG")
    case True
    then have "hasNode (rd_graph ?p) (rd_root ?p)" using depicts_node [OF p(1)] by simp
    then obtain s where "reposition offset ?p = Some s" "relaid (rd_graph ?p) (rd_graph s)" "rd_root s = rid"
      using repositioned.layout_relaid [of ?p offset] p(1) by (auto simp: depicts_def)
    then show ?thesis
      using True morph_end_depicts [OF p, of "rd_graph s" "rd_root r"] depicts_meets [OF new] depicts_meets [OF r]
      unfolding op by (simp add: depicts_def)
  next
    case False
    then have "\<not> hasNode (rd_graph ?p) (rd_root ?p)" using depicts_node [OF p(1)] by simp
    then show ?thesis using False repositioned.layout_raises [of ?p offset] unfolding op by simp
  qed
qed

theorem morph_fade_keeps_edges_witness:
  "\<exists>s. op_morph (\<lambda>w h t. (0, 0)) ''fade'' None [] (Inr [json_node ''a'' [], json_node ''b'' []]) viz_pair = Some s
     \<and> abs_graph (rd_graph s) = ({''a'', ''b''}, {{''a'', ''b''}})"
proof -
  have j: "json_graph (Inr [json_node ''a'' [], json_node ''b'' []]) = ({''a'', ''b''}, {})"
    by (auto simp: json_graph_def json_nodes_def json_edges_def)
  have "list_all (\<lambda>(i, n). \<not> n_ignore n) (g_nodes (rd_graph viz_pair))"
    "list_all (\<lambda>a. \<not> adj_prop a ''ignore'') (g_adjs (rd_graph viz_pair))"
    "list_all (\<lambda>(k, v). k \<noteq> ''ignore'') (go_Node (g_opt (rd_graph viz_pair)))" by (code_simp; fail)+
  from morph_fade_keeps_edges [OF viz_pair_graph j refl _ this, of "''fade''" None "\<lambda>w h t. (0, 0)" "[]"]
  show ?thesis by (auto simp: new_root_def viz_pair_root)
qed

end
