(* ===== verification/Jit_OpHide.thy ===== *)
theory Jit_OpHide
  imports Jit_OpFade
begin

text \<open>
  The operations of \<^verbatim>\<open>Graph.Op\<close> that take away nodes: removing nodes and edges with each type of
  transition, and contracting and expanding the nodes below a node.
\<close>

section \<open>Removing\<close>


















section \<open>The loop over the nodes below a node\<close>

abbreviation kids :: "graph \<Rightarrow> id \<Rightarrow> id list" where
  "kids g a \<equiv> visited (eachSubnode g a [])"

definition subn_event :: "(gnode \<Rightarrow> gnode) \<Rightarrow> graph \<Rightarrow> level_event \<Rightarrow> graph \<Rightarrow> graph" where
  "subn_event f g0 e g = (case e of Orient a r \<Rightarrow> orient a r g | Visit ch d \<Rightarrow> subn f g0 ch (upd_node ch f g))"

lemma subn_fold: "subn f g0 n g = fold (subn_event f g0) (eachSubnode g0 n []) g"
  by (subst subn.simps) (simp add: subn_event_def [abs_def])

lemma subn_invariant:
  assumes "\<And>a r g. P g \<Longrightarrow> P (orient a r g)" "\<And>ch g. P g \<Longrightarrow> P (upd_node ch f g)" "P g"
  shows "P (subn f g0 n g)"
  using assms
proof (induction f g0 n g rule: subn.induct)
  case (1 f g0 n g)
  have "P (subn_event f g0 e h)" if e: "e \<in> set (eachSubnode g0 n [])" "P h" for e h
  proof (cases e)
    case (Visit ch d)
    then show ?thesis using "1.IH" [OF e(1) Visit, of h] "1.prems" e(2) by (simp add: subn_event_def)
  qed (use "1.prems"(1) e in \<open>simp add: subn_event_def\<close>)
  then show ?case
    unfolding subn_fold using "1.prems"(3)
    by (intro fold_invariant [where Q = "\<lambda>e. e \<in> set (eachSubnode g0 n [])" and P = P]) auto
qed
text \<open>What the loop sets is set at all the nodes below, and nowhere else.\<close>

definition read_node :: "(gnode \<Rightarrow> 'a) \<Rightarrow> graph \<Rightarrow> id \<Rightarrow> 'a option" where
  "read_node q g x = map_option q (getNode g x)"

lemma subn_reads:
  assumes "\<And>n. q (f n) = c"
  shows "read_node q (subn f g0 i g) x
    = (if x \<in> below_of (kids g0) i then map_option (\<lambda>_. c) (read_node q g x) else read_node q g x)"
  using assms
proof (induction f g0 i g rule: subn.induct)
  case (1 f g0 i g)
  let ?U = "\<lambda>es. \<Union>ch \<in> set (visited es). insert ch (below_of (kids g0) ch)"
  have upd: "read_node q (upd_node ch f h) x = (if x = ch then map_option (\<lambda>_. c) (read_node q h x) else read_node q h x)" for ch h
    by (cases "getNode h x") (auto simp: read_node_def "1.prems")
  have event: "read_node q (subn_event f g0 e h) x
      = (if x \<in> ?U [e] then map_option (\<lambda>_. c) (read_node q h x) else read_node q h x)"
    if e: "e \<in> set (eachSubnode g0 i [])" for e h
  proof (cases e)
    case (Visit ch d)
    then show ?thesis
      using "1.IH" [OF e Visit "1.prems", of h] upd [of ch h] by (auto simp: subn_event_def option.map_comp comp_def)
  qed (simp add: subn_event_def read_node_def getNode_def)
  have "read_node q (fold (subn_event f g0) es h) x
      = (if x \<in> ?U es then map_option (\<lambda>_. c) (read_node q h x) else read_node q h x)"
    if "set es \<subseteq> set (eachSubnode g0 i [])" for es h
    using that
  proof (induction es arbitrary: h)
    case (Cons e es)
    have "?U (e # es) = ?U [e] \<union> ?U es" by (cases e) simp_all
    then show ?case using Cons event [of e h] by (auto simp: option.map_comp comp_def)
  qed simp
  from this [of "eachSubnode g0 i []" g] show ?case
    unfolding subn_fold by (subst below_Union) simp
qed

lemma node_ignored_read: "node_ignored g x = (read_node n_ignore g x = Some True)"
  by (cases "getNode g x") (simp_all add: node_ignored_def read_node_def)

lemma below_hasNode:
  assumes "x \<in> below_of (kids g) i"
  shows "hasNode g x"
proof -
  have "(i, x) \<in> (sub_step (kids g))\<^sup>+" using assms by (simp add: below_of_def)
  then obtain a where "(a, x) \<in> sub_step (kids g)" by (rule tranclE)
  then show ?thesis using subnodes_hasNode by (simp add: sub_step_def)
qed

lemma subn_fade:
  assumes "\<And>x. hasNode g x = hasNode g0 x"
  shows "node_ignored (subn (fade_node b type) g0 i g) x = (if x \<in> below_of (kids g0) i then b else node_ignored g x)"
  using subn_reads [of n_ignore "fade_node b type" b g0 i g x] below_hasNode [of x g0 i] assms
  by (auto simp: node_ignored_read fade_node_def read_node_def hasNode_getNode)

lemma subn_depicts:
  assumes "depicts g G" "\<And>n. n_id (f n) = n_id n"
  shows "depicts (subn f g0 i g) G"
  using assms by (intro subn_invariant [where P = "\<lambda>g. depicts g G"]) (auto intro: depicts_marks depicts_upd_node)

lemma subn_keeps:
  assumes "\<And>n. q (f n) = q n"
  shows "read_node q (subn f g0 i g) x = read_node q g x"
proof -
  have "read_node q (upd_node ch f h) x = read_node q h x" for ch h
    by (cases "getNode h x") (simp_all add: read_node_def assms)
  moreover have "read_node q (orient a r h) x = read_node q h x" for a r h by (simp add: read_node_def getNode_def)
  ultimately show ?thesis
    by (intro subn_invariant [where P = "\<lambda>h. read_node q h x = read_node q g x"]) simp_all
qed

lemma collapsed_read: "collapsed_mark g x = Option.bind (read_node (\<lambda>n. map_of (n_ext n) ''collapsed'') g x) id"
  by (cases "getNode g x") (simp_all add: collapsed_mark_def read_node_def)

lemma kids_upd_node:
  assumes "\<And>n. n_depth (f n) = n_depth n"
  shows "kids (upd_node i f g) = kids g"
proof
  have d: "depth_of (upd_node i f g) = depth_of g"
  proof
    show "depth_of (upd_node i f g) x = depth_of g x" for x
      by (cases "getNode g x") (simp_all add: depth_of_def assms)
  qed
  have p: "passes [] (upd_node i f g) = passes [] g"
  proof
    show "passes [] (upd_node i f g) x = passes [] g x" for x
      by (cases "getNode g x") (simp_all add: passes_def filter_node_def flag_props_def)
  qed
  show "kids (upd_node i f g) a = kids g a" for a
    by (cases "depth_of g a") (simp_all add: subnodes_neighbours d p other_end_def [abs_def])
qed
section \<open>Contracting and expanding\<close>

lemma node_set_collapsed [simp]:
  "n_id (node_set_prop ''collapsed'' b n) = n_id n" "n_ignore (node_set_prop ''collapsed'' b n) = n_ignore n"
  "n_depth (node_set_prop ''collapsed'' b n) = n_depth n"
  by (simp_all add: node_set_prop_def)

lemma ignored_upd_node:
  "(\<And>n. n_ignore (f n) = n_ignore n) \<Longrightarrow> node_ignored (upd_node i f g) x = node_ignored g x"
  by (cases "getNode g x") (simp_all add: node_ignored_def)

lemma move_to_keeps [simp]: "n_id (move_to p n) = n_id n" "n_ignore (move_to p n) = n_ignore n"
  by (auto simp: move_to_def node_setPos_def Let_def split: option.splits)

lemma fade_node_keeps [simp]: "n_id (fade_node b type n) = n_id n" "n_ext (fade_node b type n) = n_ext n"
  by (simp_all add: fade_node_def)

lemma below_empty: "\<not> anySubnode g i (\<lambda>_. True) [] \<Longrightarrow> below_of (kids g) i = {}"
proof -
  assume none: "\<not> anySubnode g i (\<lambda>_. True) []"
  have "b \<notin> set (kids g i)" for b
    using none subnodes_hasNode [of b g i "[]"] by (auto simp: anySubnode_def list_ex_iff hasNode_getNode split: option.splits)
  then have "kids g i = []" by (cases "kids g i") auto
  then show ?thesis by (simp add: below_Union [of "kids g" i])
qed

lemma relaid_reposition:
  assumes "wf_graph (rd_graph r)" "hasNode (rd_graph r) (rd_root r)"
  obtains s where "reposition offset r = Some s" "relaid (rd_graph r) (rd_graph s)"
  using repositioned.layout_relaid [OF assms] by blast

lemma relaid_refresh:
  assumes "wf_graph (rd_graph r)" "hasNode (rd_graph r) (rd_root r)"
  obtains s where "rgraph_refresh offset r = Some s" "relaid (rd_graph r) (rd_graph s)"
  using refreshed.layout_relaid [OF assms] by blast

lemma contract_ignores:
  assumes wf: "wf_graph (rd_graph r)" and rooted: "hasNode (rd_graph r) (rd_root r)"
    and unmarked: "collapsed_mark (rd_graph r) i = None"
  shows "\<exists>s. op_contract offset type i r = Some s
    \<and> (\<forall>x. node_ignored (rd_graph s) x = (node_ignored (rd_graph r) x \<or> x \<in> below_of (kids (rd_graph r)) i))"
proof (cases "anySubnode (rd_graph r) i (\<lambda>_. True) []")
  case True
  let ?g = "upd_node i (node_set_prop ''collapsed'' (JBool True)) (rd_graph r)"
  obtain h where h: "h = subn (fade_node True type) ?g i ?g" by blast
  let ?r = "r\<lparr>rd_graph := h\<rparr>"
  let ?p = "\<lambda>g. move_to (Option.bind (getNode g i) (\<lambda>n. node_getPos n ''end''))"
  have "depicts h (abs_graph (rd_graph r))"
    unfolding h using wf by (intro subn_depicts depicts_upd_node) (simp_all add: depicts_def)
  then have r: "wf_graph (rd_graph ?r)" "hasNode (rd_graph ?r) (rd_root ?r)"
    using rooted by (auto simp: depicts_def abs_graph_def)
  have ign: "node_ignored (rd_graph ?r) x = (node_ignored (rd_graph r) x \<or> x \<in> below_of (kids (rd_graph r)) i)" for x
    by (simp add: h subn_fade ignored_upd_node kids_upd_node)
  have op: "op_contract offset type i r = (if type = ''animate'' then map_option (on_graph (\<lambda>g. subn (?p g) g i g)) (reposition offset ?r)
      else if type = ''replot'' then rgraph_refresh offset ?r else Some ?r)"
    using True unmarked by (simp add: h op_contract_def Let_def)
  obtain s t where s: "reposition offset ?r = Some s" "relaid (rd_graph ?r) (rd_graph s)"
    and t: "rgraph_refresh offset ?r = Some t" "relaid (rd_graph ?r) (rd_graph t)"
    using relaid_reposition [OF r] relaid_refresh [OF r] by metis
  have "node_ignored (subn (?p (rd_graph s)) (rd_graph s) i (rd_graph s)) x = node_ignored (rd_graph s) x" for x
    unfolding node_ignored_read by (subst subn_keeps) simp_all
  then show ?thesis
    unfolding op using s(1) t(1) ign relaid_marks(1) [OF s(2)] relaid_marks(1) [OF t(2)] by simp
next
  case False
  then show ?thesis by (simp add: op_contract_def below_empty)
qed

lemma expand_marks:
  assumes wf: "wf_graph (rd_graph r)" and rooted: "hasNode (rd_graph r) (rd_root r)"
    and closed: "collapsed_mark (rd_graph r) i \<noteq> None"
  shows "\<exists>s. op_expand offset type i r = Some s
    \<and> (\<forall>x. node_ignored (rd_graph s) x = (node_ignored (rd_graph r) x \<and> x \<notin> below_of (kids (rd_graph r)) i))
    \<and> (\<forall>x. collapsed_mark (rd_graph s) x = (if x = i then None else collapsed_mark (rd_graph r) x))"
proof -
  let ?f = "\<lambda>n. n\<lparr>n_ext := AList.delete ''collapsed'' (n_ext n)\<rparr>"
  let ?g = "upd_node i ?f (rd_graph r)"
  obtain h where h: "h = subn (fade_node False type) ?g i ?g" by blast
  let ?r = "r\<lparr>rd_graph := h\<rparr>"
  have "depicts h (abs_graph (rd_graph r))"
    unfolding h using wf by (intro subn_depicts depicts_upd_node) (simp_all add: depicts_def)
  then have r: "wf_graph (rd_graph ?r)" "hasNode (rd_graph ?r) (rd_root ?r)"
    using rooted by (auto simp: depicts_def abs_graph_def)
  have op: "op_expand offset type i r = (if type = ''animate'' then reposition offset ?r
      else if type = ''replot'' then rgraph_refresh offset ?r else Some ?r)"
    using closed by (simp add: h op_expand_def Let_def del: not_None_eq)
  have ign: "node_ignored (rd_graph ?r) x = (node_ignored (rd_graph r) x \<and> x \<notin> below_of (kids (rd_graph r)) i)" for x
    by (simp add: h subn_fade ignored_upd_node kids_upd_node)
  have "collapsed_mark (rd_graph ?r) x = collapsed_mark ?g x" for x
    using subn_keeps [of "\<lambda>n. map_of (n_ext n) ''collapsed''" "fade_node False type" ?g i ?g x] by (simp add: h collapsed_read)
  also have "collapsed_mark ?g x = (if x = i then None else collapsed_mark (rd_graph r) x)" for x
    by (cases "getNode (rd_graph r) x") (auto simp: collapsed_mark_def delete_conv')
  finally have col: "collapsed_mark (rd_graph ?r) x = (if x = i then None else collapsed_mark (rd_graph r) x)" for x .
  obtain s t where s: "reposition offset ?r = Some s" "relaid (rd_graph ?r) (rd_graph s)"
    and t: "rgraph_refresh offset ?r = Some t" "relaid (rd_graph ?r) (rd_graph t)"
    using relaid_reposition [OF r] relaid_refresh [OF r] by metis
  show ?thesis
    unfolding op using s(1) t(1) ign col relaid_marks [OF s(2)] relaid_marks [OF t(2)] by simp
qed

text \<open>
  C29: in a radial graph whose root is in the graph, contracting a node that is not contracted
  hides all nodes below it, and expanding a contracted node shows all nodes below it again, those
  below a node that was contracted on its own included. Such a node keeps its mark, so that it
  cannot be contracted again although the nodes below it are shown.
\<close>

theorem contract_expand:
  assumes "wf_graph (rd_graph r)" "hasNode (rd_graph r) (rd_root r)"
  shows "(collapsed_mark (rd_graph r) i = None \<longrightarrow>
      (\<exists>s. op_contract offset type i r = Some s \<and> (\<forall>x. node_ignored (rd_graph s) x
        = (node_ignored (rd_graph r) x \<or> x \<in> below_of (kids (rd_graph r)) i))))
    \<and> (collapsed_mark (rd_graph r) i \<noteq> None \<longrightarrow>
      (\<exists>s. op_expand offset type i r = Some s \<and> (\<forall>x. node_ignored (rd_graph s) x
        = (node_ignored (rd_graph r) x \<and> x \<notin> below_of (kids (rd_graph r)) i))
      \<and> (\<forall>j. collapsed_mark (rd_graph r) j = Some (JBool True) \<and> j \<noteq> i \<longrightarrow> op_contract offset type' j s = Some s)))"
proof (intro conjI impI)
  show "\<exists>s. op_contract offset type i r = Some s \<and> (\<forall>x. node_ignored (rd_graph s) x
      = (node_ignored (rd_graph r) x \<or> x \<in> below_of (kids (rd_graph r)) i))" if "collapsed_mark (rd_graph r) i = None"
    by (rule contract_ignores [OF assms that])
  show "\<exists>s. op_expand offset type i r = Some s \<and> (\<forall>x. node_ignored (rd_graph s) x
        = (node_ignored (rd_graph r) x \<and> x \<notin> below_of (kids (rd_graph r)) i))
      \<and> (\<forall>j. collapsed_mark (rd_graph r) j = Some (JBool True) \<and> j \<noteq> i \<longrightarrow> op_contract offset type' j s = Some s)"
    if "collapsed_mark (rd_graph r) i \<noteq> None"
    using expand_marks [OF assms that, of offset type] by (auto simp: op_contract_def)
qed

text \<open>A chain of three nodes with its levels, the first two contracted.\<close>

definition chain_graph :: graph where
  "chain_graph =
     (let spec = (\<lambda>i. \<lparr>s_id = i, s_name = [], s_data = []\<rparr>);
          g = initialize \<lparr>go_complex = False, go_Node = []\<rparr> [] [] [];
          g = fst (addAdjacence (spec ''a'') (spec ''b'') [] g);
          g = the (computeLevels (fst (addAdjacence (spec ''b'') (spec ''c'') [] g)) ''a'' 0 ''ignore'')
      in fold (\<lambda>i g. subn (fade_node True ''replot'') g i (upd_node i (node_set_prop ''collapsed'' (JBool True)) g)) [''b'', ''a''] g)"

abbreviation chain_radial :: radial where
  "chain_radial \<equiv> viz_pair\<lparr>rd_graph := chain_graph\<rparr>"

theorem contract_expand_witness:
  "\<exists>s. op_expand (\<lambda>w h t. (0, 0)) ''replot'' ''a'' chain_radial = Some s
     \<and> node_ignored chain_graph ''c'' \<and> \<not> node_ignored (rd_graph s) ''c''
     \<and> op_contract (\<lambda>w h t. (0, 0)) ''replot'' ''b'' s = Some s"
proof -
  have g: "wf_graph chain_graph" "collapsed_mark chain_graph ''a'' = Some (JBool True)"
    "collapsed_mark chain_graph ''b'' = Some (JBool True)" "hasNode chain_graph ''a''" "node_ignored chain_graph ''c''"
    "kids chain_graph ''a'' = [''b'']" "kids chain_graph ''b'' = [''c'']"
    by (code_simp; fail)+
  have "''c'' \<in> below_of (kids chain_graph) ''b''" by (subst below_Union) (simp add: g(7))
  then have "''c'' \<in> below_of (kids chain_graph) ''a''" by (subst below_Union) (simp add: g(6))
  then show ?thesis
    using contract_expand [of chain_radial "''a''" "\<lambda>w h t. (0, 0)" "''replot''" "''replot''"] g by (auto simp: viz_pair_root)
qed

end
