(* ===== verification/RF_NetworkView.thy ===== *)
theory RF_NetworkView
  imports RF_Network Jit_RGraph Jit_Extras Jit_Shapes
begin

text \<open>
  The network view of the page (\<^verbatim>\<open>rfweb/js/rf/network.js\<close>): the radial graph of the topology, its
  node types, its periodic updates from the server and the reactions to the mouse. The state is
  that of the script's variables together with the radial graph and the canvas; requests are
  recorded, and a received answer is an event of its own. The lemmas show that the graph stays
  well formed whatever is received and clicked, that an update keeps the positions of the nodes
  that were there before, and that there is never more than one update timer.
\<close>

section \<open>Browser compatibility\<close>

record compat =
  c_labelType :: string
  c_nativeText :: bool
  c_gradients :: bool
  c_animate :: bool

definition browser_compat :: "bool \<Rightarrow> bool \<Rightarrow> bool \<Rightarrow> compat" where
  "browser_compat iStuff nativeCanvasSupport fillText =
     (let textSupport = nativeCanvasSupport \<and> fillText;
          labelType = (if \<not> nativeCanvasSupport \<or> (textSupport \<and> \<not> iStuff) then ''Native'' else ''HTML'')
      in \<lparr>c_labelType = labelType, c_nativeText = (labelType = ''Native''),
          c_gradients = nativeCanvasSupport, c_animate = (\<not> (iStuff \<or> \<not> nativeCanvasSupport))\<rparr>)"

section \<open>Node types of the page\<close>

definition page_node_render :: "string \<Rightarrow> gnode \<Rightarrow> ctx_cmd list option" where
  "page_node_render type n =
     (let pos = getc (n_pos n)
      in if type = ''switch'' then
           Some [DrawImage ''switch'' [0, ICON_SIZE / (5 / 2), ICON_SIZE, ICON_SIZE / 5,
             c_x pos - ICON_SIZE / 2, c_y pos - (ICON_SIZE / 5) / 2, ICON_SIZE, ICON_SIZE / 5]]
         else if type = ''rfserver'' then
           Some [DrawImage ''server_a'' [c_x pos - ICON_SIZE / 2, c_y pos - ICON_SIZE / 2, ICON_SIZE, ICON_SIZE]]
         else if type = ''rfproxy'' then
           Some [DrawImage ''server_b'' [c_x pos - ICON_SIZE / 2, c_y pos - ICON_SIZE / 2, ICON_SIZE, ICON_SIZE]]
         else None)"

definition page_node_contains :: "string \<Rightarrow> gnode \<Rightarrow> cpx \<Rightarrow> bool option" where
  "page_node_contains type n pos =
     (if type \<in> {''switch'', ''rfserver'', ''rfproxy''}
      then Some (rectangle_contains (getc (n_pos n)) pos ICON_SIZE ICON_SIZE) else None)"

text \<open>The registered types of the radial graph together with those of the page.\<close>

definition view_contains :: "graph \<Rightarrow> gnode \<Rightarrow> cpx \<Rightarrow> bool" where
  "view_contains g n pos =
     (case node_data g n ''type'' [] of
        JStr type \<Rightarrow>
          (case page_node_contains type n pos of
             Some b \<Rightarrow> b
           | None \<Rightarrow> (case rgraph_node_contains g type n pos of Some b \<Rightarrow> b | None \<Rightarrow> False))
      | _ \<Rightarrow> False)"

section \<open>State\<close>

record netview =
  nv_rgraph :: "radial option"
  nv_canvas :: canvas
  nv_previous :: "pos obj"
  nv_selected :: "id option"
  nv_active :: "nat list"
  nv_interval :: "nat option"
  nv_next :: nat
  nv_requests :: "string list"
  nv_gen :: nat
  nv_held :: nat

text \<open>
  The handlers hold a node as an object, and loading makes new objects for the same
  identifiers: \<open>nv_gen\<close> counts the loads and \<open>nv_held\<close> is the count when the pressed node was
  taken from the graph.
\<close>

text \<open>The timers: those the browser runs, and the one the script knows.\<close>

definition network_start_updating :: "netview \<Rightarrow> netview" where
  "network_start_updating p =
     p\<lparr>nv_active := nv_next p # nv_active p, nv_interval := Some (nv_next p), nv_next := nv_next p + 1\<rparr>"

definition network_stop_updating :: "netview \<Rightarrow> netview" where
  "network_stop_updating p =
     (case nv_interval p of None \<Rightarrow> p | Some i \<Rightarrow> p\<lparr>nv_active := removeAll i (nv_active p)\<rparr>)"

definition network_stop :: "netview \<Rightarrow> netview" where
  "network_stop p = network_stop_updating p"

section \<open>Building the graph\<close>

definition network_controller :: "string \<Rightarrow> props" where
  "network_controller labelType =
     [(''injectInto'', JStr ''infovis''),
      (''Node'', JObj [(''overridable'', JBool True), (''height'', JNum (ICON_SIZE + SPACING + LABEL_SIZE))]),
      (''Edge'', JObj [(''overridable'', JBool True), (''color'', JStr ''#000000'')]),
      (''Navigation'', JObj [(''enable'', JBool True), (''panning'', JStr ''avoid nodes''), (''zooming'', JNum 100)]),
      (''Label'', JObj [(''overridable'', JBool False), (''type'', JStr labelType), (''style'', JStr ''bold''),
         (''size'', JNum 12), (''family'', JStr ''sans-serif''), (''textAlign'', JStr ''center''), (''color'', JStr ''#000'')]),
      (''interpolation'', JStr ''polar''), (''transition'', JFun ''Trans.linear''), (''duration'', JNum 250),
      (''fps'', JNum 30), (''levelDistance'', JNum 250),
      (''Events'', JObj [(''enable'', JBool True), (''type'', JStr ''Native''), (''onDragMove'', JFun ''onDragMove''),
         (''onDragEnd'', JFun ''onDragEnd''), (''onClick'', JFun ''onClick''), (''onRightClick'', JFun ''onRightClick'')]),
      (''onCreateLabel'', JFun ''onCreateLabel''), (''onPlaceLabel'', JFun ''onPlaceLabel'')]"

definition network_config :: "string \<Rightarrow> props" where
  "network_config labelType =
     merge [JObj (Options [''Canvas'', ''Node'', ''Edge'', ''Fx'', ''Controller'', ''Tips'', ''NodeStyles'', ''Events'',
              ''Navigation'', ''Label'']),
            JObj [(''interpolation'', JStr ''linear''), (''levelDistance'', JNum 100)],
            JObj (network_controller labelType)]"

definition build :: "string \<Rightarrow> radial" where
  "build labelType =
     (let config = network_config labelType
      in rgraph_initialize (obj_props (prop_of config ''Node'')) (obj_props (prop_of config ''Edge''))
           (obj_props (prop_of config ''Label'')) (num_of (prop_of config ''levelDistance'')))"

text \<open>The place of a label of the page, from the place the library gave it and its width.\<close>

definition page_onPlaceLabel :: "int \<times> int \<Rightarrow> real \<Rightarrow> real \<times> real" where
  "page_onPlaceLabel pos w = (of_int (fst pos) - w / 2, of_int (snd pos) + ICON_SIZE / 2)"

section \<open>Updates\<close>

definition node_update :: "netview \<Rightarrow> netview" where
  "node_update p =
     p\<lparr>nv_requests := nv_requests p @ [''/switch/'' @ (case nv_selected p of None \<Rightarrow> ''undefined'' | Some i \<Rightarrow> i)]\<rparr>"

definition network_update :: "netview \<Rightarrow> netview" where
  "network_update p = p\<lparr>nv_requests := nv_requests p @ [''/topology'']\<rparr>"

text \<open>
  Loading replaces the graph and then looks up the root, which raises an exception if there is
  no node.
\<close>

definition loadJSON :: "string \<Rightarrow> props list \<Rightarrow> nat \<Rightarrow> radial \<Rightarrow> radial \<times> bool" where
  "loadJSON labelType json i r =
     (let config = network_config labelType;
          g = construct rgraph_options (obj_props (prop_of config ''Node'')) (obj_props (prop_of config ''Edge''))
                (obj_props (prop_of config ''Label'')) (Inr json);
          r = r\<lparr>rd_graph := g, rd_aw := [], rd_taw := []\<rparr>
      in case load_root (Inr json) i of None \<Rightarrow> (r, False) | Some rid \<Rightarrow> (r\<lparr>rd_root := rid\<rparr>, True))"

definition save_positions :: "graph \<Rightarrow> pos obj \<Rightarrow> pos obj" where
  "save_positions g prev = fold (\<lambda>(i, n). AList.update (n_id n) (n_pos n)) (g_nodes g) prev"

definition restore_position :: "pos obj \<Rightarrow> gnode \<Rightarrow> gnode" where
  "restore_position prev n = (case map_of prev (n_id n) of None \<Rightarrow> n | Some q \<Rightarrow> set_node_pos q [] n)"

definition restore_positions :: "pos obj \<Rightarrow> graph \<Rightarrow> graph" where
  "restore_positions prev g = eachNode g (\<lambda>i. upd_node i (restore_position prev)) []"

definition first_load ::
  "(string \<Rightarrow> string \<Rightarrow> string \<Rightarrow> real \<times> real) \<Rightarrow> string \<Rightarrow> props list \<Rightarrow> nat \<Rightarrow> netview \<Rightarrow> netview \<times> bool" where
  "first_load offset labelType nodes center p =
     (let p = p\<lparr>nv_gen := nv_gen p + 1\<rparr>; (r, ok) = loadJSON labelType nodes center (build labelType)
      in if \<not> ok then (p\<lparr>nv_rgraph := Some r\<rparr>, False)
         else (case radial_compute offset None r of
                 None \<Rightarrow> (p\<lparr>nv_rgraph := Some r\<rparr>, False)
               | Some r \<Rightarrow> (p\<lparr>nv_rgraph := Some r, nv_canvas := canvas_scale (7 / 10) (7 / 10) (nv_canvas p)\<rparr>, True)))"

definition later_load ::
  "(string \<Rightarrow> string \<Rightarrow> string \<Rightarrow> real \<times> real) \<Rightarrow> string \<Rightarrow> props list \<Rightarrow> radial \<Rightarrow> netview \<Rightarrow> netview \<times> bool" where
  "later_load offset labelType nodes r p =
     (let p = p\<lparr>nv_previous := save_positions (rd_graph r) (nv_previous p), nv_gen := nv_gen p + 1\<rparr>;
          (r, ok) = loadJSON labelType nodes 0 r
      in if \<not> ok then (p\<lparr>nv_rgraph := Some r\<rparr>, False)
         else (case radial_compute offset None r of
                 None \<Rightarrow> (p\<lparr>nv_rgraph := Some r\<rparr>, False)
               | Some r \<Rightarrow>
                   (let p = p\<lparr>nv_rgraph := Some (r\<lparr>rd_graph := restore_positions (nv_previous p) (rd_graph r)\<rparr>)\<rparr>
                    in (if nv_selected p \<noteq> None then node_update p else p, True))))"

definition network_receive ::
  "(string \<Rightarrow> string \<Rightarrow> string \<Rightarrow> real \<times> real) \<Rightarrow> string \<Rightarrow> props list option \<Rightarrow> netview \<Rightarrow> netview \<times> bool" where
  "network_receive offset labelType data p =
     (case data of
        None \<Rightarrow> (p, True)
      | Some d \<Rightarrow>
          (let (nodes, center) = prepare_topology 0 d 0
           in case nv_rgraph p of
                None \<Rightarrow> first_load offset labelType nodes center p
              | Some r \<Rightarrow> later_load offset labelType nodes r p))"

definition network_init :: "netview \<Rightarrow> netview" where
  "network_init p = network_start_updating (network_update p)"

section \<open>Reactions to the mouse\<close>

text \<open>A node dragged after the graph was loaded again is not a node of the graph any more.\<close>

definition page_onDragMove :: "cpx \<Rightarrow> id \<Rightarrow> netview \<Rightarrow> netview" where
  "page_onDragMove pos i p =
     (let p = network_stop_updating p
      in if nv_held p \<noteq> nv_gen p then p
         else p\<lparr>nv_rgraph := map_option (\<lambda>r. r\<lparr>rd_graph :=
             upd_node i (\<lambda>n. n\<lparr>n_pos := setc (n_pos n) (c_x pos) (c_y pos)\<rparr>) (rd_graph r)\<rparr>) (nv_rgraph p)\<rparr>)"

definition page_onDragEnd :: "netview \<Rightarrow> netview" where
  "page_onDragEnd p = network_start_updating p"

definition page_onClick :: "id \<Rightarrow> netview \<Rightarrow> netview" where
  "page_onClick i p = node_update (p\<lparr>nv_selected := Some i\<rparr>)"

definition page_onRightClick ::
  "(string \<Rightarrow> string \<Rightarrow> string \<Rightarrow> real \<times> real) \<Rightarrow> id \<Rightarrow> netview \<Rightarrow> netview \<times> bool" where
  "page_onRightClick offset i p =
     (let p = (network_stop_updating p)\<lparr>nv_previous := []\<rparr>
      in case nv_rgraph p of
           None \<Rightarrow> (p, False)
         | Some r \<Rightarrow>
             (let (r, res) = rgraph_onClick offset i r; p = p\<lparr>nv_rgraph := Some r\<rparr>
              in if res \<in> {Failed, Hanging} then (p, False) else (network_start_updating p, True)))"

text \<open>
  The callbacks of the controller; those that are not set do nothing. An edge, which has no
  position, could not be dragged; events are not enabled for edges, so that none is met. The start of a drag only
  notes which graph the node is from.
\<close>

fun page_call ::
  "(string \<Rightarrow> string \<Rightarrow> string \<Rightarrow> real \<times> real) \<Rightarrow> cpx \<Rightarrow> ecall \<Rightarrow> netview \<Rightarrow> netview \<times> bool" where
  "page_call offset pos (DragMove (TNode i)) p = (page_onDragMove pos i p, True)"
| "page_call offset pos (DragMove (TEdge r)) p = (network_stop_updating p, False)"
| "page_call offset pos (DragStart t) p = (p\<lparr>nv_held := nv_gen p\<rparr>, True)"
| "page_call offset pos (DragEnd t) p = (page_onDragEnd p, True)"
| "page_call offset pos (Click (Some (TNode i))) p = (page_onClick i p, True)"
| "page_call offset pos (RightClick (Some (TNode i))) p = page_onRightClick offset i p"
| "page_call offset pos _ p = (p, True)"

fun event_pos :: "mouse_event \<Rightarrow> cpx" where
  "event_pos (MUp m) = ms_pos m"
| "event_pos (MDown m) = ms_pos m"
| "event_pos (MMove still m) = ms_pos m"
| "event_pos (MOver m) = ms_pos m"
| "event_pos (MOut m) = ms_pos m"
| "event_pos (MWheel d) = mkC 0 0"
| "event_pos (TStart m) = ms_pos m"
| "event_pos (TMove m) = ms_pos m"
| "event_pos (TEnd m) = ms_pos m"

text \<open>What happens to the page: an answer of the server, the mouse, the end of an animation.\<close>

datatype net_event = Received "props list option" | Mouse mouse_event | Animated | Tick

text \<open>Edges are not enabled for events, and labels are drawn, so only nodes are found.\<close>

definition page_events_config :: events_config where
  "page_events_config = \<lparr>ec_dom = False, ec_edges = False, ec_widget = 0\<rparr>"

fun net_step ::
  "(string \<Rightarrow> string \<Rightarrow> string \<Rightarrow> real \<times> real) \<Rightarrow> string \<Rightarrow> net_event \<Rightarrow> events \<times> netview \<Rightarrow> events \<times> netview" where
  "net_step offset labelType (Received data) (st, p) = (st, fst (network_receive offset labelType data p))"
| "net_step offset labelType (Mouse e) s = run_event page_events_config (page_call offset (event_pos e)) e s"
| "net_step offset labelType Animated (st, p) = (st, p\<lparr>nv_rgraph := map_option rgraph_onComplete (nv_rgraph p)\<rparr>)"
| "net_step offset labelType Tick (st, p) = (st, if nv_active p = [] then p else network_update p)"

definition net_start :: "canvas \<Rightarrow> events \<times> netview" where
  "net_start c = (events_initializePost, network_init
     \<lparr>nv_rgraph = None, nv_canvas = c, nv_previous = [], nv_selected = None, nv_active = [],
      nv_interval = None, nv_next = 0, nv_requests = [], nv_gen = 0, nv_held = 0\<rparr>)"

section \<open>Timers\<close>

definition timers_ok :: "events \<times> netview \<Rightarrow> bool" where
  "timers_ok = (\<lambda>(st, p). (e_moved st \<longrightarrow> nv_active p = [])
     \<and> (nv_active p = [] \<or> (\<exists>i. nv_active p = [i] \<and> nv_interval p = Some i)))"

lemma stop_active:
  "nv_active p = [] \<or> (\<exists>i. nv_active p = [i] \<and> nv_interval p = Some i) \<Longrightarrow> nv_active (network_stop_updating p) = []"
  by (auto simp: network_stop_updating_def split: option.splits)

lemma load_timers [simp]:
  "nv_active (fst (network_receive offset labelType data p)) = nv_active p"
  "nv_interval (fst (network_receive offset labelType data p)) = nv_interval p"
  by (auto simp: network_receive_def first_load_def later_load_def node_update_def Let_def case_prod_unfold
      split: option.splits)

lemma page_call_timers:
  assumes "nv_active p = [] \<or> (\<exists>i. nv_active p = [i] \<and> nv_interval p = Some i)"
    and "(\<exists>t. c = DragEnd t) \<Longrightarrow> nv_active p = []"
  shows "nv_active (fst (page_call offset pos c p)) = []
    \<or> (\<exists>i. nv_active (fst (page_call offset pos c p)) = [i] \<and> nv_interval (fst (page_call offset pos c p)) = Some i)"
  using assms stop_active [OF assms(1)]
  by (cases "(offset, pos, c, p)" rule: page_call.cases)
    (auto simp: page_onDragMove_def page_onDragEnd_def page_onClick_def node_update_def network_start_updating_def
      page_onRightClick_def Let_def split: option.splits prod.splits if_splits)

lemma drag_move_stops:
  assumes "nv_active p = [] \<or> (\<exists>i. nv_active p = [i] \<and> nv_interval p = Some i)"
  shows "nv_active (fst (page_call offset pos (DragMove t) p)) = []"
  using stop_active [OF assms] by (cases t) (simp_all add: page_onDragMove_def Let_def)

lemma timers_okI:
  "(e_moved st \<Longrightarrow> nv_active p = []) \<Longrightarrow> nv_active p = [] \<or> (\<exists>i. nv_active p = [i] \<and> nv_interval p = Some i)
   \<Longrightarrow> timers_ok (st, p)"
  by (simp add: timers_ok_def)

text \<open>Steps that only call harmless callbacks and do not touch the mark of a moved drag.\<close>

fun calm :: "bool \<Rightarrow> step \<Rightarrow> bool" where
  "calm moved (Call c) \<longleftrightarrow> (\<forall>t. c \<noteq> DragEnd t) \<and> (\<forall>t. c \<noteq> RightClick t)"
| "calm moved (Assign st) \<longleftrightarrow> e_moved st = moved"

lemma page_call_calm:
  assumes "\<forall>t. c \<noteq> DragEnd t" "\<forall>t. c \<noteq> RightClick t" "nv_active p = []"
  shows "nv_active (fst (page_call offset pos c p)) = []"
  using assms stop_active [of p]
  by (cases "(offset, pos, c, p)" rule: page_call.cases)
    (auto simp: page_onDragMove_def page_onClick_def node_update_def Let_def)

lemma calm_steps:
  "list_all (calm moved) ss \<Longrightarrow> e_moved st = moved \<Longrightarrow> timers_ok (st, p)
   \<Longrightarrow> timers_ok (run_steps (page_call offset pos) ss (st, p))"
proof (induction ss arbitrary: st p)
  case (Cons x ss)
  show ?case
  proof (cases x)
    case (Assign e)
    then show ?thesis using Cons by (auto simp: timers_ok_def)
  next
    case (Call c)
    obtain q ok where q: "page_call offset pos c p = (q, ok)" by force
    have "timers_ok (st, q)"
      using Cons.prems page_call_timers [of p c offset pos] page_call_calm [of c p offset pos] q
      by (auto simp: timers_ok_def Call)
    then show ?thesis using Cons q by (simp add: Call)
  qed
qed simp

lemma mouse_up_timers:
  assumes "timers_ok (st, p)"
  shows "timers_ok (run_steps (page_call offset pos) (events_onMouseUp m st) (st, p))"
proof -
  have one: "nv_active p = [] \<or> (\<exists>i. nv_active p = [i] \<and> nv_interval p = Some i)"
    and none: "e_moved st \<Longrightarrow> nv_active p = []" using assms by (simp_all add: timers_ok_def)
  have rest: "timers_ok (run_steps (page_call offset pos) (case e_pressed st of None \<Rightarrow> []
        | Some t \<Rightarrow> [Call (if e_moved st then DragEnd t else DragCancel t), Assign (st\<lparr>e_pressed := None, e_moved := False\<rparr>)]) (st, q))"
    if q: "timers_ok (st, q)" for q
    using q by (auto simp: timers_ok_def page_onDragEnd_def network_start_updating_def split: option.splits)
  have first: "timers_ok (st, fst (page_call offset pos c p))" if "\<not> e_moved st" "\<forall>t. c \<noteq> DragEnd t" for c
    using that page_call_timers [OF one, of c offset pos] by (auto simp: timers_ok_def)
  show ?thesis
    using rest [OF assms] rest first [of "RightClick (e_hovered st)"] first [of "Click (e_pressed st)"]
    by (auto simp: events_onMouseUp_def split: prod.splits)
qed

lemma net_step_timers:
  assumes "timers_ok s"
  shows "timers_ok (net_step offset labelType ev s)"
proof -
  obtain st p where s: "s = (st, p)" by force
  have ok: "timers_ok (st, p)" using assms by (simp add: s)
  show ?thesis
  proof (cases ev)
    case (Mouse e)
    have "timers_ok (run_steps (page_call offset pos) (handleEvent page_events_config e st) (st, p))" for pos
    proof (cases "\<exists>m. e = MUp m")
      case True
      then show ?thesis using mouse_up_timers [OF ok] by auto
    next
      case up: False
      show ?thesis
      proof (cases "\<exists>still m t. e = MMove still m \<and> e_pressed st = Some t")
        case True
        then obtain t where "handleEvent page_events_config e st = [Assign (st\<lparr>e_moved := True\<rparr>), Call (DragMove t)]"
          by (auto simp: events_onMouseMove_def)
        moreover have "nv_active (fst (page_call offset pos (DragMove t) p)) = []"
          using drag_move_stops ok by (simp add: timers_ok_def)
        ultimately show ?thesis by (auto simp: timers_ok_def split: prod.splits)
      next
        case False
        then have "list_all (calm (e_moved st)) (handleEvent page_events_config e st)"
          using up by (cases e) (auto simp: events_onMouseMove_def events_onMouseDown_def events_onMouseOver_def
              events_onMouseOut_def events_onMouseWheel_def events_onTouchStart_def events_onTouchMove_def
              events_onTouchEnd_def split: option.splits)
        then show ?thesis using calm_steps ok by blast
      qed
    qed
    then show ?thesis by (simp add: s Mouse run_event_def)
  qed (use ok in \<open>auto simp: s timers_ok_def network_update_def\<close>)
qed

section \<open>The graph of the page\<close>

definition net_ok :: "netview \<Rightarrow> bool" where
  "net_ok p \<longleftrightarrow> (case nv_rgraph p of None \<Rightarrow> True | Some r \<Rightarrow> sound_graph (rd_graph r))
     \<and> (\<forall>i q. map_of (nv_previous p) i = Some q \<longrightarrow> (\<exists>x. q = PosP x))"

lemma run_steps_keeps:
  assumes "\<And>c p. P p \<Longrightarrow> P (fst (cb c p))"
  shows "P (snd s) \<Longrightarrow> P (snd (run_steps cb ss s))"
proof (induction ss arbitrary: s)
  case (Cons x ss)
  obtain st p where s: "s = (st, p)" by force
  show ?case
  proof (cases x)
    case (Call c)
    obtain q ok where "cb c p = (q, ok)" by force
    then show ?thesis using Cons assms [of p c] by (simp add: s Call)
  qed (use Cons in \<open>simp add: s\<close>)
qed simp

lemma loadJSON_spec:
  assumes "loadJSON labelType json i r = (r', ok)"
  shows "sound_graph (rd_graph r')" "hasNode (rd_graph r') x \<longleftrightarrow> x \<in> json_nodes json"
    "ok \<longleftrightarrow> i < length json" "ok \<Longrightarrow> rd_root r' = str_of (prop_of (json ! i) ''id'') \<and> hasNode (rd_graph r') (rd_root r')"
proof -
  let ?cfg = "network_config labelType"
  let ?g = "construct rgraph_options (obj_props (prop_of ?cfg ''Node'')) (obj_props (prop_of ?cfg ''Edge''))
      (obj_props (prop_of ?cfg ''Label'')) (Inr json)"
  have g: "rd_graph r' = ?g"
    using assms by (auto simp: loadJSON_def Let_def split: option.splits)
  show "sound_graph (rd_graph r')" unfolding g by (rule sound_construct)
  have has: "hasNode ?g x \<longleftrightarrow> x \<in> json_nodes json" for x
  proof -
    have "fst (abs_graph ?g) = json_nodes json" using construct_array by (simp only: fst_conv)
    then show ?thesis by (simp add: abs_graph_def set_eq_iff)
  qed
  then show "hasNode (rd_graph r') x \<longleftrightarrow> x \<in> json_nodes json" unfolding g .
  show i: "ok \<longleftrightarrow> i < length json"
    using assms by (auto simp: loadJSON_def load_root_def Let_def split: if_splits)
  assume ok
  then have r: "rd_root r' = str_of (prop_of (json ! i) ''id'')" "i < length json"
    using assms i by (auto simp: loadJSON_def load_root_def Let_def)
  then have "rd_root r' \<in> json_nodes json" by (auto simp: json_nodes_def spec_of_def intro!: bexI [of _ "json ! i"])
  then show "rd_root r' = str_of (prop_of (json ! i) ''id'') \<and> hasNode (rd_graph r') (rd_root r')"
    using r(1) has g by simp
qed

lemma all_types: "set (compute_props None) \<subseteq> layout_types"
  by (simp add: compute_props_def layout_types_def)

lemma map_of_save_positions:
  assumes "wf_graph g"
  shows "map_of (save_positions g prev) i = (case getNode g i of Some n \<Rightarrow> Some (n_pos n) | None \<Rightarrow> map_of prev i)"
proof -
  have ids: "n_id n = k" if "(k, n) \<in> set (g_nodes g)" for k n
    using assms that by (auto simp: wf_graph_def list_all_iff)
  have "distinct (map fst ns) \<Longrightarrow> (\<And>k n. (k, n) \<in> set ns \<Longrightarrow> n_id n = k) \<Longrightarrow>
      map_of (fold (\<lambda>(i, n). AList.update (n_id n) (n_pos n)) ns prev) i
      = (case map_of ns i of Some n \<Rightarrow> Some (n_pos n) | None \<Rightarrow> map_of prev i)" for ns
  proof (induction ns arbitrary: prev)
    case (Cons kn ns)
    obtain k n where kn: "kn = (k, n)" by force
    have "n_id n = k" using Cons.prems(2) [of k n] by (simp add: kn)
    moreover have "map_of ns k = None" using Cons.prems(1) by (simp add: kn map_of_eq_None_iff)
    moreover have "map_of (fold (\<lambda>(i, n). AList.update (n_id n) (n_pos n)) ns (AList.update k (n_pos n) prev)) i
        = (case map_of ns i of Some m \<Rightarrow> Some (n_pos m) | None \<Rightarrow> map_of (AList.update k (n_pos n) prev) i)"
    proof (rule Cons.IH)
      show "distinct (map fst ns)" using Cons.prems(1) by (simp add: kn)
      show "n_id m = j" if "(j, m) \<in> set ns" for j m using that Cons.prems(2) [of j m] by (simp add: kn)
    qed
    ultimately show ?case by (cases "i = k") (simp_all add: kn AList.update_conv split: option.split)
  qed simp
  from this [of "g_nodes g"] show ?thesis
    using assms ids by (simp add: save_positions_def getNode_def wf_graph_def)
qed

lemma kept_restore_position:
  assumes "\<And>i q. map_of prev i = Some q \<Longrightarrow> \<exists>p. q = PosP p"
  shows "kept_node n (restore_position prev n)"
proof (cases "map_of prev (n_id n)")
  case (Some q)
  then obtain p where "q = PosP p" using assms by blast
  then show ?thesis
    using Some by (simp add: restore_position_def kept_node_def)
      (simp add: set_node_pos_def node_setPos_def type_or_current_def)
qed (simp add: restore_position_def)

lemma save_positions_polar:
  assumes "sound_graph g" "\<And>i q. map_of prev i = Some q \<Longrightarrow> \<exists>x. q = PosP x"
  shows "map_of (save_positions g prev) i = Some q \<Longrightarrow> \<exists>x. q = PosP x"
  using assms map_of_save_positions [of g prev i]
  by (auto simp: sound_graph_iff polar_node_def split: option.splits)

lemma later_load_spec:
  assumes "net_ok p" "nv_rgraph p = Some r" "nodes \<noteq> []"
  shows "\<exists>p' r'. later_load offset labelType nodes r p = (p', True) \<and> nv_rgraph p' = Some r' \<and> net_ok p'
    \<and> rd_root r' = str_of (prop_of (hd nodes) ''id'') \<and> (\<forall>x. hasNode (rd_graph r') x \<longleftrightarrow> x \<in> json_nodes nodes)
    \<and> (\<forall>i n m. getNode (rd_graph r) i = Some n \<longrightarrow> getNode (rd_graph r') i = Some m \<longrightarrow> n_pos m = n_pos n)"
proof -
  have sound: "sound_graph (rd_graph r)" and prev: "\<And>i q. map_of (nv_previous p) i = Some q \<Longrightarrow> \<exists>x. q = PosP x"
    using assms(1,2) by (simp_all add: net_ok_def)
  let ?prev = "save_positions (rd_graph r) (nv_previous p)"
  have polar: "\<And>i q. map_of ?prev i = Some q \<Longrightarrow> \<exists>x. q = PosP x" by (rule save_positions_polar [OF sound prev])
  obtain r1 ok where l: "loadJSON labelType nodes 0 r = (r1, ok)" by force
  note load = loadJSON_spec [OF l]
  have ok: ok using load(3) assms(3) by simp
  obtain s where s: "radial_compute offset None r1 = Some s" "sound_graph (rd_graph s)"
    "\<And>x. hasNode (rd_graph s) x = hasNode (rd_graph r1) x"
    using sound_compute [OF load(1) _ all_types, of offset] load(4) [OF ok] by auto
  let ?g = "restore_positions ?prev (rd_graph s)" and ?r' = "s\<lparr>rd_graph := restore_positions ?prev (rd_graph s)\<rparr>"
  have k: "kept (rd_graph s) ?g"
    unfolding restore_positions_def by (intro kept_eachNode kept_upd_node kept_restore_position polar)
  have g: "sound_graph ?g" by (rule sound_kept [OF s(2) k])
  have has: "hasNode ?g x \<longleftrightarrow> x \<in> json_nodes nodes" for x
    using kept_lookups(3) [OF k] s(3) load(2) by simp
  have "n_pos m = n_pos n" if n: "getNode (rd_graph r) i = Some n" and m: "getNode ?g i = Some m" for i n m
  proof -
    have "wf_graph (rd_graph s)" "wf_graph (rd_graph r)" using s(2) sound by (simp_all add: sound_graph_def)
    then have "getNode ?g i = map_option (restore_position ?prev) (getNode (rd_graph s) i)"
      by (simp add: restore_positions_def getNode_eachNode_upd wf_graph_def)
    then have "map_option (restore_position ?prev) (getNode (rd_graph s) i) = Some m" using m by simp
    then obtain k where k: "getNode (rd_graph s) i = Some k" "m = restore_position ?prev k"
      by (auto simp: map_option_eq_Some)
    have "polar_node k" "n_id k = i" using s(2) k(1) \<open>wf_graph (rd_graph s)\<close> by (auto simp: sound_graph_iff wf_graph_iff)
    moreover have "map_of ?prev i = Some (n_pos n)" using n map_of_save_positions [OF \<open>wf_graph (rd_graph r)\<close>] by simp
    moreover obtain x where "n_pos n = PosP x" using sound n by (auto simp: sound_graph_iff polar_node_def)
    ultimately show ?thesis
      by (simp add: k(2) restore_position_def set_node_pos_def node_setPos_def type_or_current_def polar_nodeD(1))
  qed
  moreover have "rd_root ?r' = str_of (prop_of (hd nodes) ''id'')"
    using radial_compute_fields(2) [OF s(1)] load(4) [OF ok] assms(3) by (simp add: hd_conv_nth)
  moreover have "\<exists>p'. later_load offset labelType nodes r p = (p', True) \<and> nv_rgraph p' = Some ?r' \<and> nv_previous p' = ?prev"
    using l ok s(1) by (simp add: later_load_def node_update_def Let_def)
  ultimately show ?thesis using g has polar by (auto simp: net_ok_def)
qed

lemma later_load_empty:
  assumes "net_ok p" "nv_rgraph p = Some r"
  shows "net_ok (fst (later_load offset labelType [] r p))"
proof -
  have sound: "sound_graph (rd_graph r)" and prev: "\<And>i q. map_of (nv_previous p) i = Some q \<Longrightarrow> \<exists>x. q = PosP x"
    using assms by (simp_all add: net_ok_def)
  obtain r1 ok where l: "loadJSON labelType [] 0 r = (r1, ok)" by force
  then have "\<not> ok" "sound_graph (rd_graph r1)" using loadJSON_spec(1,3) [OF l] by simp_all
  then show ?thesis
    using l save_positions_polar [OF sound prev] by (auto simp: later_load_def net_ok_def Let_def)
qed

lemma first_load_ok:
  assumes "net_ok p"
  shows "net_ok (fst (first_load offset labelType nodes center p))"
proof -
  obtain r1 ok where l: "loadJSON labelType nodes center (build labelType) = (r1, ok)" by force
  note load = loadJSON_spec [OF l]
  have "sound_graph (rd_graph s)" if "ok" "radial_compute offset None r1 = Some s" for s
    using sound_compute [OF load(1) _ all_types, of offset] load(4) that by auto
  then show ?thesis
    using assms l load(1) by (auto simp: first_load_def net_ok_def Let_def split: option.splits)
qed

lemma network_receive_ok: "net_ok p \<Longrightarrow> net_ok (fst (network_receive offset labelType data p))"
proof -
  assume p: "net_ok p"
  show ?thesis
  proof (cases data)
    case (Some d)
    obtain nodes center where n: "prepare_topology 0 d 0 = (nodes, center)" by force
    show ?thesis
    proof (cases "nv_rgraph p")
      case None
      then show ?thesis using first_load_ok [OF p] by (simp add: network_receive_def Some n)
    next
      case r: (Some r)
      have "net_ok (fst (later_load offset labelType nodes r p))"
        using later_load_spec [OF p r, of nodes offset labelType] later_load_empty [OF p r, of offset labelType]
        by (cases "nodes = []") auto
      then show ?thesis by (simp add: network_receive_def Some n r)
    qed
  qed (simp add: network_receive_def p)
qed

lemma sound_drag:
  assumes "sound_graph g"
  shows "sound_graph (upd_node i (\<lambda>n. n\<lparr>n_pos := setc (n_pos n) x y\<rparr>) g)"
proof (rule sound_kept [OF assms kept_upd_node])
  fix n
  have "\<exists>q. setc (PosP p) x y = PosP q" for p by simp
  then show "kept_node n (n\<lparr>n_pos := setc (n_pos n) x y\<rparr>)" by (auto simp: kept_node_def polar_node_def)
qed

lemma timers_keep_graph [simp]:
  "nv_rgraph (network_stop_updating p) = nv_rgraph p" "nv_rgraph (network_start_updating p) = nv_rgraph p"
  "nv_previous (network_stop_updating p) = nv_previous p" "nv_previous (network_start_updating p) = nv_previous p"
  by (simp_all add: network_stop_updating_def network_start_updating_def split: option.splits)

lemma net_okD:
  assumes "net_ok p"
  shows "nv_rgraph p = Some r \<Longrightarrow> sound_graph (rd_graph r)"
    and "map_of (nv_previous p) i = Some q \<Longrightarrow> \<exists>x. q = PosP x"
  using assms by (auto simp: net_ok_def)

lemma net_okI:
  "(\<And>r. nv_rgraph p = Some r \<Longrightarrow> sound_graph (rd_graph r))
   \<Longrightarrow> (\<And>i q. map_of (nv_previous p) i = Some q \<Longrightarrow> \<exists>x. q = PosP x) \<Longrightarrow> net_ok p"
  by (auto simp: net_ok_def split: option.split)

lemma right_click_ok:
  assumes "net_ok p"
  shows "net_ok (fst (page_onRightClick offset i p))"
proof (cases "nv_rgraph p")
  case None
  then show ?thesis by (simp add: page_onRightClick_def net_ok_def)
next
  case (Some r)
  obtain r' res where c: "rgraph_onClick offset i r = (r', res)" by force
  have "sound_graph (rd_graph r')" using sound_onClick [OF net_okD(1) [OF assms Some], of offset i] c by simp
  then show ?thesis by (simp add: page_onRightClick_def Some c net_ok_def Let_def)
qed

lemma page_call_ok:
  assumes "net_ok p"
  shows "net_ok (fst (page_call offset pos c p))"
proof -
  have drag: "net_ok (page_onDragMove pos i p)" for i
    using net_okD [OF assms] sound_drag
    by (intro net_okI) (auto simp: page_onDragMove_def Let_def split: if_splits)
  have "net_ok (p\<lparr>nv_held := x\<rparr>)" "net_ok (network_start_updating p)" "net_ok (network_stop_updating p)"
    "net_ok (page_onClick i p)" for x i
    using assms by (simp_all add: net_ok_def page_onClick_def node_update_def)
  then show ?thesis
    using assms drag right_click_ok [OF assms, of offset]
    by (cases "(offset, pos, c, p)" rule: page_call.cases) (auto simp: page_onDragEnd_def)
qed

lemma net_step_ok:
  assumes "net_ok (snd s)"
  shows "net_ok (snd (net_step offset labelType ev s))"
proof -
  obtain st p where sp: "s = (st, p)" by force
  have p: "net_ok p" using assms by (simp add: sp)
  show ?thesis
  proof (cases ev)
    case (Received data)
    then show ?thesis using network_receive_ok [OF p] by (simp add: sp)
  next
    case (Mouse e)
    show ?thesis using run_steps_keeps [of net_ok, OF page_call_ok assms] by (simp add: Mouse run_event_def)
  next
    case Animated
    show ?thesis using net_okD [OF p] by (intro net_okI) (auto simp: sp Animated rgraph_onComplete_def)
  next
    case Tick
    show ?thesis using net_okD [OF p] by (intro net_okI) (auto simp: sp Tick network_update_def split: if_splits)
  qed
qed

section \<open>Drags whose release is not seen\<close>

lemma run_timers: "timers_ok (fold (net_step offset labelType) evs (net_start c))"
proof -
  have "timers_ok s \<Longrightarrow> timers_ok (fold (net_step offset labelType) evs s)" for s
    by (induction evs arbitrary: s) (simp_all add: net_step_timers)
  moreover have "timers_ok (net_start c)"
    by (simp add: net_start_def timers_ok_def network_init_def network_update_def network_start_updating_def events_initializePost_def)
  ultimately show ?thesis .
qed

definition drag_lost :: "events \<times> netview \<Rightarrow> bool" where
  "drag_lost = (\<lambda>(st, p). e_moved st \<and> e_pressed st = None \<and> nv_active p = [])"

fun presses_node :: "net_event \<Rightarrow> bool" where
  "presses_node (Mouse (MDown m)) \<longleftrightarrow> ms_node m \<noteq> None"
| "presses_node _ \<longleftrightarrow> False"

definition topology_requests :: "netview \<Rightarrow> nat" where
  "topology_requests p = length (filter (\<lambda>u. u = ''/topology'') (nv_requests p))"

lemma lose_drag:
  assumes "timers_ok s" "ms_node m\<^sub>1 = Some i" "ms_node m\<^sub>3 = None"
  shows "drag_lost (fold (net_step offset labelType) [Mouse (MDown m\<^sub>1), Mouse (MMove still m\<^sub>2), Mouse (MDown m\<^sub>3)] s)"
proof -
  obtain st p where s: "s = (st, p)" by force
  have "nv_active (network_stop_updating (p\<lparr>nv_held := nv_gen p\<rparr>)) = []"
    using assms(1) by (intro stop_active) (simp add: s timers_ok_def)
  then show ?thesis
    using assms(2,3) by (simp add: s drag_lost_def run_event_def events_onMouseDown_def events_onMouseMove_def under_mouse_def
        page_events_config_def page_onDragMove_def Let_def)
qed

lemma receive_requests: "topology_requests (fst (network_receive offset labelType data p)) = topology_requests p"
proof -
  have node: "topology_requests (node_update q) = topology_requests q" for q
    by (simp add: topology_requests_def node_update_def)
  show ?thesis
    by (auto simp: network_receive_def first_load_def later_load_def node Let_def case_prod_unfold split: option.splits)
      (simp_all add: topology_requests_def)
qed

lemma drag_stays_lost_step:
  assumes "drag_lost s" "\<not> presses_node ev"
  shows "drag_lost (net_step offset labelType ev s) \<and> topology_requests (snd (net_step offset labelType ev s)) = topology_requests (snd s)"
proof -
  obtain st p where s: "s = (st, p)" "e_moved st" "e_pressed st = None" "nv_active p = []"
    using assms(1) by (cases s) (simp add: drag_lost_def)
  show ?thesis
  proof (cases ev)
    case (Mouse e)
    then show ?thesis
      using s assms(2) by (cases e) (auto simp: drag_lost_def run_event_def events_onMouseUp_def events_onMouseDown_def
          events_onMouseMove_def events_onMouseOver_def events_onMouseOut_def events_onMouseWheel_def events_onTouchStart_def
          events_onTouchMove_def events_onTouchEnd_def under_mouse_def label_hit_def page_events_config_def topology_requests_def
          split: option.splits)
  next
    case (Received d)
    then show ?thesis using s by (simp add: drag_lost_def receive_requests)
  qed (use s in \<open>simp_all add: drag_lost_def topology_requests_def\<close>)
qed

lemma drag_stays_lost:
  assumes "drag_lost s" "list_all (\<lambda>ev. \<not> presses_node ev) evs"
  shows "drag_lost (fold (net_step offset labelType) evs s)
    \<and> topology_requests (snd (fold (net_step offset labelType) evs s)) = topology_requests (snd s)"
  using assms
proof (induction evs arbitrary: s)
  case (Cons ev evs)
  then show ?case using drag_stays_lost_step [of s ev offset labelType] Cons.IH [of "net_step offset labelType ev s"] by simp
qed simp

section \<open>Properties\<close>

text \<open>
  C12: whatever is received from the server and whatever the mouse does, the radial graph of the
  page is a well-formed graph of nodes with polar positions, none of them ignored, and all
  saved positions are polar: no handler ever meets a graph the layout is not made for.
\<close>

theorem network_graph_sound:
  "net_ok (snd (fold (net_step offset labelType) evs (net_start c)))"
proof -
  have "net_ok (snd s) \<Longrightarrow> net_ok (snd (fold (net_step offset labelType) evs s))" for s
    by (induction evs arbitrary: s) (simp_all add: net_step_ok)
  moreover have "net_ok (snd (net_start c))"
    by (simp add: net_start_def net_ok_def network_init_def network_update_def)
  ultimately show ?thesis by blast
qed

text \<open>
  C6: whatever is received and whatever the mouse does, at most one update timer is active, it is
  the one the script would stop, and none is active while a node is being dragged.
\<close>

theorem network_single_timer:
  assumes "(st, p) = fold (net_step offset labelType) evs (net_start c)"
  shows "(nv_active p = [] \<or> (\<exists>i. nv_active p = [i] \<and> nv_interval p = Some i)) \<and> (e_moved st \<longrightarrow> nv_active p = [])"
proof -
  have "timers_ok (st, p)" unfolding assms by (rule run_timers)
  then show ?thesis by (simp add: timers_ok_def)
qed

text \<open>
  C2: when a topology with at least one node is received after the first one, the update
  succeeds, the graph has exactly the nodes of the topology and the nodes it refers to, every
  node that was there before keeps its position, and the first node of the answer becomes the
  root.
\<close>

theorem network_update_keeps_positions:
  assumes "net_ok p" and "nv_rgraph p = Some r" and "d \<noteq> []"
  shows "\<exists>p' r'. network_receive offset labelType (Some d) p = (p', True) \<and> nv_rgraph p' = Some r'
    \<and> (\<forall>x. hasNode (rd_graph r') x \<longleftrightarrow> x \<in> json_nodes (map prepare_node d))
    \<and> (\<forall>i n m. getNode (rd_graph r) i = Some n \<longrightarrow> getNode (rd_graph r') i = Some m \<longrightarrow> n_pos m = n_pos n)
    \<and> rd_root r' = str_of (prop_of (hd d) ''id'')"
proof -
  obtain nodes center where n: "prepare_topology 0 d 0 = (nodes, center)" by force
  have nodes: "nodes = map prepare_node d" using fst_prepare_topology [of 0 d 0] n by simp
  then have "nodes \<noteq> []" "prop_of (hd nodes) ''id'' = prop_of (hd d) ''id''"
    using assms(3) by (simp_all add: hd_map)
  then show ?thesis
    using later_load_spec [OF assms(1,2), of nodes offset labelType] assms(2) n nodes
    by (auto simp: network_receive_def)
qed

abbreviation some_page :: netview where
  "some_page \<equiv> snd (net_step (\<lambda>w h t. (0, 0)) ''Native'' (Received (Some [[(''id'', JStr ''s'')]])) (net_start (canvas_initialize 100 100 False)))"

lemma some_page_node: "\<exists>r. nv_rgraph some_page = Some r \<and> hasNode (rd_graph r) ''s''"
proof -
  let ?o = "\<lambda>w h t. (0, 0) :: real \<times> real" and ?d = "[[(''id'', JStr ''s'')]]"
  obtain nodes center where n: "prepare_topology 0 ?d 0 = (nodes, center)" by force
  have nodes: "nodes = map prepare_node ?d" using fst_prepare_topology [of 0 ?d 0] n by simp
  obtain r1 ok where l: "loadJSON ''Native'' nodes center (build ''Native'') = (r1, ok)" by force
  note load = loadJSON_spec [OF l]
  have "''s'' \<in> json_nodes nodes"
    by (simp add: nodes json_nodes_def prepare_node_def spec_of_def prop_of_def str_of_def update_conv' Let_def)
  then have has: "hasNode (rd_graph r1) ''s''" using load(2) by simp
  moreover have "hasNode (rd_graph s) ''s''" if "ok" "radial_compute ?o None r1 = Some s" for s
    using sound_compute [OF load(1) _ all_types, of ?o] load(4) that has by auto
  moreover have "nv_rgraph (snd (net_start (canvas_initialize 100 100 False))) = None"
    by (simp add: net_start_def network_init_def network_update_def network_start_updating_def)
  ultimately show ?thesis
    using n l by (auto simp: net_start_def network_receive_def first_load_def Let_def network_init_def network_update_def
        network_start_updating_def split: option.splits)
qed

theorem network_single_timer_witness:
  "\<exists>st p. (st, p) = fold (net_step (\<lambda>w h t. (0, 0)) ''Native'') [Tick] (net_start (canvas_initialize 100 100 False))
     \<and> nv_active p = [0]"
proof -
  obtain st p where sp: "(st, p) = fold (net_step (\<lambda>w h t. (0, 0)) ''Native'') [Tick] (net_start (canvas_initialize 100 100 False))"
    by (metis surj_pair)
  from network_single_timer [OF sp]
  have "nv_active p = [] \<or> (\<exists>i. nv_active p = [i] \<and> nv_interval p = Some i)" by blast
  moreover have "nv_active p = [0]"
    using sp by (simp add: net_start_def network_init_def network_update_def network_start_updating_def)
  ultimately show ?thesis using sp by blast
qed

theorem network_update_keeps_positions_witness:
  "\<exists>p'. network_receive (\<lambda>w h t. (0, 0)) ''Native'' (Some [[(''id'', JStr ''s'')], [(''id'', JStr ''t'')]]) some_page = (p', True)"
proof -
  let ?o = "\<lambda>w h t. (0, 0)" and ?s = "net_start (canvas_initialize 100 100 False)"
  have "net_ok (snd ?s)" by (simp add: net_start_def net_ok_def network_init_def network_update_def)
  then have ok: "net_ok some_page" by (rule net_step_ok)
  have "nv_rgraph (snd ?s) = None" by (simp add: net_start_def network_init_def network_update_def)
  then have "\<exists>r. nv_rgraph some_page = Some r"
    by (simp add: net_start_def network_receive_def first_load_def Let_def split: prod.split option.split)
  then obtain r where "nv_rgraph some_page = Some r" by blast
  from network_update_keeps_positions [OF ok this, of "[[(''id'', JStr ''s'')], [(''id'', JStr ''t'')]]" ?o "''Native''"]
  show ?thesis by blast
qed

text \<open>
  C39: when a node is pressed and dragged, the release is not seen by the page, and the next press is
  beside every node, the page stops updating: whatever happens then except the press of a node,
  releases, moves, further presses beside the nodes, right clicks, answers of the server and ticks
  included, no timer runs and no topology is asked for. The press did not reset the mark of a moved
  drag, so that a release is taken neither for a click nor for the end of the drag.
\<close>

theorem lost_drag_stops_updates:
  assumes "s = fold (net_step offset labelType) evs (net_start c)"
    and "ms_node m\<^sub>1 = Some i" and "ms_node m\<^sub>3 = None" and "list_all (\<lambda>ev. \<not> presses_node ev) later"
    and "t = fold (net_step offset labelType) [Mouse (MDown m\<^sub>1), Mouse (MMove still m\<^sub>2), Mouse (MDown m\<^sub>3)] s"
  shows "nv_active (snd (fold (net_step offset labelType) later t)) = []
    \<and> topology_requests (snd (fold (net_step offset labelType) later t)) = topology_requests (snd t)"
proof -
  have "timers_ok s" unfolding assms(1) by (rule run_timers)
  then have "drag_lost t" unfolding assms(5) by (rule lose_drag [OF _ assms(2,3)])
  from drag_stays_lost [OF this assms(4), of offset labelType] show ?thesis by (auto simp: drag_lost_def case_prod_unfold)
qed

text \<open>A drag of the only node of the page, released outside, and a right click after the next press.\<close>

theorem lost_drag_stops_updates_witness:
  "\<exists>r m\<^sub>1 m\<^sub>2 m\<^sub>3. nv_rgraph some_page = Some r \<and> hasNode (rd_graph r) ''s'' \<and> ms_node m\<^sub>1 = Some ''s'' \<and> ms_node m\<^sub>3 = None
     \<and> nv_active (snd (fold (net_step (\<lambda>w h t. (0, 0)) ''Native'')
        [Received (Some [[(''id'', JStr ''s'')]]), Mouse (MDown m\<^sub>1), Mouse (MMove (\<lambda>t. True) m\<^sub>2), Mouse (MDown m\<^sub>3),
         Mouse (MUp (m\<^sub>3\<lparr>ms_right := True\<rparr>)), Tick] (net_start (canvas_initialize 100 100 False)))) = []"
proof -
  let ?o = "\<lambda>w h t. (0, 0) :: real \<times> real" and ?d = "[[(''id'', JStr ''s'')]]" and ?s = "net_start (canvas_initialize 100 100 False)"
  let ?m = "\<lambda>i x. \<lparr>ms_node = i, ms_edge = None, ms_label = None, ms_pos = mkC x 0, ms_page = (0, 0), ms_related = [], ms_right = False\<rparr>"
  let ?m1 = "?m (Some ''s'') 0" and ?m2 = "?m (Some ''s'') 1" and ?m3 = "?m None 9"
  obtain r where r: "nv_rgraph some_page = Some r" "hasNode (rd_graph r) ''s''" using some_page_node by blast
  have "list_all (\<lambda>ev. \<not> presses_node ev) [Mouse (MUp (?m3\<lparr>ms_right := True\<rparr>)), Tick]" by simp
  from lost_drag_stops_updates [of _ ?o "''Native''" "[Received (Some ?d)]" "canvas_initialize 100 100 False" ?m1 "''s''" ?m3 _ _ "\<lambda>t. True" ?m2,
      OF refl _ _ this refl]
  have "nv_active (snd (fold (net_step ?o ''Native'') [Received (Some ?d), Mouse (MDown ?m1), Mouse (MMove (\<lambda>t. True) ?m2), Mouse (MDown ?m3),
      Mouse (MUp (?m3\<lparr>ms_right := True\<rparr>)), Tick] ?s)) = []" by simp
  then show ?thesis using r by (intro exI [of _ r] exI [of _ ?m1] exI [of _ ?m2] exI [of _ ?m3]) simp
qed

end
