(* ===== verification/PY_Prelude.thy ===== *)
theory PY_Prelude
  imports JS_Prelude "HOL-Library.Monad_Syntax"
begin

text \<open>
  The parts of the Python standard library that the server uses: conversion between integers
  and text, stripping, and the hexadecimal form of byte strings. A byte string is a list of
  characters, as a Python 2 \<^verbatim>\<open>str\<close> is; an exception is \<open>None\<close>. The lemmas are the round trips of
  these conversions.
\<close>

named_theorems py_simps \<open>evaluation of the Python standard library\<close>

section \<open>Text and integers\<close>

definition py_is_space :: "char \<Rightarrow> bool" where
  "py_is_space c \<longleftrightarrow> c \<in> set [CHR '' '', CHR 0x09, CHR 0x0A, CHR 0x0B, CHR 0x0C, CHR 0x0D]"

definition py_lstrip :: "(char \<Rightarrow> bool) \<Rightarrow> string \<Rightarrow> string" where
  "py_lstrip p s = dropWhile p s"

definition py_rstrip :: "(char \<Rightarrow> bool) \<Rightarrow> string \<Rightarrow> string" where
  "py_rstrip p s = rev (dropWhile p (rev s))"

definition py_strip :: "(char \<Rightarrow> bool) \<Rightarrow> string \<Rightarrow> string" where
  "py_strip p s = py_rstrip p (py_lstrip p s)"

definition valid_digit :: "nat \<Rightarrow> char \<Rightarrow> bool" where
  "valid_digit b c \<longleftrightarrow> (case digit_value c of None \<Rightarrow> False | Some d \<Rightarrow> d < b)"

text \<open>
  \<^verbatim>\<open>int(s, base)\<close>: blanks around the text, a sign that blanks may follow, the prefix \<^verbatim>\<open>0x\<close> in
  base 16, and then digits only.
\<close>

definition py_nat :: "nat \<Rightarrow> string \<Rightarrow> nat option" where
  "py_nat b s =
     (let t = (if b = 16 \<and> (starts_with ''0x'' s \<or> starts_with ''0X'' s) then drop 2 s else s)
      in if t \<noteq> [] \<and> list_all (valid_digit b) t then Some (parse_digits b 0 t) else None)"

definition py_int :: "nat \<Rightarrow> string \<Rightarrow> int option" where
  "py_int b s =
     (case py_strip py_is_space s of
        [] \<Rightarrow> None
      | c # cs \<Rightarrow>
          if c = CHR ''-'' then map_option (\<lambda>n. - int n) (py_nat b (py_lstrip py_is_space cs))
          else if c = CHR ''+'' then map_option int (py_nat b (py_lstrip py_is_space cs))
          else map_option int (py_nat b (c # cs)))"

text \<open>\<^verbatim>\<open>hex(n)\<close>; a number beyond the machine word is printed with the suffix of long integers.\<close>

definition py_hex :: "int \<Rightarrow> string" where
  "py_hex n = (if n < 0 then ''-0x'' else ''0x'') @ digits_base 16 (nat \<bar>n\<bar>)
     @ (if - (2 ^ 63) \<le> n \<and> n < 2 ^ 63 then [] else ''L'')"

section \<open>Byte strings\<close>

fun a2b_hex :: "string \<Rightarrow> string option" where
  "a2b_hex [] = Some []"
| "a2b_hex [c] = None"
| "a2b_hex (c # d # s) =
     (if valid_digit 16 c \<and> valid_digit 16 d
      then map_option ((#) (char_of (parse_digits 16 0 [c, d]))) (a2b_hex s) else None)"

definition hex_pair :: "char \<Rightarrow> string" where
  "hex_pair c = [digit_char (of_char c div 16), digit_char (of_char c mod 16)]"

definition b2a_hex :: "string \<Rightarrow> string" where
  "b2a_hex s = concat (map hex_pair s)"

section \<open>Lemmas\<close>

lemma digit_value_low: "d < 16 \<Longrightarrow> digit_value (digit_char d) = Some d"
proof -
  have "\<forall>d \<in> set [0..<16]. digit_value (digit_char d) = Some d" by code_simp
  then show "d < 16 \<Longrightarrow> digit_value (digit_char d) = Some d" by auto
qed

lemma digit_value_nought [py_simps]: "digit_value (CHR ''0'') = Some 0"
  by (simp add: digit_value_def)

lemma valid_digit_char: "d < b \<Longrightarrow> b \<le> 16 \<Longrightarrow> valid_digit b (digit_char d)"
  by (simp add: valid_digit_def digit_value_low)

lemma valid_digit_zero [simp]: "0 < b \<Longrightarrow> valid_digit b (CHR ''0'')"
  by (simp add: valid_digit_def digit_value_def)

lemma digits_valid:
  assumes "2 \<le> b" "b \<le> 16"
  shows "list_all (valid_digit b) (digits_base b n)"
proof (induction n rule: less_induct)
  case (less n)
  show ?case
  proof (cases "n < b")
    case True
    then show ?thesis using assms by (subst digits_base.simps) (simp add: valid_digit_char)
  next
    case False
    then have "n div b < n" using assms by simp
    from less [OF this] show ?thesis
      using False assms by (subst digits_base.simps) (simp add: valid_digit_char)
  qed
qed

lemma parse_valid_append:
  "list_all (valid_digit b) s \<Longrightarrow> parse_digits b acc (s @ t) = parse_digits b (parse_digits b acc s) t"
  by (induction s arbitrary: acc) (auto simp: valid_digit_def split: option.splits)

lemma parse_digits_base:
  assumes "2 \<le> b" "b \<le> 16"
  shows "parse_digits b 0 (digits_base b n) = n"
proof (induction n rule: less_induct)
  case (less n)
  show ?case
  proof (cases "n < b")
    case True
    then show ?thesis using assms by (subst digits_base.simps) (simp add: digit_value_low)
  next
    case False
    then have *: "n div b < n" using assms by simp
    have "n mod b < 16" using assms by (meson less_le_trans mod_less_divisor order_less_le_trans pos2)
    then show ?thesis
      using less [OF *] False assms digits_valid [OF assms, of "n div b"]
      by (subst digits_base.simps) (simp add: parse_valid_append digit_value_low)
  qed
qed

lemma parse_zeros [simp]: "2 \<le> b \<Longrightarrow> parse_digits b 0 (replicate k (CHR ''0'') @ s) = parse_digits b 0 s"
  by (induction k) (auto simp: digit_value_def)

lemma not_sign: "valid_digit b c \<Longrightarrow> \<not> py_is_space c \<and> c \<noteq> CHR ''-'' \<and> c \<noteq> CHR ''+''"
  by (auto simp: valid_digit_def digit_value_def py_is_space_def)

lemma dropWhile_first: "s \<noteq> [] \<Longrightarrow> \<not> p (hd s) \<Longrightarrow> dropWhile p s = s"
  by (cases s) auto

lemma strip_plain:
  assumes "s \<noteq> []" "\<not> p (hd s)" "\<not> p (last s)"
  shows "py_strip p s = s"
  using assms by (simp add: py_strip_def py_lstrip_def py_rstrip_def dropWhile_first hd_rev)

lemma py_nat_valid:
  assumes "s \<noteq> []" "list_all (valid_digit b) s"
  shows "py_nat b s = Some (parse_digits b 0 s)"
proof -
  have "\<not> valid_digit 16 (CHR ''x'') \<and> \<not> valid_digit 16 (CHR ''X'')" by code_simp
  then have "\<not> (b = 16 \<and> (starts_with ''0x'' s \<or> starts_with ''0X'' s))"
    using assms(2) by (auto simp: starts_with_iff)
  then have "py_nat b s = (if s \<noteq> [] \<and> list_all (valid_digit b) s then Some (parse_digits b 0 s) else None)"
    unfolding py_nat_def Let_def by (simp only: if_False)
  then show ?thesis using assms by simp
qed

lemma py_int_valid:
  assumes "s \<noteq> []" "list_all (valid_digit b) s"
  shows "py_int b s = Some (int (parse_digits b 0 s))"
proof -
  have hl: "valid_digit b (hd s)" "valid_digit b (last s)" using assms by (simp_all add: list_all_iff)
  have "py_strip py_is_space s = s" using strip_plain [OF assms(1)] not_sign [OF hl(1)] not_sign [OF hl(2)] by simp
  moreover obtain c cs where s: "s = c # cs" using assms(1) by (cases s) auto
  moreover have "c \<noteq> CHR ''-'' \<and> c \<noteq> CHR ''+''" using not_sign [OF hl(1)] s by simp
  ultimately show ?thesis using py_nat_valid [OF assms] by (simp add: py_int_def)
qed

lemma digits_length:
  assumes "2 \<le> b" "n < b ^ k" "0 < k"
  shows "length (digits_base b n) \<le> k"
  using assms(2,3)
proof (induction k arbitrary: n)
  case (Suc k)
  show ?case
  proof (cases "n < b")
    case True
    then show ?thesis by (subst digits_base.simps) simp
  next
    case False
    then have "n div b < b ^ k" using Suc.prems(1) by (simp add: less_mult_imp_div_less mult.commute)
    moreover have "0 < k" using False Suc.prems(1) by (cases k) simp_all
    ultimately have "length (digits_base b (n div b)) \<le> k" using Suc.IH by blast
    then show ?thesis using False assms(1) by (subst digits_base.simps) simp
  qed
qed simp

lemma digits_longer:
  assumes "2 \<le> b" "b ^ k \<le> n"
  shows "k < length (digits_base b n)"
  using assms(2)
proof (induction k arbitrary: n)
  case (Suc k)
  then have n: "b * b ^ k \<le> n" by simp
  have "b * 1 \<le> b * b ^ k" using assms(1) by (intro mult_le_mono) simp_all
  then have "\<not> n < b" using n by linarith
  moreover have "b ^ k \<le> n div b" using n assms(1) by (simp add: less_eq_div_iff_mult_less_eq mult.commute)
  ultimately show ?case using Suc.IH [of "n div b"] assms(1) by (subst digits_base.simps) simp
qed simp

lemma digits_split:
  assumes "2 \<le> b" "b ^ k \<le> n"
  shows "\<exists>r. length r = k \<and> digits_base b n = digits_base b (n div b ^ k) @ r"
  using assms(2)
proof (induction k arbitrary: n)
  case (Suc k)
  have "1 \<le> b ^ k" using assms(1) by simp
  then have "b \<le> n" using Suc.prems order_trans [of b "b * b ^ k" n] by simp
  then have d: "digits_base b n = digits_base b (n div b) @ [digit_char (n mod b)]"
    using assms(1) by (subst digits_base.simps) simp
  have "b ^ k \<le> n div b" using Suc.prems assms(1) by (simp add: less_eq_div_iff_mult_less_eq mult.commute)
  from Suc.IH [OF this] obtain r where "length r = k" "digits_base b (n div b) = digits_base b (n div b div b ^ k) @ r" by blast
  then show ?case using d by (intro exI [of _ "r @ [digit_char (n mod b)]"]) (simp add: div_mult2_eq)
qed simp

lemma digits_inject: "2 \<le> b \<Longrightarrow> b \<le> 16 \<Longrightarrow> digits_base b m = digits_base b n \<Longrightarrow> m = n"
  using parse_digits_base by metis

text \<open>The first digits of a number in base 16.\<close>

lemma first_digits:
  assumes "16 ^ 7 \<le> p" "p < 16 ^ 8"
  shows "take 8 (digits_base 16 n) = digits_base 16 p \<longleftrightarrow> (\<exists>k. n div 16 ^ k = p)"
proof -
  have lp: "length (digits_base 16 p) = 8"
    using digits_length [of 16 p 8] digits_longer [of 16 7 p] assms by simp
  let ?l = "length (digits_base 16 n)"
  show ?thesis
  proof
    assume t: "take 8 (digits_base 16 n) = digits_base 16 p"
    then have l: "8 \<le> ?l" using lp by (metis length_take min.cobounded1)
    let ?k = "?l - 8"
    have "16 ^ ?k \<le> n"
    proof (rule ccontr)
      assume a: "\<not> 16 ^ ?k \<le> n"
      then have "n < 16 ^ (Suc ?k)" by simp
      then show False using digits_length [of 16 n "Suc ?k"] l by simp
    qed
    then obtain r where r: "length r = ?k" "digits_base 16 n = digits_base 16 (n div 16 ^ ?k) @ r"
      using digits_split [of 16 ?k n] by auto
    then have "length (digits_base 16 (n div 16 ^ ?k)) = 8" using l by (metis add_diff_cancel_right' diff_diff_cancel length_append)
    then have "digits_base 16 (n div 16 ^ ?k) = digits_base 16 p" using t r(2) by (metis append_eq_conv_conj)
    then show "\<exists>k. n div 16 ^ k = p" using digits_inject [of 16] by auto
  next
    assume "\<exists>k. n div 16 ^ k = p"
    then obtain k where k: "n div 16 ^ k = p" by blast
    have "16 ^ k \<le> n"
    proof (rule ccontr)
      assume "\<not> 16 ^ k \<le> n"
      then show False using k assms(1) by simp
    qed
    then obtain r where "digits_base 16 n = digits_base 16 p @ r" using digits_split [of 16 k n] k by auto
    then show "take 8 (digits_base 16 n) = digits_base 16 p" using lp by simp
  qed
qed

lemma py_int_str [py_simps, simp]: "py_int 10 (int_to_string i) = Some i"
proof (cases "i < 0")
  case True
  let ?d = "digits_base 10 (nat (- i))"
  have v: "\<forall>c \<in> set ?d. valid_digit 10 c" using digits_valid [of 10] by (auto simp: list_all_iff)
  have ne: "?d \<noteq> []" by simp
  have nh: "\<not> py_is_space (hd ?d)" "\<not> py_is_space (last ?d)" using v ne not_sign by (meson hd_in_set last_in_set)+
  have "py_strip py_is_space (CHR ''-'' # ?d) = CHR ''-'' # ?d"
    using nh(2) ne by (intro strip_plain) (simp_all add: py_is_space_def)
  moreover have "py_lstrip py_is_space ?d = ?d" using nh(1) ne by (simp add: py_lstrip_def dropWhile_first)
  moreover have "py_nat 10 ?d = Some (nat (- i))" using py_nat_valid [OF ne, of 10] digits_valid [of 10 "nat (- i)"] by (simp add: parse_digits_base)
  ultimately show ?thesis using True by (simp add: int_to_string_def py_int_def)
next
  case False
  then show ?thesis using py_int_valid [of "digits_base 10 (nat i)" 10] digits_valid [of 10 "nat i"] by (simp add: int_to_string_def parse_digits_base)
qed

lemma hex_pair_facts: "valid_digit 16 (digit_char (of_char c div 16)) \<and> valid_digit 16 (digit_char (of_char c mod 16))
   \<and> char_of (parse_digits 16 0 (hex_pair c)) = c"
proof -
  have "of_char c < (256 :: nat)" by simp
  then have "of_char c div 16 < (16 :: nat)" by (simp add: less_mult_imp_div_less)
  moreover have "of_char c mod 16 < (16 :: nat)" by simp
  ultimately show ?thesis
    by (simp add: valid_digit_char hex_pair_def digit_value_low)
qed

lemma a2b_b2a [py_simps, simp]: "a2b_hex (b2a_hex s) = Some s"
  using hex_pair_facts by (induction s) (simp_all add: b2a_hex_def hex_pair_def)

lemma length_b2a [simp]: "length (b2a_hex s) = 2 * length s"
  by (induction s) (simp_all add: b2a_hex_def hex_pair_def)

lemma b2a_valid: "list_all (valid_digit 16) (b2a_hex s)"
  using hex_pair_facts by (induction s) (simp_all add: b2a_hex_def hex_pair_def)

lemma b2a_append [simp]: "b2a_hex (s @ t) = b2a_hex s @ b2a_hex t"
  by (simp add: b2a_hex_def)

lemma a2b_Some:
  "even (length s) \<Longrightarrow> list_all (valid_digit 16) s \<Longrightarrow> \<exists>b. a2b_hex s = Some b \<and> length b = length s div 2"
proof (induction s rule: a2b_hex.induct)
  case (3 c d s)
  then obtain b where "a2b_hex s = Some b" "length b = length s div 2" by auto
  then show ?case using 3 by simp
qed simp_all

text \<open>The digits of a byte string read back are those it was made of, up to the case of letters.\<close>

lemma parse_a2b:
  "a2b_hex s = Some b \<Longrightarrow> parse_digits 16 acc (b2a_hex b) = parse_digits 16 acc s"
proof (induction s arbitrary: b acc rule: a2b_hex.induct)
  case (3 c d s)
  then obtain r where r: "a2b_hex s = Some r" "b = char_of (parse_digits 16 0 [c, d]) # r"
    and v: "valid_digit 16 c" "valid_digit 16 d" by (auto split: if_splits)
  from v obtain x y where xy: "digit_value c = Some x" "x < 16" "digit_value d = Some y" "y < 16"
    by (auto simp: valid_digit_def split: option.splits)
  then have "x * 16 + y < 256" by simp
  then have oc: "of_char (char_of (x * 16 + y) :: char) = x * 16 + y" by simp
  have "parse_digits 16 acc (b2a_hex b) = parse_digits 16 ((acc * 16 + x) * 16 + y) (b2a_hex r)"
    using xy oc by (simp add: r b2a_hex_def hex_pair_def digit_value_low)
  also have "\<dots> = parse_digits 16 ((acc * 16 + x) * 16 + y) s"
    using "3.IH" v r(1) by blast
  finally show ?case using xy by simp
qed (auto simp: b2a_hex_def)

end
