(* ===== verification/RF_Types.thy ===== *)
theory RF_Types
  imports PY_Prelude
begin

text \<open>
  The values of route modification messages (\<^verbatim>\<open>rflib/types/TLV.py\<close>, \<^verbatim>\<open>Match.py\<close>, \<^verbatim>\<open>Action.py\<close>,
  \<^verbatim>\<open>Option.py\<close>) and the constants of \<^verbatim>\<open>rflib/defs.py\<close>: type-length-value objects with a numeric
  type and a value packed in network byte order. A constructor that raises is \<open>None\<close>. The
  lemmas show that packed integers and addresses have the width asked for and unpack to what
  was packed.
\<close>

section \<open>Constants\<close>

definition RFVS_DP_PREFIX :: int where "RFVS_DP_PREFIX = 0x72667673"

text \<open>\<^verbatim>\<open>not ((dp_id >> 32) ^ RFVS_PREFIX)\<close>\<close>

definition is_rfvs_dp :: "int \<Rightarrow> bool" where
  "is_rfvs_dp dp_id \<longleftrightarrow> dp_id div 2 ^ 32 = RFVS_DP_PREFIX"

text \<open>The text of an identifier, as the web server sends it to the pages.\<close>

definition format_id :: "int \<Rightarrow> string" where
  "format_id dp_id = py_rstrip ((=) (CHR ''L'')) (py_hex dp_id)"

abbreviation RMT_ADD :: int where "RMT_ADD \<equiv> 0"
abbreviation RMT_DELETE :: int where "RMT_DELETE \<equiv> 1"
abbreviation RMT_CONTROLLER :: int where "RMT_CONTROLLER \<equiv> 2"
abbreviation RMT_ADD_GROUP :: int where "RMT_ADD_GROUP \<equiv> 3"
abbreviation RMT_DELETE_GROUP :: int where "RMT_DELETE_GROUP \<equiv> 4"
abbreviation PCT_RESET :: int where "PCT_RESET \<equiv> 1"
abbreviation PCT_MAP_SUCCESS :: int where "PCT_MAP_SUCCESS \<equiv> 2"
abbreviation PCT_ROUTEMOD_ACK :: int where "PCT_ROUTEMOD_ACK \<equiv> 3"
abbreviation ETHERTYPE_IP :: int where "ETHERTYPE_IP \<equiv> 0x0800"
abbreviation ETHERTYPE_ARP :: int where "ETHERTYPE_ARP \<equiv> 0x0806"
abbreviation ETHERTYPE_IPV6 :: int where "ETHERTYPE_IPV6 \<equiv> 0x86DD"
abbreviation OFPP_CONTROLLER :: int where "OFPP_CONTROLLER \<equiv> 0xFFFFFFFD"
abbreviation PRIORITY_BAND :: int where "PRIORITY_BAND \<equiv> 0xA"
abbreviation PRIORITY_LOWEST :: int where "PRIORITY_LOWEST \<equiv> 0x0000"
abbreviation PRIORITY_HIGH :: int where "PRIORITY_HIGH \<equiv> 0x8020"
abbreviation CONTROLLER_GROUP :: int where "CONTROLLER_GROUP \<equiv> 1"

section \<open>Packing\<close>

record tlv =
  t_type :: int
  t_value :: string

definition hex_int_extend :: "string \<Rightarrow> nat \<Rightarrow> string" where
  "hex_int_extend num len = replicate (len div 4 - length num) (CHR ''0'') @ num"

definition int_to_bin :: "int \<Rightarrow> nat \<Rightarrow> string option" where
  "int_to_bin num len =
     (let hexnum = py_rstrip ((=) (CHR ''L'')) (drop 2 (py_hex num));
          hexnum = (if even (length hexnum) then hexnum else CHR ''0'' # hexnum)
      in a2b_hex (hex_int_extend hexnum len))"

definition bin_to_int :: "string \<Rightarrow> int option" where
  "bin_to_int v = py_int 16 (b2a_hex v)"

definition ether_to_bin :: "string \<Rightarrow> string option" where
  "ether_to_bin ethaddr = a2b_hex (filter (\<lambda>c. c \<noteq> CHR '':'') ethaddr)"

text \<open>The format \<^verbatim>\<open>%2s\<close> pads with blanks on the left.\<close>

definition pad2 :: "string \<Rightarrow> string" where
  "pad2 s = replicate (2 - length s) (CHR '' '') @ s"

definition bin_to_ether :: "string \<Rightarrow> string" where
  "bin_to_ether v =
     (let h = b2a_hex v
      in join '':'' (map pad2 [take 2 h, take 2 (drop 2 h), take 2 (drop 4 h), take 2 (drop 6 h),
                               take 2 (drop 8 h), drop 10 h]))"

text \<open>The values given to the constructors.\<close>

datatype pyval = PyNone | PyInt int | PyStr string | PyPair string string

text \<open>An attribute that is not set is \<^verbatim>\<open>None\<close> in the program.\<close>

definition py_num :: "int option \<Rightarrow> pyval" where
  "py_num n = (case n of None \<Rightarrow> PyNone | Some i \<Rightarrow> PyInt i)"

definition py_text :: "string option \<Rightarrow> pyval" where
  "py_text s = (case s of None \<Rightarrow> PyNone | Some t \<Rightarrow> PyStr t)"

definition int_bin :: "pyval \<Rightarrow> nat \<Rightarrow> string option" where
  "int_bin v len = (case v of PyInt i \<Rightarrow> int_to_bin i len | _ \<Rightarrow> None)"

definition ether_bin :: "pyval \<Rightarrow> string option" where
  "ether_bin v = (case v of PyStr s \<Rightarrow> ether_to_bin s | _ \<Rightarrow> None)"

definition pair_bin :: "(string \<Rightarrow> string option) \<Rightarrow> pyval \<Rightarrow> string option" where
  "pair_bin pton v =
     (case v of PyPair a m \<Rightarrow> do { x \<leftarrow> pton a; y \<leftarrow> pton m; Some (x @ y) } | _ \<Rightarrow> None)"

section \<open>Matches\<close>

abbreviation RFMT_IPV4 :: int where "RFMT_IPV4 \<equiv> 1"
abbreviation RFMT_IPV6 :: int where "RFMT_IPV6 \<equiv> 2"
abbreviation RFMT_ETHERNET :: int where "RFMT_ETHERNET \<equiv> 3"
abbreviation RFMT_MPLS :: int where "RFMT_MPLS \<equiv> 4"
abbreviation RFMT_ETHERTYPE :: int where "RFMT_ETHERTYPE \<equiv> 5"
abbreviation RFMT_NW_PROTO :: int where "RFMT_NW_PROTO \<equiv> 6"
abbreviation RFMT_TP_SRC :: int where "RFMT_TP_SRC \<equiv> 7"
abbreviation RFMT_TP_DST :: int where "RFMT_TP_DST \<equiv> 8"
abbreviation RFMT_IN_PORT :: int where "RFMT_IN_PORT \<equiv> 9"
abbreviation RFMT_VLAN_ID :: int where "RFMT_VLAN_ID \<equiv> 10"

text \<open>\<open>pton4\<close> and \<open>pton6\<close> stand for \<^verbatim>\<open>inet_pton\<close> of the two address families.\<close>

definition match_type_to_bin ::
  "(string \<Rightarrow> string option) \<Rightarrow> (string \<Rightarrow> string option) \<Rightarrow> int \<Rightarrow> pyval \<Rightarrow> string option" where
  "match_type_to_bin pton4 pton6 ty v =
     (if ty = RFMT_IPV4 then pair_bin pton4 v
      else if ty = RFMT_IPV6 then pair_bin pton6 v
      else if ty = RFMT_ETHERNET then ether_bin v
      else if ty \<in> {RFMT_MPLS, RFMT_IN_PORT} then int_bin v 32
      else if ty \<in> {RFMT_VLAN_ID, RFMT_ETHERTYPE, RFMT_TP_SRC, RFMT_TP_DST} then int_bin v 16
      else if ty = RFMT_NW_PROTO then int_bin v 8
      else None)"

definition Match_init ::
  "(string \<Rightarrow> string option) \<Rightarrow> (string \<Rightarrow> string option) \<Rightarrow> int \<Rightarrow> pyval \<Rightarrow> tlv option" where
  "Match_init pton4 pton6 ty v =
     map_option (\<lambda>b. \<lparr>t_type = ty, t_value = b\<rparr>) (match_type_to_bin pton4 pton6 ty v)"

text \<open>The value of a match; \<open>ntop4\<close> and \<open>ntop6\<close> stand for \<^verbatim>\<open>inet_ntop\<close>.\<close>

definition match_get_value :: "(string \<Rightarrow> string) \<Rightarrow> (string \<Rightarrow> string) \<Rightarrow> tlv \<Rightarrow> pyval option" where
  "match_get_value ntop4 ntop6 m =
     (if t_type m = RFMT_IPV4 then Some (PyPair (ntop4 (take 4 (t_value m))) (ntop4 (drop 4 (t_value m))))
      else if t_type m = RFMT_IPV6
        then Some (PyPair (ntop6 (take 16 (t_value m))) (ntop6 (drop 16 (t_value m))))
      else if t_type m = RFMT_ETHERNET then Some (PyStr (bin_to_ether (t_value m)))
      else if t_type m \<in> {RFMT_MPLS, RFMT_IN_PORT, RFMT_VLAN_ID, RFMT_ETHERTYPE, RFMT_NW_PROTO,
                          RFMT_TP_SRC, RFMT_TP_DST}
        then map_option PyInt (bin_to_int (t_value m))
      else Some PyNone)"

text \<open>The constructors the server uses, which need no address conversion.\<close>

definition Match_ETHERNET :: "string option \<Rightarrow> tlv option" where
  "Match_ETHERNET a = Match_init (\<lambda>_. None) (\<lambda>_. None) RFMT_ETHERNET (py_text a)"

definition Match_IN_PORT :: "int option \<Rightarrow> tlv option" where
  "Match_IN_PORT port = Match_init (\<lambda>_. None) (\<lambda>_. None) RFMT_IN_PORT (py_num port)"

definition Match_VLAN_ID :: "int \<Rightarrow> tlv option" where
  "Match_VLAN_ID tag = Match_init (\<lambda>_. None) (\<lambda>_. None) RFMT_VLAN_ID (PyInt tag)"

definition Match_ETHERTYPE :: "int \<Rightarrow> tlv option" where
  "Match_ETHERTYPE ethertype = Match_init (\<lambda>_. None) (\<lambda>_. None) RFMT_ETHERTYPE (PyInt ethertype)"

section \<open>Actions\<close>

abbreviation RFAT_OUTPUT :: int where "RFAT_OUTPUT \<equiv> 1"
abbreviation RFAT_SET_ETH_SRC :: int where "RFAT_SET_ETH_SRC \<equiv> 2"
abbreviation RFAT_SET_ETH_DST :: int where "RFAT_SET_ETH_DST \<equiv> 3"
abbreviation RFAT_PUSH_MPLS :: int where "RFAT_PUSH_MPLS \<equiv> 4"
abbreviation RFAT_POP_MPLS :: int where "RFAT_POP_MPLS \<equiv> 5"
abbreviation RFAT_SWAP_MPLS :: int where "RFAT_SWAP_MPLS \<equiv> 6"
abbreviation RFAT_SET_VLAN_ID :: int where "RFAT_SET_VLAN_ID \<equiv> 7"
abbreviation RFAT_STRIP_VLAN_DEFERRED :: int where "RFAT_STRIP_VLAN_DEFERRED \<equiv> 8"
abbreviation RFAT_SWAP_VLAN_ID :: int where "RFAT_SWAP_VLAN_ID \<equiv> 9"
abbreviation RFAT_GROUP :: int where "RFAT_GROUP \<equiv> 10"
abbreviation RFAT_GOTO :: int where "RFAT_GOTO \<equiv> 11"
abbreviation RFAT_STRIP_VLAN :: int where "RFAT_STRIP_VLAN \<equiv> 12"
abbreviation RFAT_DROP :: int where "RFAT_DROP \<equiv> 254"
abbreviation RFAT_SFLOW :: int where "RFAT_SFLOW \<equiv> 255"

definition ACTION_BIN :: "int set" where
  "ACTION_BIN = {RFAT_OUTPUT, RFAT_PUSH_MPLS, RFAT_SWAP_MPLS, RFAT_SET_VLAN_ID, RFAT_SWAP_VLAN_ID,
                 RFAT_GROUP, RFAT_GOTO}"

definition action_type_to_bin :: "int \<Rightarrow> pyval \<Rightarrow> string option" where
  "action_type_to_bin ty v =
     (if ty \<in> ACTION_BIN then int_bin v 32
      else if ty \<in> {RFAT_SET_ETH_SRC, RFAT_SET_ETH_DST} then ether_bin v
      else if ty \<in> {RFAT_POP_MPLS, RFAT_DROP, RFAT_SFLOW, RFAT_STRIP_VLAN_DEFERRED, RFAT_STRIP_VLAN}
        then Some []
      else None)"

definition Action_init :: "int \<Rightarrow> pyval \<Rightarrow> tlv option" where
  "Action_init ty v = map_option (\<lambda>b. \<lparr>t_type = ty, t_value = b\<rparr>) (action_type_to_bin ty v)"

definition action_get_value :: "tlv \<Rightarrow> pyval option" where
  "action_get_value a =
     (if t_type a \<in> ACTION_BIN then map_option PyInt (bin_to_int (t_value a))
      else if t_type a \<in> {RFAT_SET_ETH_SRC, RFAT_SET_ETH_DST} then Some (PyStr (bin_to_ether (t_value a)))
      else Some PyNone)"

definition Action_OUTPUT :: "int option \<Rightarrow> tlv option" where
  "Action_OUTPUT port = Action_init RFAT_OUTPUT (py_num port)"

definition Action_CONTROLLER :: "tlv option" where
  "Action_CONTROLLER = Action_init RFAT_OUTPUT (PyInt OFPP_CONTROLLER)"

definition Action_SET_ETH_SRC :: "string option \<Rightarrow> tlv option" where
  "Action_SET_ETH_SRC a = Action_init RFAT_SET_ETH_SRC (py_text a)"

definition Action_SET_ETH_DST :: "string option \<Rightarrow> tlv option" where
  "Action_SET_ETH_DST a = Action_init RFAT_SET_ETH_DST (py_text a)"

definition Action_SET_VLAN_ID :: "int \<Rightarrow> tlv option" where
  "Action_SET_VLAN_ID v = Action_init RFAT_SET_VLAN_ID (PyInt v)"

definition Action_GROUP :: "int \<Rightarrow> tlv option" where
  "Action_GROUP g = Action_init RFAT_GROUP (PyInt g)"

definition Action_GOTO :: "int \<Rightarrow> tlv option" where
  "Action_GOTO t = Action_init RFAT_GOTO (PyInt t)"

definition Action_STRIP_VLAN :: "tlv option" where
  "Action_STRIP_VLAN = Action_init RFAT_STRIP_VLAN PyNone"

definition Action_STRIP_VLAN_DEFERRED :: "tlv option" where
  "Action_STRIP_VLAN_DEFERRED = Action_init RFAT_STRIP_VLAN_DEFERRED PyNone"

section \<open>Options\<close>

abbreviation RFOT_PRIORITY :: int where "RFOT_PRIORITY \<equiv> 1"
abbreviation RFOT_IDLE_TIMEOUT :: int where "RFOT_IDLE_TIMEOUT \<equiv> 2"
abbreviation RFOT_HARD_TIMEOUT :: int where "RFOT_HARD_TIMEOUT \<equiv> 3"
abbreviation RFOT_CT_ID :: int where "RFOT_CT_ID \<equiv> 255"

definition option_type_to_bin :: "int \<Rightarrow> pyval \<Rightarrow> string option" where
  "option_type_to_bin ty v =
     (if ty \<in> {RFOT_PRIORITY, RFOT_IDLE_TIMEOUT, RFOT_HARD_TIMEOUT} then int_bin v 16
      else if ty = RFOT_CT_ID then int_bin v 64
      else None)"

definition Option_init :: "int \<Rightarrow> pyval \<Rightarrow> tlv option" where
  "Option_init ty v = map_option (\<lambda>b. \<lparr>t_type = ty, t_value = b\<rparr>) (option_type_to_bin ty v)"

definition option_get_value :: "tlv \<Rightarrow> pyval option" where
  "option_get_value o' =
     (if t_type o' \<in> {RFOT_PRIORITY, RFOT_IDLE_TIMEOUT, RFOT_HARD_TIMEOUT, RFOT_CT_ID}
      then map_option PyInt (bin_to_int (t_value o')) else Some PyNone)"

definition Option_PRIORITY :: "int \<Rightarrow> tlv option" where
  "Option_PRIORITY p = Option_init RFOT_PRIORITY (PyInt p)"

definition Option_CT_ID :: "int option \<Rightarrow> tlv option" where
  "Option_CT_ID c = Option_init RFOT_CT_ID (py_num c)"

text \<open>\<^verbatim>\<open>self._type & OPTIONAL_MASK\<close>\<close>

definition tlv_optional :: "tlv \<Rightarrow> bool" where
  "tlv_optional t \<longleftrightarrow> odd (t_type t div 2 ^ 7)"

section \<open>Round trips of packing\<close>

lemma format_id_digits:
  assumes "0 \<le> dp"
  shows "format_id dp = ''0x'' @ digits_base 16 (nat dp)"
proof -
  let ?d = "digits_base 16 (nat dp)"
  have "\<not> valid_digit 16 (CHR ''L'')" by code_simp
  moreover have "valid_digit 16 (last ?d)" using digits_valid [of 16 "nat dp"] by (simp add: list_all_iff)
  ultimately have "last (''0x'' @ ?d) \<noteq> CHR ''L''" by auto
  then have "dropWhile ((=) (CHR ''L'')) (rev (''0x'' @ ?d)) = rev (''0x'' @ ?d)"
    by (intro dropWhile_first) (simp_all add: hd_rev hd_append del: rev_append)
  then show ?thesis using assms by (simp add: format_id_def py_hex_def py_rstrip_def)
qed

lemma sixteen_digits:
  assumes "2 ^ 60 \<le> dp" "dp < 2 ^ 64" "dp div 16 ^ k = RFVS_DP_PREFIX"
  shows "k = 8"
proof (rule ccontr)
  assume "k \<noteq> 8"
  then consider "k \<le> 7" | "9 \<le> k" by linarith
  then show False
  proof cases
    case 1
    then have "(16 :: int) ^ k \<le> 16 ^ 7" by (intro power_increasing) simp_all
    then have "dp div 16 ^ 7 \<le> dp div 16 ^ k" using assms(1) by (intro zdiv_mono2) simp_all
    moreover have "2 ^ 60 div 16 ^ 7 \<le> dp div 16 ^ 7" using assms(1) by (intro zdiv_mono1) simp_all
    ultimately show False using assms(3) by (simp add: RFVS_DP_PREFIX_def)
  next
    case 2
    then have "(16 :: int) ^ 9 \<le> 16 ^ k" by (intro power_increasing) simp_all
    then have "dp div 16 ^ k \<le> dp div 16 ^ 9" using assms(1) by (intro zdiv_mono2) simp_all
    moreover have "dp div 16 ^ 9 \<le> 2 ^ 64 div 16 ^ 9" using assms(2) by (intro zdiv_mono1) simp_all
    ultimately show False using assms(3) by (simp add: RFVS_DP_PREFIX_def)
  qed
qed

lemma hexnum_digits:
  assumes "0 \<le> n"
  shows "py_rstrip ((=) (CHR ''L'')) (drop 2 (py_hex n)) = digits_base 16 (nat n)"
proof -
  let ?d = "digits_base 16 (nat n)"
  have "valid_digit 16 (last ?d)" using digits_valid [of 16 "nat n"] by (simp add: list_all_iff)
  moreover have "\<not> valid_digit 16 (CHR ''L'')" by code_simp
  ultimately have "CHR ''L'' \<noteq> last ?d" by metis
  then have "dropWhile ((=) (CHR ''L'')) (rev ?d) = rev ?d" by (intro dropWhile_first) (simp_all add: hd_rev)
  then show ?thesis using assms by (simp add: py_hex_def py_rstrip_def)
qed

lemma int_to_bin_fits:
  assumes "0 \<le> n" "n < 2 ^ len" "8 dvd len" "0 < len"
  shows "\<exists>b. int_to_bin n len = Some b \<and> length b = len div 8 \<and> bin_to_int b = Some n"
proof -
  let ?d = "digits_base 16 (nat n)"
  let ?e = "if even (length ?d) then ?d else CHR ''0'' # ?d" and ?h = "len div 4"
  obtain k where k: "len = 8 * k" using assms(3) by (elim dvdE)
  have "(2 :: int) ^ len = 16 ^ ?h" unfolding k by (simp add: power_mult)
  then have "nat n < 16 ^ ?h" using assms(1,2) by (simp add: nat_less_iff)
  then have "length ?d \<le> ?h" using digits_length [of 16 "nat n" ?h] assms(4) k by simp
  moreover have "even ?h" using k by simp
  ultimately have le: "length ?e \<le> ?h" by (cases "length ?d = ?h") auto
  have ev: "even (length ?e)" by simp
  define s where "s = hex_int_extend ?e len"
  have ls: "length s = ?h" using le by (simp add: s_def hex_int_extend_def)
  have vs: "list_all (valid_digit 16) s"
    using digits_valid [of 16 "nat n"] by (auto simp: s_def hex_int_extend_def list_all_iff)
  have ps: "parse_digits 16 0 s = nat n" by (simp add: s_def hex_int_extend_def parse_digits_base digit_value_nought)
  obtain b where b: "a2b_hex s = Some b" "length b = length s div 2"
    using a2b_Some [OF _ vs] ls \<open>even ?h\<close> by auto
  have "b2a_hex b \<noteq> []" using b(2) ls assms(4) k by (cases b) (simp_all add: b2a_hex_def hex_pair_def)
  then have "bin_to_int b = Some n"
    using py_int_valid [OF _ b2a_valid, of b] parse_a2b [OF b(1), of 0] ps assms(1) by (simp add: bin_to_int_def)
  then show ?thesis
    using b ls k hexnum_digits [OF assms(1)] by (simp add: int_to_bin_def Let_def s_def)
qed

lemma int_to_bin_too_large:
  assumes "2 ^ len \<le> n" "8 dvd len" "0 < len"
  shows "\<exists>b. int_to_bin n len = Some b \<and> len div 8 < length b"
proof -
  let ?d = "digits_base 16 (nat n)"
  let ?e = "if even (length ?d) then ?d else CHR ''0'' # ?d" and ?h = "len div 4"
  obtain k where k: "len = 8 * k" using assms(2) by (elim dvdE)
  have "(0 :: int) \<le> 2 ^ len" by simp
  then have pos: "0 \<le> n" using assms(1) by (rule order_trans)
  have "(2 :: int) ^ len = 16 ^ ?h" unfolding k by (simp add: power_mult)
  then have "16 ^ ?h \<le> nat n" using assms(1) pos by (simp add: le_nat_iff)
  then have "?h < length ?d" by (intro digits_longer) simp_all
  then have long: "2 * k < length ?e" "even (length ?e)" using k by simp_all
  have v: "list_all (valid_digit 16) ?e" using digits_valid [of 16 "nat n"] by simp
  have "hex_int_extend ?e len = ?e" using long(1) unfolding hex_int_extend_def k by simp
  moreover obtain b where "a2b_hex ?e = Some b" "length b = length ?e div 2" using a2b_Some [OF long(2) v] by blast
  moreover have "len div 8 < length ?e div 2" using long unfolding k by (elim evenE) simp
  ultimately show ?thesis using hexnum_digits [OF pos] by (simp add: int_to_bin_def Let_def)
qed

lemma length_six: "length b = 6 \<Longrightarrow> \<exists>c1 c2 c3 c4 c5 c6. b = [c1, c2, c3, c4, c5, c6]"
  by (auto simp: length_Suc_conv numeral_eq_Suc)

lemma valid_not_colon: "valid_digit 16 c \<Longrightarrow> c \<noteq> CHR '':''"
  by (auto simp: valid_digit_def digit_value_def)

lemma ether_roundtrip:
  assumes "length b = 6"
  shows "ether_to_bin (bin_to_ether b) = Some b"
proof -
  obtain c1 c2 c3 c4 c5 c6 where b: "b = [c1, c2, c3, c4, c5, c6]" using length_six [OF assms] by blast
  have c: "digit_char (of_char c div 16) \<noteq> CHR '':''" "digit_char (of_char c mod 16) \<noteq> CHR '':''" for c
    using hex_pair_facts [of c] valid_not_colon by blast+
  have "filter (\<lambda>c. c \<noteq> CHR '':'') (bin_to_ether b) = b2a_hex b"
    by (simp add: b bin_to_ether_def b2a_hex_def hex_pair_def pad2_def c)
  then show ?thesis by (simp add: ether_to_bin_def)
qed

definition canonical_ether :: "string \<Rightarrow> bool" where
  "canonical_ether s \<longleftrightarrow> (case ether_to_bin s of None \<Rightarrow> False | Some b \<Rightarrow> length b = 6 \<and> bin_to_ether b = s)"

text \<open>The values that fit a type: what the constructor packs without loss.\<close>

definition fits_width :: "nat \<Rightarrow> pyval \<Rightarrow> bool" where
  "fits_width len v \<longleftrightarrow> (case v of PyInt i \<Rightarrow> 0 \<le> i \<and> i < 2 ^ len | _ \<Rightarrow> False)"

definition fits_ether :: "pyval \<Rightarrow> bool" where
  "fits_ether v \<longleftrightarrow> (case v of PyStr s \<Rightarrow> canonical_ether s | _ \<Rightarrow> False)"

definition fits_pair :: "nat \<Rightarrow> (string \<Rightarrow> string option) \<Rightarrow> (string \<Rightarrow> string) \<Rightarrow> pyval \<Rightarrow> bool" where
  "fits_pair n pton ntop v \<longleftrightarrow>
     (case v of PyPair a m \<Rightarrow> (\<forall>s \<in> {a, m}. case pton s of None \<Rightarrow> False | Some b \<Rightarrow> length b = n \<and> ntop b = s)
      | _ \<Rightarrow> False)"

definition fits_match ::
  "(string \<Rightarrow> string option) \<Rightarrow> (string \<Rightarrow> string option) \<Rightarrow> (string \<Rightarrow> string) \<Rightarrow> (string \<Rightarrow> string)
   \<Rightarrow> int \<Rightarrow> pyval \<Rightarrow> bool" where
  "fits_match pton4 pton6 ntop4 ntop6 ty v \<longleftrightarrow>
     ty = RFMT_IPV4 \<and> fits_pair 4 pton4 ntop4 v \<or> ty = RFMT_IPV6 \<and> fits_pair 16 pton6 ntop6 v
     \<or> ty = RFMT_ETHERNET \<and> fits_ether v
     \<or> ty \<in> {RFMT_MPLS, RFMT_IN_PORT} \<and> fits_width 32 v
     \<or> ty \<in> {RFMT_VLAN_ID, RFMT_ETHERTYPE, RFMT_TP_SRC, RFMT_TP_DST} \<and> fits_width 16 v
     \<or> ty = RFMT_NW_PROTO \<and> fits_width 8 v"

definition fits_action :: "int \<Rightarrow> pyval \<Rightarrow> bool" where
  "fits_action ty v \<longleftrightarrow>
     ty \<in> ACTION_BIN \<and> fits_width 32 v \<or> ty \<in> {RFAT_SET_ETH_SRC, RFAT_SET_ETH_DST} \<and> fits_ether v
     \<or> ty \<in> {RFAT_POP_MPLS, RFAT_DROP, RFAT_SFLOW, RFAT_STRIP_VLAN_DEFERRED, RFAT_STRIP_VLAN} \<and> v = PyNone"

definition fits_option :: "int \<Rightarrow> pyval \<Rightarrow> bool" where
  "fits_option ty v \<longleftrightarrow>
     ty \<in> {RFOT_PRIORITY, RFOT_IDLE_TIMEOUT, RFOT_HARD_TIMEOUT} \<and> fits_width 16 v
     \<or> ty = RFOT_CT_ID \<and> fits_width 64 v"

lemma int_bin_fits:
  "fits_width len v \<Longrightarrow> 8 dvd len \<Longrightarrow> 0 < len \<Longrightarrow> \<exists>b. int_bin v len = Some b \<and> map_option PyInt (bin_to_int b) = Some v"
  using int_to_bin_fits [of _ len] by (cases v) (auto simp: fits_width_def int_bin_def)

lemma ether_bin_fits: "fits_ether v \<Longrightarrow> \<exists>b. ether_bin v = Some b \<and> PyStr (bin_to_ether b) = v"
  by (cases v) (auto simp: fits_ether_def canonical_ether_def ether_bin_def split: option.splits)

lemma pair_bin_fits:
  "fits_pair n pton ntop v \<Longrightarrow> \<exists>b. pair_bin pton v = Some b \<and> PyPair (ntop (take n b)) (ntop (drop n b)) = v"
  by (cases v) (auto simp: fits_pair_def pair_bin_def split: option.splits)

text \<open>
  The contract of the three value classes: a value that fits is packed, and the object gives
  back its type and value.
\<close>

locale tlv_class =
  fixes init :: "int \<Rightarrow> pyval \<Rightarrow> tlv option" and get_value :: "tlv \<Rightarrow> pyval option" and fits :: "int \<Rightarrow> pyval \<Rightarrow> bool"
  assumes init_fits: "fits ty v \<Longrightarrow> \<exists>t. init ty v = Some t \<and> t_type t = ty \<and> get_value t = Some v"
begin

lemma init_inject:
  assumes "fits ty v" "fits ty' w" "init ty v = init ty' w"
  shows "ty = ty' \<and> v = w"
  using init_fits [OF assms(1)] init_fits [OF assms(2)] assms(3) by auto

lemma list_roundtrip:
  assumes "\<forall>(ty, v) \<in> set vs. fits ty v"
  shows "\<exists>ts. those (map (\<lambda>(ty, v). init ty v) vs) = Some ts
    \<and> map (\<lambda>t. (t_type t, get_value t)) ts = map (\<lambda>(ty, v). (ty, Some v)) vs"
  using assms
proof (induction vs)
  case (Cons x vs)
  obtain ty v where x: "x = (ty, v)" by force
  obtain ts where "those (map (\<lambda>(ty, v). init ty v) vs) = Some ts"
    "map (\<lambda>t. (t_type t, get_value t)) ts = map (\<lambda>(ty, v). (ty, Some v)) vs"
    using Cons by auto
  moreover obtain t where "init ty v = Some t" "t_type t = ty" "get_value t = Some v"
    using Cons.prems x init_fits [of ty v] by auto
  ultimately show ?case using x by auto
qed simp

end

lemma packed:
  assumes "\<exists>b. bin = Some b \<and> get \<lparr>t_type = ty, t_value = b\<rparr> = Some v"
  shows "\<exists>t. map_option (\<lambda>b. \<lparr>t_type = ty, t_value = b\<rparr>) bin = Some t \<and> t_type t = ty \<and> get t = Some v"
  using assms by auto

interpretation match_class: tlv_class "Match_init p4 p6" "match_get_value n4 n6" "fits_match p4 p6 n4 n6" for p4 p6 n4 n6
proof
  fix ty v assume f: "fits_match p4 p6 n4 n6 ty v"
  have "\<exists>b. match_type_to_bin p4 p6 ty v = Some b \<and> match_get_value n4 n6 \<lparr>t_type = ty, t_value = b\<rparr> = Some v"
    using f int_bin_fits [of 32 v] int_bin_fits [of 16 v] int_bin_fits [of 8 v] ether_bin_fits [of v]
      pair_bin_fits [of 4 p4 n4 v] pair_bin_fits [of 16 p6 n6 v]
    unfolding fits_match_def by (elim disjE conjE insertE emptyE) (simp_all add: match_type_to_bin_def match_get_value_def)
  then show "\<exists>t. Match_init p4 p6 ty v = Some t \<and> t_type t = ty \<and> match_get_value n4 n6 t = Some v"
    unfolding Match_init_def by (rule packed)
qed

interpretation action_class: tlv_class Action_init action_get_value fits_action
proof
  fix ty v assume f: "fits_action ty v"
  have "\<exists>b. action_type_to_bin ty v = Some b \<and> action_get_value \<lparr>t_type = ty, t_value = b\<rparr> = Some v"
    using f int_bin_fits [of 32 v] ether_bin_fits [of v]
    unfolding fits_action_def ACTION_BIN_def
    by (elim disjE conjE insertE emptyE) (simp_all add: action_type_to_bin_def action_get_value_def ACTION_BIN_def)
  then show "\<exists>t. Action_init ty v = Some t \<and> t_type t = ty \<and> action_get_value t = Some v"
    unfolding Action_init_def by (rule packed)
qed

interpretation option_class: tlv_class Option_init option_get_value fits_option
proof
  fix ty v assume f: "fits_option ty v"
  have "\<exists>b. option_type_to_bin ty v = Some b \<and> option_get_value \<lparr>t_type = ty, t_value = b\<rparr> = Some v"
    using f int_bin_fits [of 16 v] int_bin_fits [of 64 v]
    unfolding fits_option_def by (elim disjE conjE insertE emptyE) (simp_all add: option_type_to_bin_def option_get_value_def)
  then show "\<exists>t. Option_init ty v = Some t \<and> t_type t = ty \<and> option_get_value t = Some v"
    unfolding Option_init_def by (rule packed)
qed

section \<open>Properties\<close>

text \<open>
  An integer that is not negative is packed into exactly the bytes of the width asked for and
  unpacks to itself when it fits; a larger one is not cut but packed into more bytes.
\<close>

lemma int_to_bin_width:
  assumes "0 \<le> n" and "8 dvd len" and "0 < len"
  shows "\<exists>b. int_to_bin n len = Some b
    \<and> (if n < 2 ^ len then length b = len div 8 \<and> bin_to_int b = Some n else len div 8 < length b)"
  using int_to_bin_fits [OF assms(1) _ assms(2,3)] int_to_bin_too_large [OF _ assms(2,3), of n]
  by (cases "n < 2 ^ len") (simp_all add: not_less)

text \<open>
  The values of matches, actions and options that fit their types are packed without loss: the
  object built has the type and gives back the value, and different values give different
  objects.
\<close>

lemma tlv_values_roundtrip:
  "(fits_match pton4 pton6 ntop4 ntop6 ty v \<longrightarrow>
      (\<exists>t. Match_init pton4 pton6 ty v = Some t \<and> t_type t = ty \<and> match_get_value ntop4 ntop6 t = Some v))
   \<and> (fits_action ty v \<longrightarrow> (\<exists>t. Action_init ty v = Some t \<and> t_type t = ty \<and> action_get_value t = Some v))
   \<and> (fits_option ty v \<longrightarrow> (\<exists>t. Option_init ty v = Some t \<and> t_type t = ty \<and> option_get_value t = Some v))
   \<and> (fits_action ty v \<and> fits_action ty w \<and> Action_init ty v = Action_init ty w \<longrightarrow> v = w)"
  using match_class.init_fits action_class.init_fits option_class.init_fits action_class.init_inject by blast

end
