(* ===== verification/RF_Protocol.thy ===== *)
theory RF_Protocol
  imports RF_Types
begin

text \<open>
  The messages between the server, its clients and its proxies (\<^verbatim>\<open>rflib/ipc/RFProtocol.py\<close>,
  \<^verbatim>\<open>RFProtocolFactory.py\<close>): their fields, the setters, which turn what they are given into an
  integer or 0, and the dictionaries they are sent as. The transport and the BSON encoding of the
  dictionaries are not modelled. The lemmas show what survives being sent.
\<close>

section \<open>Route modifications\<close>

record route_mod =
  rm_mod :: int
  rm_id :: int
  rm_vm_port :: int
  rm_table :: int
  rm_group :: int
  rm_matches :: "tlv list"
  rm_actions :: "tlv list"
  rm_options :: "tlv list"

definition RouteMod_init :: "int \<Rightarrow> int \<Rightarrow> route_mod" where
  "RouteMod_init md dp = \<lparr>rm_mod = md, rm_id = dp, rm_vm_port = 0, rm_table = 0, rm_group = 0,
     rm_matches = [], rm_actions = [], rm_options = []\<rparr>"

text \<open>
  Adding a value that is built by a constructor call: when the constructor raises, so does the
  statement.
\<close>

definition add_match :: "tlv option \<Rightarrow> route_mod \<Rightarrow> route_mod option" where
  "add_match m rm = map_option (\<lambda>t. rm\<lparr>rm_matches := rm_matches rm @ [t]\<rparr>) m"

definition add_action :: "tlv option \<Rightarrow> route_mod \<Rightarrow> route_mod option" where
  "add_action a rm = map_option (\<lambda>t. rm\<lparr>rm_actions := rm_actions rm @ [t]\<rparr>) a"

definition add_option :: "tlv option \<Rightarrow> route_mod \<Rightarrow> route_mod option" where
  "add_option opt rm = map_option (\<lambda>t. rm\<lparr>rm_options := rm_options rm @ [t]\<rparr>) opt"

section \<open>Messages\<close>

datatype message =
    PortRegister (m_vm_id: int) (m_vm_port: int) (m_hwaddress: string)
  | PortConfig (m_vm_id: int) (m_vm_port: int) (m_operation_id: int)
  | DatapathPortRegister (m_ct_id: int) (m_dp_id: int) (m_dp_port: int)
  | DatapathDown (m_ct_id: int) (m_dp_id: int)
  | VirtualPlaneMap (m_vm_id: int) (m_vm_port: int) (m_vs_id: int) (m_vs_port: int)
  | DataPlaneMap (m_ct_id: int) (m_dp_id: int) (m_dp_port: int) (m_vs_id: int) (m_vs_port: int)
  | RouteMod route_mod

abbreviation PORT_REGISTER :: int where "PORT_REGISTER \<equiv> 0"
abbreviation PORT_CONFIG :: int where "PORT_CONFIG \<equiv> 1"
abbreviation DATAPATH_PORT_REGISTER :: int where "DATAPATH_PORT_REGISTER \<equiv> 2"
abbreviation DATAPATH_DOWN :: int where "DATAPATH_DOWN \<equiv> 3"
abbreviation VIRTUAL_PLANE_MAP :: int where "VIRTUAL_PLANE_MAP \<equiv> 4"
abbreviation DATA_PLANE_MAP :: int where "DATA_PLANE_MAP \<equiv> 5"
abbreviation ROUTE_MOD :: int where "ROUTE_MOD \<equiv> 6"

fun get_type :: "message \<Rightarrow> int" where
  "get_type (PortRegister _ _ _) = PORT_REGISTER"
| "get_type (PortConfig _ _ _) = PORT_CONFIG"
| "get_type (DatapathPortRegister _ _ _) = DATAPATH_PORT_REGISTER"
| "get_type (DatapathDown _ _) = DATAPATH_DOWN"
| "get_type (VirtualPlaneMap _ _ _ _) = VIRTUAL_PLANE_MAP"
| "get_type (DataPlaneMap _ _ _ _ _) = DATA_PLANE_MAP"
| "get_type (RouteMod _) = ROUTE_MOD"

section \<open>Dictionaries\<close>

datatype dval = DStr string | DList "tlv list"

type_synonym dict = "(string \<times> dval) list"

text \<open>The integer setters: what \<^verbatim>\<open>int\<close> does not convert becomes 0.\<close>

definition set_int :: "dval \<Rightarrow> int" where
  "set_int v = (case v of DStr s \<Rightarrow> (case py_int 10 s of None \<Rightarrow> 0 | Some i \<Rightarrow> i) | DList _ \<Rightarrow> 0)"

text \<open>The list setters: \<^verbatim>\<open>list\<close> of a list. The dictionaries of this program hold lists there.\<close>

definition set_list :: "dval \<Rightarrow> tlv list" where
  "set_list v = (case v of DList ts \<Rightarrow> ts | DStr _ \<Rightarrow> [])"

definition set_str :: "dval \<Rightarrow> string" where
  "set_str v = (case v of DStr s \<Rightarrow> s | DList _ \<Rightarrow> [])"

definition num :: "int \<Rightarrow> dval" where
  "num i = DStr (int_to_string i)"

text \<open>
  The method \<^verbatim>\<open>RouteMod.to_dict\<close> stores the text of the method object \<^verbatim>\<open>get_vm_port\<close>, which is not
  called; \<open>obj\<close> is how the interpreter prints the message object inside it.
\<close>

definition route_mod_to_dict :: "string \<Rightarrow> route_mod \<Rightarrow> dict" where
  "route_mod_to_dict obj rm =
     [(''mod'', num (rm_mod rm)), (''id'', num (rm_id rm)),
      (''vm_port'', DStr (''<bound method RouteMod.get_vm_port of '' @ obj @ ''>'')),
      (''table'', num (rm_table rm)), (''group'', num (rm_group rm)),
      (''matches'', DList (rm_matches rm)), (''actions'', DList (rm_actions rm)),
      (''options'', DList (rm_options rm))]"

fun to_dict :: "string \<Rightarrow> message \<Rightarrow> dict" where
  "to_dict obj (PortRegister vm_id vm_port hwaddress) =
     [(''vm_id'', num vm_id), (''vm_port'', num vm_port), (''hwaddress'', DStr hwaddress)]"
| "to_dict obj (PortConfig vm_id vm_port operation_id) =
     [(''vm_id'', num vm_id), (''vm_port'', num vm_port), (''operation_id'', num operation_id)]"
| "to_dict obj (DatapathPortRegister ct_id dp_id dp_port) =
     [(''ct_id'', num ct_id), (''dp_id'', num dp_id), (''dp_port'', num dp_port)]"
| "to_dict obj (DatapathDown ct_id dp_id) = [(''ct_id'', num ct_id), (''dp_id'', num dp_id)]"
| "to_dict obj (VirtualPlaneMap vm_id vm_port vs_id vs_port) =
     [(''vm_id'', num vm_id), (''vm_port'', num vm_port), (''vs_id'', num vs_id), (''vs_port'', num vs_port)]"
| "to_dict obj (DataPlaneMap ct_id dp_id dp_port vs_id vs_port) =
     [(''ct_id'', num ct_id), (''dp_id'', num dp_id), (''dp_port'', num dp_port),
      (''vs_id'', num vs_id), (''vs_port'', num vs_port)]"
| "to_dict obj (RouteMod rm) = route_mod_to_dict obj rm"

definition route_mod_from_dict :: "dict \<Rightarrow> route_mod option" where
  "route_mod_from_dict data = do {
     md \<leftarrow> map_of data ''mod''; dp \<leftarrow> map_of data ''id''; port \<leftarrow> map_of data ''vm_port'';
     table \<leftarrow> map_of data ''table''; grp \<leftarrow> map_of data ''group'';
     matches \<leftarrow> map_of data ''matches''; actions \<leftarrow> map_of data ''actions'';
     opts \<leftarrow> map_of data ''options'';
     Some \<lparr>rm_mod = set_int md, rm_id = set_int dp, rm_vm_port = set_int port,
       rm_table = set_int table, rm_group = set_int grp, rm_matches = set_list matches,
       rm_actions = set_list actions, rm_options = set_list opts\<rparr> }"

text \<open>
  Building a message for a received type and reading its fields; for an unknown type the
  factory returns \<^verbatim>\<open>None\<close>, which has no fields to read, and a missing field raises.
\<close>

definition build_for_type :: "int \<Rightarrow> dict \<Rightarrow> message option" where
  "build_for_type ty data =
     (let i = (\<lambda>k. map_option set_int (map_of data k))
      in if ty = PORT_REGISTER then do {
           vm \<leftarrow> i ''vm_id''; port \<leftarrow> i ''vm_port''; hw \<leftarrow> map_of data ''hwaddress'';
           Some (PortRegister vm port (set_str hw)) }
         else if ty = PORT_CONFIG then do {
           vm \<leftarrow> i ''vm_id''; port \<leftarrow> i ''vm_port''; op \<leftarrow> i ''operation_id''; Some (PortConfig vm port op) }
         else if ty = DATAPATH_PORT_REGISTER then do {
           ct \<leftarrow> i ''ct_id''; dp \<leftarrow> i ''dp_id''; port \<leftarrow> i ''dp_port''; Some (DatapathPortRegister ct dp port) }
         else if ty = DATAPATH_DOWN then do { ct \<leftarrow> i ''ct_id''; dp \<leftarrow> i ''dp_id''; Some (DatapathDown ct dp) }
         else if ty = VIRTUAL_PLANE_MAP then do {
           vm \<leftarrow> i ''vm_id''; port \<leftarrow> i ''vm_port''; vs \<leftarrow> i ''vs_id''; vsp \<leftarrow> i ''vs_port'';
           Some (VirtualPlaneMap vm port vs vsp) }
         else if ty = DATA_PLANE_MAP then do {
           ct \<leftarrow> i ''ct_id''; dp \<leftarrow> i ''dp_id''; port \<leftarrow> i ''dp_port''; vs \<leftarrow> i ''vs_id''; vsp \<leftarrow> i ''vs_port'';
           Some (DataPlaneMap ct dp port vs vsp) }
         else if ty = ROUTE_MOD then map_option RouteMod (route_mod_from_dict data)
         else None)"

section \<open>Properties\<close>

lemma set_int_num [simp]: "set_int (num i) = i"
  by (simp add: set_int_def num_def)

lemma set_str_DStr [simp]: "set_str (DStr s) = s"
  by (simp add: set_str_def)

lemma set_list_DList [simp]: "set_list (DList ts) = ts"
  by (simp add: set_list_def)

lemma method_text_no_int: "set_int (DStr (''<bound method RouteMod.get_vm_port of '' @ obj @ ''>'')) = 0"
proof -
  let ?s = "''<bound method RouteMod.get_vm_port of '' @ obj @ ''>''"
  have "py_strip py_is_space ?s = ?s" by (rule strip_plain) (simp_all add: py_is_space_def)
  moreover have "\<not> valid_digit 10 (CHR ''<'')" by code_simp
  ultimately have "py_int 10 ?s = None" by (simp add: py_int_def py_nat_def)
  then show ?thesis by (simp add: set_int_def)
qed

text \<open>
  C38: a message that is sent as a dictionary and rebuilt for its type is the message that was
  sent, except that a route modification arrives with port 0 in place of the port of the virtual
  machine.
\<close>

theorem message_roundtrip:
  "build_for_type (get_type m) (to_dict obj m)
   = Some (case m of RouteMod rm \<Rightarrow> RouteMod (rm\<lparr>rm_vm_port := 0\<rparr>) | _ \<Rightarrow> m)"
proof (cases m)
  case (RouteMod rm)
  then show ?thesis
    using method_text_no_int [of obj]
    by (simp add: build_for_type_def route_mod_to_dict_def route_mod_from_dict_def)
qed (simp_all add: build_for_type_def)

end
