(* ===== verification/RF_Table.thy ===== *)
theory RF_Table
  imports PY_Prelude
begin

text \<open>
  The tables of the server (\<^verbatim>\<open>rfserver/rftable.py\<close>, \<^verbatim>\<open>MemoryTable.py\<close>): the table kept in memory,
  its entries and their states, the lookups, and reading the configuration files.

  A table is a dictionary from identifiers to entries. Python iterates over a dictionary in an
  order the language does not fix; the order is a function of the keys and belongs to the table
  (\<open>mt_order\<close>), and the laws of the locale \<open>entry_table\<close> do not depend on it. An attribute of an
  entry that is \<^verbatim>\<open>None\<close> or not set is \<open>None\<close>.
\<close>

section \<open>Tables in memory\<close>

record base_entry =
  e_id :: "nat option"

record 'e memory_table =
  mt_next :: nat
  mt_data :: "(nat \<times> 'e) list"
  mt_order :: "nat list \<Rightarrow> nat list"

definition MemoryTable :: "(nat list \<Rightarrow> nat list) \<Rightarrow> 'e memory_table" where
  "MemoryTable ord = \<lparr>mt_next = 1000, mt_data = [], mt_order = ord\<rparr>"

text \<open>\<^verbatim>\<open>get_entries(**kwargs)\<close>: the entries whose named attributes have the given values.\<close>

definition get_entries :: "('e \<Rightarrow> bool) \<Rightarrow> 'e memory_table \<Rightarrow> 'e list" where
  "get_entries p t = filter p (List.map_filter (map_of (mt_data t)) (mt_order t (map fst (mt_data t))))"

text \<open>
  \<^verbatim>\<open>set_entry\<close> stores a copy of the entry, under a new identifier when it has none, and gives
  the entry object its identifier.
\<close>

definition set_entry ::
  "'a base_entry_scheme \<Rightarrow> 'a base_entry_scheme memory_table
   \<Rightarrow> 'a base_entry_scheme memory_table \<times> 'a base_entry_scheme" where
  "set_entry e t =
     (case e_id e of
        None \<Rightarrow>
          (let i = mt_next t + 1; e = e\<lparr>e_id := Some i\<rparr>
           in (t\<lparr>mt_next := i, mt_data := AList.update i e (mt_data t)\<rparr>, e))
      | Some i \<Rightarrow> (t\<lparr>mt_data := AList.update i e (mt_data t)\<rparr>, e))"

definition remove_entry ::
  "'a base_entry_scheme \<Rightarrow> 'a base_entry_scheme memory_table \<Rightarrow> 'a base_entry_scheme memory_table" where
  "remove_entry e t =
     (case e_id e of None \<Rightarrow> t | Some i \<Rightarrow> t\<lparr>mt_data := AList.delete i (mt_data t)\<rparr>)"

definition clear_table :: "'e memory_table \<Rightarrow> 'e memory_table" where
  "clear_table t = t\<lparr>mt_data := []\<rparr>"

text \<open>The first entry of a lookup, as the methods \<^verbatim>\<open>get_entry_by_...\<close> return it.\<close>

definition first_entry :: "'e list \<Rightarrow> 'e option" where
  "first_entry es = (case es of [] \<Rightarrow> None | e # _ \<Rightarrow> Some e)"

section \<open>Entries of the association table\<close>

record rf_entry = base_entry +
  re_vm_id :: "int option"
  re_vm_port :: "int option"
  re_ct_id :: "int option"
  re_dp_id :: "int option"
  re_dp_port :: "int option"
  re_vs_id :: "int option"
  re_vs_port :: "int option"
  re_eth_addr :: "string option"

type_synonym rf_table = "rf_entry memory_table"

definition RFEntry :: rf_entry where
  "RFEntry = \<lparr>e_id = None, re_vm_id = None, re_vm_port = None, re_ct_id = None, re_dp_id = None,
     re_dp_port = None, re_vs_id = None, re_vs_port = None, re_eth_addr = None\<rparr>"

datatype rf_status =
    RFENTRY_IDLE_VM_PORT | RFENTRY_IDLE_DP_PORT | RFENTRY_ASSOCIATED | RFENTRY_ACTIVE
  | RFISL_IDLE_DP_PORT | RFISL_IDLE_REMOTE | RFISL_ACTIVE

definition is_idle_vm_port :: "rf_entry \<Rightarrow> bool" where
  "is_idle_vm_port e \<longleftrightarrow>
     re_vm_id e \<noteq> None \<and> re_vm_port e \<noteq> None \<and> re_ct_id e = None \<and> re_dp_id e = None
     \<and> re_dp_port e = None \<and> re_vs_id e = None \<and> re_vs_port e = None"

definition is_idle_dp_port :: "rf_entry \<Rightarrow> bool" where
  "is_idle_dp_port e \<longleftrightarrow>
     re_vm_id e = None \<and> re_vm_port e = None \<and> re_ct_id e \<noteq> None \<and> re_dp_id e \<noteq> None
     \<and> re_dp_port e \<noteq> None \<and> re_vs_id e = None \<and> re_vs_port e = None"

definition make_idle :: "rf_status \<Rightarrow> rf_entry \<Rightarrow> rf_entry" where
  "make_idle ty e =
     (if ty = RFENTRY_IDLE_VM_PORT then
        e\<lparr>re_ct_id := None, re_dp_id := None, re_dp_port := None, re_vs_id := None, re_vs_port := None\<rparr>
      else if ty = RFENTRY_IDLE_DP_PORT then
        e\<lparr>re_vm_id := None, re_vm_port := None, re_vs_id := None, re_vs_port := None, re_eth_addr := None\<rparr>
      else e)"

text \<open>\<open>None\<close> is the \<^verbatim>\<open>ValueError\<close> of an entry that is not idle.\<close>

definition associate :: "int \<Rightarrow> int \<Rightarrow> int option \<Rightarrow> string option \<Rightarrow> rf_entry \<Rightarrow> rf_entry option" where
  "associate ident port ct addr e =
     (if is_idle_vm_port e then
        Some (e\<lparr>re_ct_id := ct, re_dp_id := Some ident, re_dp_port := Some port\<rparr>)
      else if is_idle_dp_port e then
        Some (e\<lparr>re_vm_id := Some ident, re_vm_port := Some port, re_eth_addr := addr\<rparr>)
      else None)"

definition activate :: "int \<Rightarrow> int \<Rightarrow> rf_entry \<Rightarrow> rf_entry" where
  "activate vs port e = e\<lparr>re_vs_id := Some vs, re_vs_port := Some port\<rparr>"

definition get_status :: "rf_entry \<Rightarrow> rf_status" where
  "get_status e =
     (if is_idle_vm_port e then RFENTRY_IDLE_VM_PORT
      else if is_idle_dp_port e then RFENTRY_IDLE_DP_PORT
      else if re_vs_id e = None \<and> re_vs_port e = None then RFENTRY_ASSOCIATED
      else RFENTRY_ACTIVE)"

definition get_entry_by_vm_port :: "int \<Rightarrow> int \<Rightarrow> rf_table \<Rightarrow> rf_entry option" where
  "get_entry_by_vm_port vm port t =
     first_entry (get_entries (\<lambda>e. re_vm_id e = Some vm \<and> re_vm_port e = Some port) t)"

definition get_entry_by_dp_port :: "int option \<Rightarrow> int option \<Rightarrow> int option \<Rightarrow> rf_table \<Rightarrow> rf_entry option" where
  "get_entry_by_dp_port ct dp port t =
     first_entry (get_entries (\<lambda>e. re_ct_id e = ct \<and> re_dp_id e = dp \<and> re_dp_port e = port) t)"

definition get_entry_by_vs_port :: "int \<Rightarrow> int \<Rightarrow> rf_table \<Rightarrow> rf_entry option" where
  "get_entry_by_vs_port vs port t =
     first_entry (get_entries (\<lambda>e. re_vs_id e = Some vs \<and> re_vs_port e = Some port) t)"

definition get_dp_entries :: "int option \<Rightarrow> int option \<Rightarrow> rf_table \<Rightarrow> rf_entry list" where
  "get_dp_entries ct dp t = get_entries (\<lambda>e. re_ct_id e = ct \<and> re_dp_id e = dp) t"

definition is_dp_registered :: "int \<Rightarrow> int \<Rightarrow> rf_table \<Rightarrow> bool" where
  "is_dp_registered ct dp t \<longleftrightarrow> get_dp_entries (Some ct) (Some dp) t \<noteq> []"

section \<open>Entries of the table of links between switches\<close>

record isl_entry = base_entry +
  is_vm_id :: "int option"
  is_ct_id :: "int option"
  is_dp_id :: "int option"
  is_dp_port :: "int option"
  is_eth_addr :: "string option"
  is_rem_ct :: "int option"
  is_rem_id :: "int option"
  is_rem_port :: "int option"
  is_rem_eth_addr :: "string option"

type_synonym isl_table = "isl_entry memory_table"

definition isl_idle_dp_port :: "isl_entry \<Rightarrow> bool" where
  "isl_idle_dp_port e \<longleftrightarrow>
     is_ct_id e \<noteq> None \<and> is_dp_id e \<noteq> None \<and> is_dp_port e \<noteq> None
     \<and> is_rem_ct e = None \<and> is_rem_id e = None \<and> is_rem_port e = None"

definition isl_idle_remote :: "isl_entry \<Rightarrow> bool" where
  "isl_idle_remote e \<longleftrightarrow>
     is_ct_id e = None \<and> is_dp_id e = None \<and> is_dp_port e = None
     \<and> is_rem_ct e \<noteq> None \<and> is_rem_id e \<noteq> None \<and> is_rem_port e \<noteq> None"

definition isl_make_idle :: "rf_status \<Rightarrow> isl_entry \<Rightarrow> isl_entry" where
  "isl_make_idle ty e =
     (if ty = RFISL_IDLE_REMOTE then
        e\<lparr>is_ct_id := None, is_dp_id := None, is_dp_port := None, is_eth_addr := None\<rparr>
      else if ty = RFISL_IDLE_DP_PORT then
        e\<lparr>is_rem_ct := None, is_rem_id := None, is_rem_port := None, is_rem_eth_addr := None\<rparr>
      else e)"

definition isl_associate :: "int \<Rightarrow> int \<Rightarrow> int \<Rightarrow> string option \<Rightarrow> isl_entry \<Rightarrow> isl_entry" where
  "isl_associate ct ident port addr e =
     (if isl_idle_dp_port e then
        e\<lparr>is_rem_ct := Some ct, is_rem_id := Some ident, is_rem_port := Some port, is_rem_eth_addr := addr\<rparr>
      else if isl_idle_remote e then
        e\<lparr>is_ct_id := Some ct, is_dp_id := Some ident, is_dp_port := Some port, is_eth_addr := addr\<rparr>
      else e)"

definition isl_get_status :: "isl_entry \<Rightarrow> rf_status" where
  "isl_get_status e =
     (if isl_idle_dp_port e then RFISL_IDLE_DP_PORT
      else if isl_idle_remote e then RFISL_IDLE_REMOTE else RFISL_ACTIVE)"

definition get_entry_by_addr :: "int \<Rightarrow> int \<Rightarrow> int \<Rightarrow> string option \<Rightarrow> isl_table \<Rightarrow> isl_entry option" where
  "get_entry_by_addr ct dp port addr t =
     first_entry (get_entries (\<lambda>e. is_ct_id e = Some ct \<and> is_dp_id e = Some dp \<and> is_dp_port e = Some port
                                 \<and> is_eth_addr e = addr) t)"

definition get_entry_by_remote ::
  "int option \<Rightarrow> int option \<Rightarrow> int option \<Rightarrow> string option \<Rightarrow> isl_table \<Rightarrow> isl_entry option" where
  "get_entry_by_remote ct dp port addr t =
     first_entry (get_entries (\<lambda>e. is_rem_ct e = ct \<and> is_rem_id e = dp \<and> is_rem_port e = port
                                 \<and> is_rem_eth_addr e = addr) t)"

definition isl_get_dp_entries :: "int \<Rightarrow> int \<Rightarrow> isl_table \<Rightarrow> isl_entry list" where
  "isl_get_dp_entries ct dp t = get_entries (\<lambda>e. is_ct_id e = Some ct \<and> is_dp_id e = Some dp) t"

definition isl_is_dp_registered :: "int \<Rightarrow> int \<Rightarrow> isl_table \<Rightarrow> bool" where
  "isl_is_dp_registered ct dp t \<longleftrightarrow> isl_get_dp_entries ct dp t \<noteq> []"

section \<open>Configuration\<close>

record config_entry = base_entry +
  cf_vm_id :: int
  cf_vm_port :: int
  cf_ct_id :: int
  cf_dp_id :: int
  cf_dp_port :: int
  cf_fp_label :: "int option"

record isl_conf = base_entry +
  ic_vm_id :: int
  ic_ct_id :: int
  ic_dp_id :: int
  ic_dp_port :: int
  ic_eth_addr :: string
  ic_rem_ct :: int
  ic_rem_id :: int
  ic_rem_port :: int
  ic_rem_eth_addr :: string
  ic_fp_master :: "int option"
  ic_fast_paths :: "(int \<times> int) list option"

record fp_conf = base_entry +
  fc_ct_id :: int
  fc_dp_id :: int
  fc_dp_port :: int
  fc_dp0_port :: int
  fc_fp_master :: "int option"
  fc_fast_paths :: "(int \<times> int) list"

type_synonym rf_config = "config_entry memory_table"
type_synonym rf_islconf = "isl_conf memory_table"
type_synonym rf_fpconf = "fp_conf memory_table"

text \<open>A line without comment, split at commas; a blank line is skipped.\<close>

definition conf_fields :: "string \<Rightarrow> string list" where
  "conf_fields line = split '','' (takeWhile (\<lambda>c. c \<noteq> CHR ''#'') (py_strip ((=) (CHR 0x0A)) line))"

definition blank_conf :: "string list \<Rightarrow> bool" where
  "blank_conf conf \<longleftrightarrow> conf = [] \<or> (length conf = 1 \<and> py_strip py_is_space (hd conf) = [])"

definition parse_config_line :: "string list \<Rightarrow> config_entry option" where
  "parse_config_line conf =
     (case conf of
        [a, b, c, d, e] \<Rightarrow> do {
          vm \<leftarrow> py_int 16 a; port \<leftarrow> py_int 10 b; ct \<leftarrow> py_int 10 c; dp \<leftarrow> py_int 16 d; dport \<leftarrow> py_int 10 e;
          Some \<lparr>e_id = None, cf_vm_id = vm, cf_vm_port = port, cf_ct_id = ct, cf_dp_id = dp,
            cf_dp_port = dport, cf_fp_label = None\<rparr> }
      | _ \<Rightarrow> None)"

definition parse_isl_line :: "string list \<Rightarrow> isl_conf option" where
  "parse_isl_line conf =
     (case conf of
        [a, b, c, d, e, f, g, h, i] \<Rightarrow> do {
          vm \<leftarrow> py_int 16 a; ct \<leftarrow> py_int 10 b; dp \<leftarrow> py_int 16 c; port \<leftarrow> py_int 10 d;
          rct \<leftarrow> py_int 10 f; rid \<leftarrow> py_int 16 g; rport \<leftarrow> py_int 10 h;
          Some \<lparr>e_id = None, ic_vm_id = vm, ic_ct_id = ct, ic_dp_id = dp, ic_dp_port = port,
            ic_eth_addr = e, ic_rem_ct = rct, ic_rem_id = rid, ic_rem_port = rport,
            ic_rem_eth_addr = i, ic_fp_master = None, ic_fast_paths = None\<rparr> }
      | _ \<Rightarrow> None)"

definition parse_fp_line :: "string list \<Rightarrow> fp_conf option" where
  "parse_fp_line conf =
     (case conf of
        [a, b, c, d] \<Rightarrow> do {
          ct \<leftarrow> py_int 10 a; dp \<leftarrow> py_int 16 b; port \<leftarrow> py_int 10 c; dp0 \<leftarrow> py_int 10 d;
          Some \<lparr>e_id = None, fc_ct_id = ct, fc_dp_id = dp, fc_dp_port = port, fc_dp0_port = dp0,
            fc_fp_master = None, fc_fast_paths = []\<rparr> }
      | _ \<Rightarrow> None)"

text \<open>The loop of the constructors: \<open>None\<close> is the \<^verbatim>\<open>SyntaxError\<close> of a line that does not parse.\<close>

fun load_lines ::
  "(string list \<Rightarrow> 'a base_entry_scheme option) \<Rightarrow> string list list
   \<Rightarrow> 'a base_entry_scheme memory_table \<Rightarrow> 'a base_entry_scheme memory_table option" where
  "load_lines parse [] t = Some t"
| "load_lines parse (conf # confs) t =
     (if blank_conf conf then load_lines parse confs t
      else case parse conf of
             None \<Rightarrow> None
           | Some e \<Rightarrow> load_lines parse confs (fst (set_entry e t)))"

definition RFConfig :: "(nat list \<Rightarrow> nat list) \<Rightarrow> string list \<Rightarrow> rf_config option" where
  "RFConfig ord ls = load_lines parse_config_line (map conf_fields (drop 1 ls)) (MemoryTable ord)"

text \<open>A file of links or fast paths that cannot be opened is no configuration.\<close>

definition RFISLConf :: "(nat list \<Rightarrow> nat list) \<Rightarrow> string list option \<Rightarrow> rf_islconf option" where
  "RFISLConf ord file =
     (case file of
        None \<Rightarrow> Some (MemoryTable ord)
      | Some ls \<Rightarrow> load_lines parse_isl_line (map conf_fields (drop 1 ls)) (MemoryTable ord))"

definition RFFPConf :: "(nat list \<Rightarrow> nat list) \<Rightarrow> string list option \<Rightarrow> rf_fpconf option" where
  "RFFPConf ord file =
     (case file of
        None \<Rightarrow> Some (MemoryTable ord)
      | Some ls \<Rightarrow> load_lines parse_fp_line (map conf_fields (drop 1 ls)) (MemoryTable ord))"

definition get_config_for_vm_port :: "int \<Rightarrow> int \<Rightarrow> rf_config \<Rightarrow> config_entry option" where
  "get_config_for_vm_port vm port t =
     first_entry (get_entries (\<lambda>e. cf_vm_id e = vm \<and> cf_vm_port e = port) t)"

definition get_config_for_dp_port :: "int \<Rightarrow> int \<Rightarrow> int \<Rightarrow> rf_config \<Rightarrow> config_entry option" where
  "get_config_for_dp_port ct dp port t =
     first_entry (get_entries (\<lambda>e. cf_ct_id e = ct \<and> cf_dp_id e = dp \<and> cf_dp_port e = port) t)"

text \<open>The program returns \<^verbatim>\<open>None\<close> for no entries, and its callers replace it by the empty list.\<close>

definition get_config_for_dp :: "int \<Rightarrow> int \<Rightarrow> rf_config \<Rightarrow> config_entry list" where
  "get_config_for_dp ct dp t = get_entries (\<lambda>e. cf_ct_id e = ct \<and> cf_dp_id e = dp) t"

definition get_entries_by_port :: "int \<Rightarrow> int \<Rightarrow> int \<Rightarrow> rf_islconf \<Rightarrow> isl_conf list" where
  "get_entries_by_port ct dp port t =
     get_entries (\<lambda>e. ic_ct_id e = ct \<and> ic_dp_id e = dp \<and> ic_dp_port e = port) t
     @ get_entries (\<lambda>e. ic_rem_ct e = ct \<and> ic_rem_id e = dp \<and> ic_rem_port e = port) t"

definition get_entries_by_dpid :: "int \<Rightarrow> int \<Rightarrow> rf_islconf \<Rightarrow> isl_conf list" where
  "get_entries_by_dpid ct dp t =
     get_entries (\<lambda>e. ic_ct_id e = ct \<and> ic_dp_id e = dp) t
     @ get_entries (\<lambda>e. ic_rem_ct e = ct \<and> ic_rem_id e = dp) t"

definition get_entries_all :: "rf_fpconf \<Rightarrow> fp_conf list" where
  "get_entries_all t = get_entries (\<lambda>_. True) t"

definition get_entries_for_dpid :: "int \<Rightarrow> int \<Rightarrow> rf_fpconf \<Rightarrow> fp_conf list" where
  "get_entries_for_dpid ct dp t = get_entries (\<lambda>e. fc_ct_id e = ct \<and> fc_dp_id e = dp) t"

definition get_entries_for_port :: "int \<Rightarrow> int \<Rightarrow> int \<Rightarrow> rf_fpconf \<Rightarrow> fp_conf list" where
  "get_entries_for_port ct dp port t =
     get_entries (\<lambda>e. fc_ct_id e = ct \<and> fc_dp_id e = dp \<and> fc_dp_port e = port) t"

section \<open>The contract of a table\<close>

text \<open>
  What the server relies on: a lookup finds exactly the stored entries with the property,
  storing an entry changes no other entry, and a stored entry knows its identifier.
\<close>

locale entry_table =
  fixes ok :: "'t \<Rightarrow> bool" and rows :: "'t \<Rightarrow> nat \<Rightarrow> 'e option" and ident :: "'e \<Rightarrow> nat option"
    and get :: "('e \<Rightarrow> bool) \<Rightarrow> 't \<Rightarrow> 'e list" and put :: "'e \<Rightarrow> 't \<Rightarrow> 't \<times> 'e"
  assumes set_get: "ok t \<Longrightarrow> set (get p t) = {e \<in> ran (rows t). p e}"
    and row_ident: "ok t \<Longrightarrow> rows t i = Some e \<Longrightarrow> ident e = Some i"
    and put_known: "ok t \<Longrightarrow> ident e = Some i \<Longrightarrow> rows t i \<noteq> None
      \<Longrightarrow> ok (fst (put e t)) \<and> snd (put e t) = e \<and> rows (fst (put e t)) = (rows t)(i \<mapsto> e)"
    and put_new: "ok t \<Longrightarrow> ident e = None
      \<Longrightarrow> \<exists>i. rows t i = None \<and> ok (fst (put e t)) \<and> ident (snd (put e t)) = Some i
            \<and> rows (fst (put e t)) = (rows t)(i \<mapsto> snd (put e t))"
begin

lemma get_row:
  assumes "ok t" "e \<in> set (get p t)"
  shows "p e \<and> (\<exists>i. ident e = Some i \<and> rows t i = Some e)"
  using assms set_get [OF assms(1), of p] row_ident [OF assms(1)] by (auto simp: ran_def)

lemma first_Some:
  assumes "ok t" "first_entry (get p t) = Some e"
  shows "p e \<and> (\<exists>i. ident e = Some i \<and> rows t i = Some e)"
  using get_row [OF assms(1), of e p] assms(2) by (auto simp: first_entry_def split: list.splits)

lemma first_None:
  assumes "ok t" "first_entry (get p t) = None" "rows t i = Some e"
  shows "\<not> p e"
proof -
  have "get p t = []" using assms(2) by (simp add: first_entry_def split: list.splits)
  then show ?thesis using set_get [OF assms(1), of p] assms(3) by (auto simp: ran_def)
qed

lemma put_row:
  assumes "ok t" "ident e = Some i" "rows t i \<noteq> None"
  shows "ok (fst (put e t))" "rows (fst (put e t)) j = (if j = i then Some e else rows t j)"
  using put_known [OF assms] by auto

text \<open>A property of all entries is kept when the stored entry has it.\<close>

lemma put_all:
  assumes "ok t" "\<forall>i e. rows t i = Some e \<longrightarrow> P e" "P (snd (put e t))"
    and "ident e = None \<or> (\<exists>i. ident e = Some i \<and> rows t i \<noteq> None)"
  shows "ok (fst (put e t)) \<and> (\<forall>i e'. rows (fst (put e t)) i = Some e' \<longrightarrow> P e')"
  using assms(4)
proof
  assume "ident e = None"
  from put_new [OF assms(1) this] obtain i where "ok (fst (put e t))"
    "rows (fst (put e t)) = (rows t)(i \<mapsto> snd (put e t))" by blast
  then show ?thesis using assms(2,3) by auto
next
  assume "\<exists>i. ident e = Some i \<and> rows t i \<noteq> None"
  then obtain i where i: "ident e = Some i" "rows t i \<noteq> None" by blast
  then show ?thesis using put_known [OF assms(1) i] assms(2,3) by auto
qed

end

definition good_order :: "(nat list \<Rightarrow> nat list) \<Rightarrow> bool" where
  "good_order ord \<longleftrightarrow> (\<forall>ks. distinct ks \<longrightarrow> distinct (ord ks) \<and> set (ord ks) = set ks)"

definition entry_rows :: "'e memory_table \<Rightarrow> nat \<Rightarrow> 'e option" where
  "entry_rows t = map_of (mt_data t)"

definition table_ok :: "'a base_entry_scheme memory_table \<Rightarrow> bool" where
  "table_ok t \<longleftrightarrow> good_order (mt_order t) \<and> distinct (map fst (mt_data t))
     \<and> (\<forall>(i, e) \<in> set (mt_data t). e_id e = Some i \<and> i \<le> mt_next t)"

lemma table_ok_row:
  assumes "table_ok t" "entry_rows t i = Some e"
  shows "e_id e = Some i \<and> i \<le> mt_next t"
  using assms by (auto simp: table_ok_def entry_rows_def dest: map_of_SomeD)

lemma map_filter_keys:
  assumes "set ks = fst ` set al"
  shows "set (List.map_filter (map_of al) ks) = ran (map_of al)"
proof -
  have "set ks = dom (map_of al)" using assms by (simp add: dom_map_of_conv_image_fst)
  then show ?thesis by (force simp: List.map_filter_def ran_def)
qed

lemma set_get_entries:
  assumes "table_ok t"
  shows "set (get_entries p t) = {e \<in> ran (entry_rows t). p e}"
proof -
  have "set (mt_order t (map fst (mt_data t))) = fst ` set (mt_data t)"
    using assms by (simp add: table_ok_def good_order_def)
  from map_filter_keys [OF this] show ?thesis by (auto simp: get_entries_def entry_rows_def)
qed

lemma distinct_get_entries:
  assumes "table_ok t"
  shows "distinct (get_entries p t)"
proof -
  let ?ks = "filter (\<lambda>k. map_of (mt_data t) k \<noteq> None) (mt_order t (map fst (mt_data t)))"
  have "e_id (the (map_of (mt_data t) k)) = Some k" if "k \<in> set ?ks" for k
    using that table_ok_row [OF assms] by (auto simp: entry_rows_def)
  then have "inj_on (\<lambda>k. the (map_of (mt_data t) k)) (set ?ks)" by (metis (no_types, lifting) inj_onI option.inject)
  moreover have "distinct ?ks" using assms by (simp add: table_ok_def good_order_def)
  ultimately show ?thesis by (simp add: get_entries_def List.map_filter_def distinct_map comp_def)
qed

lemma table_ok_update:
  assumes "table_ok t" "e_id e = Some i" "i \<le> n" "mt_next t \<le> n"
  shows "table_ok (t\<lparr>mt_next := n, mt_data := AList.update i e (mt_data t)\<rparr>)"
  unfolding table_ok_def
proof (intro conjI ballI)
  fix x assume "x \<in> set (mt_data (t\<lparr>mt_next := n, mt_data := AList.update i e (mt_data t)\<rparr>))"
  then have "x \<in> insert (i, e) (set (mt_data t))" using set_update_subset [of i e "mt_data t"] by auto
  then show "case x of (j, f) \<Rightarrow> e_id f = Some j \<and> j \<le> mt_next (t\<lparr>mt_next := n, mt_data := AList.update i e (mt_data t)\<rparr>)"
    using assms by (auto simp: table_ok_def)
qed (use assms in \<open>simp_all add: table_ok_def distinct_update\<close>)

interpretation memory: entry_table "table_ok :: 'a base_entry_scheme memory_table \<Rightarrow> bool" entry_rows e_id get_entries set_entry
proof
  fix t :: "'a base_entry_scheme memory_table" and p assume "table_ok t"
  then show "set (get_entries p t) = {e \<in> ran (entry_rows t). p e}" by (rule set_get_entries)
next
  fix t :: "'a base_entry_scheme memory_table" and i e assume "table_ok t" "entry_rows t i = Some e"
  then show "e_id e = Some i" using table_ok_row by blast
next
  fix t :: "'a base_entry_scheme memory_table" and e :: "'a base_entry_scheme" and i
  assume a: "table_ok t" "e_id e = Some i" "entry_rows t i \<noteq> None"
  then have "i \<le> mt_next t" using table_ok_row by blast
  then have "table_ok (t\<lparr>mt_data := AList.update i e (mt_data t)\<rparr>)"
    using table_ok_update [OF a(1,2) _ order_refl] by simp
  then show "table_ok (fst (set_entry e t)) \<and> snd (set_entry e t) = e
      \<and> entry_rows (fst (set_entry e t)) = (entry_rows t)(i \<mapsto> e)"
    using a(2) by (simp add: set_entry_def entry_rows_def update_conv')
next
  fix t :: "'a base_entry_scheme memory_table" and e :: "'a base_entry_scheme" assume a: "table_ok t" "e_id e = None"
  let ?i = "mt_next t + 1" let ?e = "e\<lparr>e_id := Some ?i\<rparr>"
  have "table_ok (t\<lparr>mt_next := ?i, mt_data := AList.update ?i ?e (mt_data t)\<rparr>)"
    by (rule table_ok_update [OF a(1)]) simp_all
  moreover have "entry_rows t ?i = None" using table_ok_row [OF a(1)] by (cases "entry_rows t ?i") fastforce+
  ultimately show "\<exists>i. entry_rows t i = None \<and> table_ok (fst (set_entry e t)) \<and> e_id (snd (set_entry e t)) = Some i
      \<and> entry_rows (fst (set_entry e t)) = (entry_rows t)(i \<mapsto> snd (set_entry e t))"
    using a(2) by (auto simp: set_entry_def entry_rows_def update_conv' Let_def intro!: exI [of _ ?i])
qed

lemma MemoryTable_ok: "good_order ord \<Longrightarrow> table_ok (MemoryTable ord) \<and> entry_rows (MemoryTable ord) = Map.empty"
  by (simp add: MemoryTable_def table_ok_def entry_rows_def)

lemma load_lines_ok:
  assumes "load_lines parse confs t = Some u" "table_ok t" "\<And>conf e. parse conf = Some e \<Longrightarrow> e_id e = None"
  shows "table_ok u"
  using assms(1,2)
proof (induction confs arbitrary: t)
  case (Cons conf confs)
  show ?case
  proof (cases "blank_conf conf")
    case False
    then obtain e where e: "parse conf = Some e" "load_lines parse confs (fst (set_entry e t)) = Some u"
      using Cons.prems(1) by (auto split: option.splits)
    have "table_ok (fst (set_entry e t))" using memory.put_new [OF Cons.prems(2) assms(3) [OF e(1)]] by blast
    then show ?thesis by (rule Cons.IH [OF e(2)])
  qed (use Cons in simp)
qed simp

lemma load_lines_rows:
  assumes "load_lines parse confs t = Some u" "table_ok t" "\<And>conf e. parse conf = Some e \<Longrightarrow> e_id e = None"
    and "\<And>conf e i. parse conf = Some e \<Longrightarrow> P (e\<lparr>e_id := Some i\<rparr>)" "\<forall>i e. entry_rows t i = Some e \<longrightarrow> P e"
  shows "\<forall>i e. entry_rows u i = Some e \<longrightarrow> P e"
  using assms(1,2,5)
proof (induction confs arbitrary: t)
  case (Cons conf confs)
  show ?case
  proof (cases "blank_conf conf")
    case True then show ?thesis using Cons by simp
  next
    case False
    then obtain e where e: "parse conf = Some e" "load_lines parse confs (fst (set_entry e t)) = Some u"
      using Cons.prems(1) by (auto split: option.splits)
    have n: "e_id e = None" by (rule assms(3) [OF e(1)])
    have "P (snd (set_entry e t))" using assms(4) [OF e(1)] n by (simp add: set_entry_def Let_def)
    from memory.put_all [OF Cons.prems(2,3) this] n
    have "table_ok (fst (set_entry e t)) \<and> (\<forall>i e'. entry_rows (fst (set_entry e t)) i = Some e' \<longrightarrow> P e')" by blast
    then show ?thesis using Cons.IH [OF e(2)] by blast
  qed
qed simp

lemma parse_line_id:
  "parse_config_line conf = Some e \<Longrightarrow> e_id e = None \<and> cf_fp_label e = None"
  "parse_isl_line conf = Some l \<Longrightarrow> e_id l = None"
  "parse_fp_line conf = Some f \<Longrightarrow> e_id f = None"
  by (auto simp: parse_config_line_def parse_isl_line_def parse_fp_line_def bind_eq_Some_conv split: list.splits)

lemma RFConfig_ok:
  assumes "good_order ord" "RFConfig ord ls = Some conf"
  shows "table_ok conf \<and> (\<forall>i e. entry_rows conf i = Some e \<longrightarrow> cf_fp_label e = None)"
proof
  have t: "table_ok (MemoryTable ord :: rf_config)" "entry_rows (MemoryTable ord :: rf_config) = Map.empty"
    by (simp_all add: MemoryTable_ok assms(1))
  show "table_ok conf"
    using load_lines_ok [OF assms(2) [unfolded RFConfig_def] t(1)] parse_line_id(1) by blast
  show "\<forall>i e. entry_rows conf i = Some e \<longrightarrow> cf_fp_label e = None"
    by (rule load_lines_rows [OF assms(2) [unfolded RFConfig_def] t(1)]) (use t(2) parse_line_id(1) in auto)
qed

lemma RFISLConf_ok: "good_order ord \<Longrightarrow> RFISLConf ord file = Some t \<Longrightarrow> table_ok t"
  using load_lines_ok [of parse_isl_line] MemoryTable_ok parse_line_id(2)
  by (auto simp: RFISLConf_def split: option.splits)

lemma RFFPConf_ok: "good_order ord \<Longrightarrow> RFFPConf ord file = Some t \<Longrightarrow> table_ok t"
  using load_lines_ok [of parse_fp_line] MemoryTable_ok parse_line_id(3)
  by (auto simp: RFFPConf_def split: option.splits)

end
