(* ===== verification/RF_FastPath.thy ===== *)
theory RF_FastPath
  imports RF_Table RF_Protocol
begin

text \<open>
  Fast paths (\<^verbatim>\<open>rfserver/rffastpath.py\<close>): the VLAN labels that mark the traffic of a port, and the
  search that gives every switch its shortest path to the controller and labels the ports on the
  way. The command line tool of the same file, which programs the switch of the controller, is not
  modelled, nor are the methods of the labeller that only it and the proxy call.
\<close>

section \<open>Labels\<close>

definition rfaction_push_meta :: "int \<Rightarrow> route_mod \<Rightarrow> route_mod option" where
  "rfaction_push_meta label rm = add_action (Action_SET_VLAN_ID label) rm"

definition rfaction_pop_meta :: "route_mod \<Rightarrow> route_mod option" where
  "rfaction_pop_meta rm = add_action Action_STRIP_VLAN rm"

definition rfmatch_meta :: "int \<Rightarrow> route_mod \<Rightarrow> route_mod option" where
  "rfmatch_meta label rm = add_match (Match_VLAN_ID label) rm"

text \<open>The label given out and the next one; \<open>None\<close> is the \<^verbatim>\<open>OverflowError\<close>.\<close>

definition allocate_label :: "int \<Rightarrow> (int \<times> int) option" where
  "allocate_label label = (if label \<ge> 2 ^ 11 then None else Some (label, label + 1))"

section \<open>The search\<close>

text \<open>A link towards the controller: a link between switches or an attachment of the controller.\<close>

datatype fp_link = ISL isl_conf | FP fp_conf

fun link_dp_id :: "fp_link \<Rightarrow> int" where
  "link_dp_id (ISL l) = ic_dp_id l"
| "link_dp_id (FP l) = fc_dp_id l"

text \<open>An attachment has no remote end; reading it raises.\<close>

fun link_rem_id :: "fp_link \<Rightarrow> int option" where
  "link_rem_id (ISL l) = Some (ic_rem_id l)"
| "link_rem_id (FP l) = None"

fun link_master :: "fp_link \<Rightarrow> int option" where
  "link_master (ISL l) = ic_fp_master l"
| "link_master (FP l) = fc_fp_master l"

text \<open>Links in the search always have the attribute \<^verbatim>\<open>fast_paths\<close>.\<close>

fun link_paths :: "fp_link \<Rightarrow> (int \<times> int) list" where
  "link_paths (ISL l) = (case ic_fast_paths l of None \<Rightarrow> [] | Some ps \<Rightarrow> ps)"
| "link_paths (FP l) = fc_fast_paths l"

fun set_master :: "int option \<Rightarrow> fp_link \<Rightarrow> fp_link" where
  "set_master m (ISL l) = ISL (l\<lparr>ic_fp_master := m\<rparr>)"
| "set_master m (FP l) = FP (l\<lparr>fc_fp_master := m\<rparr>)"

fun add_paths :: "(int \<times> int) list \<Rightarrow> fp_link \<Rightarrow> fp_link" where
  "add_paths ps (ISL l) = ISL (l\<lparr>ic_fast_paths := Some (link_paths (ISL l) @ ps)\<rparr>)"
| "add_paths ps (FP l) = FP (l\<lparr>fc_fast_paths := fc_fast_paths l @ ps\<rparr>)"

record fp_state =
  fs_label :: int
  fs_conf :: rf_config
  fs_fpconf :: rf_fpconf
  fs_islconf :: rf_islconf

fun save_link :: "fp_link \<Rightarrow> fp_state \<Rightarrow> fp_state" where
  "save_link (ISL l) st = st\<lparr>fs_islconf := fst (set_entry l (fs_islconf st))\<rparr>"
| "save_link (FP l) st = st\<lparr>fs_fpconf := fst (set_entry l (fs_fpconf st))\<rparr>"

text \<open>
  The loop over the ports of the switch: ports without label get one; at the first port that has
  one the loop is left. The result tells whether it was left.
\<close>

fun label_ports :: "config_entry list \<Rightarrow> fp_link \<Rightarrow> fp_state \<Rightarrow> (bool \<times> fp_link \<times> fp_state) option" where
  "label_ports [] link st = Some (False, link, st)"
| "label_ports (port # ports) link st =
     (case cf_fp_label port of
        Some _ \<Rightarrow> Some (True, link, st)
      | None \<Rightarrow>
          (case allocate_label (fs_label st) of
             None \<Rightarrow> None
           | Some (label, next) \<Rightarrow>
               label_ports ports (add_paths [(label, cf_vm_port port)] link)
                 (st\<lparr>fs_label := next, fs_conf := fst (set_entry (port\<lparr>cf_fp_label := Some label\<rparr>) (fs_conf st))\<rparr>)))"

type_synonym check = "int \<times> int \<times> fp_link"

fun next_links :: "int \<Rightarrow> int \<Rightarrow> isl_conf list \<Rightarrow> fp_state \<Rightarrow> check list \<times> fp_state" where
  "next_links ct my [] st = ([], st)"
| "next_links ct my (hop # hops) st =
     (case ic_fast_paths hop of
        Some _ \<Rightarrow> next_links ct my hops st
      | None \<Rightarrow>
          (let hop = hop\<lparr>ic_fast_paths := Some []\<rparr>;
               (ns, st) = next_links ct my hops (save_link (ISL hop) st)
           in ((ct, my, ISL hop) # ns, st)))"

definition check_link :: "check \<Rightarrow> fp_state \<Rightarrow> (fp_link \<times> check list \<times> fp_state) option" where
  "check_link = (\<lambda>(ct, parent, link) st.
     case (if parent = link_dp_id link then link_rem_id link else Some (link_dp_id link)) of
       None \<Rightarrow> None
     | Some my \<Rightarrow>
         (case label_ports (get_config_for_dp ct my (fs_conf st)) link st of
            None \<Rightarrow> None
          | Some (left, link, st) \<Rightarrow>
              if left then (let link = set_master None link in Some (link, [], save_link link st))
              else
                (let link = set_master (Some parent) link; st = save_link link st;
                     (ns, st) = next_links ct my (get_entries_by_dpid ct my (fs_islconf st)) st
                 in Some (link, ns, st))))"

fun check_links :: "check list \<Rightarrow> fp_state \<Rightarrow> (check list \<times> check list \<times> fp_state) option" where
  "check_links [] st = Some ([], [], st)"
| "check_links (c # cs) st =
     (case check_link c st of
        None \<Rightarrow> None
      | Some (link, ns, st) \<Rightarrow>
          (case check_links cs st of
             None \<Rightarrow> None
           | Some (cs, ns', st) \<Rightarrow> Some ((fst c, fst (snd c), link) # cs, ns @ ns', st)))"

text \<open>
  Pulling the labels up: an iterator over the links moves forward to the link one end of which is
  the switch a deeper link hangs from; running off the end raises.
\<close>

definition touches :: "int \<Rightarrow> fp_link \<Rightarrow> bool" where
  "touches dp x \<longleftrightarrow> link_dp_id x = dp \<or> (case link_rem_id x of None \<Rightarrow> -1 | Some r \<Rightarrow> r) = dp"

function pull_up :: "check list \<Rightarrow> check list \<Rightarrow> fp_state \<Rightarrow> (check list \<times> fp_state) option" where
  "pull_up cs [] st = Some (cs, st)"
| "pull_up [] (n # ns) st = None"
| "pull_up ((ct, parent, x) # cs) ((nct, dp, hop) # ns) st =
     (if touches dp x then
        (let x = add_paths (link_paths hop) x in pull_up ((ct, parent, x) # cs) ns (save_link x st))
      else map_option (\<lambda>(cs, st). ((ct, parent, x) # cs, st)) (pull_up cs ((nct, dp, hop) # ns) st))"
  by pat_completeness auto
termination
  by (relation "measure (\<lambda>(cs, ns, st). length cs + length ns)") auto

text \<open>The log line of a link that carries labels raises when the link leads to no master.\<close>

definition log_ok :: "fp_link \<Rightarrow> bool" where
  "log_ok x \<longleftrightarrow> link_paths x = [] \<or>
     (case link_master x of None \<Rightarrow> False | Some m \<Rightarrow> link_dp_id x \<noteq> m \<or> link_rem_id x \<noteq> None)"

text \<open>What a level does after the deeper ones: pull their labels up, and print its links.\<close>

definition finish_level :: "check list \<Rightarrow> (check list \<times> fp_state) option \<Rightarrow> (check list \<times> fp_state) option" where
  "finish_level cs deeper = do {
     (next_set, st) \<leftarrow> deeper;
     (cs, st) \<leftarrow> (if cs = [] then None else pull_up cs next_set st);
     if list_all (\<lambda>(_, _, x). log_ok x) cs then Some (cs, st) else None }"

text \<open>
  The outer option is \<open>None\<close> when the recursion does not end, the inner one when an exception is
  raised.
\<close>

partial_function (option) shortest_recursive ::
  "check list \<Rightarrow> fp_state \<Rightarrow> (check list \<times> fp_state) option option" where
  "shortest_recursive check_set st =
     (case check_links check_set st of
        None \<Rightarrow> Some None
      | Some (cs, next_set, st) \<Rightarrow>
          Option.bind (if next_set \<noteq> [] then shortest_recursive next_set st else Some (Some (next_set, st)))
            (\<lambda>deeper. Some (finish_level cs deeper)))"

definition fp_allocate_labels :: "fp_state \<Rightarrow> fp_state option option" where
  "fp_allocate_labels st =
     (let fplinks = get_entries_all (fs_fpconf st)
      in if fplinks = [] then Some (Some st)
         else map_option (map_option snd)
                (shortest_recursive (map (\<lambda>l. (fc_ct_id l, -1, FP l)) fplinks) st))"

end
