(* ===== verification/RF_Labels.thy ===== *)
theory RF_Labels
  imports RF_FastPath
begin

text \<open>
  The search for fast paths ends, because every level of the recursion marks a link that was not
  marked before, and gives different ports different labels.
\<close>

section \<open>The invariant of the search\<close>

definition labels_ok :: "fp_state \<Rightarrow> bool" where
  "labels_ok st \<longleftrightarrow>
     2 \<le> fs_label st \<and> fs_label st \<le> 2 ^ 11
     \<and> (\<forall>i e l. entry_rows (fs_conf st) i = Some e \<longrightarrow> cf_fp_label e = Some l \<longrightarrow> 2 \<le> l \<and> l < fs_label st)
     \<and> (\<forall>i j e f l. entry_rows (fs_conf st) i = Some e \<longrightarrow> entry_rows (fs_conf st) j = Some f
           \<longrightarrow> cf_fp_label e = Some l \<longrightarrow> cf_fp_label f = Some l \<longrightarrow> i = j)"

definition fp_ok :: "fp_state \<Rightarrow> bool" where
  "fp_ok st \<longleftrightarrow> table_ok (fs_conf st) \<and> table_ok (fs_fpconf st) \<and> table_ok (fs_islconf st) \<and> labels_ok st"

text \<open>Storing changes rows only: the tables keep their identifiers.\<close>

definition same_ids :: "fp_state \<Rightarrow> fp_state \<Rightarrow> bool" where
  "same_ids st st' \<longleftrightarrow> dom (entry_rows (fs_conf st')) = dom (entry_rows (fs_conf st))
     \<and> dom (entry_rows (fs_fpconf st')) = dom (entry_rows (fs_fpconf st))
     \<and> dom (entry_rows (fs_islconf st')) = dom (entry_rows (fs_islconf st))"

lemma same_ids_refl [simp]: "same_ids st st"
  by (simp add: same_ids_def)

lemma same_ids_trans: "same_ids st st' \<Longrightarrow> same_ids st' st'' \<Longrightarrow> same_ids st st''"
  by (simp add: same_ids_def)

text \<open>A link of the search: stored, and marked by its list of labels.\<close>

fun known_link :: "fp_state \<Rightarrow> fp_link \<Rightarrow> bool" where
  "known_link st (ISL l) \<longleftrightarrow> (\<exists>i. e_id l = Some i \<and> i \<in> dom (entry_rows (fs_islconf st))) \<and> ic_fast_paths l \<noteq> None"
| "known_link st (FP l) \<longleftrightarrow> (\<exists>i. e_id l = Some i \<and> i \<in> dom (entry_rows (fs_fpconf st)))"

lemma known_same: "same_ids st st' \<Longrightarrow> known_link st' l = known_link st l"
  by (cases l) (auto simp: same_ids_def)

lemma known_changes [simp]: "known_link st (set_master m l) = known_link st l" "known_link st l \<Longrightarrow> known_link st (add_paths ps l)"
  by (cases l; simp)+

definition unmarked :: "fp_state \<Rightarrow> nat set" where
  "unmarked st = {i. \<exists>e. entry_rows (fs_islconf st) i = Some e \<and> ic_fast_paths e = None}"

lemma finite_unmarked: "finite (unmarked st)"
proof -
  have "unmarked st \<subseteq> dom (map_of (mt_data (fs_islconf st)))" by (auto simp: unmarked_def entry_rows_def)
  then show ?thesis using finite_dom_map_of finite_subset by blast
qed

section \<open>Steps\<close>

lemma save_link_ok:
  assumes "fp_ok st" "known_link st l"
  shows "fp_ok (save_link l st)" "same_ids st (save_link l st)" "unmarked (save_link l st) \<subseteq> unmarked st"
    "l = ISL h \<Longrightarrow> e_id h = Some i \<Longrightarrow> i \<notin> unmarked (save_link l st)"
proof -
  have *: "fp_ok (save_link l st) \<and> same_ids st (save_link l st) \<and> unmarked (save_link l st) \<subseteq> unmarked st
    \<and> (\<forall>h i. l = ISL h \<longrightarrow> e_id h = Some i \<longrightarrow> i \<notin> unmarked (save_link l st))"
  proof (cases l)
    case (ISL h)
    then obtain i where i: "e_id h = Some i" "entry_rows (fs_islconf st) i \<noteq> None" "ic_fast_paths h \<noteq> None"
      using assms(2) by auto
    from memory.put_known [OF _ i(1,2)] assms(1)
    have "table_ok (fst (set_entry h (fs_islconf st)))"
      "entry_rows (fst (set_entry h (fs_islconf st))) = (entry_rows (fs_islconf st))(i \<mapsto> h)"
      by (simp_all add: fp_ok_def)
    then show ?thesis
      using assms(1) i ISL by (auto simp: fp_ok_def same_ids_def unmarked_def labels_ok_def split: if_splits)
  next
    case (FP h)
    then obtain i where i: "e_id h = Some i" "entry_rows (fs_fpconf st) i \<noteq> None" using assms(2) by auto
    from memory.put_known [OF _ i(1,2)] assms(1)
    have "table_ok (fst (set_entry h (fs_fpconf st)))"
      "entry_rows (fst (set_entry h (fs_fpconf st))) = (entry_rows (fs_fpconf st))(i \<mapsto> h)"
      by (simp_all add: fp_ok_def)
    then show ?thesis
      using assms(1) i FP by (auto simp: fp_ok_def same_ids_def unmarked_def labels_ok_def split: if_splits)
  qed
  then show "fp_ok (save_link l st)" "same_ids st (save_link l st)" "unmarked (save_link l st) \<subseteq> unmarked st"
    "l = ISL h \<Longrightarrow> e_id h = Some i \<Longrightarrow> i \<notin> unmarked (save_link l st)" by blast+
qed

lemma label_port_ok:
  assumes "fp_ok st" "e_id port = Some i" "entry_rows (fs_conf st) i \<noteq> None" "allocate_label (fs_label st) = Some (label, nxt)"
  defines "st' \<equiv> st\<lparr>fs_label := nxt, fs_conf := fst (set_entry (port\<lparr>cf_fp_label := Some label\<rparr>) (fs_conf st))\<rparr>"
  shows "fp_ok st' \<and> same_ids st st' \<and> unmarked st' = unmarked st"
proof -
  let ?p = "port\<lparr>cf_fp_label := Some label\<rparr>"
  have l: "label = fs_label st" "nxt = fs_label st + 1" "fs_label st < 2 ^ 11"
    using assms(4) by (auto simp: allocate_label_def split: if_splits)
  have "table_ok (fs_conf st)" using assms(1) by (simp add: fp_ok_def)
  from memory.put_known [OF this, of ?p i] assms(2,3)
  have t: "table_ok (fst (set_entry ?p (fs_conf st)))"
    "entry_rows (fst (set_entry ?p (fs_conf st))) = (entry_rows (fs_conf st))(i \<mapsto> ?p)" by simp_all
  have old: "cf_fp_label e = Some x \<Longrightarrow> entry_rows (fs_conf st) j = Some e \<Longrightarrow> 2 \<le> x \<and> x < fs_label st" for j e x
    using assms(1) by (auto simp: fp_ok_def labels_ok_def)
  have uniq: "entry_rows (fs_conf st) j = Some e \<Longrightarrow> entry_rows (fs_conf st) k = Some f
      \<Longrightarrow> cf_fp_label e = Some x \<Longrightarrow> cf_fp_label f = Some x \<Longrightarrow> j = k" for j k e f x
    using assms(1) unfolding fp_ok_def labels_ok_def by blast
  have r: "entry_rows (fs_conf st') = (entry_rows (fs_conf st))(i \<mapsto> ?p)" "fs_label st' = fs_label st + 1"
    using t(2) l(2) by (simp_all add: st'_def)
  have low: "2 \<le> fs_label st" using assms(1) by (simp add: fp_ok_def labels_ok_def)
  have "labels_ok st'"
    unfolding labels_ok_def
  proof (intro conjI allI impI)
    show "2 \<le> fs_label st'" "fs_label st' \<le> 2 ^ 11" using low l(3) r(2) by simp_all
  next
    fix j e x assume "entry_rows (fs_conf st') j = Some e" "cf_fp_label e = Some x"
    then show "2 \<le> x" "x < fs_label st'"
      using old [of e x j] l(1) low r by (auto split: if_splits)
  next
    fix j k e f x
    assume "entry_rows (fs_conf st') j = Some e" "entry_rows (fs_conf st') k = Some f" "cf_fp_label e = Some x" "cf_fp_label f = Some x"
    then show "j = k" using old [of e x j] old [of f x k] uniq [of j e k f x] l(1) r(1) by (auto split: if_splits)
  qed
  then show ?thesis using assms(1-3) t by (auto simp: st'_def fp_ok_def same_ids_def unmarked_def)
qed

lemma label_ports_ok:
  assumes "label_ports ports l st = Some (b, l', st')" "fp_ok st" "known_link st l"
    and "\<forall>p \<in> set ports. \<exists>i. e_id p = Some i \<and> i \<in> dom (entry_rows (fs_conf st))"
  shows "fp_ok st' \<and> same_ids st st' \<and> known_link st' l' \<and> unmarked st' = unmarked st"
  using assms
proof (induction ports arbitrary: l st)
  case (Cons p ports)
  show ?case
  proof (cases "cf_fp_label p")
    case (Some x) then show ?thesis using Cons.prems by simp
  next
    case None
    then obtain label nxt where a: "allocate_label (fs_label st) = Some (label, nxt)"
      using Cons.prems(1) by (auto split: option.splits)
    let ?st = "st\<lparr>fs_label := nxt, fs_conf := fst (set_entry (p\<lparr>cf_fp_label := Some label\<rparr>) (fs_conf st))\<rparr>"
    obtain i where "e_id p = Some i" "entry_rows (fs_conf st) i \<noteq> None" using Cons.prems(4) by auto
    from label_port_ok [OF Cons.prems(2) this a]
    have st: "fp_ok ?st" "same_ids st ?st" "unmarked ?st = unmarked st" by blast+
    have "known_link ?st (add_paths [(label, cf_vm_port p)] l)"
      using Cons.prems(3) known_same [OF st(2)] by simp
    moreover have "\<forall>p \<in> set ports. \<exists>i. e_id p = Some i \<and> i \<in> dom (entry_rows (fs_conf ?st))"
      using Cons.prems(4) st(2) by (simp add: same_ids_def)
    ultimately have "fp_ok st' \<and> same_ids ?st st' \<and> known_link st' l' \<and> unmarked st' = unmarked ?st"
      using Cons.IH Cons.prems(1) None a st(1) by simp
    then show ?thesis using st same_ids_trans by auto
  qed
qed simp

lemma next_links_ok:
  assumes "next_links ct my hops st = (ns, st')" "fp_ok st"
    and "\<forall>h \<in> set hops. \<exists>i. e_id h = Some i \<and> i \<in> dom (entry_rows (fs_islconf st))"
  shows "fp_ok st' \<and> same_ids st st' \<and> unmarked st' \<subseteq> unmarked st \<and> (\<forall>(_, _, l) \<in> set ns. known_link st' l)
    \<and> (ns \<noteq> [] \<longrightarrow> (\<exists>h \<in> set hops. \<exists>i. ic_fast_paths h = None \<and> e_id h = Some i \<and> i \<notin> unmarked st'))"
  using assms
proof (induction hops arbitrary: st ns)
  case (Cons h hops)
  show ?case
  proof (cases "ic_fast_paths h")
    case (Some x) then show ?thesis using Cons.IH [of st ns] Cons.prems by auto
  next
    case None
    let ?h = "h\<lparr>ic_fast_paths := Some []\<rparr>" let ?st = "save_link (ISL ?h) st"
    obtain ns' where ns: "next_links ct my hops ?st = (ns', st')" "ns = (ct, my, ISL ?h) # ns'"
      using Cons.prems(1) None by (auto simp: Let_def split: prod.splits)
    obtain i where i: "e_id h = Some i" "i \<in> dom (entry_rows (fs_islconf st))" using Cons.prems(3) by auto
    then have k: "known_link st (ISL ?h)" by simp
    note st = save_link_ok [OF Cons.prems(2) k]
    have "\<forall>h \<in> set hops. \<exists>i. e_id h = Some i \<and> i \<in> dom (entry_rows (fs_islconf ?st))"
      using Cons.prems(3) st(2) unfolding same_ids_def by simp
    from Cons.IH [OF ns(1) st(1) this]
    have IH: "fp_ok st'" "same_ids ?st st'" "unmarked st' \<subseteq> unmarked ?st" "\<forall>(_, _, l) \<in> set ns'. known_link st' l" by blast+
    have ids: "same_ids st st'" by (rule same_ids_trans [OF st(2) IH(2)])
    have "i \<notin> unmarked st'" using st(4) [of ?h i] i(1) IH(3) by auto
    then show ?thesis
      using IH st(3) i(1) None ids known_same [OF ids] k ns(2) by auto
  qed
qed simp

lemma config_ports_known:
  "table_ok t \<Longrightarrow> \<forall>p \<in> set (get_config_for_dp ct dp t). \<exists>i. e_id p = Some i \<and> i \<in> dom (entry_rows t)"
  using memory.get_row by (fastforce simp: get_config_for_dp_def)

lemma hops_known:
  assumes "table_ok t" "h \<in> set (get_entries_by_dpid ct dp t)"
  shows "\<exists>i. e_id h = Some i \<and> entry_rows t i = Some h"
  using memory.get_row [OF assms(1), of h] assms(2) by (auto simp: get_entries_by_dpid_def)

lemma check_link_ok:
  assumes "check_link (ct, parent, l) st = Some (l', ns, st')" "fp_ok st" "known_link st l"
  shows "fp_ok st' \<and> same_ids st st' \<and> unmarked st' \<subseteq> unmarked st \<and> known_link st' l' \<and> (\<forall>(_, _, l) \<in> set ns. known_link st' l)
    \<and> (ns \<noteq> [] \<longrightarrow> unmarked st' \<subset> unmarked st)"
proof -
  obtain my b u v where my: "(if parent = link_dp_id l then link_rem_id l else Some (link_dp_id l)) = Some my"
    and u: "label_ports (get_config_for_dp ct my (fs_conf st)) l st = Some (b, u, v)"
    using assms(1) by (auto simp: check_link_def split: option.splits)
  have "table_ok (fs_conf st)" using assms(2) by (simp add: fp_ok_def)
  from label_ports_ok [OF u assms(2,3) config_ports_known [OF this]]
  have v: "fp_ok v" "same_ids st v" "known_link v u" "unmarked v = unmarked st" by blast+
  show ?thesis
  proof (cases b)
    case True
    then have "l' = set_master None u" "ns = []" "st' = save_link (set_master None u) v"
      using assms(1) my u by (auto simp: check_link_def Let_def)
    then show ?thesis
      using save_link_ok(1-3) [OF v(1), of "set_master None u"] v same_ids_trans known_same by auto
  next
    case False
    let ?l = "set_master (Some parent) u" let ?w = "save_link ?l v"
    have w: "fp_ok ?w" "same_ids v ?w" "unmarked ?w \<subseteq> unmarked v"
      using save_link_ok(1-3) [OF v(1), of ?l] v(3) by simp_all
    have n: "next_links ct my (get_entries_by_dpid ct my (fs_islconf ?w)) ?w = (ns, st')" "l' = ?l"
      using assms(1) my u False by (auto simp: check_link_def Let_def split: prod.splits)
    have hops: "h \<in> set (get_entries_by_dpid ct my (fs_islconf ?w)) \<Longrightarrow> \<exists>i. e_id h = Some i \<and> entry_rows (fs_islconf ?w) i = Some h" for h
      using hops_known w(1) by (simp add: fp_ok_def)
    from next_links_ok [OF n(1) w(1)] hops
    have x: "fp_ok st'" "same_ids ?w st'" "unmarked st' \<subseteq> unmarked ?w" "\<forall>(_, _, l) \<in> set ns. known_link st' l"
      "ns \<noteq> [] \<Longrightarrow> \<exists>h \<in> set (get_entries_by_dpid ct my (fs_islconf ?w)). \<exists>i. ic_fast_paths h = None \<and> e_id h = Some i \<and> i \<notin> unmarked st'"
      by blast+
    have "unmarked st' \<subset> unmarked st" if some: "ns \<noteq> []"
    proof -
      obtain h i where "ic_fast_paths h = None" "entry_rows (fs_islconf ?w) i = Some h" "i \<notin> unmarked st'"
        using x(5) [OF some] hops by fastforce
      then have "i \<in> unmarked ?w - unmarked st'" by (auto simp: unmarked_def)
      then show ?thesis using x(3) w(3) v(4) by blast
    qed
    then show ?thesis
      using x w v n(2) same_ids_trans known_same by (metis (no_types, lifting) known_changes(1) subset_trans)
  qed
qed

text \<open>All links of a level.\<close>

definition level_ok :: "fp_state \<Rightarrow> check list \<Rightarrow> bool" where
  "level_ok st cs \<longleftrightarrow> (\<forall>(_, _, l) \<in> set cs. known_link st l)"

lemma level_ok_simps [simp]:
  "level_ok st []" "level_ok st ((ct, dp, l) # cs) \<longleftrightarrow> known_link st l \<and> level_ok st cs"
  "level_ok st (cs @ ds) \<longleftrightarrow> level_ok st cs \<and> level_ok st ds"
  by (simp_all add: level_ok_def ball_Un)

lemma level_same: "same_ids st st' \<Longrightarrow> level_ok st' cs = level_ok st cs"
  by (simp add: level_ok_def known_same)

lemma check_links_ok:
  assumes "check_links cs st = Some (ds, ns, st')" "fp_ok st" "level_ok st cs"
  shows "fp_ok st' \<and> same_ids st st' \<and> unmarked st' \<subseteq> unmarked st \<and> level_ok st' ds \<and> level_ok st' ns
    \<and> (ns \<noteq> [] \<longrightarrow> unmarked st' \<subset> unmarked st)"
  using assms
proof (induction cs arbitrary: st ds ns)
  case (Cons c cs)
  obtain ct dp l where c: "c = (ct, dp, l)" by (metis prod_cases3)
  obtain l' ns1 u ds2 ns2 where u: "check_link (ct, dp, l) st = Some (l', ns1, u)"
    and v: "check_links cs u = Some (ds2, ns2, st')" and eq: "ds = (ct, dp, l') # ds2" "ns = ns1 @ ns2"
    using Cons.prems(1) by (auto simp: c split: option.splits)
  have "known_link st l" using Cons.prems(3) c by simp
  from check_link_ok [OF u Cons.prems(2) this]
  have 1: "fp_ok u" "same_ids st u" "unmarked u \<subseteq> unmarked st" "known_link u l'" "level_ok u ns1"
    "ns1 \<noteq> [] \<Longrightarrow> unmarked u \<subset> unmarked st" by (auto simp: level_ok_def)
  have "level_ok u cs" using level_same [OF 1(2)] Cons.prems(3) c by simp
  from Cons.IH [OF v 1(1) this]
  have 2: "fp_ok st'" "same_ids u st'" "unmarked st' \<subseteq> unmarked u" "level_ok st' ds2" "level_ok st' ns2"
    "ns2 \<noteq> [] \<Longrightarrow> unmarked st' \<subset> unmarked u" by blast+
  show ?case
    using 1 2 eq same_ids_trans [OF 1(2) 2(2)] known_same [OF 2(2)] level_same [OF 2(2)] by auto
qed simp

lemma pull_up_ok:
  assumes "pull_up cs ns st = Some (ds, st')" "fp_ok st" "level_ok st cs"
  shows "fp_ok st' \<and> same_ids st st' \<and> level_ok st' ds"
  using assms
proof (induction cs ns st arbitrary: ds rule: pull_up.induct)
  case (3 ct parent x cs nct dp hop ns st)
  show ?case
  proof (cases "touches dp x")
    case True
    let ?x = "add_paths (link_paths hop) x" let ?st = "save_link ?x st"
    have k: "known_link st ?x" using "3.prems"(3) by simp
    note st = save_link_ok(1,2) [OF "3.prems"(2) k]
    have "level_ok ?st ((ct, parent, ?x) # cs)" using known_same [OF st(2)] level_same [OF st(2)] k "3.prems"(3) by simp
    moreover have "pull_up ((ct, parent, ?x) # cs) ns ?st = Some (ds, st')" using "3.prems"(1) True by (simp add: Let_def)
    ultimately show ?thesis using "3.IH"(1) [OF True refl _ st(1)] st(2) same_ids_trans by blast
  next
    case False
    then obtain es where es: "pull_up cs ((nct, dp, hop) # ns) st = Some (es, st')" "ds = (ct, parent, x) # es"
      using "3.prems"(1) by auto
    then have "fp_ok st' \<and> same_ids st st' \<and> level_ok st' es" using "3.IH"(2) [OF False es(1)] "3.prems"(2,3) by simp
    then show ?thesis using es(2) known_same "3.prems"(3) by auto
  qed
qed simp_all

lemma finish_level_ok:
  assumes "finish_level cs (Some (ns, st)) = Some (ds, st')" "fp_ok st" "level_ok st cs"
  shows "fp_ok st' \<and> same_ids st st' \<and> level_ok st' ds"
  using assms pull_up_ok [OF _ assms(2,3), of ns]
  by (auto simp: finish_level_def bind_eq_Some_conv split: if_splits)

text \<open>The recursion ends, and a search that does not raise keeps the invariant.\<close>

lemma shortest_recursive_ends:
  assumes "fp_ok st" "level_ok st cs"
  shows "\<exists>r. shortest_recursive cs st = Some r
    \<and> (\<forall>ds st'. r = Some (ds, st') \<longrightarrow> fp_ok st' \<and> same_ids st st' \<and> level_ok st' ds)"
  using assms
proof (induction "card (unmarked st)" arbitrary: cs st rule: less_induct)
  case less
  show ?case
  proof (cases "check_links cs st")
    case None
    then show ?thesis by (subst shortest_recursive.simps) simp
  next
    case (Some x)
    then obtain ds ns u where c: "check_links cs st = Some (ds, ns, u)" by (metis prod_cases3)
    note u = check_links_ok [OF c less.prems]
    have "\<exists>r. (if ns \<noteq> [] then shortest_recursive ns u else Some (Some (ns, u))) = Some r
        \<and> (\<forall>es v. r = Some (es, v) \<longrightarrow> fp_ok v \<and> same_ids u v)"
    proof (cases "ns = []")
      case False
      then have "card (unmarked u) < card (unmarked st)" using u psubset_card_mono finite_unmarked by metis
      moreover have "fp_ok u" "level_ok u ns" using u by blast+
      ultimately obtain r where "shortest_recursive ns u = Some r" "\<forall>es v. r = Some (es, v) \<longrightarrow> fp_ok v \<and> same_ids u v"
        using less.hyps by meson
      then show ?thesis using False by simp
    qed (use u in auto)
    then obtain r where r: "(if ns \<noteq> [] then shortest_recursive ns u else Some (Some (ns, u))) = Some r"
      and v: "\<And>es v. r = Some (es, v) \<Longrightarrow> fp_ok v \<and> same_ids u v" by blast
    have "shortest_recursive cs st = Some (finish_level ds r)"
      using c r by (subst shortest_recursive.simps) simp
    moreover have "fp_ok st' \<and> same_ids st st' \<and> level_ok st' es" if f: "finish_level ds r = Some (es, st')" for es st'
    proof -
      obtain ns' v' where rv: "r = Some (ns', v')" using f by (cases r) (auto simp: finish_level_def)
      note v' = v [OF rv]
      have "level_ok v' ds" using level_same v' u by blast
      from finish_level_ok [OF f [unfolded rv] _ this] v' u same_ids_trans show ?thesis by blast
    qed
    ultimately show ?thesis by blast
  qed
qed

lemma fp_allocate_labels_ends:
  assumes "fp_ok st"
  shows "\<exists>r. fp_allocate_labels st = Some r \<and> (\<forall>st'. r = Some st' \<longrightarrow> fp_ok st' \<and> same_ids st st')"
proof -
  let ?cs = "map (\<lambda>l. (fc_ct_id l, -1, FP l)) (get_entries_all (fs_fpconf st))"
  have "table_ok (fs_fpconf st)" using assms by (simp add: fp_ok_def)
  then have "level_ok st ?cs"
    using memory.get_row [of "fs_fpconf st"] by (fastforce simp: level_ok_def get_entries_all_def)
  from shortest_recursive_ends [OF assms this]
  show ?thesis using assms by (auto simp: fp_allocate_labels_def Let_def)
qed

lemma loaded_fp_ok:
  assumes "good_order ord" "RFConfig ord cf = Some conf" "RFISLConf ord isl_file = Some ic" "RFFPConf ord fp_file = Some fc"
  shows "fp_ok \<lparr>fs_label = 2, fs_conf = conf, fs_fpconf = fc, fs_islconf = ic\<rparr>"
  using RFConfig_ok [OF assms(1,2)] RFISLConf_ok [OF assms(1,3)] RFFPConf_ok [OF assms(1,4)]
  by (auto simp: fp_ok_def labels_ok_def)

section \<open>Properties\<close>

text \<open>
  C16: for every configuration that can be read, and whatever order tables are iterated in, the search
  for fast paths ends; when it does not raise, it keeps the set of configured ports, and the labels it
  has given to ports are VLAN identifiers from 2 to 2047, no two ports having the same one.
\<close>

theorem fast_path_labels:
  assumes "good_order ord" and "RFConfig ord cf = Some conf" and "RFISLConf ord isl_file = Some ic"
    and "RFFPConf ord fp_file = Some fc"
  shows "\<exists>r. fp_allocate_labels \<lparr>fs_label = 2, fs_conf = conf, fs_fpconf = fc, fs_islconf = ic\<rparr> = Some r
    \<and> (\<forall>st. r = Some st \<longrightarrow> dom (entry_rows (fs_conf st)) = dom (entry_rows conf)
        \<and> (\<forall>i e l. entry_rows (fs_conf st) i = Some e \<and> cf_fp_label e = Some l \<longrightarrow> 2 \<le> l \<and> l < 2 ^ 11
              \<and> (\<forall>j f. entry_rows (fs_conf st) j = Some f \<and> cf_fp_label f = Some l \<longrightarrow> j = i)))"
proof -
  obtain r where r: "fp_allocate_labels \<lparr>fs_label = 2, fs_conf = conf, fs_fpconf = fc, fs_islconf = ic\<rparr> = Some r"
    and ok: "\<And>st. r = Some st \<Longrightarrow> fp_ok st \<and> same_ids \<lparr>fs_label = 2, fs_conf = conf, fs_fpconf = fc, fs_islconf = ic\<rparr> st"
    using fp_allocate_labels_ends [OF loaded_fp_ok [OF assms]] by blast
  have "dom (entry_rows (fs_conf st)) = dom (entry_rows conf)
      \<and> (\<forall>i e l. entry_rows (fs_conf st) i = Some e \<and> cf_fp_label e = Some l \<longrightarrow> 2 \<le> l \<and> l < 2 ^ 11
            \<and> (\<forall>j f. entry_rows (fs_conf st) j = Some f \<and> cf_fp_label f = Some l \<longrightarrow> j = i))" if "r = Some st" for st
    using ok [OF that] by (fastforce simp: same_ids_def fp_ok_def labels_ok_def)
  then show ?thesis using r by blast
qed

theorem fast_path_labels_witness:
  "\<exists>conf fc r. RFConfig (\<lambda>ks. ks) [''header'', ''a,1,0,9,1'', ''a,2,0,9,2''] = Some conf
     \<and> RFFPConf (\<lambda>ks. ks) (Some [''header'', ''0,9,3,1'']) = Some fc
     \<and> fp_allocate_labels \<lparr>fs_label = 2, fs_conf = conf, fs_fpconf = fc, fs_islconf = MemoryTable (\<lambda>ks. ks)\<rparr> = Some r"
proof -
  have "\<not> Option.is_none (RFConfig (\<lambda>ks. ks) [''header'', ''a,1,0,9,1'', ''a,2,0,9,2''])" by code_simp
  then obtain conf where c: "RFConfig (\<lambda>ks. ks) [''header'', ''a,1,0,9,1'', ''a,2,0,9,2''] = Some conf"
    by (auto simp: Option.is_none_def)
  have "\<not> Option.is_none (RFFPConf (\<lambda>ks. ks) (Some [''header'', ''0,9,3,1'']))" by code_simp
  then obtain fc where f: "RFFPConf (\<lambda>ks. ks) (Some [''header'', ''0,9,3,1'']) = Some fc"
    by (auto simp: Option.is_none_def)
  have "good_order (\<lambda>ks. ks)" by (simp add: good_order_def)
  from fast_path_labels [OF this c _ f, of None "MemoryTable (\<lambda>ks. ks)"] c f show ?thesis by (auto simp: RFISLConf_def)
qed

end
