(* ===== verification/RF_Translate.thy ===== *)
theory RF_Translate
  imports RF_FastPath
begin

text \<open>
  The translators of route modifications (\<^verbatim>\<open>rfserver/rfserver.py\<close>): one object per datapath that
  turns a change of a virtual machine's routes into flow changes for the datapath. The class for a
  single table, the one for satellites and the one for the multiple tables of NoviFlow are modelled;
  the one for Corsa is never instantiated by the server and is left out. A handler that raises
  is \<open>None\<close>.
\<close>

section \<open>What a translator works on\<close>

record tables =
  tb_rf :: rf_table
  tb_isl :: isl_table
  tb_conf :: rf_config
  tb_islconf :: rf_islconf
  tb_fpconf :: rf_fpconf
  tb_fp_enabled :: bool

datatype translator_class = DefaultRouteModTranslator | SatelliteRouteModTranslator
  | NoviFlowMultitableRouteModTranslator

record translator =
  tr_class :: translator_class
  tr_dp_id :: int
  tr_ct_id :: int
  tr_sent_isl_dl :: "string option list"

definition new_translator :: "translator_class \<Rightarrow> int \<Rightarrow> int \<Rightarrow> translator" where
  "new_translator cls dp ct = \<lparr>tr_class = cls, tr_dp_id = dp, tr_ct_id = ct, tr_sent_isl_dl = []\<rparr>"

definition DROP_PRIORITY :: "tlv option" where
  "DROP_PRIORITY = Option_PRIORITY (PRIORITY_LOWEST + PRIORITY_BAND)"

definition ESTABLISH_PRIORITY :: "tlv option" where
  "ESTABLISH_PRIORITY = Option_PRIORITY (PRIORITY_LOWEST + PRIORITY_BAND + 1)"

definition CONTROLLER_PRIORITY :: "tlv option" where
  "CONTROLLER_PRIORITY = Option_PRIORITY PRIORITY_HIGH"

definition FASTPATH_PRIORITY :: "tlv option" where
  "FASTPATH_PRIORITY = Option_PRIORITY (PRIORITY_HIGH + 1)"

definition DEFAULT_PRIORITY :: "tlv option" where
  "DEFAULT_PRIORITY = Option_PRIORITY (PRIORITY_LOWEST + PRIORITY_BAND + 1000)"

text \<open>The tables of the multitable translator, and the table of fast path packets.\<close>

abbreviation FIB_TABLE :: int where "FIB_TABLE \<equiv> 2"
abbreviation ETHER_TABLE :: int where "ETHER_TABLE \<equiv> 1"

definition FP_TABLE :: "translator_class \<Rightarrow> int" where
  "FP_TABLE cls = (if cls = NoviFlowMultitableRouteModTranslator then 3 else 1)"

text \<open>An entry of either table, as the loops over both read it.\<close>

datatype table_entry = RFE rf_entry | ISLE isl_entry

fun te_dp_port :: "table_entry \<Rightarrow> int option" where
  "te_dp_port (RFE e) = re_dp_port e"
| "te_dp_port (ISLE e) = is_dp_port e"

fun te_status :: "table_entry \<Rightarrow> rf_status" where
  "te_status (RFE e) = get_status e"
| "te_status (ISLE e) = isl_get_status e"

fun te_eth_addr :: "table_entry \<Rightarrow> string option" where
  "te_eth_addr (RFE e) = re_eth_addr e"
| "te_eth_addr (ISLE e) = is_eth_addr e"

section \<open>Fast paths\<close>

fun link_ct_id :: "fp_link \<Rightarrow> int" where
  "link_ct_id (ISL l) = ic_ct_id l"
| "link_ct_id (FP l) = fc_ct_id l"

fun link_dp_port :: "fp_link \<Rightarrow> int" where
  "link_dp_port (ISL l) = ic_dp_port l"
| "link_dp_port (FP l) = fc_dp_port l"

fun link_rem_port :: "fp_link \<Rightarrow> int option" where
  "link_rem_port (ISL l) = Some (ic_rem_port l)"
| "link_rem_port (FP l) = None"

definition fp_entries :: "tables \<Rightarrow> translator \<Rightarrow> fp_link list" where
  "fp_entries tb tr =
     map FP (get_entries_for_dpid (tr_ct_id tr) (tr_dp_id tr) (tb_fpconf tb))
     @ map ISL (get_entries_by_dpid (tr_ct_id tr) (tr_dp_id tr) (tb_islconf tb))"

text \<open>The port of a link on this datapath; an attachment without remote end raises.\<close>

definition local_port :: "translator \<Rightarrow> fp_link \<Rightarrow> int option" where
  "local_port tr l =
     (if link_dp_id l = tr_dp_id tr \<and> link_ct_id l = tr_ct_id tr then Some (link_dp_port l)
      else link_rem_port l)"

text \<open>
  The port towards the controller: the inner option is \<^verbatim>\<open>None\<close> when there is no link, the outer one
  an exception. A master of 0 counts as none.
\<close>

definition get_fastpath_port :: "tables \<Rightarrow> translator \<Rightarrow> int option option" where
  "get_fastpath_port tb tr =
     (case filter (\<lambda>l. case link_master l of None \<Rightarrow> False | Some m \<Rightarrow> m \<noteq> 0 \<and> m \<noteq> tr_dp_id tr) (fp_entries tb tr) of
        [] \<Rightarrow> Some None
      | l # _ \<Rightarrow> map_option Some (local_port tr l))"

fun concat_option :: "'a list option list \<Rightarrow> 'a list option" where
  "concat_option [] = Some []"
| "concat_option (x # xs) = do { a \<leftarrow> x; b \<leftarrow> concat_option xs; Some (a @ b) }"

definition register_fpport :: "translator \<Rightarrow> int option \<Rightarrow> bool \<Rightarrow> config_entry \<Rightarrow> route_mod list option" where
  "register_fpport tr fp_port usetables port =
     (case cf_fp_label port of
        None \<Rightarrow> Some []
      | Some label \<Rightarrow> do {
          tagging \<leftarrow>
            (if usetables then do {
               rm \<leftarrow> add_match (Match_IN_PORT (Some (cf_dp_port port))) (RouteMod_init RMT_ADD (tr_dp_id tr));
               rm \<leftarrow> rfaction_push_meta label rm;
               rm \<leftarrow> add_action (Action_OUTPUT fp_port) rm;
               rm \<leftarrow> add_option CONTROLLER_PRIORITY rm;
               Some [rm\<lparr>rm_table := FP_TABLE (tr_class tr)\<rparr>] }
             else Some []);
          rm \<leftarrow> add_match (Match_IN_PORT fp_port) (RouteMod_init RMT_ADD (tr_dp_id tr));
          rm \<leftarrow> rfmatch_meta label rm;
          rm \<leftarrow> rfaction_pop_meta rm;
          rm \<leftarrow> add_action (Action_OUTPUT (Some (cf_dp_port port))) rm;
          rm \<leftarrow> add_option FASTPATH_PRIORITY rm;
          Some (tagging @ [rm]) })"

definition fp_rule :: "translator \<Rightarrow> int option \<Rightarrow> int \<Rightarrow> int option \<Rightarrow> route_mod option" where
  "fp_rule tr from label to = do {
     rm \<leftarrow> add_match (Match_IN_PORT from) (RouteMod_init RMT_ADD (tr_dp_id tr));
     rm \<leftarrow> rfmatch_meta label rm;
     rm \<leftarrow> add_action (Action_OUTPUT to) rm;
     add_option FASTPATH_PRIORITY rm }"

text \<open>Reading the labels of a link that the search has not reached raises.\<close>

fun carried_paths :: "fp_link \<Rightarrow> (int \<times> int) list option" where
  "carried_paths (ISL l) = ic_fast_paths l"
| "carried_paths (FP l) = Some (fc_fast_paths l)"

definition register_fpisl :: "translator \<Rightarrow> int option \<Rightarrow> fp_link \<Rightarrow> int option \<Rightarrow> route_mod list option" where
  "register_fpisl tr out_port l dp_port = do {
     paths \<leftarrow> carried_paths l;
     concat_option (map (\<lambda>(label, _). do {
       up \<leftarrow> fp_rule tr dp_port label out_port;
       down \<leftarrow> fp_rule tr out_port label dp_port;
       Some [up, down] }) paths) }"

definition register_fastpaths :: "tables \<Rightarrow> translator \<Rightarrow> bool \<Rightarrow> route_mod list option" where
  "register_fastpaths tb tr usetables = do {
     master_port \<leftarrow> get_fastpath_port tb tr;
     own \<leftarrow> concat_option (map (register_fpport tr master_port usetables)
              (get_config_for_dp (tr_ct_id tr) (tr_dp_id tr) (tb_conf tb)));
     carried \<leftarrow> concat_option (map (\<lambda>l. do {
                  dp_port \<leftarrow> local_port tr l;
                  register_fpisl tr master_port l (Some dp_port) })
                (filter (\<lambda>l. link_master l = Some (tr_dp_id tr)) (fp_entries tb tr)));
     Some (own @ carried) }"

section \<open>Handlers\<close>

definition eligible :: "int option \<Rightarrow> table_entry \<Rightarrow> bool" where
  "eligible out_port e \<longleftrightarrow> out_port \<noteq> te_dp_port e \<and> te_status e \<in> {RFENTRY_ACTIVE, RFISL_ACTIVE}"

definition rm_for_port :: "route_mod \<Rightarrow> table_entry \<Rightarrow> route_mod option" where
  "rm_for_port rm e = do {
     rm \<leftarrow> add_match (Match_ETHERNET (te_eth_addr e)) rm;
     add_match (Match_IN_PORT (te_dp_port e)) rm }"

definition send_rm_with_matches ::
  "translator \<Rightarrow> route_mod \<Rightarrow> int option \<Rightarrow> table_entry list \<Rightarrow> route_mod list option" where
  "send_rm_with_matches tr rm out_port entries =
     (if tr_class tr = NoviFlowMultitableRouteModTranslator
      then Some (if list_ex (eligible out_port) entries then [rm] else [])
      else concat_option (map (\<lambda>e. map_option (\<lambda>rm. [rm]) (rm_for_port rm e)) (filter (eligible out_port) entries)))"

text \<open>
  With fast paths a message that names its port ends in an exception: the matches of a message are
  dictionaries, which have no attribute \<^verbatim>\<open>value\<close>.
\<close>

definition rm_from_port :: "int option \<Rightarrow> route_mod \<Rightarrow> config_entry \<Rightarrow> route_mod option" where
  "rm_from_port master_port rm port = do {
     rm \<leftarrow> add_match (Match_IN_PORT (Some (cf_dp_port port))) rm;
     label \<leftarrow> cf_fp_label port;
     rm \<leftarrow> rfaction_push_meta label rm;
     add_action (Action_OUTPUT master_port) rm }"

definition default_controller_route_mod :: "tables \<Rightarrow> translator \<Rightarrow> route_mod \<Rightarrow> route_mod list option" where
  "default_controller_route_mod tb tr rm =
     (if tb_fp_enabled tb then do {
        master_port \<leftarrow> get_fastpath_port tb tr;
        if list_ex (\<lambda>m. t_type m = RFMT_IN_PORT) (rm_matches rm) then None
        else concat_option (map (\<lambda>port. map_option (\<lambda>rm. [rm]) (rm_from_port master_port rm port))
               (get_config_for_dp (tr_ct_id tr) (tr_dp_id tr) (tb_conf tb))) }
      else map_option (\<lambda>rm. [rm]) (add_action Action_CONTROLLER rm))"

definition novi_controller_route_mod :: "tables \<Rightarrow> translator \<Rightarrow> route_mod \<Rightarrow> route_mod list option" where
  "novi_controller_route_mod tb tr rm = do {
     rm \<leftarrow> add_action (if tb_fp_enabled tb then Action_GOTO (FP_TABLE (tr_class tr)) else Action_GROUP CONTROLLER_GROUP) rm;
     let dl_dst = filter (\<lambda>m. t_type m = RFMT_ETHERNET) (rm_matches rm);
         rm = rm\<lparr>rm_table := ETHER_TABLE, rm_matches := filter (\<lambda>m. t_type m \<noteq> RFMT_ETHERNET) (rm_matches rm)\<rparr>
     in if dl_dst = [] then Some [rm]
        else do {
          hw_rm \<leftarrow> add_match (Some (last dl_dst)) ((RouteMod_init RMT_CONTROLLER (rm_id rm))\<lparr>rm_vm_port := rm_vm_port rm\<rparr>);
          hw_rm \<leftarrow> add_action (Action_GOTO ETHER_TABLE) hw_rm;
          hw_rm \<leftarrow> add_option DEFAULT_PRIORITY hw_rm;
          Some [rm, hw_rm] } }"

definition handle_controller_route_mod :: "tables \<Rightarrow> translator \<Rightarrow> route_mod \<Rightarrow> route_mod list option" where
  "handle_controller_route_mod tb tr rm =
     (if tr_class tr = NoviFlowMultitableRouteModTranslator then novi_controller_route_mod tb tr rm
      else default_controller_route_mod tb tr rm)"

text \<open>A route: the message object as the handler leaves it, and the flow changes.\<close>

definition dp_table_entries :: "tables \<Rightarrow> int option \<Rightarrow> int option \<Rightarrow> table_entry list" where
  "dp_table_entries tb ct dp =
     map RFE (get_entries (\<lambda>e. re_dp_id e = dp \<and> re_ct_id e = ct) (tb_rf tb))
     @ map ISLE (get_entries (\<lambda>e. is_dp_id e = dp \<and> is_ct_id e = ct) (tb_isl tb))"

definition handle_route_mod ::
  "tables \<Rightarrow> translator \<Rightarrow> rf_entry \<Rightarrow> route_mod \<Rightarrow> (route_mod \<times> route_mod list) option" where
  "handle_route_mod tb tr entry rm = do {
     rm \<leftarrow> add_action (Action_OUTPUT (re_dp_port entry)) rm;
     rm \<leftarrow> (if tr_class tr = NoviFlowMultitableRouteModTranslator
            then add_option CONTROLLER_PRIORITY (rm\<lparr>rm_table := FIB_TABLE, rm_options := []\<rparr>) else Some rm);
     rms \<leftarrow> send_rm_with_matches tr rm (re_dp_port entry) (dp_table_entries tb (re_ct_id entry) (re_dp_id entry));
     Some (rm, rms) }"

definition isl_actions :: "isl_entry \<Rightarrow> route_mod \<Rightarrow> route_mod option" where
  "isl_actions r rm = do {
     rm \<leftarrow> add_action (Action_SET_ETH_SRC (is_eth_addr r)) (rm\<lparr>rm_actions := []\<rparr>);
     rm \<leftarrow> add_action (Action_SET_ETH_DST (is_rem_eth_addr r)) rm;
     add_action (Action_OUTPUT (is_dp_port r)) rm }"

definition isl_ports :: "tables \<Rightarrow> isl_entry \<Rightarrow> table_entry list" where
  "isl_ports tb r = map RFE (get_entries (\<lambda>e. re_dp_id e = is_dp_id r \<and> re_ct_id e = is_ct_id r) (tb_rf tb))"

definition default_isl_route_mod :: "tables \<Rightarrow> translator \<Rightarrow> isl_entry \<Rightarrow> route_mod \<Rightarrow> route_mod list option" where
  "default_isl_route_mod tb tr r rm = do {
     rm \<leftarrow> isl_actions r (rm\<lparr>rm_id := tr_dp_id tr, rm_table := 0\<rparr>);
     send_rm_with_matches tr rm (is_dp_port r) (isl_ports tb r) }"

text \<open>
  The satellite: the destination is remembered before the flows are built, so the translator is
  changed even when building them raises.
\<close>

definition satellite_isl_ethertype ::
  "tables \<Rightarrow> isl_entry \<Rightarrow> int \<Rightarrow> translator \<times> route_mod \<times> route_mod list option
   \<Rightarrow> translator \<times> route_mod \<times> route_mod list option" where
  "satellite_isl_ethertype tb r ethertype = (\<lambda>(tr, rm, res).
     case res of
       None \<Rightarrow> (tr, rm, None)
     | Some rms \<Rightarrow>
         (case do {
            rm \<leftarrow> add_match (Match_ETHERTYPE ethertype) (rm\<lparr>rm_matches := []\<rparr>);
            add_option DEFAULT_PRIORITY (rm\<lparr>rm_options := []\<rparr>) } of
            None \<Rightarrow> (tr, rm, None)
          | Some rm \<Rightarrow>
              if is_rem_eth_addr r \<in> set (tr_sent_isl_dl tr) then (tr, rm, Some rms)
              else
                (let tr = tr\<lparr>tr_sent_isl_dl := is_rem_eth_addr r # tr_sent_isl_dl tr\<rparr>
                 in case do {
                      rm \<leftarrow> isl_actions r (rm\<lparr>rm_id := tr_dp_id tr, rm_table := 0\<rparr>);
                      sent \<leftarrow> send_rm_with_matches tr rm (is_dp_port r) (isl_ports tb r);
                      Some (rm, sent) } of
                      None \<Rightarrow> (tr, rm, None)
                    | Some (rm, sent) \<Rightarrow> (tr, rm, Some (rms @ sent)))))"

definition satellite_isl_route_mod ::
  "tables \<Rightarrow> translator \<Rightarrow> isl_entry \<Rightarrow> route_mod \<Rightarrow> translator \<times> route_mod list option" where
  "satellite_isl_route_mod tb tr r rm =
     (let (tr, rm, res) = fold (satellite_isl_ethertype tb r) [ETHERTYPE_IP, ETHERTYPE_IPV6] (tr, rm, Some [])
      in (tr, res))"

definition novi_isl_route_mod :: "tables \<Rightarrow> translator \<Rightarrow> isl_entry \<Rightarrow> route_mod \<Rightarrow> route_mod list option" where
  "novi_isl_route_mod tb tr r rm = do {
     rm \<leftarrow> add_option CONTROLLER_PRIORITY (rm\<lparr>rm_id := tr_dp_id tr, rm_table := FIB_TABLE, rm_options := []\<rparr>);
     rm \<leftarrow> isl_actions r rm;
     rms \<leftarrow> send_rm_with_matches tr rm (is_dp_port r) (isl_ports tb r);
     rm \<leftarrow> add_action (Action_GOTO FIB_TABLE) (rm\<lparr>rm_table := 0, rm_actions := []\<rparr>);
     rm \<leftarrow> add_match (Match_ETHERNET (if Some (tr_dp_id tr) = is_dp_id r then is_eth_addr r else is_rem_eth_addr r))
            (rm\<lparr>rm_matches := []\<rparr>);
     Some (rms @ [rm]) }"

definition handle_isl_route_mod ::
  "tables \<Rightarrow> translator \<Rightarrow> isl_entry \<Rightarrow> route_mod \<Rightarrow> translator \<times> route_mod list option" where
  "handle_isl_route_mod tb tr r rm =
     (case tr_class tr of
        DefaultRouteModTranslator \<Rightarrow> (tr, default_isl_route_mod tb tr r rm)
      | SatelliteRouteModTranslator \<Rightarrow> satellite_isl_route_mod tb tr r rm
      | NoviFlowMultitableRouteModTranslator \<Rightarrow> (tr, novi_isl_route_mod tb tr r rm))"

section \<open>Configuring a datapath\<close>

text \<open>The rule that sends packets of a type to the controller.\<close>

definition ethertype_rule :: "int \<Rightarrow> tlv option \<Rightarrow> translator \<Rightarrow> route_mod option" where
  "ethertype_rule ethertype priority tr = do {
     rm \<leftarrow> add_option priority (RouteMod_init RMT_ADD (tr_dp_id tr));
     add_match (Match_ETHERTYPE ethertype) rm }"

definition default_configure :: "tables \<Rightarrow> translator \<Rightarrow> route_mod list option" where
  "default_configure tb tr = do {
     ip \<leftarrow> ethertype_rule ETHERTYPE_IP ESTABLISH_PRIORITY tr;
     ip \<leftarrow> handle_controller_route_mod tb tr ip;
     ipv6 \<leftarrow> ethertype_rule ETHERTYPE_IPV6 ESTABLISH_PRIORITY tr;
     ipv6 \<leftarrow> handle_controller_route_mod tb tr ipv6;
     drop_rm \<leftarrow> add_option DROP_PRIORITY (RouteMod_init RMT_ADD (tr_dp_id tr));
     arp \<leftarrow> ethertype_rule ETHERTYPE_ARP CONTROLLER_PRIORITY tr;
     arp \<leftarrow> handle_controller_route_mod tb tr arp;
     fps \<leftarrow> (if tb_fp_enabled tb then register_fastpaths tb tr False else Some []);
     Some ([RouteMod_init RMT_DELETE_GROUP (tr_dp_id tr), RouteMod_init RMT_DELETE (tr_dp_id tr)]
           @ ip @ ipv6 @ [drop_rm] @ arp @ fps) }"

definition novi_configure :: "tables \<Rightarrow> translator \<Rightarrow> route_mod list option" where
  "novi_configure tb tr = do {
     grp \<leftarrow> add_action Action_CONTROLLER ((RouteMod_init RMT_ADD_GROUP (tr_dp_id tr))\<lparr>rm_group := CONTROLLER_GROUP\<rparr>);
     ip \<leftarrow> ethertype_rule ETHERTYPE_IP ESTABLISH_PRIORITY tr;
     ip \<leftarrow> handle_controller_route_mod tb tr ip;
     ipv6 \<leftarrow> ethertype_rule ETHERTYPE_IPV6 ESTABLISH_PRIORITY tr;
     ipv6 \<leftarrow> handle_controller_route_mod tb tr ipv6;
     drop_rm \<leftarrow> add_option DROP_PRIORITY (RouteMod_init RMT_ADD (tr_dp_id tr));
     bc \<leftarrow> add_match (Match_ETHERNET (Some ''ff:ff:ff:ff:ff:ff'')) (RouteMod_init RMT_ADD (tr_dp_id tr));
     bc \<leftarrow> add_action (Action_GOTO ETHER_TABLE) bc;
     bc \<leftarrow> add_option CONTROLLER_PRIORITY bc;
     arp \<leftarrow> ethertype_rule ETHERTYPE_ARP CONTROLLER_PRIORITY tr;
     arp \<leftarrow> handle_controller_route_mod tb tr (arp\<lparr>rm_table := ETHER_TABLE\<rparr>);
     ipv4 \<leftarrow> ethertype_rule ETHERTYPE_IP DEFAULT_PRIORITY tr;
     ipv4 \<leftarrow> add_action (Action_GOTO FIB_TABLE) (ipv4\<lparr>rm_table := ETHER_TABLE\<rparr>);
     fps \<leftarrow> (if tb_fp_enabled tb then register_fastpaths tb tr True else Some []);
     Some ([RouteMod_init RMT_DELETE_GROUP (tr_dp_id tr), grp, RouteMod_init RMT_DELETE (tr_dp_id tr)]
           @ map (rm_table_update (\<lambda>_. FIB_TABLE)) ip @ map (rm_table_update (\<lambda>_. FIB_TABLE)) ipv6
           @ map (\<lambda>table. drop_rm\<lparr>rm_table := table\<rparr>) [0, ETHER_TABLE, FIB_TABLE]
           @ [bc] @ arp @ [ipv4] @ fps) }"

definition configure_datapath :: "tables \<Rightarrow> translator \<Rightarrow> route_mod list option" where
  "configure_datapath tb tr =
     (if tr_class tr = NoviFlowMultitableRouteModTranslator then novi_configure tb tr else default_configure tb tr)"

end
