(* ===== verification/RF_Server.thy ===== *)
theory RF_Server
  imports RF_Translate
begin

text \<open>
  The server (\<^verbatim>\<open>rfserver/rfserver.py\<close>, class \<^verbatim>\<open>RFServer\<close>): it associates the ports of virtual machines
  with the ports of datapaths as the configuration says, activates the associations, and passes
  the routes of the virtual machines on to the datapaths.

  Each channel is served by a thread of its own, which ends when a handler raises; a third thread
  takes the route modifications from a queue and sends them. A handler returns the state it has
  reached and whether it ended without exception. Handlers run as one step; the two halves of the
  registration handlers, which read the tables and then change them, are separate definitions, so
  that their interleaving can be stated too. Log messages are not modelled.
\<close>

section \<open>State\<close>

datatype ipc_channel = RFCLIENT_RFSERVER_CHANNEL | RFSERVER_RFPROXY_CHANNEL

record server =
  sv_tb :: tables
  sv_translator :: "(int \<times> translator) list"
  sv_multitabledps :: "int list"
  sv_satellitedps :: "int list"
  sv_ack_q :: "(string \<times> message) list"
  sv_dp_q :: "(string \<times> route_mod) list"
  sv_sent :: "(ipc_channel \<times> string \<times> message) list"
  sv_client_alive :: bool
  sv_proxy_alive :: bool

abbreviation rftable :: "server \<Rightarrow> rf_table" where "rftable s \<equiv> tb_rf (sv_tb s)"
abbreviation isltable :: "server \<Rightarrow> isl_table" where "isltable s \<equiv> tb_isl (sv_tb s)"
abbreviation config :: "server \<Rightarrow> rf_config" where "config s \<equiv> tb_conf (sv_tb s)"
abbreviation islconf :: "server \<Rightarrow> rf_islconf" where "islconf s \<equiv> tb_islconf (sv_tb s)"

definition upd_rf :: "(rf_table \<Rightarrow> rf_table) \<Rightarrow> server \<Rightarrow> server" where
  "upd_rf f s = s\<lparr>sv_tb := (sv_tb s)\<lparr>tb_rf := f (tb_rf (sv_tb s))\<rparr>\<rparr>"

definition upd_isl :: "(isl_table \<Rightarrow> isl_table) \<Rightarrow> server \<Rightarrow> server" where
  "upd_isl f s = s\<lparr>sv_tb := (sv_tb s)\<lparr>tb_isl := f (tb_isl (sv_tb s))\<rparr>\<rparr>"

definition save_rf :: "rf_entry \<Rightarrow> server \<Rightarrow> server" where
  "save_rf e s = upd_rf (\<lambda>t. fst (set_entry e t)) s"

definition save_isl :: "isl_entry \<Rightarrow> server \<Rightarrow> server" where
  "save_isl e s = upd_isl (\<lambda>t. fst (set_entry e t)) s"

definition ipc_send :: "ipc_channel \<Rightarrow> string \<Rightarrow> message \<Rightarrow> server \<Rightarrow> server" where
  "ipc_send ch to msg s = s\<lparr>sv_sent := sv_sent s @ [(ch, to, msg)]\<rparr>"

text \<open>A list of datapaths; one that does not parse makes the whole list empty.\<close>

definition parse_dps :: "string \<Rightarrow> int list" where
  "parse_dps arg = (case those (map (py_int 16) (split '','' arg)) of None \<Rightarrow> [] | Some ds \<Rightarrow> ds)"

text \<open>
  The constructor: the outer option is \<open>None\<close> when the search for fast paths does not end, the inner
  one when reading the configuration or the search raises.
\<close>

definition RFServer ::
  "(nat list \<Rightarrow> nat list) \<Rightarrow> string list \<Rightarrow> string list option \<Rightarrow> string list option \<Rightarrow> string \<Rightarrow> string
   \<Rightarrow> server option option" where
  "RFServer ord configfile islconffile fpfile multitabledps satellitedps =
     (case (RFConfig ord configfile, RFISLConf ord islconffile, RFFPConf ord fpfile) of
        (Some conf, Some ic, Some fc) \<Rightarrow>
          map_option (map_option (\<lambda>st.
            \<lparr>sv_tb = \<lparr>tb_rf = MemoryTable ord, tb_isl = MemoryTable ord, tb_conf = fs_conf st,
                tb_islconf = fs_islconf st, tb_fpconf = fs_fpconf st, tb_fp_enabled = (get_entries_all fc \<noteq> [])\<rparr>,
              sv_translator = [], sv_multitabledps = parse_dps multitabledps,
              sv_satellitedps = parse_dps satellitedps, sv_ack_q = [], sv_dp_q = [], sv_sent = [],
              sv_client_alive = True, sv_proxy_alive = True\<rparr>))
            (fp_allocate_labels \<lparr>fs_label = 2, fs_conf = conf, fs_fpconf = fc, fs_islconf = ic\<rparr>)
      | _ \<Rightarrow> Some None)"

section \<open>Registering ports of virtual machines\<close>

datatype reg_action = REGISTER_IDLE | REGISTER_ASSOCIATED rf_entry | REGISTER_ISL "isl_conf list" | NO_ACTION

definition vm_port_action :: "int \<Rightarrow> int \<Rightarrow> server \<Rightarrow> reg_action" where
  "vm_port_action vm port s =
     (case get_config_for_vm_port vm port (config s) of
        None \<Rightarrow> REGISTER_IDLE
      | Some c \<Rightarrow>
          (case get_entry_by_dp_port (Some (cf_ct_id c)) (Some (cf_dp_id c)) (Some (cf_dp_port c)) (rftable s) of
             None \<Rightarrow> REGISTER_IDLE
           | Some entry \<Rightarrow>
               if get_status entry = RFENTRY_IDLE_DP_PORT then REGISTER_ASSOCIATED entry else NO_ACTION))"

definition apply_vm_port :: "int \<Rightarrow> int \<Rightarrow> string \<Rightarrow> reg_action \<Rightarrow> server \<Rightarrow> server \<times> bool" where
  "apply_vm_port vm port addr action s =
     (case action of
        REGISTER_IDLE \<Rightarrow>
          (save_rf (RFEntry\<lparr>re_vm_id := Some vm, re_vm_port := Some port, re_eth_addr := Some addr\<rparr>) s, True)
      | REGISTER_ASSOCIATED entry \<Rightarrow>
          (case associate vm port None (Some addr) entry of
             None \<Rightarrow> (s, False)
           | Some entry \<Rightarrow> (save_rf entry s, True))
      | _ \<Rightarrow> (s, True))"

definition register_vm_port :: "int \<Rightarrow> int \<Rightarrow> string \<Rightarrow> server \<Rightarrow> server \<times> bool" where
  "register_vm_port vm port addr s = apply_vm_port vm port addr (vm_port_action vm port s) s"

section \<open>Route modifications\<close>

definition queue_routemod_ack :: "int \<Rightarrow> int \<Rightarrow> server \<Rightarrow> server" where
  "queue_routemod_ack vm port s =
     s\<lparr>sv_ack_q := sv_ack_q s @ [(int_to_string vm, PortConfig vm port PCT_ROUTEMOD_ACK)]\<rparr>"

definition send_route_mod :: "int option \<Rightarrow> route_mod \<Rightarrow> server \<Rightarrow> server \<times> bool" where
  "send_route_mod ct rm s =
     (case (add_option (Option_CT_ID ct) rm, ct) of
        (Some rm, Some c) \<Rightarrow> (s\<lparr>sv_dp_q := sv_dp_q s @ [(int_to_string c, rm)]\<rparr>, True)
      | _ \<Rightarrow> (s, False))"

fun send_route_mods :: "int option \<Rightarrow> route_mod list \<Rightarrow> server \<Rightarrow> server \<times> bool" where
  "send_route_mods ct [] s = (s, True)"
| "send_route_mods ct (rm # rms) s =
     (let (s, ok) = send_route_mod ct rm s in if ok then send_route_mods ct rms s else (s, False))"

definition set_translator :: "int \<Rightarrow> translator \<Rightarrow> server \<Rightarrow> server" where
  "set_translator dp tr s = s\<lparr>sv_translator := AList.update dp tr (sv_translator s)\<rparr>"

text \<open>
  The loop over the switches linked to the datapath: the translator of each active one makes its own
  flow changes. A link whose local end or whose translator is unknown raises.
\<close>

fun remote_route_mods :: "isl_entry list \<Rightarrow> route_mod \<Rightarrow> server \<Rightarrow> server \<times> route_mod list option" where
  "remote_route_mods [] rm s = (s, Some [])"
| "remote_route_mods (r # rs) rm s =
     (if isl_get_status r = RFISL_ACTIVE then
        (case is_dp_id r of
           None \<Rightarrow> (s, None)
         | Some dp \<Rightarrow>
             (case map_of (sv_translator s) dp of
                None \<Rightarrow> (s, None)
              | Some tr \<Rightarrow>
                  (let (tr, res) = handle_isl_route_mod (sv_tb s) tr r rm; s = set_translator dp tr s
                   in case res of
                        None \<Rightarrow> (s, None)
                      | Some rms \<Rightarrow>
                          (let (s, more) = remote_route_mods rs rm s
                           in (s, map_option (\<lambda>more. rms @ more) more)))))
      else remote_route_mods rs rm s)"

text \<open>The flow changes of a message for an entry, with the state they leave.\<close>

definition translate_route_mod :: "translator \<Rightarrow> rf_entry \<Rightarrow> route_mod \<Rightarrow> server \<Rightarrow> server \<times> route_mod list option" where
  "translate_route_mod tr entry rm s =
     (if rm_mod rm = RMT_CONTROLLER then (s, handle_controller_route_mod (sv_tb s) tr rm)
      else if rm_mod rm \<in> {RMT_ADD, RMT_DELETE} then
        (case handle_route_mod (sv_tb s) tr entry rm of
           None \<Rightarrow> (s, None)
         | Some (rm, rms) \<Rightarrow>
             (let (s, res) = remote_route_mods
                    (get_entries (\<lambda>r. is_rem_ct r = re_ct_id entry \<and> is_rem_id r = re_dp_id entry) (isltable s)) rm s
              in (s, map_option (\<lambda>rest. rms @ rest) res)))
      else (s, Some []))"

text \<open>
  The translator is looked up before the entry is tested: an unknown port raises on the missing
  entry, and a port without datapath on the missing translator.
\<close>

definition register_route_mod :: "route_mod \<Rightarrow> server \<Rightarrow> server \<times> bool" where
  "register_route_mod rm s =
     (case get_entry_by_vm_port (rm_id rm) (rm_vm_port rm) (rftable s) of
        None \<Rightarrow> (s, False)
      | Some entry \<Rightarrow>
          (case re_dp_id entry of
             None \<Rightarrow> (s, False)
           | Some dp \<Rightarrow>
               (case map_of (sv_translator s) dp of
                  None \<Rightarrow> (s, False)
                | Some tr \<Rightarrow>
                    if get_status entry = RFENTRY_IDLE_VM_PORT then (s, True)
                    else
                      (let (s, res) = translate_route_mod tr entry (rm\<lparr>rm_id := dp\<rparr>) s
                       in case res of
                            None \<Rightarrow> (s, False)
                          | Some rms \<Rightarrow>
                              (let (s, ok) = send_route_mods (re_ct_id entry) rms s
                               in if ok then (queue_routemod_ack (rm_id rm) (rm_vm_port rm) s, True)
                                  else (s, False))))))"

section \<open>Registering ports of datapaths\<close>

definition translator_for :: "int \<Rightarrow> server \<Rightarrow> translator_class" where
  "translator_for dp s =
     (if dp \<in> set (sv_multitabledps s) then NoviFlowMultitableRouteModTranslator
      else if dp \<in> set (sv_satellitedps s) then SatelliteRouteModTranslator
      else DefaultRouteModTranslator)"

definition send_datapath_config_messages :: "int \<Rightarrow> translator \<Rightarrow> server \<Rightarrow> server \<times> bool" where
  "send_datapath_config_messages ct tr s =
     (case configure_datapath (sv_tb s) tr of
        None \<Rightarrow> (s, False)
      | Some rms \<Rightarrow> send_route_mods (Some ct) rms s)"

text \<open>The state, whether no exception was raised, and whether registration stops here.\<close>

definition config_dp :: "int \<Rightarrow> int \<Rightarrow> server \<Rightarrow> server \<times> bool \<times> bool" where
  "config_dp ct dp s =
     (if is_rfvs_dp dp then (s, True, True)
      else if (is_dp_registered ct dp (rftable s) \<or> isl_is_dp_registered ct dp (isltable s))
              \<and> map_of (sv_translator s) dp = None
      then
        (let tr = new_translator (translator_for dp s) dp ct;
             (s, ok) = send_datapath_config_messages ct tr (set_translator dp tr s)
         in (s, ok, False))
      else (s, True, False))"

definition dp_port_action :: "int \<Rightarrow> int \<Rightarrow> int \<Rightarrow> server \<Rightarrow> reg_action" where
  "dp_port_action ct dp port s =
     (case get_config_for_dp_port ct dp port (config s) of
        None \<Rightarrow>
          (let islconfs = get_entries_by_port ct dp port (islconf s)
           in if islconfs \<noteq> [] then REGISTER_ISL islconfs else REGISTER_IDLE)
      | Some c \<Rightarrow>
          (case get_entry_by_vm_port (cf_vm_id c) (cf_vm_port c) (rftable s) of
             None \<Rightarrow> REGISTER_IDLE
           | Some entry \<Rightarrow>
               if get_status entry = RFENTRY_IDLE_VM_PORT then REGISTER_ASSOCIATED entry else NO_ACTION))"

definition RFISLEntry :: "int option \<Rightarrow> int \<Rightarrow> int \<Rightarrow> int \<Rightarrow> string option \<Rightarrow> isl_entry" where
  "RFISLEntry vm ct dp port addr =
     \<lparr>e_id = None, is_vm_id = vm, is_ct_id = Some ct, is_dp_id = Some dp, is_dp_port = Some port,
      is_eth_addr = addr, is_rem_ct = None, is_rem_id = None, is_rem_port = None, is_rem_eth_addr = None\<rparr>"

text \<open>Both directions of a link are entered: the waiting entry of the other end, and one of this end.\<close>

definition connect_isl :: "int \<Rightarrow> int \<Rightarrow> int \<Rightarrow> string option \<Rightarrow> isl_entry \<Rightarrow> server \<Rightarrow> server" where
  "connect_isl ct dp port addr entry s =
     (let entry = isl_associate ct dp port addr entry; s = save_isl entry s
      in case get_entry_by_remote (is_ct_id entry) (is_dp_id entry) (is_dp_port entry)
                (is_eth_addr entry) (isltable s) of
           None \<Rightarrow>
             save_isl ((RFISLEntry (is_vm_id entry) ct dp port (is_rem_eth_addr entry))
               \<lparr>is_rem_ct := is_ct_id entry, is_rem_id := is_dp_id entry,
                is_rem_port := is_dp_port entry, is_rem_eth_addr := is_eth_addr entry\<rparr>) s
         | Some n_entry \<Rightarrow> save_isl (isl_associate ct dp port addr n_entry) s)"

definition register_islconf :: "int \<Rightarrow> int \<Rightarrow> int \<Rightarrow> isl_conf \<Rightarrow> server \<Rightarrow> server" where
  "register_islconf ct dp port conf s =
     (let (entry, addr) =
        (if ic_rem_id conf \<noteq> dp \<or> ic_rem_ct conf \<noteq> ct
         then (get_entry_by_addr (ic_rem_ct conf) (ic_rem_id conf) (ic_rem_port conf)
                 (Some (ic_rem_eth_addr conf)) (isltable s), Some (ic_eth_addr conf))
         else (get_entry_by_addr (ic_ct_id conf) (ic_dp_id conf) (ic_dp_port conf)
                 (Some (ic_eth_addr conf)) (isltable s), Some (ic_rem_eth_addr conf)))
      in case entry of
           None \<Rightarrow> save_isl (RFISLEntry (Some (ic_vm_id conf)) ct dp port addr) s
         | Some entry \<Rightarrow>
             if isl_get_status entry = RFISL_IDLE_DP_PORT then connect_isl ct dp port addr entry s else s)"

definition apply_dp_port :: "int \<Rightarrow> int \<Rightarrow> int \<Rightarrow> reg_action \<Rightarrow> server \<Rightarrow> server \<times> bool" where
  "apply_dp_port ct dp port action s =
     (case action of
        REGISTER_IDLE \<Rightarrow>
          (save_rf (RFEntry\<lparr>re_ct_id := Some ct, re_dp_id := Some dp, re_dp_port := Some port\<rparr>) s, True)
      | REGISTER_ASSOCIATED entry \<Rightarrow>
          (case associate dp port (Some ct) None entry of
             None \<Rightarrow> (s, False)
           | Some entry \<Rightarrow> (save_rf entry s, True))
      | REGISTER_ISL confs \<Rightarrow> (fold (register_islconf ct dp port) confs s, True)
      | NO_ACTION \<Rightarrow> (s, True))"

definition register_dp_port :: "int \<Rightarrow> int \<Rightarrow> int \<Rightarrow> server \<Rightarrow> server \<times> bool" where
  "register_dp_port ct dp port s =
     (let (s, ok, stop) = config_dp ct dp s
      in if \<not> ok \<or> stop then (s, ok) else apply_dp_port ct dp port (dp_port_action ct dp port s) s)"

section \<open>Datapaths that go down, and mapped ports\<close>

definition num_or_0 :: "int option \<Rightarrow> int" where
  "num_or_0 n = (case n of None \<Rightarrow> 0 | Some i \<Rightarrow> i)"

definition reset_vm_port :: "int option \<Rightarrow> int option \<Rightarrow> server \<Rightarrow> server" where
  "reset_vm_port vm port s =
     (case vm of
        None \<Rightarrow> s
      | Some v \<Rightarrow> ipc_send RFCLIENT_RFSERVER_CHANNEL (int_to_string v) (PortConfig v (num_or_0 port) PCT_RESET) s)"

definition set_dp_port_down :: "int option \<Rightarrow> int option \<Rightarrow> int option \<Rightarrow> server \<Rightarrow> server" where
  "set_dp_port_down ct dp port s =
     (case get_entry_by_dp_port ct dp port (rftable s) of
        None \<Rightarrow> s
      | Some entry \<Rightarrow>
          reset_vm_port (re_vm_id entry) (re_vm_port entry) (save_rf (make_idle RFENTRY_IDLE_VM_PORT entry) s))"

definition set_dp_down :: "int \<Rightarrow> int \<Rightarrow> server \<Rightarrow> server" where
  "set_dp_down ct dp s =
     (let s = fold (\<lambda>e. set_dp_port_down (re_ct_id e) (re_dp_id e) (re_dp_port e))
                (get_dp_entries (Some ct) (Some dp) (rftable s)) s;
          s = fold (\<lambda>e. save_isl (isl_make_idle RFISL_IDLE_REMOTE e)) (isl_get_dp_entries ct dp (isltable s)) s
      in fold (\<lambda>e. save_isl (isl_make_idle RFISL_IDLE_DP_PORT e))
           (get_entries (\<lambda>e. is_rem_ct e = Some ct \<and> is_rem_id e = Some dp) (isltable s)) s)"

definition map_port :: "int \<Rightarrow> int \<Rightarrow> int \<Rightarrow> int \<Rightarrow> server \<Rightarrow> server" where
  "map_port vm port vs vs_port s =
     (case get_entry_by_vm_port vm port (rftable s) of
        None \<Rightarrow> s
      | Some entry \<Rightarrow>
          if get_status entry = RFENTRY_ASSOCIATED then
            (let entry = activate vs vs_port entry; s = save_rf entry s;
                 ct = num_or_0 (re_ct_id entry);
                 s = ipc_send RFSERVER_RFPROXY_CHANNEL (int_to_string ct)
                       (DataPlaneMap ct (num_or_0 (re_dp_id entry)) (num_or_0 (re_dp_port entry)) vs vs_port) s
             in ipc_send RFCLIENT_RFSERVER_CHANNEL (int_to_string (num_or_0 (re_vm_id entry)))
                  (PortConfig vm port PCT_MAP_SUCCESS) s)
          else s)"

section \<open>Messages and threads\<close>

definition send_routemod_acks :: "server \<Rightarrow> server" where
  "send_routemod_acks s =
     s\<lparr>sv_sent := sv_sent s @ map (\<lambda>(to, ack). (RFCLIENT_RFSERVER_CHANNEL, to, ack)) (sv_ack_q s), sv_ack_q := []\<rparr>"

definition process :: "ipc_channel \<Rightarrow> message \<Rightarrow> server \<Rightarrow> server \<times> bool" where
  "process ch msg s =
     (case ch of
        RFCLIENT_RFSERVER_CHANNEL \<Rightarrow>
          (case msg of
             RouteMod rm \<Rightarrow> register_route_mod rm s
           | PortRegister vm port addr \<Rightarrow> register_vm_port vm port addr s
           | _ \<Rightarrow> (s, True))
      | RFSERVER_RFPROXY_CHANNEL \<Rightarrow>
          (case msg of
             DatapathPortRegister ct dp port \<Rightarrow> register_dp_port ct dp port s
           | DatapathDown ct dp \<Rightarrow> (set_dp_down ct dp s, True)
           | VirtualPlaneMap vm port vs vs_port \<Rightarrow> (map_port vm port vs vs_port s, True)
           | RouteMod _ \<Rightarrow> (send_routemod_acks s, True)
           | _ \<Rightarrow> (s, True)))"

text \<open>One turn of the thread that empties the queue of route modifications.\<close>

definition dp_worker :: "server \<Rightarrow> server" where
  "dp_worker s =
     (case sv_dp_q s of
        [] \<Rightarrow> s
      | (ct, rm) # q \<Rightarrow> ipc_send RFSERVER_RFPROXY_CHANNEL ct (RouteMod rm) (s\<lparr>sv_dp_q := q\<rparr>))"

datatype event = Received ipc_channel message | Worker

text \<open>
  One turn of a thread: the thread of a channel (\<^verbatim>\<open>rflib/ipc/ZeroMQIPC.py\<close>, \<^verbatim>\<open>_sub_worker\<close>) receives
  a message and hands it to the handler. Nothing catches an exception of the handler, so that it
  ends the thread: later messages of its channel are lost.
\<close>

fun server_step :: "event \<Rightarrow> server \<Rightarrow> server" where
  "server_step (Received RFCLIENT_RFSERVER_CHANNEL msg) s =
     (if sv_client_alive s then
        (let (s, ok) = process RFCLIENT_RFSERVER_CHANNEL msg s in s\<lparr>sv_client_alive := ok\<rparr>) else s)"
| "server_step (Received RFSERVER_RFPROXY_CHANNEL msg) s =
     (if sv_proxy_alive s then
        (let (s, ok) = process RFSERVER_RFPROXY_CHANNEL msg s in s\<lparr>sv_proxy_alive := ok\<rparr>) else s)"
| "server_step Worker s = dp_worker s"

end
