(* ===== verification/RF_Associations.thy ===== *)
theory RF_Associations
  imports RF_Server
begin

text \<open>
  What the server keeps true of its tables, whatever messages it receives in whatever order: the
  invariant \<open>server_ok\<close>, that every step keeps it, and what the handlers do to the associations.
\<close>

section \<open>The invariant\<close>

text \<open>An association the configuration provides for.\<close>

definition configured :: "rf_config \<Rightarrow> rf_entry \<Rightarrow> bool" where
  "configured conf e \<longleftrightarrow>
     (\<exists>c \<in> ran (entry_rows conf). re_vm_id e = Some (cf_vm_id c) \<and> re_vm_port e = Some (cf_vm_port c)
        \<and> re_ct_id e = Some (cf_ct_id c) \<and> re_dp_id e = Some (cf_dp_id c) \<and> re_dp_port e = Some (cf_dp_port c))"

text \<open>The entry a datapath port leaves behind that went down before it was associated.\<close>

definition blank :: "rf_entry \<Rightarrow> bool" where
  "blank e \<longleftrightarrow> re_vm_id e = None \<and> re_vm_port e = None \<and> re_ct_id e = None \<and> re_dp_id e = None
     \<and> re_dp_port e = None \<and> re_vs_id e = None \<and> re_vs_port e = None \<and> re_eth_addr e = None"

definition row_ok :: "rf_config \<Rightarrow> rf_entry \<Rightarrow> bool" where
  "row_ok conf e \<longleftrightarrow>
     is_idle_vm_port e \<and> re_eth_addr e \<noteq> None \<or> is_idle_dp_port e \<and> re_eth_addr e = None
     \<or> configured conf e \<and> re_eth_addr e \<noteq> None \<and> (re_vs_id e = None \<longleftrightarrow> re_vs_port e = None)
     \<or> blank e"

text \<open>Each end of a link between switches is known completely or not at all.\<close>

definition isl_row_ok :: "isl_entry \<Rightarrow> bool" where
  "isl_row_ok e \<longleftrightarrow>
     (is_ct_id e = None \<longleftrightarrow> is_dp_id e = None) \<and> (is_dp_id e = None \<longleftrightarrow> is_dp_port e = None)
     \<and> (is_dp_port e = None \<longleftrightarrow> is_eth_addr e = None)
     \<and> (is_rem_ct e = None \<longleftrightarrow> is_rem_id e = None) \<and> (is_rem_id e = None \<longleftrightarrow> is_rem_port e = None)
     \<and> (is_rem_port e = None \<longleftrightarrow> is_rem_eth_addr e = None)"

definition server_ok :: "server \<Rightarrow> bool" where
  "server_ok s \<longleftrightarrow>
     table_ok (rftable s) \<and> table_ok (isltable s) \<and> table_ok (config s) \<and> table_ok (islconf s)
     \<and> (\<forall>i e. entry_rows (rftable s) i = Some e \<longrightarrow> row_ok (config s) e)
     \<and> (\<forall>i e. entry_rows (isltable s) i = Some e \<longrightarrow> isl_row_ok e)"

lemma server_okD:
  assumes "server_ok s"
  shows "table_ok (rftable s)" "table_ok (isltable s)" "table_ok (config s)" "table_ok (islconf s)"
    "entry_rows (rftable s) i = Some e \<Longrightarrow> row_ok (config s) e"
    "entry_rows (isltable s) i = Some l \<Longrightarrow> isl_row_ok l"
  using assms by (auto simp: server_ok_def)

lemma configured_set:
  "configured conf e \<Longrightarrow> re_vm_id e \<noteq> None \<and> re_vm_port e \<noteq> None \<and> re_ct_id e \<noteq> None \<and> re_dp_id e \<noteq> None \<and> re_dp_port e \<noteq> None"
  by (auto simp: configured_def)

lemma row_ok_cases:
  assumes "row_ok conf e"
  obtains (idle_vm) "is_idle_vm_port e" "\<not> is_idle_dp_port e" "\<not> configured conf e" "\<not> blank e" "re_eth_addr e \<noteq> None"
  | (idle_dp) "\<not> is_idle_vm_port e" "is_idle_dp_port e" "\<not> configured conf e" "\<not> blank e" "re_eth_addr e = None"
  | (linked) "\<not> is_idle_vm_port e" "\<not> is_idle_dp_port e" "configured conf e" "\<not> blank e" "re_eth_addr e \<noteq> None"
      "re_vs_id e = None \<longleftrightarrow> re_vs_port e = None"
  | (blank) "\<not> is_idle_vm_port e" "\<not> is_idle_dp_port e" "\<not> configured conf e" "blank e"
  using assms configured_set [of conf e]
  unfolding row_ok_def is_idle_vm_port_def is_idle_dp_port_def blank_def by argo

text \<open>The statuses of entries that keep the invariant.\<close>

lemma status_row:
  assumes "row_ok conf e"
  shows "get_status e = RFENTRY_IDLE_VM_PORT \<longleftrightarrow> is_idle_vm_port e"
    "get_status e = RFENTRY_IDLE_DP_PORT \<longleftrightarrow> is_idle_dp_port e"
    "get_status e = RFENTRY_ASSOCIATED \<longleftrightarrow> configured conf e \<and> re_vs_id e = None \<or> blank e"
    "get_status e = RFENTRY_ACTIVE \<longleftrightarrow> configured conf e \<and> re_vs_id e \<noteq> None"
  using assms by (cases rule: row_ok_cases; simp add: get_status_def blank_def)+

section \<open>Storing entries\<close>

lemma row_ok_id [simp]: "row_ok conf (e\<lparr>e_id := x\<rparr>) = row_ok conf e"
  by (simp add: row_ok_def is_idle_vm_port_def is_idle_dp_port_def configured_def blank_def)

lemma isl_row_ok_id [simp]: "isl_row_ok (e\<lparr>e_id := x\<rparr>) = isl_row_ok e"
  by (simp add: isl_row_ok_def)

lemma snd_set_entry: "\<exists>x. snd (set_entry e t) = e\<lparr>e_id := x\<rparr>"
proof (cases "e_id e")
  case None then show ?thesis by (auto simp: set_entry_def Let_def)
next
  case (Some i) then show ?thesis by (intro exI [of _ "Some i"]) (simp add: set_entry_def)
qed

lemma save_parts [simp]:
  "sv_tb (save_rf e s) = (sv_tb s)\<lparr>tb_rf := fst (set_entry e (rftable s))\<rparr>"
  "sv_tb (save_isl l s) = (sv_tb s)\<lparr>tb_isl := fst (set_entry l (isltable s))\<rparr>"
  "sv_translator (save_rf e s) = sv_translator s" "sv_translator (save_isl l s) = sv_translator s"
  "sv_sent (save_rf e s) = sv_sent s" "sv_sent (save_isl l s) = sv_sent s"
  "sv_dp_q (save_rf e s) = sv_dp_q s" "sv_dp_q (save_isl l s) = sv_dp_q s"
  "sv_ack_q (save_rf e s) = sv_ack_q s" "sv_ack_q (save_isl l s) = sv_ack_q s"
  by (simp_all add: save_rf_def save_isl_def upd_rf_def upd_isl_def)

lemma ipc_send_parts [simp]:
  "sv_tb (ipc_send ch to m s) = sv_tb s" "sv_translator (ipc_send ch to m s) = sv_translator s"
  "sv_dp_q (ipc_send ch to m s) = sv_dp_q s" "sv_ack_q (ipc_send ch to m s) = sv_ack_q s"
  "sv_sent (ipc_send ch to m s) = sv_sent s @ [(ch, to, m)]"
  by (simp_all add: ipc_send_def)

text \<open>An entry that a table knows, or a new one.\<close>

definition storable :: "'a base_entry_scheme \<Rightarrow> 'a base_entry_scheme memory_table \<Rightarrow> bool" where
  "storable e t \<longleftrightarrow> e_id e = None \<or> (\<exists>i. e_id e = Some i \<and> entry_rows t i \<noteq> None)"

lemma save_rf_ok:
  assumes "server_ok s" "row_ok (config s) e" "storable e (rftable s)"
  shows "server_ok (save_rf e s)"
proof -
  obtain x where "snd (set_entry e (rftable s)) = e\<lparr>e_id := x\<rparr>" using snd_set_entry by blast
  then have "row_ok (config s) (snd (set_entry e (rftable s)))" using assms(2) by simp
  then have "table_ok (fst (set_entry e (rftable s)))
      \<and> (\<forall>i e'. entry_rows (fst (set_entry e (rftable s))) i = Some e' \<longrightarrow> row_ok (config s) e')"
    using memory.put_all [of "rftable s" "row_ok (config s)" e] assms by (auto simp: server_ok_def storable_def)
  then show ?thesis using assms(1) by (simp add: server_ok_def)
qed

lemma save_isl_ok:
  assumes "server_ok s" "isl_row_ok e" "storable e (isltable s)"
  shows "server_ok (save_isl e s)"
proof -
  obtain x where "snd (set_entry e (isltable s)) = e\<lparr>e_id := x\<rparr>" using snd_set_entry by blast
  then have "isl_row_ok (snd (set_entry e (isltable s)))" using assms(2) by simp
  then have "table_ok (fst (set_entry e (isltable s)))
      \<and> (\<forall>i e'. entry_rows (fst (set_entry e (isltable s))) i = Some e' \<longrightarrow> isl_row_ok e')"
    using memory.put_all [of "isltable s" isl_row_ok e] assms by (auto simp: server_ok_def storable_def)
  then show ?thesis using assms(1) by (simp add: server_ok_def)
qed

lemma get_entries_row:
  assumes "table_ok t" "e \<in> set (get_entries p t)"
  shows "p e" "\<exists>i. e_id e = Some i \<and> entry_rows t i = Some e"
  using memory.get_row [OF assms] by blast+

lemma first_entry_row:
  assumes "table_ok t" "first_entry (get_entries p t) = Some e"
  shows "p e" "\<exists>i. e_id e = Some i \<and> entry_rows t i = Some e"
  using memory.first_Some [OF assms] by blast+

lemma storable_row: "e_id e = Some i \<and> entry_rows t i = Some f \<Longrightarrow> e_id g = e_id e \<Longrightarrow> storable g t"
  by (auto simp: storable_def)

section \<open>The handlers keep the invariant\<close>

lemma config_lookup:
  assumes "table_ok conf" "first_entry (get_entries p conf) = Some c"
  shows "p c" "c \<in> ran (entry_rows conf)"
  using first_entry_row [OF assms] by (auto simp: ran_def)

lemma register_vm_port_ok:
  assumes "server_ok s"
  shows "server_ok (fst (register_vm_port vm port addr s)) \<and> snd (register_vm_port vm port addr s)"
proof (cases "vm_port_action vm port s")
  case REGISTER_IDLE
  let ?e = "RFEntry\<lparr>re_vm_id := Some vm, re_vm_port := Some port, re_eth_addr := Some addr\<rparr>"
  have "row_ok (config s) ?e" by (simp add: row_ok_def is_idle_vm_port_def RFEntry_def)
  moreover have "storable ?e (rftable s)" by (simp add: storable_def RFEntry_def)
  ultimately show ?thesis
    using save_rf_ok [OF assms] REGISTER_IDLE by (simp add: register_vm_port_def apply_vm_port_def)
next
  case (REGISTER_ASSOCIATED e)
  then obtain c where c: "get_config_for_vm_port vm port (config s) = Some c"
    and e: "get_entry_by_dp_port (Some (cf_ct_id c)) (Some (cf_dp_id c)) (Some (cf_dp_port c)) (rftable s) = Some e"
    and st: "get_status e = RFENTRY_IDLE_DP_PORT"
    by (auto simp: vm_port_action_def split: option.splits if_splits)
  note c = config_lookup [OF server_okD(3) [OF assms] c [unfolded get_config_for_vm_port_def]]
    and e = first_entry_row [OF server_okD(1) [OF assms] e [unfolded get_entry_by_dp_port_def]]
  have "is_idle_dp_port e" using st e(2) server_okD(5) [OF assms] status_row(2) by blast
  then have a: "associate vm port None (Some addr) e
      = Some (e\<lparr>re_vm_id := Some vm, re_vm_port := Some port, re_eth_addr := Some addr\<rparr>)" (is "_ = Some ?e")
    by (simp add: associate_def is_idle_vm_port_def is_idle_dp_port_def)
  have "configured (config s) ?e" using c e(1) by (auto simp: configured_def)
  then have "row_ok (config s) ?e" using \<open>is_idle_dp_port e\<close> by (simp add: row_ok_def is_idle_dp_port_def)
  moreover have "storable ?e (rftable s)" using e(2) by (auto simp: storable_def)
  ultimately show ?thesis
    using save_rf_ok [OF assms] REGISTER_ASSOCIATED a by (simp add: register_vm_port_def apply_vm_port_def)
qed (simp_all add: register_vm_port_def apply_vm_port_def assms)

lemma server_ok_tb: "sv_tb s' = sv_tb s \<Longrightarrow> server_ok s' = server_ok s"
  by (simp add: server_ok_def)

lemma send_route_mods_parts:
  assumes "send_route_mods ct rms s = (s', ok)"
  shows "sv_tb s' = sv_tb s \<and> sv_translator s' = sv_translator s \<and> sv_sent s' = sv_sent s
    \<and> sv_ack_q s' = sv_ack_q s \<and> (\<exists>new. sv_dp_q s' = sv_dp_q s @ new)"
  using assms
proof (induction rms arbitrary: s)
  case (Cons rm rms)
  obtain u ok' where u: "send_route_mod ct rm s = (u, ok')" by force
  then have p: "sv_tb u = sv_tb s" "sv_translator u = sv_translator s" "sv_sent u = sv_sent s" "sv_ack_q u = sv_ack_q s"
    "\<exists>new. sv_dp_q u = sv_dp_q s @ new"
    by (auto simp: send_route_mod_def split: option.splits)
  show ?case
  proof (cases ok')
    case True
    then have "send_route_mods ct rms u = (s', ok)" using Cons.prems u by simp
    from Cons.IH [OF this] p show ?thesis by auto
  next
    case False
    then show ?thesis using Cons.prems u p by simp
  qed
qed simp

lemma set_translator_parts [simp]:
  "sv_tb (set_translator dp tr s) = sv_tb s" "sv_sent (set_translator dp tr s) = sv_sent s"
  "sv_dp_q (set_translator dp tr s) = sv_dp_q s" "sv_ack_q (set_translator dp tr s) = sv_ack_q s"
  "dom (map_of (sv_translator (set_translator dp tr s))) = insert dp (dom (map_of (sv_translator s)))"
  by (auto simp add: set_translator_def update_conv')

lemma remote_route_mods_parts:
  assumes "remote_route_mods rs rm s = (s', res)"
  shows "sv_tb s' = sv_tb s \<and> sv_sent s' = sv_sent s \<and> sv_dp_q s' = sv_dp_q s \<and> sv_ack_q s' = sv_ack_q s
    \<and> dom (map_of (sv_translator s')) = dom (map_of (sv_translator s))"
  using assms
proof (induction rs arbitrary: s s' res)
  case (Cons r rs)
  show ?case
  proof (cases "isl_get_status r = RFISL_ACTIVE")
    case False
    then show ?thesis using Cons by simp
  next
    case True
    show ?thesis
    proof (cases "case is_dp_id r of None \<Rightarrow> None | Some dp \<Rightarrow> map_of (sv_translator s) dp")
      case None
      then show ?thesis using Cons.prems True by (auto split: option.splits)
    next
      case (Some tr)
      then obtain dp where dp: "is_dp_id r = Some dp" "map_of (sv_translator s) dp = Some tr"
        by (auto split: option.splits)
      obtain tr' x where h: "handle_isl_route_mod (sv_tb s) tr r rm = (tr', x)" by force
      let ?u = "set_translator dp tr' s"
      have d: "dom (map_of (sv_translator ?u)) = dom (map_of (sv_translator s))"
        using dp(2) domI [of "map_of (sv_translator s)" dp tr] by (simp add: insert_absorb)
      obtain v y where v: "remote_route_mods rs rm ?u = (v, y)" by force
      show ?thesis
      proof (cases x)
        case None
        then have "s' = ?u" using Cons.prems True dp h by simp
        then show ?thesis using d by simp
      next
        case (Some a)
        then have "s' = v" using Cons.prems True dp h v by simp
        then show ?thesis using Cons.IH [OF v] d by simp
      qed
    qed
  qed
qed simp

lemma translate_route_mod_parts:
  assumes "translate_route_mod tr e rm s = (s', res)"
  shows "sv_tb s' = sv_tb s \<and> sv_sent s' = sv_sent s \<and> sv_dp_q s' = sv_dp_q s \<and> sv_ack_q s' = sv_ack_q s
    \<and> dom (map_of (sv_translator s')) = dom (map_of (sv_translator s))"
  using assms by (auto simp: translate_route_mod_def dest!: remote_route_mods_parts split: if_splits option.splits prod.splits)

lemma register_route_mod_parts:
  assumes "register_route_mod rm s = (s', ok)"
  shows "sv_tb s' = sv_tb s \<and> sv_sent s' = sv_sent s \<and> dom (map_of (sv_translator s')) = dom (map_of (sv_translator s))
    \<and> (\<exists>new. sv_dp_q s' = sv_dp_q s @ new)
    \<and> sv_ack_q s' \<in> {sv_ack_q s, sv_ack_q s @ [(int_to_string (rm_id rm), PortConfig (rm_id rm) (rm_vm_port rm) PCT_ROUTEMOD_ACK)]}"
proof (cases "get_entry_by_vm_port (rm_id rm) (rm_vm_port rm) (rftable s)")
  case None then show ?thesis using assms by (simp add: register_route_mod_def)
next
  case (Some e)
  show ?thesis
  proof (cases "case re_dp_id e of None \<Rightarrow> None | Some dp \<Rightarrow> map_of (sv_translator s) dp")
    case None
    then show ?thesis using assms Some by (auto simp: register_route_mod_def split: option.splits)
  next
    case (Some tr)
    then obtain dp where dp: "re_dp_id e = Some dp" "map_of (sv_translator s) dp = Some tr" by (auto split: option.splits)
    obtain u res where u: "translate_route_mod tr e (rm\<lparr>rm_id := dp\<rparr>) s = (u, res)" by force
    note pu = translate_route_mod_parts [OF u]
    show ?thesis
    proof (cases "get_status e = RFENTRY_IDLE_VM_PORT \<or> res = None")
      case True
      then show ?thesis
        using assms \<open>get_entry_by_vm_port _ _ _ = Some e\<close> dp u pu by (auto simp: register_route_mod_def split: if_splits)
    next
      case False
      then obtain rms where rms: "res = Some rms" by auto
      obtain v ok' where v: "send_route_mods (re_ct_id e) rms u = (v, ok')" by force
      note pv = send_route_mods_parts [OF v]
      have "s' = (if ok' then queue_routemod_ack (rm_id rm) (rm_vm_port rm) v else v)"
        using assms \<open>get_entry_by_vm_port _ _ _ = Some e\<close> dp u v rms False by (auto simp: register_route_mod_def)
      then show ?thesis using pu pv by (auto simp: queue_routemod_ack_def)
    qed
  qed
qed

lemma config_dp_parts:
  assumes "config_dp ct dp s = (s', ok, stop)"
  shows "sv_tb s' = sv_tb s \<and> sv_sent s' = sv_sent s \<and> sv_ack_q s' = sv_ack_q s
    \<and> (\<exists>new. sv_dp_q s' = sv_dp_q s @ new) \<and> dom (map_of (sv_translator s')) \<subseteq> insert dp (dom (map_of (sv_translator s)))"
proof (cases "\<not> is_rfvs_dp dp \<and> (is_dp_registered ct dp (rftable s) \<or> isl_is_dp_registered ct dp (isltable s))
    \<and> map_of (sv_translator s) dp = None")
  case False
  then have "s' = s" using assms by (auto simp: config_dp_def split: if_splits)
  then show ?thesis by auto
next
  case True
  let ?tr = "new_translator (translator_for dp s) dp ct" let ?u = "set_translator dp ?tr s"
  obtain v ok' where v: "send_datapath_config_messages ct ?tr ?u = (v, ok')" by force
  have "s' = v" using assms True v by (simp add: config_dp_def Let_def)
  moreover have "sv_tb v = sv_tb s \<and> sv_sent v = sv_sent s \<and> sv_ack_q v = sv_ack_q s \<and> (\<exists>new. sv_dp_q v = sv_dp_q s @ new)
      \<and> sv_translator v = sv_translator ?u"
    using v send_route_mods_parts [of "Some ct" _ ?u v ok'] by (auto simp: send_datapath_config_messages_def split: option.splits)
  ultimately show ?thesis by auto
qed

lemma isl_entry_ok:
  assumes "server_ok s" "first_entry (get_entries p (isltable s)) = Some e"
  shows "p e" "isl_row_ok e" "\<And>g. e_id g = e_id e \<Longrightarrow> storable g (isltable s)"
  using first_entry_row [OF server_okD(2) [OF assms(1)] assms(2)] server_okD(6) [OF assms(1)]
  by (auto simp: storable_def)

lemma isl_associate_ok: "isl_row_ok e \<Longrightarrow> isl_row_ok (isl_associate ct dp port (Some addr) e) \<and> e_id (isl_associate ct dp port (Some addr) e) = e_id e"
  by (auto simp: isl_associate_def isl_row_ok_def isl_idle_dp_port_def isl_idle_remote_def)

lemma isl_make_idle_ok:
  "isl_row_ok e \<Longrightarrow> ty \<in> {RFISL_IDLE_REMOTE, RFISL_IDLE_DP_PORT} \<Longrightarrow> isl_row_ok (isl_make_idle ty e) \<and> e_id (isl_make_idle ty e) = e_id e"
  by (auto simp: isl_make_idle_def isl_row_ok_def)

lemma connect_isl_ok:
  assumes "server_ok s" "isl_row_ok e" "\<And>g. e_id g = e_id e \<Longrightarrow> storable g (isltable s)" "isl_idle_dp_port e"
  shows "server_ok (connect_isl ct dp port (Some addr) e s)"
proof -
  let ?e = "isl_associate ct dp port (Some addr) e" let ?s = "save_isl ?e s"
  have e': "isl_row_ok ?e" "e_id ?e = e_id e" using isl_associate_ok [OF assms(2)] by auto
  have ok: "server_ok ?s" by (rule save_isl_ok [OF assms(1) e'(1) assms(3) [OF e'(2)]])
  show ?thesis
  proof (cases "get_entry_by_remote (is_ct_id ?e) (is_dp_id ?e) (is_dp_port ?e) (is_eth_addr ?e) (isltable ?s)")
    case None
    let ?n = "(RFISLEntry (is_vm_id ?e) ct dp port (is_rem_eth_addr ?e))
      \<lparr>is_rem_ct := is_ct_id ?e, is_rem_id := is_dp_id ?e, is_rem_port := is_dp_port ?e, is_rem_eth_addr := is_eth_addr ?e\<rparr>"
    have "isl_row_ok ?n"
      using e'(1) assms(4) by (auto simp: RFISLEntry_def isl_row_ok_def isl_associate_def isl_idle_dp_port_def)
    moreover have "storable ?n (isltable ?s)" by (simp add: storable_def RFISLEntry_def)
    ultimately have "server_ok (save_isl ?n ?s)" using save_isl_ok [OF ok] by blast
    then show ?thesis using None by (simp only: connect_isl_def option.case Let_def)
  next
    case (Some n)
    note n = isl_entry_ok [OF ok Some [unfolded get_entry_by_remote_def]]
    have "server_ok (save_isl (isl_associate ct dp port (Some addr) n) ?s)"
      using save_isl_ok [OF ok] isl_associate_ok [OF n(2)] n(3) by blast
    then show ?thesis using Some by (simp only: connect_isl_def option.case Let_def)
  qed
qed

lemma register_islconf_ok:
  assumes "server_ok s"
  shows "server_ok (register_islconf ct dp port conf s)"
proof -
  have new: "server_ok (save_isl (RFISLEntry (Some v) ct dp port (Some addr)) s)" for v addr
    by (rule save_isl_ok [OF assms]) (simp_all add: RFISLEntry_def isl_row_ok_def storable_def)
  have "server_ok (case get_entry_by_addr a b c d (isltable s) of
        None \<Rightarrow> save_isl (RFISLEntry (Some (ic_vm_id conf)) ct dp port (Some addr)) s
      | Some entry \<Rightarrow> if isl_get_status entry = RFISL_IDLE_DP_PORT then connect_isl ct dp port (Some addr) entry s else s)"
    for a b c d addr
  proof (cases "get_entry_by_addr a b c d (isltable s)")
    case (Some e)
    note e = isl_entry_ok [OF assms Some [unfolded get_entry_by_addr_def]]
    then show ?thesis
      using Some connect_isl_ok [OF assms e(2,3)] assms by (simp add: isl_get_status_def split: if_splits)
  qed (simp add: new)
  then show ?thesis by (simp add: register_islconf_def)
qed

lemma fold_ok: "(\<And>x s. server_ok s \<Longrightarrow> server_ok (f x s)) \<Longrightarrow> server_ok s \<Longrightarrow> server_ok (fold f xs s)"
  by (induction xs arbitrary: s) simp_all

lemma apply_dp_port_ok:
  assumes "server_ok s"
  shows "server_ok (fst (apply_dp_port ct dp port (dp_port_action ct dp port s) s)) \<and> snd (apply_dp_port ct dp port (dp_port_action ct dp port s) s)"
proof (cases "dp_port_action ct dp port s")
  case REGISTER_IDLE
  let ?e = "RFEntry\<lparr>re_ct_id := Some ct, re_dp_id := Some dp, re_dp_port := Some port\<rparr>"
  have "row_ok (config s) ?e" by (simp add: row_ok_def is_idle_dp_port_def RFEntry_def)
  moreover have "storable ?e (rftable s)" by (simp add: storable_def RFEntry_def)
  ultimately show ?thesis using save_rf_ok [OF assms] REGISTER_IDLE by (simp add: apply_dp_port_def)
next
  case (REGISTER_ASSOCIATED e)
  then obtain c where c: "get_config_for_dp_port ct dp port (config s) = Some c"
    and e: "get_entry_by_vm_port (cf_vm_id c) (cf_vm_port c) (rftable s) = Some e"
    and st: "get_status e = RFENTRY_IDLE_VM_PORT"
    by (auto simp: dp_port_action_def Let_def split: option.splits if_splits)
  note c = config_lookup [OF server_okD(3) [OF assms] c [unfolded get_config_for_dp_port_def]]
    and e = first_entry_row [OF server_okD(1) [OF assms] e [unfolded get_entry_by_vm_port_def]]
  have row: "row_ok (config s) e" using e(2) server_okD(5) [OF assms] by blast
  then have idle: "is_idle_vm_port e" using st status_row(1) by blast
  have addr: "re_eth_addr e \<noteq> None" using row idle by (cases rule: row_ok_cases) simp_all
  have a: "associate dp port (Some ct) None e
      = Some (e\<lparr>re_ct_id := Some ct, re_dp_id := Some dp, re_dp_port := Some port\<rparr>)" (is "_ = Some ?e")
    using idle by (simp add: associate_def)
  have "configured (config s) ?e" using c e(1) by (auto simp: configured_def)
  then have "row_ok (config s) ?e" using idle addr by (simp add: row_ok_def is_idle_vm_port_def)
  moreover have "storable ?e (rftable s)" using e(2) by (auto simp: storable_def)
  ultimately show ?thesis
    using save_rf_ok [OF assms] REGISTER_ASSOCIATED a by (simp add: apply_dp_port_def)
next
  case (REGISTER_ISL confs)
  then show ?thesis
    using fold_ok [OF register_islconf_ok assms] by (simp add: apply_dp_port_def)
qed (simp_all add: apply_dp_port_def assms)

lemma register_dp_port_ok:
  assumes "server_ok s"
  shows "server_ok (fst (register_dp_port ct dp port s))"
proof -
  obtain u ok stop where u: "config_dp ct dp s = (u, ok, stop)" by (metis prod_cases3)
  then have "server_ok u" using config_dp_parts [OF u] server_ok_tb assms by metis
  then show ?thesis using u apply_dp_port_ok [of u ct dp port] by (simp add: register_dp_port_def)
qed

lemma make_idle_vm_ok:
  assumes "row_ok conf e"
  shows "row_ok conf (make_idle RFENTRY_IDLE_VM_PORT e) \<and> e_id (make_idle RFENTRY_IDLE_VM_PORT e) = e_id e"
  using assms
proof (cases rule: row_ok_cases)
  case linked
  then show ?thesis using configured_set [of conf e] by (simp add: make_idle_def row_ok_def is_idle_vm_port_def)
qed (simp_all add: make_idle_def row_ok_def is_idle_vm_port_def is_idle_dp_port_def blank_def)

lemma set_dp_port_down_ok:
  assumes "server_ok s"
  shows "server_ok (set_dp_port_down ct dp port s)"
proof (cases "get_entry_by_dp_port ct dp port (rftable s)")
  case (Some e)
  note e = first_entry_row [OF server_okD(1) [OF assms] Some [unfolded get_entry_by_dp_port_def]]
  have row: "row_ok (config s) e" using e(2) server_okD(5) [OF assms] by blast
  let ?e = "make_idle RFENTRY_IDLE_VM_PORT e"
  have "storable ?e (rftable s)" using e(2) make_idle_vm_ok [OF row] by (auto simp: storable_def)
  then have "server_ok (save_rf ?e s)" using save_rf_ok [OF assms] make_idle_vm_ok [OF row] by blast
  moreover have "sv_tb (set_dp_port_down ct dp port s) = sv_tb (save_rf ?e s)"
    using Some by (cases "re_vm_id e") (simp_all add: set_dp_port_down_def reset_vm_port_def)
  ultimately show ?thesis using server_ok_tb by metis
qed (simp add: set_dp_port_down_def assms)

lemma idle_isl_rows_ok:
  assumes "server_ok s" "ty \<in> {RFISL_IDLE_REMOTE, RFISL_IDLE_DP_PORT}"
    and "\<And>e. e \<in> set es \<Longrightarrow> isl_row_ok e \<and> (\<exists>i. e_id e = Some i \<and> entry_rows (isltable s) i \<noteq> None)"
  shows "server_ok (fold (\<lambda>e. save_isl (isl_make_idle ty e)) es s)"
  using assms(1,3)
proof (induction es arbitrary: s)
  case (Cons e es)
  let ?e = "isl_make_idle ty e" let ?s = "save_isl ?e s"
  obtain i where i: "isl_row_ok e" "e_id e = Some i" "entry_rows (isltable s) i \<noteq> None"
    using Cons.prems(2) [of e] by auto
  have e': "isl_row_ok ?e" "e_id ?e = Some i" using isl_make_idle_ok [OF i(1) assms(2)] i(2) by auto
  have ok: "server_ok ?s" using save_isl_ok [OF Cons.prems(1) e'(1)] e'(2) i(3) by (auto simp: storable_def)
  have "entry_rows (isltable ?s) = (entry_rows (isltable s))(i \<mapsto> ?e)"
    using memory.put_known [OF server_okD(2) [OF Cons.prems(1)] e'(2) i(3)] by simp
  then have known: "entry_rows (isltable s) j \<noteq> None \<Longrightarrow> entry_rows (isltable ?s) j \<noteq> None" for j by simp
  have "server_ok (fold (\<lambda>e. save_isl (isl_make_idle ty e)) es ?s)"
    using Cons.prems(2) known by (intro Cons.IH [OF ok]) (meson list.set_intros(2))
  then show ?case by simp
qed simp

lemma isl_rows_ok:
  assumes "server_ok s" "e \<in> set (get_entries p (isltable s))"
  shows "isl_row_ok e \<and> (\<exists>i. e_id e = Some i \<and> entry_rows (isltable s) i \<noteq> None)"
  using get_entries_row [OF server_okD(2) [OF assms(1)] assms(2)] server_okD(6) [OF assms(1)] by blast

lemma set_dp_down_ok:
  assumes "server_ok s"
  shows "server_ok (set_dp_down ct dp s)"
proof -
  define u where "u = fold (\<lambda>e. set_dp_port_down (re_ct_id e) (re_dp_id e) (re_dp_port e))
    (get_dp_entries (Some ct) (Some dp) (rftable s)) s"
  define v where "v = fold (\<lambda>e. save_isl (isl_make_idle RFISL_IDLE_REMOTE e)) (isl_get_dp_entries ct dp (isltable u)) u"
  have "server_ok u" unfolding u_def by (rule fold_ok [OF set_dp_port_down_ok assms])
  then have "server_ok v" unfolding v_def isl_get_dp_entries_def by (intro idle_isl_rows_ok isl_rows_ok) simp_all
  then show ?thesis unfolding set_dp_down_def Let_def u_def [symmetric] v_def [symmetric]
    by (intro idle_isl_rows_ok isl_rows_ok) simp_all
qed

lemma map_port_ok:
  assumes "server_ok s"
  shows "server_ok (map_port vm port vs vs_port s)"
proof (cases "get_entry_by_vm_port vm port (rftable s)")
  case (Some e)
  note e = first_entry_row [OF server_okD(1) [OF assms] Some [unfolded get_entry_by_vm_port_def]]
  have row: "row_ok (config s) e" using e(2) server_okD(5) [OF assms] by blast
  show ?thesis
  proof (cases "get_status e = RFENTRY_ASSOCIATED")
    case True
    then have conf: "configured (config s) e" using status_row(3) [OF row] e(1) by (auto simp: blank_def)
    have "re_eth_addr e \<noteq> None" using row by (cases rule: row_ok_cases) (use conf in simp_all)
    with conf have "row_ok (config s) (activate vs vs_port e)"
      by (simp add: activate_def row_ok_def configured_def)
    moreover have "storable (activate vs vs_port e) (rftable s)" using e(2) by (auto simp: storable_def activate_def)
    ultimately have "server_ok (save_rf (activate vs vs_port e) s)" using save_rf_ok [OF assms] by blast
    moreover have "sv_tb (map_port vm port vs vs_port s) = sv_tb (save_rf (activate vs vs_port e) s)"
      using Some True by (simp add: map_port_def Let_def)
    ultimately show ?thesis using server_ok_tb by metis
  qed (use Some assms in \<open>simp add: map_port_def\<close>)
qed (simp add: map_port_def assms)

lemma process_ok:
  assumes "server_ok s"
  shows "server_ok (fst (process ch msg s))"
proof -
  have rm: "server_ok (fst (register_route_mod rm s))" for rm
    using register_route_mod_parts [of rm s] server_ok_tb assms by (metis prod.collapse)
  have acks: "server_ok (send_routemod_acks s)" using assms by (simp add: send_routemod_acks_def server_ok_def)
  show ?thesis
    by (cases ch; cases msg)
      (simp_all add: process_def assms rm acks register_vm_port_ok register_dp_port_ok set_dp_down_ok map_port_ok)
qed

lemma server_ok_alive [simp]:
  "server_ok (s\<lparr>sv_client_alive := b\<rparr>) = server_ok s" "server_ok (s\<lparr>sv_proxy_alive := b\<rparr>) = server_ok s"
  by (simp_all add: server_ok_def)

lemma server_step_ok: "server_ok s \<Longrightarrow> server_ok (server_step ev s)"
proof (induction ev s rule: server_step.induct)
  case (1 msg s)
  then show ?case using process_ok [of s RFCLIENT_RFSERVER_CHANNEL msg] by (simp add: case_prod_unfold Let_def)
next
  case (2 msg s)
  then show ?case using process_ok [of s RFSERVER_RFPROXY_CHANNEL msg] by (simp add: case_prod_unfold Let_def)
next
  case (3 s)
  have "sv_tb (dp_worker s) = sv_tb s" by (simp add: dp_worker_def split: list.splits prod.splits)
  then show ?case using 3 server_ok_tb by (metis server_step.simps(3))
qed

lemma server_run_ok: "server_ok s \<Longrightarrow> server_ok (fold server_step evs s)"
  by (induction evs arbitrary: s) (simp_all add: server_step_ok)

section \<open>What the handlers leave alone\<close>

text \<open>
  A view of the state that does not change when an entry is stored, nor when one of the three messages is sent
  that the handlers send themselves. The handlers that only store entries and send such messages leave it
  as it is.
\<close>

locale server_view =
  fixes view :: "server \<Rightarrow> 'v"
  assumes view_rf: "view (save_rf e s) = view s" and view_isl: "view (save_isl l s) = view s"
    and view_reset: "view (ipc_send RFCLIENT_RFSERVER_CHANNEL to (PortConfig vm port PCT_RESET) s) = view s"
    and view_plane: "view (ipc_send RFSERVER_RFPROXY_CHANNEL to (DataPlaneMap ct dp dp_port vs vs_port) s) = view s"
    and view_success: "view (ipc_send RFCLIENT_RFSERVER_CHANNEL to (PortConfig vm port PCT_MAP_SUCCESS) s) = view s"
begin

lemmas view_simps = view_rf view_isl view_reset view_plane view_success

lemma view_fold: "(\<And>x s. view (f x s) = view s) \<Longrightarrow> view (fold f xs s) = view s"
  by (induction xs arbitrary: s) simp_all

lemma view_vm_port: "view (fst (register_vm_port vm port addr s)) = view s"
  by (cases "vm_port_action vm port s") (simp_all add: register_vm_port_def apply_vm_port_def view_simps split: option.split)

lemma view_islconf: "view (register_islconf ct dp port conf s) = view s"
proof -
  have "view (connect_isl ct dp port addr e s) = view s" for addr e
    unfolding connect_isl_def Let_def by (split option.split) (simp add: view_simps)
  then show ?thesis by (simp add: register_islconf_def view_simps split: option.split)
qed

lemma view_apply_dp_port: "view (fst (apply_dp_port ct dp port a s)) = view s"
  by (cases a) (simp_all add: apply_dp_port_def view_fold view_islconf view_simps split: option.split)

lemma view_dp_down: "view (set_dp_down ct dp s) = view s"
proof -
  have "view (set_dp_port_down c d p s) = view s" for c d p s
    by (simp add: set_dp_port_down_def reset_vm_port_def view_simps split: option.split)
  then show ?thesis by (simp add: set_dp_down_def Let_def view_fold view_simps)
qed

lemma view_map_port: "view (map_port vm port vs vs_port s) = view s"
  by (simp add: map_port_def Let_def view_simps split: option.split)

end

section \<open>The configuration does not change\<close>

definition static :: "server \<Rightarrow> rf_config \<times> rf_islconf \<times> rf_fpconf \<times> bool" where
  "static s = (config s, islconf s, tb_fpconf (sv_tb s), tb_fp_enabled (sv_tb s))"

lemma static_tb: "sv_tb s' = sv_tb s \<Longrightarrow> static s' = static s"
  by (simp add: static_def)

interpretation static_view: server_view static
  by unfold_locales (simp_all add: static_def)

lemma static_register_dp_port [simp]: "static (fst (register_dp_port ct dp port s)) = static s"
proof -
  obtain u ok stop where u: "config_dp ct dp s = (u, ok, stop)" by (metis prod_cases3)
  have "static u = static s" using config_dp_parts [OF u] static_tb by blast
  then show ?thesis using u by (simp add: register_dp_port_def static_view.view_apply_dp_port)
qed

lemma static_process [simp]: "static (fst (process ch msg s)) = static s"
proof -
  have rm: "static (fst (register_route_mod rm s)) = static s" for rm
    using register_route_mod_parts [of rm s] static_tb by (metis prod.collapse)
  have acks: "static (send_routemod_acks s) = static s" by (simp add: send_routemod_acks_def static_def)
  show ?thesis
    by (cases ch; cases msg) (simp_all add: process_def rm acks static_view.view_vm_port static_view.view_dp_down static_view.view_map_port)
qed

lemma static_step [simp]: "static (server_step ev s) = static s"
proof (induction ev s rule: server_step.induct)
  case (1 msg s)
  have "static (s\<lparr>sv_client_alive := b\<rparr>) = static s" for s b by (simp add: static_def)
  then show ?case by (simp add: case_prod_unfold Let_def)
next
  case (2 msg s)
  have "static (s\<lparr>sv_proxy_alive := b\<rparr>) = static s" for s b by (simp add: static_def)
  then show ?case by (simp add: case_prod_unfold Let_def)
next
  case (3 s)
  show ?case by (simp add: dp_worker_def static_def split: list.split)
qed

lemma static_run: "static (fold server_step evs s) = static s"
  by (rule static_view.view_fold) simp

end
