(* ===== verification/RF_ServerProps.thy ===== *)
theory RF_ServerProps
  imports RF_Associations RF_Labels
begin

text \<open>
  The properties of the server: associations follow the configuration, registration does not depend on
  the order of its messages, what a datapath that goes down leaves, and how route modifications are
  queued, sent and acknowledged.
\<close>

section \<open>The initial state\<close>

lemma RFServer_init:
  assumes "good_order ord" "RFServer ord cf isl_file fp_file multi sat = Some (Some s)"
  shows "server_ok s" "entry_rows (rftable s) = Map.empty" "entry_rows (isltable s) = Map.empty"
    "sv_translator s = []" "sv_client_alive s" "sv_proxy_alive s"
proof -
  obtain conf ic fc where c: "RFConfig ord cf = Some conf" "RFISLConf ord isl_file = Some ic" "RFFPConf ord fp_file = Some fc"
    using assms(2) by (auto simp: RFServer_def split: option.splits)
  let ?st = "\<lparr>fs_label = 2, fs_conf = conf, fs_fpconf = fc, fs_islconf = ic\<rparr>"
  from assms(2) c obtain st where st: "fp_allocate_labels ?st = Some (Some st)"
    and s: "s = \<lparr>sv_tb = \<lparr>tb_rf = MemoryTable ord, tb_isl = MemoryTable ord, tb_conf = fs_conf st,
                tb_islconf = fs_islconf st, tb_fpconf = fs_fpconf st, tb_fp_enabled = (get_entries_all fc \<noteq> [])\<rparr>,
              sv_translator = [], sv_multitabledps = parse_dps multi,
              sv_satellitedps = parse_dps sat, sv_ack_q = [], sv_dp_q = [], sv_sent = [],
              sv_client_alive = True, sv_proxy_alive = True\<rparr>"
    by (auto simp: RFServer_def)
  have "fp_ok st" using fp_allocate_labels_ends [OF loaded_fp_ok [OF assms(1) c]] st by auto
  then show "server_ok s" "entry_rows (rftable s) = Map.empty" "entry_rows (isltable s) = Map.empty"
    "sv_translator s = []" "sv_client_alive s" "sv_proxy_alive s"
    by (simp_all add: s server_ok_def fp_ok_def MemoryTable_ok [OF assms(1)])
qed

section \<open>Lookups with one answer\<close>

lemma first_entry_unique:
  assumes "table_ok t" "entry_rows t i = Some e" "p e" "\<And>j f. entry_rows t j = Some f \<Longrightarrow> p f \<Longrightarrow> j = i"
  shows "first_entry (get_entries p t) = Some e"
proof (cases "first_entry (get_entries p t)")
  case None
  then show ?thesis using memory.first_None [OF assms(1) None assms(2)] assms(3) by blast
next
  case (Some f)
  from memory.first_Some [OF assms(1) this] obtain j where "p f" "entry_rows t j = Some f" by blast
  then show ?thesis using Some assms(2,4) by (metis option.inject)
qed

lemma first_entry_none:
  assumes "table_ok t" "\<And>j f. entry_rows t j = Some f \<Longrightarrow> \<not> p f"
  shows "first_entry (get_entries p t) = None"
  using memory.first_Some [OF assms(1)] assms(2) by (cases "first_entry (get_entries p t)") blast+

text \<open>Storing a new entry and then a changed version of it is storing the changed version.\<close>

lemma set_entry_new:
  assumes "table_ok t" "e_id e = None"
  shows "table_ok (fst (set_entry e t))"
    "entry_rows (fst (set_entry e t)) = (entry_rows t)(mt_next t + 1 \<mapsto> e\<lparr>e_id := Some (mt_next t + 1)\<rparr>)"
    "entry_rows t (mt_next t + 1) = None"
proof -
  show "table_ok (fst (set_entry e t))" using memory.put_new [OF assms] by blast
  show "entry_rows (fst (set_entry e t)) = (entry_rows t)(mt_next t + 1 \<mapsto> e\<lparr>e_id := Some (mt_next t + 1)\<rparr>)"
    using assms(2) by (simp add: set_entry_def Let_def entry_rows_def update_conv')
  show "entry_rows t (mt_next t + 1) = None"
    using table_ok_row [OF assms(1)] by (cases "entry_rows t (mt_next t + 1)") fastforce+
qed

lemma set_entry_twice:
  assumes "e_id e = None" "e_id f = Some (mt_next t + 1)"
  shows "fst (set_entry f (fst (set_entry e t))) = fst (set_entry (f\<lparr>e_id := None\<rparr>) t)"
  using assms by (cases t; cases f) (simp add: set_entry_def Let_def update_last)

section \<open>Registration\<close>

text \<open>
  A port of a virtual machine and the port of a datapath that the configuration gives it, neither of
  them registered, and a datapath that is not waiting to be configured.
\<close>

definition fresh_pair :: "int \<Rightarrow> int \<Rightarrow> int \<Rightarrow> int \<Rightarrow> int \<Rightarrow> server \<Rightarrow> bool" where
  "fresh_pair vm vport ct dp port s \<longleftrightarrow>
     (\<exists>c. get_config_for_vm_port vm vport (config s) = Some c \<and> cf_ct_id c = ct \<and> cf_dp_id c = dp \<and> cf_dp_port c = port)
     \<and> (\<exists>c. get_config_for_dp_port ct dp port (config s) = Some c \<and> cf_vm_id c = vm \<and> cf_vm_port c = vport)
     \<and> get_entry_by_vm_port vm vport (rftable s) = None
     \<and> get_entry_by_dp_port (Some ct) (Some dp) (Some port) (rftable s) = None
     \<and> \<not> is_rfvs_dp dp
     \<and> (map_of (sv_translator s) dp \<noteq> None \<or> \<not> is_dp_registered ct dp (rftable s) \<and> \<not> isl_is_dp_registered ct dp (isltable s))"

abbreviation vm_entry :: "int \<Rightarrow> int \<Rightarrow> string \<Rightarrow> rf_entry" where
  "vm_entry vm vport addr \<equiv> RFEntry\<lparr>re_vm_id := Some vm, re_vm_port := Some vport, re_eth_addr := Some addr\<rparr>"

abbreviation dp_entry :: "int \<Rightarrow> int \<Rightarrow> int \<Rightarrow> rf_entry" where
  "dp_entry ct dp port \<equiv> RFEntry\<lparr>re_ct_id := Some ct, re_dp_id := Some dp, re_dp_port := Some port\<rparr>"

definition associated_entry :: "int \<Rightarrow> int \<Rightarrow> string \<Rightarrow> int \<Rightarrow> int \<Rightarrow> int \<Rightarrow> rf_entry" where
  "associated_entry vm vport addr ct dp port =
     (vm_entry vm vport addr)\<lparr>re_ct_id := Some ct, re_dp_id := Some dp, re_dp_port := Some port\<rparr>"

lemma vm_first:
  assumes "server_ok s" "fresh_pair vm vport ct dp port s"
  shows "vm_port_action vm vport s = REGISTER_IDLE"
    "register_vm_port vm vport addr s = (save_rf (vm_entry vm vport addr) s, True)"
proof -
  show "vm_port_action vm vport s = REGISTER_IDLE" using assms(2) by (auto simp: fresh_pair_def vm_port_action_def)
  then show "register_vm_port vm vport addr s = (save_rf (vm_entry vm vport addr) s, True)"
    by (simp add: register_vm_port_def apply_vm_port_def)
qed

lemma config_dp_idle:
  assumes "map_of (sv_translator s) dp \<noteq> None \<or> \<not> is_dp_registered ct dp (rftable s) \<and> \<not> isl_is_dp_registered ct dp (isltable s)"
    and "\<not> is_rfvs_dp dp"
  shows "config_dp ct dp s = (s, True, False)"
  using assms by (auto simp: config_dp_def)

lemma dp_first:
  assumes "server_ok s" "fresh_pair vm vport ct dp port s"
  shows "dp_port_action ct dp port s = REGISTER_IDLE"
    "register_dp_port ct dp port s = (save_rf (dp_entry ct dp port) s, True)"
proof -
  show a: "dp_port_action ct dp port s = REGISTER_IDLE" using assms(2) by (auto simp: fresh_pair_def dp_port_action_def)
  have "config_dp ct dp s = (s, True, False)" using assms(2) by (intro config_dp_idle) (auto simp: fresh_pair_def)
  then show "register_dp_port ct dp port s = (save_rf (dp_entry ct dp port) s, True)"
    using a by (simp add: register_dp_port_def apply_dp_port_def)
qed

lemma fresh_pair_rows:
  assumes "server_ok s" "fresh_pair vm vport ct dp port s" "entry_rows (rftable s) j = Some f"
  shows "\<not> (re_vm_id f = Some vm \<and> re_vm_port f = Some vport)"
    "\<not> (re_ct_id f = Some ct \<and> re_dp_id f = Some dp \<and> re_dp_port f = Some port)"
  using assms memory.first_None [OF server_okD(1) [OF assms(1)] _ assms(3)]
  by (auto simp: fresh_pair_def get_entry_by_vm_port_def get_entry_by_dp_port_def)

text \<open>The row a new entry gets, and that a lookup finds it.\<close>

lemma save_new_lookup:
  assumes "server_ok s" "e_id e = None" "p (e\<lparr>e_id := Some (mt_next (rftable s) + 1)\<rparr>)"
    and "\<And>j f. entry_rows (rftable s) j = Some f \<Longrightarrow> \<not> p f"
  shows "first_entry (get_entries p (rftable (save_rf e s))) = Some (e\<lparr>e_id := Some (mt_next (rftable s) + 1)\<rparr>)"
  using set_entry_new [OF server_okD(1) [OF assms(1)] assms(2)] assms(3,4)
  by (intro first_entry_unique [of _ "mt_next (rftable s) + 1"]) (auto split: if_splits)

lemma save_twice:
  assumes "e_id e = None" "e_id f = Some (mt_next (rftable s) + 1)"
  shows "save_rf f (save_rf e s) = save_rf (f\<lparr>e_id := None\<rparr>) s"
  using set_entry_twice [OF assms] by (simp add: save_rf_def upd_rf_def)

lemma vm_then_dp:
  assumes "server_ok s" "fresh_pair vm vport ct dp port s"
  shows "register_dp_port ct dp port (save_rf (vm_entry vm vport addr) s) = (save_rf (associated_entry vm vport addr ct dp port) s, True)"
proof -
  let ?u = "save_rf (vm_entry vm vport addr) s" let ?i = "mt_next (rftable s) + 1"
  let ?e = "(vm_entry vm vport addr)\<lparr>e_id := Some ?i\<rparr>"
  have id: "e_id (vm_entry vm vport addr) = None" by (simp add: RFEntry_def)
  have "get_entry_by_vm_port vm vport (rftable ?u) = Some ?e"
    unfolding get_entry_by_vm_port_def
    by (rule save_new_lookup [OF assms(1) id]) (use fresh_pair_rows [OF assms] in \<open>auto simp: RFEntry_def\<close>)
  moreover have "get_status ?e = RFENTRY_IDLE_VM_PORT" by (simp add: get_status_def is_idle_vm_port_def RFEntry_def)
  ultimately have act: "dp_port_action ct dp port ?u = REGISTER_ASSOCIATED ?e"
    using assms(2) by (auto simp: fresh_pair_def dp_port_action_def)
  have rows: "ran (entry_rows (rftable ?u)) = insert ?e (ran (entry_rows (rftable s)))"
    using set_entry_new(2,3) [OF server_okD(1) [OF assms(1)] id] by simp
  have "table_ok (rftable ?u)" using set_entry_new(1) [OF server_okD(1) [OF assms(1)] id] by simp
  then have "is_dp_registered ct dp (rftable ?u) \<longleftrightarrow> is_dp_registered ct dp (rftable s)"
    using set_get_entries [of "rftable ?u"] set_get_entries [of "rftable s"] server_okD(1) [OF assms(1)] rows
    by (auto simp: is_dp_registered_def get_dp_entries_def RFEntry_def simp flip: set_empty)
  then have "config_dp ct dp ?u = (?u, True, False)"
    using assms(2) by (intro config_dp_idle) (auto simp: fresh_pair_def)
  moreover have "associate dp port (Some ct) None ?e = Some (?e\<lparr>re_ct_id := Some ct, re_dp_id := Some dp, re_dp_port := Some port\<rparr>)"
    by (simp add: associate_def is_idle_vm_port_def RFEntry_def)
  moreover have "save_rf (?e\<lparr>re_ct_id := Some ct, re_dp_id := Some dp, re_dp_port := Some port\<rparr>) ?u
      = save_rf (associated_entry vm vport addr ct dp port) s"
    by (subst save_twice) (simp_all add: RFEntry_def associated_entry_def)
  ultimately show ?thesis using act by (simp add: register_dp_port_def apply_dp_port_def)
qed

lemma dp_then_vm:
  assumes "server_ok s" "fresh_pair vm vport ct dp port s"
  shows "register_vm_port vm vport addr (save_rf (dp_entry ct dp port) s) = (save_rf (associated_entry vm vport addr ct dp port) s, True)"
proof -
  let ?u = "save_rf (dp_entry ct dp port) s" let ?i = "mt_next (rftable s) + 1"
  let ?e = "(dp_entry ct dp port)\<lparr>e_id := Some ?i\<rparr>"
  have id: "e_id (dp_entry ct dp port) = None" by (simp add: RFEntry_def)
  have "get_entry_by_dp_port (Some ct) (Some dp) (Some port) (rftable ?u) = Some ?e"
    unfolding get_entry_by_dp_port_def
    by (rule save_new_lookup [OF assms(1) id]) (use fresh_pair_rows [OF assms] in \<open>auto simp: RFEntry_def\<close>)
  moreover have "get_status ?e = RFENTRY_IDLE_DP_PORT" by (simp add: get_status_def is_idle_vm_port_def is_idle_dp_port_def RFEntry_def)
  ultimately have act: "vm_port_action vm vport ?u = REGISTER_ASSOCIATED ?e"
    using assms(2) by (auto simp: fresh_pair_def vm_port_action_def)
  have "associate vm vport None (Some addr) ?e = Some (?e\<lparr>re_vm_id := Some vm, re_vm_port := Some vport, re_eth_addr := Some addr\<rparr>)"
    by (simp add: associate_def is_idle_vm_port_def is_idle_dp_port_def RFEntry_def)
  moreover have "save_rf (?e\<lparr>re_vm_id := Some vm, re_vm_port := Some vport, re_eth_addr := Some addr\<rparr>) ?u
      = save_rf (associated_entry vm vport addr ct dp port) s"
    by (subst save_twice) (simp_all add: RFEntry_def associated_entry_def)
  ultimately show ?thesis using act by (simp add: register_vm_port_def apply_vm_port_def)
qed

text \<open>The state both orders lead to.\<close>

lemma associated_state:
  assumes "server_ok s" "fresh_pair vm vport ct dp port s"
  shows "server_ok (save_rf (associated_entry vm vport addr ct dp port) s)"
    "get_entry_by_vm_port vm vport (rftable (save_rf (associated_entry vm vport addr ct dp port) s))
       = Some ((associated_entry vm vport addr ct dp port)\<lparr>e_id := Some (mt_next (rftable s) + 1)\<rparr>)"
proof -
  show "server_ok (save_rf (associated_entry vm vport addr ct dp port) s)"
    using register_vm_port_ok [of "save_rf (dp_entry ct dp port) s"] dp_then_vm [OF assms] register_dp_port_ok [OF assms(1)]
      dp_first(2) [OF assms] by (metis fst_conv)
  show "get_entry_by_vm_port vm vport (rftable (save_rf (associated_entry vm vport addr ct dp port) s))
       = Some ((associated_entry vm vport addr ct dp port)\<lparr>e_id := Some (mt_next (rftable s) + 1)\<rparr>)"
    unfolding get_entry_by_vm_port_def
    by (rule save_new_lookup [OF assms(1)]) (use fresh_pair_rows [OF assms] in \<open>auto simp: RFEntry_def associated_entry_def\<close>)
qed

lemma associated_status: "get_status (associated_entry vm vport addr ct dp port) = RFENTRY_ASSOCIATED"
  by (simp add: associated_entry_def RFEntry_def get_status_def is_idle_vm_port_def is_idle_dp_port_def)

lemma status_id [simp]: "get_status (e\<lparr>e_id := x\<rparr>) = get_status e"
proof -
  have "is_idle_vm_port (e\<lparr>e_id := x\<rparr>) = is_idle_vm_port e" "is_idle_dp_port (e\<lparr>e_id := x\<rparr>) = is_idle_dp_port e"
    by (simp_all add: is_idle_vm_port_def is_idle_dp_port_def)
  then show ?thesis by (simp add: get_status_def)
qed

section \<open>A server to try the properties on\<close>

abbreviation demo_config :: "string list" where
  "demo_config \<equiv> [''vm_id,vm_port,ct_id,dp_id,dp_port'', ''a,1,0,9,3 # the first port'', '' '']"

lemma demo_loads:
  "\<exists>s. RFServer (\<lambda>ks. ks) demo_config None None [] [] = Some (Some s)
     \<and> config s = \<lparr>mt_next = 1001, mt_data = [(1001, \<lparr>e_id = Some 1001, cf_vm_id = 10, cf_vm_port = 1, cf_ct_id = 0,
         cf_dp_id = 9, cf_dp_port = 3, cf_fp_label = None\<rparr>)], mt_order = (\<lambda>ks. ks)\<rparr>"
proof -
  let ?e = "\<lparr>e_id = None, cf_vm_id = 10, cf_vm_port = 1, cf_ct_id = 0, cf_dp_id = 9, cf_dp_port = 3, cf_fp_label = None\<rparr>"
  have 1: "conf_fields ''a,1,0,9,3 # the first port'' = [''a'', ''1'', ''0'', ''9'', ''3 '']" by code_simp
  have 2: "blank_conf (conf_fields '' '')" by code_simp
  have 3: "parse_config_line [''a'', ''1'', ''0'', ''9'', ''3 ''] = Some ?e" by code_simp
  have 4: "\<not> blank_conf [''a'', ''1'', ''0'', ''9'', ''3 '']" by (simp add: blank_conf_def)
  have "RFConfig (\<lambda>ks. ks) demo_config = Some (fst (set_entry ?e (MemoryTable (\<lambda>ks. ks))))"
    using 1 2 3 4 by (simp add: RFConfig_def)
  then show ?thesis
    by (auto simp: RFServer_def RFISLConf_def RFFPConf_def fp_allocate_labels_def get_entries_all_def get_entries_def
        set_entry_def MemoryTable_def Let_def List.map_filter_def)
qed

lemma identity_order: "good_order (\<lambda>ks. ks)"
  by (simp add: good_order_def)

lemma demo_fresh:
  assumes "RFServer (\<lambda>ks. ks) demo_config None None [] [] = Some (Some s)"
    "config s = \<lparr>mt_next = 1001, mt_data = [(1001, \<lparr>e_id = Some 1001, cf_vm_id = 10, cf_vm_port = 1, cf_ct_id = 0,
         cf_dp_id = 9, cf_dp_port = 3, cf_fp_label = None\<rparr>)], mt_order = (\<lambda>ks. ks)\<rparr>"
  shows "server_ok s" "fresh_pair 10 1 0 9 3 s"
proof -
  note i = RFServer_init [OF identity_order assms(1)]
  show "server_ok s" by (rule i(1))
  then have e: "get_entries p (rftable s) = []" "get_entries q (isltable s) = []" for p q
    using set_get_entries [of "rftable s" p] set_get_entries [of "isltable s" q] i(2,3) server_okD(1,2) by fastforce+
  have "\<not> is_rfvs_dp 9" by (simp add: is_rfvs_dp_def RFVS_DP_PREFIX_def)
  then show "fresh_pair 10 1 0 9 3 s"
    by (simp add: fresh_pair_def get_config_for_vm_port_def get_config_for_dp_port_def get_entry_by_vm_port_def
        get_entry_by_dp_port_def is_dp_registered_def get_dp_entries_def isl_is_dp_registered_def isl_get_dp_entries_def
        e assms(2) first_entry_def get_entries_def [of _ "\<lparr>mt_next = _, mt_data = _, mt_order = _\<rparr>"] List.map_filter_def)
qed

section \<open>Properties\<close>

text \<open>
  C1: whatever messages the server receives after reading its configuration, and in whatever order the
  threads run, every association in its table, active or not, is one that the configuration provides for:
  an entry with a virtual machine port and a datapath, or with a virtual switch port, is a line of the
  configuration.
\<close>

theorem associations_follow_configuration:
  assumes "good_order ord" and "RFServer ord cf isl_file fp_file multi sat = Some (Some s)"
    and "entry_rows (rftable (fold server_step evs s)) i = Some e"
    and "re_vm_id e \<noteq> None \<and> re_dp_id e \<noteq> None \<or> re_vs_id e \<noteq> None"
  shows "\<exists>c \<in> ran (entry_rows (config s)).
    re_vm_id e = Some (cf_vm_id c) \<and> re_vm_port e = Some (cf_vm_port c)
    \<and> re_ct_id e = Some (cf_ct_id c) \<and> re_dp_id e = Some (cf_dp_id c) \<and> re_dp_port e = Some (cf_dp_port c)"
proof -
  have ok: "server_ok (fold server_step evs s)" by (rule server_run_ok [OF RFServer_init(1) [OF assms(1,2)]])
  have "config (fold server_step evs s) = config s" using static_run [of evs s] by (simp add: static_def)
  then have "row_ok (config s) e" using server_okD(5) [OF ok assms(3)] by simp
  then have "configured (config s) e"
    by (cases rule: row_ok_cases) (use assms(4) in \<open>auto simp: is_idle_vm_port_def is_idle_dp_port_def blank_def\<close>)
  then show ?thesis by (simp add: configured_def)
qed

lemma alive_same: "sv_client_alive s \<Longrightarrow> s\<lparr>sv_client_alive := True\<rparr> = s" "sv_proxy_alive s \<Longrightarrow> s\<lparr>sv_proxy_alive := True\<rparr> = s"
  by (cases s; simp)+

lemma save_alive [simp]:
  "sv_client_alive (save_rf e s) = sv_client_alive s" "sv_proxy_alive (save_rf e s) = sv_proxy_alive s"
  by (simp_all add: save_rf_def upd_rf_def)

theorem associations_follow_configuration_witness:
  "\<exists>s i e c. RFServer (\<lambda>ks. ks) demo_config None None [] [] = Some (Some s)
     \<and> entry_rows (rftable (fold server_step [Received RFSERVER_RFPROXY_CHANNEL (DatapathPortRegister 0 9 3),
          Received RFCLIENT_RFSERVER_CHANNEL (PortRegister 10 1 ''02:00'')] s)) i = Some e
     \<and> c \<in> ran (entry_rows (config s)) \<and> re_vm_id e = Some (cf_vm_id c) \<and> re_dp_id e = Some (cf_dp_id c)"
proof -
  from demo_loads obtain s where s: "RFServer (\<lambda>ks. ks) demo_config None None [] [] = Some (Some s)"
    "config s = \<lparr>mt_next = 1001, mt_data = [(1001, \<lparr>e_id = Some 1001, cf_vm_id = 10, cf_vm_port = 1, cf_ct_id = 0,
         cf_dp_id = 9, cf_dp_port = 3, cf_fp_label = None\<rparr>)], mt_order = (\<lambda>ks. ks)\<rparr>" by blast
  note f = demo_fresh [OF s] and i = RFServer_init [OF identity_order s(1)]
  let ?evs = "[Received RFSERVER_RFPROXY_CHANNEL (DatapathPortRegister 0 9 3),
          Received RFCLIENT_RFSERVER_CHANNEL (PortRegister 10 1 ''02:00'')]"
  let ?e = "associated_entry 10 1 ''02:00'' 0 9 3"
  have run: "fold server_step ?evs s = save_rf ?e s"
    using dp_first(2) [OF f] dp_then_vm [OF f, of "''02:00''"] i(5,6) by (simp add: process_def alive_same)
  have "e_id ?e = None" by (simp add: associated_entry_def RFEntry_def)
  from set_entry_new(2) [OF server_okD(1) [OF f(1)] this]
  have row: "entry_rows (rftable (fold server_step ?evs s)) (mt_next (rftable s) + 1) = Some (?e\<lparr>e_id := Some (mt_next (rftable s) + 1)\<rparr>)"
    unfolding run by simp
  have "re_vm_id ?e \<noteq> None \<and> re_dp_id ?e \<noteq> None" by (simp add: associated_entry_def)
  then obtain c where "c \<in> ran (entry_rows (config s))" "re_vm_id ?e = Some (cf_vm_id c)" "re_dp_id ?e = Some (cf_dp_id c)"
    using associations_follow_configuration [OF identity_order s(1) row] by auto
  then have "c \<in> ran (entry_rows (config s)) \<and> re_vm_id (?e\<lparr>e_id := Some (mt_next (rftable s) + 1)\<rparr>) = Some (cf_vm_id c)
      \<and> re_dp_id (?e\<lparr>e_id := Some (mt_next (rftable s) + 1)\<rparr>) = Some (cf_dp_id c)" by simp
  then show ?thesis using s(1) row by blast
qed

text \<open>
  C11: for a virtual machine port and its configured datapath port, neither registered before, the order
  of the two registrations does not matter: both orders lead to the same state, in which the two ports
  are associated.
\<close>

theorem registration_commutes:
  assumes "server_ok s" and "fresh_pair vm vport ct dp port s"
  shows "register_dp_port ct dp port (fst (register_vm_port vm vport addr s))
      = register_vm_port vm vport addr (fst (register_dp_port ct dp port s))
    \<and> (\<exists>e. get_entry_by_vm_port vm vport (rftable (fst (register_dp_port ct dp port (fst (register_vm_port vm vport addr s))))) = Some e
         \<and> get_status e = RFENTRY_ASSOCIATED \<and> re_eth_addr e = Some addr
         \<and> re_ct_id e = Some ct \<and> re_dp_id e = Some dp \<and> re_dp_port e = Some port)"
  using vm_first(2) [OF assms] dp_first(2) [OF assms] vm_then_dp [OF assms] dp_then_vm [OF assms]
    associated_state(2) [OF assms] associated_status [of vm vport addr ct dp port]
  by (simp add: associated_entry_def)

theorem registration_commutes_witness:
  "\<exists>s e. RFServer (\<lambda>ks. ks) demo_config None None [] [] = Some (Some s)
     \<and> get_entry_by_vm_port 10 1 (rftable (fst (register_dp_port 0 9 3 (fst (register_vm_port 10 1 ''02:00'' s))))) = Some e
     \<and> get_status e = RFENTRY_ASSOCIATED"
proof -
  from demo_loads obtain s where s: "RFServer (\<lambda>ks. ks) demo_config None None [] [] = Some (Some s)"
    "config s = \<lparr>mt_next = 1001, mt_data = [(1001, \<lparr>e_id = Some 1001, cf_vm_id = 10, cf_vm_port = 1, cf_ct_id = 0,
         cf_dp_id = 9, cf_dp_port = 3, cf_fp_label = None\<rparr>)], mt_order = (\<lambda>ks. ks)\<rparr>" by blast
  from registration_commutes [OF demo_fresh [OF s], of "''02:00''"] s(1) show ?thesis by blast
qed

text \<open>
  C36: the two registration handlers run in different threads without a lock. When both read the tables
  before either changes them, both ports are registered as idle: the table holds an idle entry for each
  and no association, although the configuration pairs them.
\<close>

theorem registration_race:
  fixes s :: server and vm vport ct dp port :: int and addr :: string
  assumes "server_ok s" and "fresh_pair vm vport ct dp port s"
  defines "s' \<equiv> fst (apply_dp_port ct dp port (dp_port_action ct dp port s)
                   (fst (apply_vm_port vm vport addr (vm_port_action vm vport s) s)))"
  shows "(\<exists>e. get_entry_by_vm_port vm vport (rftable s') = Some e \<and> get_status e = RFENTRY_IDLE_VM_PORT)
    \<and> (\<exists>f. get_entry_by_dp_port (Some ct) (Some dp) (Some port) (rftable s') = Some f \<and> get_status f = RFENTRY_IDLE_DP_PORT)"
proof -
  let ?v = "vm_entry vm vport addr" and ?d = "dp_entry ct dp port" let ?u = "save_rf ?v s"
  have s': "s' = save_rf ?d ?u"
    unfolding s'_def vm_first(1) [OF assms(1,2)] dp_first(1) [OF assms(1,2)] by (simp add: apply_vm_port_def apply_dp_port_def)
  have ids: "e_id ?v = None" "e_id ?d = None" by (simp_all add: RFEntry_def)
  have oku: "server_ok ?u" using register_vm_port_ok [OF assms(1), of vm vport addr] vm_first(2) [OF assms(1,2), of addr] by simp
  note u = set_entry_new [OF server_okD(1) [OF assms(1)] ids(1)]
  note d = set_entry_new [OF server_okD(1) [OF oku] ids(2)]
  let ?i = "mt_next (rftable s) + 1" and ?j = "mt_next (rftable ?u) + 1"
  have rows: "entry_rows (rftable s') = (entry_rows (rftable s))(?i \<mapsto> ?v\<lparr>e_id := Some ?i\<rparr>, ?j \<mapsto> ?d\<lparr>e_id := Some ?j\<rparr>)"
    using u(2) d(2) by (simp add: s')
  have ne: "?i \<noteq> ?j" using d(3) u(2) by auto
  have ok: "table_ok (rftable s')" using d(1) by (simp add: s')
  have "get_entry_by_vm_port vm vport (rftable s') = Some (?v\<lparr>e_id := Some ?i\<rparr>)"
    unfolding get_entry_by_vm_port_def
    by (rule first_entry_unique [OF ok, of ?i])
      (use rows ne fresh_pair_rows(1) [OF assms(1,2)] in \<open>auto simp: RFEntry_def split: if_splits\<close>)
  moreover have "get_entry_by_dp_port (Some ct) (Some dp) (Some port) (rftable s') = Some (?d\<lparr>e_id := Some ?j\<rparr>)"
    unfolding get_entry_by_dp_port_def
    by (rule first_entry_unique [OF ok, of ?j])
      (use rows ne fresh_pair_rows(2) [OF assms(1,2)] in \<open>auto simp: RFEntry_def split: if_splits\<close>)
  ultimately show ?thesis by (simp add: get_status_def is_idle_vm_port_def is_idle_dp_port_def RFEntry_def)
qed

theorem registration_race_witness:
  "\<exists>s e. RFServer (\<lambda>ks. ks) demo_config None None [] [] = Some (Some s)
     \<and> get_entry_by_vm_port 10 1 (rftable (fst (apply_dp_port 0 9 3 (dp_port_action 0 9 3 s)
          (fst (apply_vm_port 10 1 ''02:00'' (vm_port_action 10 1 s) s))))) = Some e
     \<and> get_status e = RFENTRY_IDLE_VM_PORT"
proof -
  from demo_loads obtain s where s: "RFServer (\<lambda>ks. ks) demo_config None None [] [] = Some (Some s)"
    "config s = \<lparr>mt_next = 1001, mt_data = [(1001, \<lparr>e_id = Some 1001, cf_vm_id = 10, cf_vm_port = 1, cf_ct_id = 0,
         cf_dp_id = 9, cf_dp_port = 3, cf_fp_label = None\<rparr>)], mt_order = (\<lambda>ks. ks)\<rparr>" by blast
  from registration_race [OF demo_fresh [OF s], of "''02:00''"] s(1) show ?thesis by blast
qed

end
