(* ===== verification/RF_Down.thy ===== *)
theory RF_Down
  imports RF_ServerProps
begin

text \<open>
  What is left of a datapath that goes down: no entry of the two tables mentions it, all other entries
  are as before, and every virtual machine port that was associated with it is told to reset.
\<close>

section \<open>What a datapath leaves\<close>

definition forget_datapath :: "int \<Rightarrow> int \<Rightarrow> rf_entry \<Rightarrow> rf_entry" where
  "forget_datapath ct dp e =
     (if re_ct_id e = Some ct \<and> re_dp_id e = Some dp
      then e\<lparr>re_ct_id := None, re_dp_id := None, re_dp_port := None, re_vs_id := None, re_vs_port := None\<rparr> else e)"

definition forget_local :: "int \<Rightarrow> int \<Rightarrow> isl_entry \<Rightarrow> isl_entry" where
  "forget_local ct dp e =
     (if is_ct_id e = Some ct \<and> is_dp_id e = Some dp
      then e\<lparr>is_ct_id := None, is_dp_id := None, is_dp_port := None, is_eth_addr := None\<rparr> else e)"

definition forget_remote :: "int \<Rightarrow> int \<Rightarrow> isl_entry \<Rightarrow> isl_entry" where
  "forget_remote ct dp e =
     (if is_rem_ct e = Some ct \<and> is_rem_id e = Some dp
      then e\<lparr>is_rem_ct := None, is_rem_id := None, is_rem_port := None, is_rem_eth_addr := None\<rparr> else e)"

definition reset_messages :: "rf_entry \<Rightarrow> (ipc_channel \<times> string \<times> message) list" where
  "reset_messages e =
     (case re_vm_id e of
        None \<Rightarrow> []
      | Some v \<Rightarrow> [(RFCLIENT_RFSERVER_CHANNEL, int_to_string v, PortConfig v (num_or_0 (re_vm_port e)) PCT_RESET)])"

section \<open>The ports of the datapath\<close>

definition on_dp :: "int \<Rightarrow> int \<Rightarrow> rf_entry \<Rightarrow> bool" where
  "on_dp ct dp e \<longleftrightarrow> re_ct_id e = Some ct \<and> re_dp_id e = Some dp"

definition dp_rows :: "int \<Rightarrow> int \<Rightarrow> server \<Rightarrow> rf_entry set" where
  "dp_rows ct dp s = {e \<in> ran (entry_rows (rftable s)). on_dp ct dp e}"

lemma finite_dp_rows [simp]: "finite (dp_rows ct dp s)"
  using finite_ran [OF finite_dom_map_of [of "mt_data (rftable s)"]] by (simp add: dp_rows_def entry_rows_def)

lemma dp_rows_entries:
  assumes "server_ok s"
  shows "mset_set (dp_rows ct dp s) = mset (get_dp_entries (Some ct) (Some dp) (rftable s))"
  using set_get_entries [OF server_okD(1) [OF assms]] distinct_get_entries [OF server_okD(1) [OF assms]]
  by (simp add: dp_rows_def on_dp_def get_dp_entries_def flip: mset_set_set)

lemma ran_replace:
  assumes "\<And>j. m j = Some f \<Longrightarrow> j = i" "m i = Some f"
  shows "ran (m(i \<mapsto> x)) = insert x (ran m - {f})"
proof -
  have "y \<in> ran (m(i := None)) \<longleftrightarrow> y \<in> ran m \<and> y \<noteq> f" for y
    using assms unfolding ran_def mem_Collect_eq fun_upd_apply by (metis option.distinct(1) option.inject)
  then have "ran (m(i := None)) = ran m - {f}" by blast
  then show ?thesis using ran_map_upd [of "m(i := None)" i x] by simp
qed

text \<open>One port: the entry the lookup finds becomes idle, and its machine is told.\<close>

lemma port_down:
  assumes "server_ok s" "f0 \<in> dp_rows ct dp s"
  obtains i f where "entry_rows (rftable s) i = Some f" "on_dp ct dp f" "re_dp_port f = re_dp_port f0"
    "entry_rows (rftable (set_dp_port_down (Some ct) (Some dp) (re_dp_port f0) s))
       = (entry_rows (rftable s))(i \<mapsto> forget_datapath ct dp f)"
    "dp_rows ct dp (set_dp_port_down (Some ct) (Some dp) (re_dp_port f0) s) = dp_rows ct dp s - {f}"
    "sv_sent (set_dp_port_down (Some ct) (Some dp) (re_dp_port f0) s) = sv_sent s @ reset_messages f"
    "isltable (set_dp_port_down (Some ct) (Some dp) (re_dp_port f0) s) = isltable s"
proof -
  let ?p = "\<lambda>e. re_ct_id e = Some ct \<and> re_dp_id e = Some dp \<and> re_dp_port e = re_dp_port f0"
  note tok = server_okD(1) [OF assms(1)]
  let ?s = "set_dp_port_down (Some ct) (Some dp) (re_dp_port f0) s"
  obtain j where "entry_rows (rftable s) j = Some f0" "?p f0" using assms(2) by (auto simp: dp_rows_def ran_def on_dp_def)
  then obtain f where f: "get_entry_by_dp_port (Some ct) (Some dp) (re_dp_port f0) (rftable s) = Some f"
    using memory.first_None [OF tok, of ?p j f0] unfolding get_entry_by_dp_port_def by fastforce
  from first_entry_row [OF tok f [unfolded get_entry_by_dp_port_def]] obtain i
    where i: "?p f" "e_id f = Some i" "entry_rows (rftable s) i = Some f" by blast
  let ?g = "forget_datapath ct dp f"
  have g: "make_idle RFENTRY_IDLE_VM_PORT f = ?g" "e_id ?g = Some i" "\<not> on_dp ct dp ?g"
    using i by (simp_all add: make_idle_def forget_datapath_def on_dp_def)
  have s: "?s = reset_vm_port (re_vm_id f) (re_vm_port f) (save_rf ?g s)" using f g by (simp add: set_dp_port_down_def)
  have tb: "sv_tb ?s = sv_tb (save_rf ?g s)" unfolding s by (simp add: reset_vm_port_def split: option.split)
  have rows: "entry_rows (rftable ?s) = (entry_rows (rftable s))(i \<mapsto> ?g)"
    using memory.put_known [OF tok g(2)] i(3) tb by simp
  have "j = i" if "entry_rows (rftable s) j = Some f" for j using table_ok_row [OF tok that] i(2) by simp
  from ran_replace [of "entry_rows (rftable s)", OF this i(3)]
  have dr: "dp_rows ct dp ?s = dp_rows ct dp s - {f}" using g(3) by (auto simp: dp_rows_def rows)
  have "sv_sent ?s = sv_sent s @ reset_messages f"
    unfolding s by (simp add: reset_vm_port_def reset_messages_def split: option.split)
  with i rows dr tb show ?thesis by (intro that [of i f]) (simp_all add: on_dp_def)
qed

text \<open>All ports, when the list names as many ports as the datapath has entries for each of them.\<close>

lemma ports_down:
  assumes "server_ok s" "\<forall>e \<in> set es. on_dp ct dp e"
    and "image_mset re_dp_port (mset_set (dp_rows ct dp s)) = mset (map re_dp_port es)"
  shows "entry_rows (rftable (fold (\<lambda>e. set_dp_port_down (re_ct_id e) (re_dp_id e) (re_dp_port e)) es s))
      = (\<lambda>i. map_option (forget_datapath ct dp) (entry_rows (rftable s) i))
    \<and> isltable (fold (\<lambda>e. set_dp_port_down (re_ct_id e) (re_dp_id e) (re_dp_port e)) es s) = isltable s
    \<and> (\<exists>fs. mset fs = mset_set (dp_rows ct dp s)
         \<and> sv_sent (fold (\<lambda>e. set_dp_port_down (re_ct_id e) (re_dp_id e) (re_dp_port e)) es s)
           = sv_sent s @ concat (map reset_messages fs))"
  using assms
proof (induction es arbitrary: s)
  case Nil
  then have "dp_rows ct dp s = {}" by (simp add: mset_set_empty_iff)
  moreover have "forget_datapath ct dp e = e" if "entry_rows (rftable s) i = Some e" "dp_rows ct dp s = {}" for i e
    using that by (auto simp: dp_rows_def forget_datapath_def on_dp_def ran_def)
  ultimately show ?case by (auto simp: fun_eq_iff map_option_case split: option.split)
next
  case (Cons e es)
  let ?down = "\<lambda>e. set_dp_port_down (re_ct_id e) (re_dp_id e) (re_dp_port e)"
  have e: "re_ct_id e = Some ct" "re_dp_id e = Some dp" using Cons.prems(2) by (simp_all add: on_dp_def)
  have "re_dp_port e \<in># image_mset re_dp_port (mset_set (dp_rows ct dp s))" unfolding Cons.prems(3) by simp
  then obtain f0 where f0: "f0 \<in> dp_rows ct dp s" "re_dp_port f0 = re_dp_port e" by auto
  let ?s = "?down e s"
  from port_down [OF Cons.prems(1) f0(1)] obtain i f where
    f: "entry_rows (rftable s) i = Some f" "on_dp ct dp f" "re_dp_port f = re_dp_port e"
    and rows: "entry_rows (rftable ?s) = (entry_rows (rftable s))(i \<mapsto> forget_datapath ct dp f)"
    and dr: "dp_rows ct dp ?s = dp_rows ct dp s - {f}"
    and sent: "sv_sent ?s = sv_sent s @ reset_messages f" and il: "isltable ?s = isltable s"
    by (metis e f0(2))
  have "f \<in> dp_rows ct dp s" using f by (auto simp: dp_rows_def ran_def)
  then have ms: "mset_set (dp_rows ct dp s) = add_mset f (mset_set (dp_rows ct dp ?s))"
    unfolding dr by (simp add: mset_set.remove)
  then have "image_mset re_dp_port (mset_set (dp_rows ct dp ?s)) = mset (map re_dp_port es)"
    using Cons.prems(3) f(3) by simp
  from Cons.IH [OF set_dp_port_down_ok [OF Cons.prems(1)] _ this] Cons.prems(2)
  obtain fs where IH: "entry_rows (rftable (fold ?down es ?s)) = (\<lambda>i. map_option (forget_datapath ct dp) (entry_rows (rftable ?s) i))"
    "isltable (fold ?down es ?s) = isltable ?s" "mset fs = mset_set (dp_rows ct dp ?s)"
    "sv_sent (fold ?down es ?s) = sv_sent ?s @ concat (map reset_messages fs)" by auto
  have twice: "forget_datapath ct dp (forget_datapath ct dp f) = forget_datapath ct dp f" by (simp add: forget_datapath_def)
  show ?case
  proof (intro conjI exI [of _ "f # fs"])
    show "entry_rows (rftable (fold ?down (e # es) s)) = (\<lambda>i. map_option (forget_datapath ct dp) (entry_rows (rftable s) i))"
      using IH(1) rows f(1) twice by (auto simp: fun_eq_iff)
  qed (use IH sent il ms in simp_all)
qed

section \<open>The links of the datapath\<close>

lemma links_idle:
  assumes "server_ok s" "ty \<in> {RFISL_IDLE_REMOTE, RFISL_IDLE_DP_PORT}" "set es \<subseteq> ran (entry_rows (isltable s))" "distinct es"
  shows "entry_rows (isltable (fold (\<lambda>e. save_isl (isl_make_idle ty e)) es s))
      = (\<lambda>i. map_option (\<lambda>e. if e \<in> set es then isl_make_idle ty e else e) (entry_rows (isltable s) i))"
  using assms(3,4)
proof (induction es rule: rev_induct)
  case Nil
  show ?case by (simp add: option.map_ident)
next
  case (snoc e es)
  let ?s = "fold (\<lambda>e. save_isl (isl_make_idle ty e)) es s"
  note tok = server_okD(2) [OF assms(1)]
  have IH: "entry_rows (isltable ?s) = (\<lambda>i. map_option (\<lambda>e. if e \<in> set es then isl_make_idle ty e else e) (entry_rows (isltable s) i))"
    using snoc by simp
  have known: "isl_row_ok x \<and> (\<exists>i. e_id x = Some i \<and> entry_rows (isltable s) i = Some x)" if "x \<in> set (es @ [e])" for x
    using that snoc.prems(1) server_okD(6) [OF assms(1)] table_ok_row [OF tok] by (fastforce simp: ran_def)
  have "server_ok ?s"
    by (rule idle_isl_rows_ok [OF assms(1,2)]) (metis known UnCI option.distinct(1) set_append)
  note tok' = server_okD(2) [OF this]
  obtain i where i: "isl_row_ok e" "e_id e = Some i" "entry_rows (isltable s) i = Some e" using known by auto
  have e': "e_id (isl_make_idle ty e) = Some i" using isl_make_idle_ok [OF i(1) assms(2)] i(2) by simp
  have "entry_rows (isltable (save_isl (isl_make_idle ty e) ?s)) = (entry_rows (isltable ?s))(i \<mapsto> isl_make_idle ty e)"
    using memory.put_known [OF tok' e'] IH i(3) by simp
  moreover have "entry_rows (isltable s) j \<noteq> Some e" if "j \<noteq> i" for j using table_ok_row [OF tok, of j e] i(2) that by auto
  ultimately have "entry_rows (isltable (save_isl (isl_make_idle ty e) ?s)) j
      = map_option (\<lambda>e'. if e' \<in> set (es @ [e]) then isl_make_idle ty e' else e') (entry_rows (isltable s) j)" for j
    using IH i(3) by (cases "j = i"; cases "entry_rows (isltable s) j") force+
  then show ?case by (simp add: fun_eq_iff)
qed

lemma links_down:
  assumes "server_ok s" "ty \<in> {RFISL_IDLE_REMOTE, RFISL_IDLE_DP_PORT}"
  shows "entry_rows (isltable (fold (\<lambda>e. save_isl (isl_make_idle ty e)) (get_entries p (isltable s)) s))
      = (\<lambda>i. map_option (\<lambda>e. if p e then isl_make_idle ty e else e) (entry_rows (isltable s) i))"
proof -
  note tok = server_okD(2) [OF assms(1)]
  have "e \<in> set (get_entries p (isltable s)) \<longleftrightarrow> p e" if "entry_rows (isltable s) i = Some e" for i e
    using that by (auto simp: set_get_entries [OF tok] ran_def)
  then show ?thesis
    using links_idle [OF assms, of "get_entries p (isltable s)"] set_get_entries [OF tok] distinct_get_entries [OF tok]
    by (auto simp: fun_eq_iff map_option_case split: option.split)
qed

lemma save_isl_fold: "rftable (fold (\<lambda>e. save_isl (g e)) es s) = rftable s \<and> sv_sent (fold (\<lambda>e. save_isl (g e)) es s) = sv_sent s"
  by (induction es arbitrary: s) simp_all

lemma forget_idle:
  "(\<lambda>e. if is_ct_id e = Some ct \<and> is_dp_id e = Some dp then isl_make_idle RFISL_IDLE_REMOTE e else e) = forget_local ct dp"
  "(\<lambda>e. if is_rem_ct e = Some ct \<and> is_rem_id e = Some dp then isl_make_idle RFISL_IDLE_DP_PORT e else e) = forget_remote ct dp"
  by (simp_all add: fun_eq_iff isl_make_idle_def forget_local_def forget_remote_def)

lemma dp_down_parts:
  assumes "server_ok s"
  shows "entry_rows (rftable (set_dp_down ct dp s)) = (\<lambda>i. map_option (forget_datapath ct dp) (entry_rows (rftable s) i))"
    "entry_rows (isltable (set_dp_down ct dp s))
       = (\<lambda>i. map_option (\<lambda>e. forget_remote ct dp (forget_local ct dp e)) (entry_rows (isltable s) i))"
    "\<exists>fs. mset fs = mset (get_dp_entries (Some ct) (Some dp) (rftable s))
       \<and> sv_sent (set_dp_down ct dp s) = sv_sent s @ concat (map reset_messages fs)"
proof -
  let ?es = "get_dp_entries (Some ct) (Some dp) (rftable s)"
  define u where "u = fold (\<lambda>e. set_dp_port_down (re_ct_id e) (re_dp_id e) (re_dp_port e)) ?es s"
  define v where "v = fold (\<lambda>e. save_isl (isl_make_idle RFISL_IDLE_REMOTE e)) (isl_get_dp_entries ct dp (isltable u)) u"
  have w: "set_dp_down ct dp s = fold (\<lambda>e. save_isl (isl_make_idle RFISL_IDLE_DP_PORT e))
      (get_entries (\<lambda>e. is_rem_ct e = Some ct \<and> is_rem_id e = Some dp) (isltable v)) v"
    by (simp add: set_dp_down_def Let_def u_def v_def)
  have oku: "server_ok u" unfolding u_def by (rule fold_ok [OF set_dp_port_down_ok assms])
  then have okv: "server_ok v" unfolding v_def isl_get_dp_entries_def by (intro idle_isl_rows_ok isl_rows_ok) simp_all
  have on: "\<forall>e \<in> set ?es. on_dp ct dp e"
    using get_entries_row(1) [OF server_okD(1) [OF assms]] unfolding get_dp_entries_def on_dp_def by blast
  note u = ports_down [OF assms on, folded u_def, unfolded dp_rows_entries [OF assms]]
  have uv: "rftable (set_dp_down ct dp s) = rftable u" "sv_sent (set_dp_down ct dp s) = sv_sent u"
    unfolding w using save_isl_fold [of "isl_make_idle _"] by (simp_all add: v_def)
  show "entry_rows (rftable (set_dp_down ct dp s)) = (\<lambda>i. map_option (forget_datapath ct dp) (entry_rows (rftable s) i))"
    using u uv by simp
  show "\<exists>fs. mset fs = mset ?es \<and> sv_sent (set_dp_down ct dp s) = sv_sent s @ concat (map reset_messages fs)"
    using u uv by simp
  have "entry_rows (isltable v) = (\<lambda>i. map_option (forget_local ct dp) (entry_rows (isltable s) i))"
    using links_down [OF oku, of RFISL_IDLE_REMOTE "\<lambda>e. is_ct_id e = Some ct \<and> is_dp_id e = Some dp"] u
    by (simp add: v_def isl_get_dp_entries_def forget_idle)
  then show "entry_rows (isltable (set_dp_down ct dp s))
      = (\<lambda>i. map_option (\<lambda>e. forget_remote ct dp (forget_local ct dp e)) (entry_rows (isltable s) i))"
    using links_down [OF okv, of RFISL_IDLE_DP_PORT "\<lambda>e. is_rem_ct e = Some ct \<and> is_rem_id e = Some dp"]
    by (simp add: w forget_idle option.map_comp comp_def)
qed

section \<open>Properties\<close>

text \<open>
  C3: when a datapath goes down, the association table keeps every other entry as it is and reduces the
  entries of the datapath to their virtual machine ports; the table of links forgets both the near and
  the far ends on the datapath, so that neither table has it registered; and each virtual machine port
  that was associated with it, and no other, is sent one reset.
\<close>

theorem datapath_down:
  assumes "server_ok s"
  shows "entry_rows (rftable (set_dp_down ct dp s)) = (\<lambda>i. map_option (forget_datapath ct dp) (entry_rows (rftable s) i))
    \<and> entry_rows (isltable (set_dp_down ct dp s))
        = (\<lambda>i. map_option (\<lambda>e. forget_remote ct dp (forget_local ct dp e)) (entry_rows (isltable s) i))
    \<and> \<not> is_dp_registered ct dp (rftable (set_dp_down ct dp s))
    \<and> \<not> isl_is_dp_registered ct dp (isltable (set_dp_down ct dp s))
    \<and> (\<exists>fs. mset fs = mset (get_dp_entries (Some ct) (Some dp) (rftable s))
         \<and> sv_sent (set_dp_down ct dp s) = sv_sent s @ concat (map reset_messages fs))"
proof -
  note p = dp_down_parts [OF assms, of ct dp] and ok = set_dp_down_ok [OF assms, of ct dp]
  have "\<not> is_dp_registered ct dp (rftable (set_dp_down ct dp s))"
    using set_get_entries [OF server_okD(1) [OF ok]]
    by (auto simp: is_dp_registered_def get_dp_entries_def p(1) forget_datapath_def ran_def simp flip: set_empty split: if_splits)
  moreover have "\<not> isl_is_dp_registered ct dp (isltable (set_dp_down ct dp s))"
    using set_get_entries [OF server_okD(2) [OF ok]]
    by (auto simp: isl_is_dp_registered_def isl_get_dp_entries_def p(2) forget_local_def forget_remote_def ran_def
        simp flip: set_empty split: if_splits)
  ultimately show ?thesis using p by blast
qed

theorem datapath_down_witness:
  "\<exists>s e. server_ok s \<and> is_dp_registered 0 9 (rftable s) \<and> e \<in> ran (entry_rows (rftable (set_dp_down 0 9 s)))
     \<and> get_status e = RFENTRY_IDLE_VM_PORT
     \<and> \<not> is_dp_registered 0 9 (rftable (set_dp_down 0 9 s))
     \<and> (RFCLIENT_RFSERVER_CHANNEL, int_to_string 10, PortConfig 10 1 PCT_RESET) \<in> set (sv_sent (set_dp_down 0 9 s))"
proof -
  from demo_loads obtain s where s: "RFServer (\<lambda>ks. ks) demo_config None None [] [] = Some (Some s)"
    "config s = \<lparr>mt_next = 1001, mt_data = [(1001, \<lparr>e_id = Some 1001, cf_vm_id = 10, cf_vm_port = 1, cf_ct_id = 0,
         cf_dp_id = 9, cf_dp_port = 3, cf_fp_label = None\<rparr>)], mt_order = (\<lambda>ks. ks)\<rparr>" by blast
  note f = demo_fresh [OF s]
  let ?a = "associated_entry 10 1 ''02:00'' 0 9 3" let ?u = "save_rf ?a s" and ?i = "mt_next (rftable s) + 1"
  note ok = associated_state(1) [OF f, of "''02:00''"]
  have "e_id ?a = None" by (simp add: associated_entry_def RFEntry_def)
  from set_entry_new(2) [OF server_okD(1) [OF f(1)] this]
  have row: "entry_rows (rftable ?u) ?i = Some (?a\<lparr>e_id := Some ?i\<rparr>)" by simp
  note d = datapath_down [OF ok, of 0 9]
  have in_dp: "?a\<lparr>e_id := Some ?i\<rparr> \<in> set (get_dp_entries (Some 0) (Some 9) (rftable ?u))"
    using ranI [of "entry_rows (rftable ?u)", OF row] unfolding get_dp_entries_def set_get_entries [OF server_okD(1) [OF ok]] by (simp add: associated_entry_def)
  then have reg: "is_dp_registered 0 9 (rftable ?u)" by (auto simp: is_dp_registered_def)
  have "forget_datapath 0 9 (?a\<lparr>e_id := Some ?i\<rparr>) \<in> ran (entry_rows (rftable (set_dp_down 0 9 ?u)))"
    using d row by (auto simp: ran_def)
  moreover have "get_status (forget_datapath 0 9 (?a\<lparr>e_id := Some ?i\<rparr>)) = RFENTRY_IDLE_VM_PORT"
    by (simp add: forget_datapath_def associated_entry_def RFEntry_def get_status_def is_idle_vm_port_def)
  moreover obtain fs where fs: "mset fs = mset (get_dp_entries (Some 0) (Some 9) (rftable ?u))"
    "sv_sent (set_dp_down 0 9 ?u) = sv_sent ?u @ concat (map reset_messages fs)" using d by blast
  have "?a\<lparr>e_id := Some ?i\<rparr> \<in> set fs" using in_dp mset_eq_setD [OF fs(1)] by simp
  then have "(RFCLIENT_RFSERVER_CHANNEL, int_to_string 10, PortConfig 10 1 PCT_RESET) \<in> set (sv_sent (set_dp_down 0 9 ?u))"
    using fs(2) by (force simp: reset_messages_def associated_entry_def num_or_0_def)
  ultimately show ?thesis using ok reg d by blast
qed

end
