(* ===== verification/RF_Queues.thy ===== *)
theory RF_Queues
  imports RF_ServerProps "HOL-Library.Sublist"
begin

text \<open>
  The two queues of the server: route modifications on their way to the datapaths and
  acknowledgements on their way to the virtual machines. Handlers put them into the queues, and
  other threads take them out and send them.
\<close>

section \<open>What has been queued\<close>

fun sent_route :: "ipc_channel \<times> string \<times> message \<Rightarrow> (string \<times> route_mod) option" where
  "sent_route (RFSERVER_RFPROXY_CHANNEL, to, RouteMod rm) = Some (to, rm)"
| "sent_route _ = None"

fun is_ack :: "message \<Rightarrow> bool" where
  "is_ack (PortConfig vm port op) \<longleftrightarrow> op = PCT_ROUTEMOD_ACK"
| "is_ack _ \<longleftrightarrow> False"

fun sent_ack :: "ipc_channel \<times> string \<times> message \<Rightarrow> (string \<times> message) option" where
  "sent_ack (RFCLIENT_RFSERVER_CHANNEL, to, m) = (if is_ack m then Some (to, m) else None)"
| "sent_ack _ = None"

definition routes_sent :: "server \<Rightarrow> (string \<times> route_mod) list" where
  "routes_sent s = List.map_filter sent_route (sv_sent s)"

definition acks_sent :: "server \<Rightarrow> (string \<times> message) list" where
  "acks_sent s = List.map_filter sent_ack (sv_sent s)"

text \<open>Everything that was ever queued, in the order it was queued.\<close>

definition routes_queued :: "server \<Rightarrow> (string \<times> route_mod) list" where
  "routes_queued s = routes_sent s @ sv_dp_q s"

definition acks_queued :: "server \<Rightarrow> (string \<times> message) list" where
  "acks_queued s = acks_sent s @ sv_ack_q s"

definition acks_ok :: "server \<Rightarrow> bool" where
  "acks_ok s \<longleftrightarrow> list_all (\<lambda>(to, m). is_ack m) (sv_ack_q s)"

lemma map_filter_append [simp]: "List.map_filter f (xs @ ys) = List.map_filter f xs @ List.map_filter f ys"
  by (simp add: List.map_filter_def)

lemma sent_routes_client [simp]: "List.map_filter sent_route (map (Pair RFCLIENT_RFSERVER_CHANNEL) q) = []"
  by (induction q) (auto simp: List.map_filter_simps)

lemma sent_acks_flush:
  "list_all (\<lambda>(to, m). is_ack m) q \<Longrightarrow> List.map_filter sent_ack (map (Pair RFCLIENT_RFSERVER_CHANNEL) q) = q"
  by (induction q) (auto simp: List.map_filter_simps)

section \<open>Handlers that leave the queues alone\<close>

definition flows :: "server \<Rightarrow> (string \<times> route_mod) list \<times> (string \<times> route_mod) list
    \<times> (string \<times> message) list \<times> (string \<times> message) list" where
  "flows s = (routes_sent s, sv_dp_q s, acks_sent s, sv_ack_q s)"

interpretation queue_view: server_view flows
  by unfold_locales (simp_all add: flows_def routes_sent_def acks_sent_def List.map_filter_simps)

section \<open>Every step only adds to the queued messages\<close>

definition extends :: "server \<Rightarrow> server \<Rightarrow> bool" where
  "extends s s' \<longleftrightarrow> prefix (routes_queued s) (routes_queued s')
     \<and> (acks_ok s \<longrightarrow> prefix (acks_queued s) (acks_queued s') \<and> acks_ok s')"

lemma flows_queued: "flows s' = flows s \<Longrightarrow> routes_queued s' = routes_queued s \<and> acks_queued s' = acks_queued s \<and> acks_ok s' = acks_ok s"
  by (simp add: flows_def routes_queued_def acks_queued_def acks_ok_def)

lemma extends_flows: "flows s' = flows s \<Longrightarrow> extends s s'"
  using flows_queued [of s' s] by (simp add: extends_def)

lemma extends_trans: "extends s t \<Longrightarrow> extends t u \<Longrightarrow> extends s u"
  using prefix_order.trans [of "routes_queued s" "routes_queued t" "routes_queued u"]
    prefix_order.trans [of "acks_queued s" "acks_queued t" "acks_queued u"] unfolding extends_def by argo

lemma extends_queue:
  assumes "sv_sent s' = sv_sent s" "\<exists>new. sv_dp_q s' = sv_dp_q s @ new"
    and "\<exists>new. sv_ack_q s' = sv_ack_q s @ new \<and> list_all (\<lambda>(to, m). is_ack m) new"
  shows "extends s s'"
proof -
  from assms(2,3) obtain a b where "sv_dp_q s' = sv_dp_q s @ a" "sv_ack_q s' = sv_ack_q s @ b" "list_all (\<lambda>(to, m). is_ack m) b"
    by blast
  then show ?thesis
    by (simp add: extends_def routes_queued_def acks_queued_def acks_ok_def routes_sent_def acks_sent_def assms(1))
qed

lemma extends_route_mod: "extends s (fst (register_route_mod rm s))"
proof -
  obtain s' ok where r: "register_route_mod rm s = (s', ok)" by force
  from register_route_mod_parts [OF r] show ?thesis unfolding r fst_conv by (intro extends_queue) auto
qed

lemma extends_dp_port: "extends s (fst (register_dp_port ct dp port s))"
proof -
  obtain u ok stop where u: "config_dp ct dp s = (u, ok, stop)" by (metis prod_cases3)
  from config_dp_parts [OF u] have "extends s u" by (intro extends_queue) auto
  moreover have "flows (fst (register_dp_port ct dp port s)) = flows u"
    using u by (simp add: register_dp_port_def queue_view.view_apply_dp_port)
  ultimately show ?thesis using extends_flows extends_trans by blast
qed

lemma extends_acks: "extends s (send_routemod_acks s)"
  using sent_acks_flush [of "sv_ack_q s"]
  by (simp add: extends_def routes_queued_def acks_queued_def routes_sent_def acks_sent_def send_routemod_acks_def acks_ok_def)

lemma extends_process: "extends s (fst (process ch msg s))"
  by (cases ch; cases msg)
    (simp_all add: process_def extends_route_mod extends_dp_port extends_acks extends_flows
      queue_view.view_vm_port queue_view.view_dp_down queue_view.view_map_port)

lemma flows_alive [simp]: "flows (s\<lparr>sv_client_alive := b\<rparr>) = flows s" "flows (s\<lparr>sv_proxy_alive := b\<rparr>) = flows s"
  by (simp_all add: flows_def routes_sent_def acks_sent_def)

lemma extends_alive [simp]:
  "extends s (t\<lparr>sv_client_alive := b\<rparr>) = extends s t" "extends s (t\<lparr>sv_proxy_alive := b\<rparr>) = extends s t"
  using flows_queued [OF flows_alive(1) [of b t]] flows_queued [OF flows_alive(2) [of b t]] by (simp_all add: extends_def)

lemma worker_queued:
  "routes_queued (dp_worker s) = routes_queued s \<and> acks_sent (dp_worker s) = acks_sent s \<and> sv_ack_q (dp_worker s) = sv_ack_q s"
  by (auto simp: routes_queued_def routes_sent_def acks_sent_def dp_worker_def List.map_filter_simps split: list.split)

lemma extends_step: "extends s (server_step ev s)"
proof (induction ev s rule: server_step.induct)
  case (1 msg s)
  show ?case using extends_process [of s RFCLIENT_RFSERVER_CHANNEL msg]
    by (auto simp: case_prod_unfold Let_def extends_flows intro: extends_trans)
next
  case (2 msg s)
  show ?case using extends_process [of s RFSERVER_RFPROXY_CHANNEL msg]
    by (auto simp: case_prod_unfold Let_def extends_flows intro: extends_trans)
next
  case (3 s)
  show ?case using worker_queued [of s] by (simp add: extends_def acks_queued_def acks_ok_def)
qed

lemma extends_run: "extends s (fold server_step evs s)"
proof (induction evs arbitrary: s)
  case (Cons ev evs)
  from extends_trans [OF extends_step Cons.IH] show ?case by simp
qed (simp add: extends_flows)

lemma worker_drains:
  "sv_dp_q (fold server_step (replicate (length (sv_dp_q s)) Worker) s) = []
    \<and> routes_queued (fold server_step (replicate (length (sv_dp_q s)) Worker) s) = routes_queued s"
proof (induction "length (sv_dp_q s)" arbitrary: s)
  case (Suc n)
  then obtain x q where q: "sv_dp_q s = x # q" by (cases "sv_dp_q s") auto
  then have "sv_dp_q (dp_worker s) = q" by (cases x) (simp add: dp_worker_def)
  then show ?case using Suc.hyps(1) [of "dp_worker s"] Suc.hyps(2) q worker_queued [of s] by simp
qed simp

section \<open>Properties\<close>

text \<open>
  C7: route modifications and acknowledgements are handed on in the order they were queued, none lost
  and none sent twice: whatever events follow and however the threads take turns, the sequence of those
  sent followed by those waiting only grows at its end. As many turns of the sending thread as there are
  waiting route modifications send them all; that thread sends no acknowledgement: those that wait are
  all sent when \<^verbatim>\<open>send_routemod_acks\<close> runs.
\<close>

theorem queues_in_order:
  fixes s\<^sub>0 :: server and evs :: "event list"
  assumes "RFServer ord cf isl_file fp_file multi sat = Some (Some s\<^sub>0)"
  defines "s \<equiv> fold server_step evs s\<^sub>0"
  shows "prefix (routes_sent s @ sv_dp_q s) (routes_sent (fold server_step more_evs s) @ sv_dp_q (fold server_step more_evs s))
    \<and> prefix (acks_sent s @ sv_ack_q s) (acks_sent (fold server_step more_evs s) @ sv_ack_q (fold server_step more_evs s))
    \<and> routes_sent (fold server_step (replicate (length (sv_dp_q s)) Worker) s) = routes_sent s @ sv_dp_q s
    \<and> acks_sent (send_routemod_acks s) = acks_sent s @ sv_ack_q s"
proof -
  have "acks_ok s\<^sub>0" using assms(1) by (auto simp: RFServer_def acks_ok_def split: option.splits)
  then have ok: "acks_ok s" using extends_run [of s\<^sub>0 evs] by (simp add: extends_def s_def)
  then have "acks_sent (send_routemod_acks s) = acks_sent s @ sv_ack_q s"
    by (simp add: acks_sent_def send_routemod_acks_def acks_ok_def sent_acks_flush)
  then show ?thesis
    using ok extends_run [of s more_evs] worker_drains [of s] by (auto simp: extends_def routes_queued_def acks_queued_def)
qed

end
