(* ===== verification/RF_Routes.thy ===== *)
theory RF_Routes
  imports RF_Queues
begin

text \<open>
  How route modifications of the virtual machines become flow changes of the datapaths, and what a
  route that the server cannot place does to it.
\<close>

section \<open>Packing what a flow needs\<close>

definition port_fits :: "int option \<Rightarrow> bool" where
  "port_fits p = (case p of None \<Rightarrow> False | Some n \<Rightarrow> 0 \<le> n \<and> n < 2 ^ 32)"

definition addr_fits :: "string option \<Rightarrow> bool" where
  "addr_fits a = (case a of None \<Rightarrow> False | Some x \<Rightarrow> canonical_ether x)"

lemma fits_port: "port_fits p \<Longrightarrow> fits_width 32 (py_num p)"
  by (simp add: port_fits_def fits_width_def py_num_def split: option.splits)

lemma fits_addr: "addr_fits a \<Longrightarrow> fits_ether (py_text a)"
  by (simp add: addr_fits_def fits_ether_def py_text_def split: option.splits)

lemma packed_values:
  "fits_match (\<lambda>_. None) (\<lambda>_. None) (\<lambda>_. []) (\<lambda>_. []) ty v \<Longrightarrow> Match_init (\<lambda>_. None) (\<lambda>_. None) ty v \<noteq> None"
  "fits_action ty v \<Longrightarrow> Action_init ty v \<noteq> None" "fits_option ty v \<Longrightarrow> Option_init ty v \<noteq> None"
  using match_class.init_fits action_class.init_fits option_class.init_fits by fastforce+

lemma packs:
  "port_fits p \<Longrightarrow> Match_IN_PORT p \<noteq> None" "addr_fits a \<Longrightarrow> Match_ETHERNET a \<noteq> None"
  "port_fits p \<Longrightarrow> Action_OUTPUT p \<noteq> None"
  "0 \<le> ct \<Longrightarrow> ct < 2 ^ 64 \<Longrightarrow> Option_CT_ID (Some ct) \<noteq> None"
  "0 \<le> ty \<Longrightarrow> ty < 2 ^ 16 \<Longrightarrow> Match_ETHERTYPE ty \<noteq> None"
  "0 \<le> pr \<Longrightarrow> pr < 2 ^ 16 \<Longrightarrow> Option_PRIORITY pr \<noteq> None"
  "addr_fits a \<Longrightarrow> Action_SET_ETH_SRC a \<noteq> None" "addr_fits a \<Longrightarrow> Action_SET_ETH_DST a \<noteq> None"
proof -
  show "addr_fits a \<Longrightarrow> Action_SET_ETH_SRC a \<noteq> None" "addr_fits a \<Longrightarrow> Action_SET_ETH_DST a \<noteq> None"
    unfolding Action_SET_ETH_SRC_def Action_SET_ETH_DST_def
    by (rule packed_values; simp add: fits_action_def fits_addr)+
  note u = Match_IN_PORT_def Match_ETHERNET_def Action_OUTPUT_def Option_CT_ID_def Match_ETHERTYPE_def Option_PRIORITY_def
  show "port_fits p \<Longrightarrow> Match_IN_PORT p \<noteq> None"
    unfolding u by (rule packed_values) (simp add: fits_match_def fits_port)
  show "addr_fits a \<Longrightarrow> Match_ETHERNET a \<noteq> None"
    unfolding u by (rule packed_values) (simp add: fits_match_def fits_addr)
  show "port_fits p \<Longrightarrow> Action_OUTPUT p \<noteq> None"
    unfolding u by (rule packed_values) (simp add: fits_action_def ACTION_BIN_def fits_port)
  show "0 \<le> ct \<Longrightarrow> ct < 2 ^ 64 \<Longrightarrow> Option_CT_ID (Some ct) \<noteq> None"
    unfolding u by (rule packed_values) (simp add: fits_option_def fits_width_def py_num_def)
  show "0 \<le> ty \<Longrightarrow> ty < 2 ^ 16 \<Longrightarrow> Match_ETHERTYPE ty \<noteq> None"
    unfolding u by (rule packed_values) (simp add: fits_match_def fits_width_def)
  show "0 \<le> pr \<Longrightarrow> pr < 2 ^ 16 \<Longrightarrow> Option_PRIORITY pr \<noteq> None"
    unfolding u by (rule packed_values) (simp add: fits_option_def fits_width_def)
qed

text \<open>A list of calls that all return.\<close>

lemma concat_option_all:
  assumes "\<And>x. x \<in> set xs \<Longrightarrow> f x = Some (g x)"
  shows "concat_option (map (\<lambda>x. map_option (\<lambda>r. [r]) (f x)) xs) = Some (map g xs)"
  using assms by (induction xs) simp_all

lemma send_route_mods_all:
  assumes "Option_CT_ID (Some ct) = Some t"
  shows "send_route_mods (Some ct) rms s
    = (s\<lparr>sv_dp_q := sv_dp_q s @ map (\<lambda>rm. (int_to_string ct, rm\<lparr>rm_options := rm_options rm @ [t]\<rparr>)) rms\<rparr>, True)"
  using assms by (induction rms arbitrary: s) (simp_all add: send_route_mod_def add_option_def)

section \<open>Routes on a datapath with one table\<close>

text \<open>The flow of a route for packets that arrive at a port.\<close>

definition route_flow :: "int \<Rightarrow> int \<Rightarrow> int option \<Rightarrow> route_mod \<Rightarrow> table_entry \<Rightarrow> route_mod" where
  "route_flow ct dp out_port rm p =
     rm\<lparr>rm_id := dp, rm_actions := rm_actions rm @ [the (Action_OUTPUT out_port)],
        rm_matches := rm_matches rm @ [the (Match_ETHERNET (te_eth_addr p)), the (Match_IN_PORT (te_dp_port p))],
        rm_options := rm_options rm @ [the (Option_CT_ID (Some ct))]\<rparr>"

text \<open>The ports that get a flow: the active ones other than the port the packets leave by.\<close>

definition other_active :: "int option \<Rightarrow> table_entry \<Rightarrow> bool" where
  "other_active out_port p \<longleftrightarrow>
     te_dp_port p \<noteq> out_port \<and> (te_status p = RFENTRY_ACTIVE \<or> te_status p = RFISL_ACTIVE)"

lemma eligible_iff: "eligible out_port p \<longleftrightarrow> other_active out_port p"
  by (auto simp: eligible_def other_active_def)

lemma eligible_other: "eligible out_port = other_active out_port"
  by (simp add: fun_eq_iff eligible_iff)

lemma with_matches:
  assumes "tr_class tr \<noteq> NoviFlowMultitableRouteModTranslator"
    and "\<forall>p \<in> set ps. other_active out_port p \<longrightarrow> port_fits (te_dp_port p) \<and> addr_fits (te_eth_addr p)"
  shows "send_rm_with_matches tr rm out_port ps
    = Some (map (\<lambda>p. rm\<lparr>rm_matches := rm_matches rm @ [the (Match_ETHERNET (te_eth_addr p)), the (Match_IN_PORT (te_dp_port p))]\<rparr>)
        (filter (other_active out_port) ps))"
proof -
  have "rm_for_port rm p = Some (rm\<lparr>rm_matches := rm_matches rm @ [the (Match_ETHERNET (te_eth_addr p)), the (Match_IN_PORT (te_dp_port p))]\<rparr>)"
    if "p \<in> set (filter (other_active out_port) ps)" for p
    using that assms(2) packs(1) [of "te_dp_port p"] packs(2) [of "te_eth_addr p"]
    by (auto simp: rm_for_port_def add_match_def)
  from concat_option_all [of "filter (other_active out_port) ps" "rm_for_port rm", OF this] show ?thesis using assms(1) by (simp add: send_rm_with_matches_def eligible_other)
qed

lemma not_idle_with_dp: "re_dp_id e = Some dp \<Longrightarrow> get_status e \<noteq> RFENTRY_IDLE_VM_PORT"
  by (simp add: get_status_def is_idle_vm_port_def)

section \<open>Satellites\<close>

lemma ethertypes:
  "\<exists>t. Match_ETHERTYPE ETHERTYPE_IP = Some t" "\<exists>t. Match_ETHERTYPE ETHERTYPE_IPV6 = Some t"
  "the (Match_ETHERTYPE ETHERTYPE_IP) \<noteq> the (Match_ETHERTYPE ETHERTYPE_IPV6)" "\<exists>p. DEFAULT_PRIORITY = Some p"
proof -
  show a: "\<exists>t. Match_ETHERTYPE ETHERTYPE_IP = Some t" "\<exists>t. Match_ETHERTYPE ETHERTYPE_IPV6 = Some t"
    "\<exists>p. DEFAULT_PRIORITY = Some p"
    using packs(5) [of ETHERTYPE_IP] packs(5) [of ETHERTYPE_IPV6] packs(6) [of "PRIORITY_LOWEST + PRIORITY_BAND + 1000"]
    by (auto simp: DEFAULT_PRIORITY_def)
  have "fits_match (\<lambda>_. None) (\<lambda>_. None) (\<lambda>_. []) (\<lambda>_. []) RFMT_ETHERTYPE (PyInt n)" if "0 \<le> n" "n < 2 ^ 16" for n
    using that by (simp add: fits_match_def fits_width_def)
  from match_class.init_inject [OF this [of ETHERTYPE_IP] this [of ETHERTYPE_IPV6]]
  have "Match_ETHERTYPE ETHERTYPE_IP \<noteq> Match_ETHERTYPE ETHERTYPE_IPV6"
    unfolding Match_ETHERTYPE_def by auto
  then show "the (Match_ETHERTYPE ETHERTYPE_IP) \<noteq> the (Match_ETHERTYPE ETHERTYPE_IPV6)" using a by auto
qed

lemma isl_actions_fit:
  assumes "port_fits (is_dp_port r)" "addr_fits (is_eth_addr r)" "addr_fits (is_rem_eth_addr r)"
  shows "\<exists>rm'. isl_actions r rm = Some rm' \<and> rm_matches rm' = rm_matches rm"
  using packs(3) [OF assms(1)] packs(7) [OF assms(2)] packs(8) [OF assms(3)] by (auto simp: isl_actions_def add_action_def)

text \<open>One turn of the loop, with what it prepares, and that a known destination adds nothing.\<close>

lemma satellite_turn:
  assumes "Match_ETHERTYPE ty = Some t" "DEFAULT_PRIORITY = Some p"
  shows "satellite_isl_ethertype tb r ty (tr, rm, Some rms) =
    (let rm = rm\<lparr>rm_matches := [t], rm_options := [p]\<rparr>; tr' = tr\<lparr>tr_sent_isl_dl := is_rem_eth_addr r # tr_sent_isl_dl tr\<rparr>
     in if is_rem_eth_addr r \<in> set (tr_sent_isl_dl tr) then (tr, rm, Some rms)
        else case do { rm \<leftarrow> isl_actions r (rm\<lparr>rm_id := tr_dp_id tr, rm_table := 0\<rparr>);
                       sent \<leftarrow> send_rm_with_matches tr' rm (is_dp_port r) (isl_ports tb r); Some (rm, sent) } of
               None \<Rightarrow> (tr', rm, None) | Some (rm, sent) \<Rightarrow> (tr', rm, Some (rms @ sent)))"
proof -
  have "do { rm \<leftarrow> add_match (Match_ETHERTYPE ty) (rm\<lparr>rm_matches := []\<rparr>); add_option DEFAULT_PRIORITY (rm\<lparr>rm_options := []\<rparr>) }
      = Some (rm\<lparr>rm_matches := [t], rm_options := [p]\<rparr>)"
    unfolding assms by (simp add: add_match_def add_option_def)
  then show ?thesis unfolding satellite_isl_ethertype_def by (simp add: Let_def)
qed

section \<open>The client thread\<close>

fun from_client :: "event \<Rightarrow> bool" where
  "from_client (Received RFCLIENT_RFSERVER_CHANNEL m) \<longleftrightarrow> True"
| "from_client _ \<longleftrightarrow> False"

interpretation client_view: server_view sv_client_alive
  by unfold_locales (simp_all add: save_isl_def upd_isl_def ipc_send_def)

lemma client_send [simp]: "sv_client_alive (fst (send_route_mods ct rms s)) = sv_client_alive s"
proof (induction rms arbitrary: s)
  case (Cons rm rms)
  have "sv_client_alive (fst (send_route_mod ct rm s)) = sv_client_alive s"
    by (simp add: send_route_mod_def split: option.split)
  then show ?case using Cons by (simp add: case_prod_unfold Let_def)
qed simp

lemma client_dp_port [simp]: "sv_client_alive (fst (register_dp_port ct dp port s)) = sv_client_alive s"
proof -
  have "sv_client_alive (fst (config_dp ct dp s)) = sv_client_alive s"
    by (simp add: config_dp_def send_datapath_config_messages_def set_translator_def case_prod_unfold Let_def split: option.split)
  then show ?thesis by (simp add: register_dp_port_def case_prod_unfold Let_def client_view.view_apply_dp_port)
qed

lemma client_process [simp]: "sv_client_alive (fst (process RFSERVER_RFPROXY_CHANNEL msg s)) = sv_client_alive s"
  by (cases msg) (simp_all add: process_def send_routemod_acks_def client_view.view_dp_down client_view.view_map_port)

lemma client_step: "\<not> sv_client_alive s \<Longrightarrow> \<not> sv_client_alive (server_step ev s)"
proof (induction ev s rule: server_step.induct)
  case (2 msg s)
  then show ?case by (simp add: case_prod_unfold Let_def)
next
  case (3 s)
  then show ?case by (simp add: dp_worker_def ipc_send_def split: list.split)
qed simp

lemma dead_client:
  assumes "\<not> sv_client_alive s"
  shows "fold server_step evs s = fold server_step (filter (\<lambda>ev. \<not> from_client ev) evs) s"
  using assms
proof (induction evs arbitrary: s)
  case (Cons ev evs)
  have "server_step ev s = s" if "from_client ev" using that Cons.prems by (cases ev rule: from_client.cases) simp_all
  then show ?case using Cons.IH [OF client_step [OF Cons.prems, of ev]] Cons.IH [OF Cons.prems] by simp
qed simp

section \<open>A datapath with two active ports\<close>

abbreviation active_entry :: "nat \<Rightarrow> int \<Rightarrow> int \<Rightarrow> string \<Rightarrow> rf_entry" where
  "active_entry i vm port addr \<equiv> \<lparr>e_id = Some i, re_vm_id = Some vm, re_vm_port = Some 1, re_ct_id = Some 0, re_dp_id = Some 9,
     re_dp_port = Some port, re_vs_id = Some 7, re_vs_port = Some port, re_eth_addr = Some addr\<rparr>"

definition demo_tables :: tables where
  "demo_tables = \<lparr>tb_rf = \<lparr>mt_next = 2, mt_data = [(1, active_entry 1 10 3 ''02:00:00:00:00:01''),
       (2, active_entry 2 11 4 ''02:00:00:00:00:02'')], mt_order = (\<lambda>ks. ks)\<rparr>,
     tb_isl = MemoryTable (\<lambda>ks. ks), tb_conf = MemoryTable (\<lambda>ks. ks), tb_islconf = MemoryTable (\<lambda>ks. ks),
     tb_fpconf = MemoryTable (\<lambda>ks. ks), tb_fp_enabled = False\<rparr>"

definition demo_active :: server where
  "demo_active = \<lparr>sv_tb = demo_tables, sv_translator = [(9, new_translator DefaultRouteModTranslator 9 0)],
     sv_multitabledps = [], sv_satellitedps = [], sv_ack_q = [], sv_dp_q = [], sv_sent = [],
     sv_client_alive = True, sv_proxy_alive = True\<rparr>"

abbreviation demo_link :: isl_entry where
  "demo_link \<equiv> \<lparr>e_id = Some 1, is_vm_id = Some 1, is_ct_id = Some 0, is_dp_id = Some 9, is_dp_port = Some 3,
     is_eth_addr = Some ''02:00:00:00:00:01'', is_rem_ct = Some 0, is_rem_id = Some 8, is_rem_port = Some 5,
     is_rem_eth_addr = Some ''02:00:00:00:00:02''\<rparr>"

lemma demo_addr: "addr_fits (Some ''02:00:00:00:00:01'')" "addr_fits (Some ''02:00:00:00:00:02'')"
  by code_simp+

lemmas demo_simps = demo_active_def demo_tables_def MemoryTable_def get_entries_def List.map_filter_def
  new_translator_def get_entry_by_vm_port_def first_entry_def dp_table_entries_def isl_ports_def
  other_active_def get_status_def is_idle_vm_port_def is_idle_dp_port_def port_fits_def

section \<open>Properties\<close>

text \<open>
  C5: a route that is added or deleted, not one for the controller, of a virtual machine port that is
  associated with a port of a datapath with one table (a translator for several tables sends one flow in
  total), and to which no other switch is linked (which would get flows too), becomes one flow for each other active port of that datapath, in
  the order of the tables: it matches what the route matches, the address and the number of that port,
  and outputs at the associated port; the flows are queued for the controller of the datapath and one
  acknowledgement for the virtual machine.
\<close>

theorem route_to_flows:
  assumes "get_entry_by_vm_port (rm_id rm) (rm_vm_port rm) (rftable s) = Some e"
    and "re_ct_id e = Some ct" and "re_dp_id e = Some dp" and "map_of (sv_translator s) dp = Some tr"
    and "tr_class tr \<noteq> NoviFlowMultitableRouteModTranslator" and "rm_mod rm \<in> {RMT_ADD, RMT_DELETE}"
    and "get_entries (\<lambda>r. is_rem_ct r = Some ct \<and> is_rem_id r = Some dp) (isltable s) = []"
    and "port_fits (re_dp_port e)" and "0 \<le> ct" and "ct < 2 ^ 64"
    and "\<forall>p \<in> set (dp_table_entries (sv_tb s) (Some ct) (Some dp)).
           other_active (re_dp_port e) p \<longrightarrow> port_fits (te_dp_port p) \<and> addr_fits (te_eth_addr p)"
  shows "register_route_mod rm s
    = (s\<lparr>sv_dp_q := sv_dp_q s @ map (\<lambda>p. (int_to_string ct, route_flow ct dp (re_dp_port e) rm p))
             (filter (other_active (re_dp_port e)) (dp_table_entries (sv_tb s) (Some ct) (Some dp))),
         sv_ack_q := sv_ack_q s @ [(int_to_string (rm_id rm), PortConfig (rm_id rm) (rm_vm_port rm) PCT_ROUTEMOD_ACK)]\<rparr>, True)"
proof -
  obtain t a where t: "Option_CT_ID (Some ct) = Some t" "Action_OUTPUT (re_dp_port e) = Some a"
    using packs(3) [OF assms(8)] packs(4) [OF assms(9,10)] by auto
  let ?rm = "rm\<lparr>rm_id := dp, rm_actions := rm_actions rm @ [a]\<rparr>"
  let ?ps = "filter (other_active (re_dp_port e)) (dp_table_entries (sv_tb s) (Some ct) (Some dp))"
  let ?fs = "map (\<lambda>p. ?rm\<lparr>rm_matches := rm_matches rm @ [the (Match_ETHERNET (te_eth_addr p)), the (Match_IN_PORT (te_dp_port p))]\<rparr>) ?ps"
  have "handle_route_mod (sv_tb s) tr e (rm\<lparr>rm_id := dp\<rparr>) = Some (?rm, ?fs)"
    using with_matches [OF assms(5,11), of ?rm] t(2) assms(2,3,5) by (simp add: handle_route_mod_def add_action_def)
  moreover have "rm_mod rm \<noteq> RMT_CONTROLLER" using assms(6) by auto
  ultimately have "translate_route_mod tr e (rm\<lparr>rm_id := dp\<rparr>) s = (s, Some ?fs)"
    using assms(2,3,6,7) by (simp add: translate_route_mod_def)
  then show ?thesis
    using assms(1-4) not_idle_with_dp [OF assms(3)] t
    by (simp add: register_route_mod_def send_route_mods_all queue_routemod_ack_def route_flow_def comp_def)
qed

theorem route_to_flows_witness:
  "\<exists>s'. register_route_mod ((RouteMod_init RMT_ADD 10)\<lparr>rm_vm_port := 1\<rparr>) demo_active = (s', True)
    \<and> sv_dp_q s' = [(int_to_string 0, route_flow 0 9 (Some 3) ((RouteMod_init RMT_ADD 10)\<lparr>rm_vm_port := 1\<rparr>)
        (RFE (active_entry 2 11 4 ''02:00:00:00:00:02'')))]"
proof -
  let ?rm = "(RouteMod_init RMT_ADD 10)\<lparr>rm_vm_port := 1\<rparr>" and ?e = "active_entry 1 10 3 ''02:00:00:00:00:01''"
  have es: "dp_table_entries (sv_tb demo_active) (Some 0) (Some 9) = [RFE ?e, RFE (active_entry 2 11 4 ''02:00:00:00:00:02'')]"
    by (simp add: demo_simps)
  have 1: "get_entry_by_vm_port (rm_id ?rm) (rm_vm_port ?rm) (rftable demo_active) = Some ?e"
    by (simp add: demo_simps RouteMod_init_def)
  have "register_route_mod ?rm demo_active
      = (demo_active\<lparr>sv_dp_q := sv_dp_q demo_active @ map (\<lambda>p. (int_to_string 0, route_flow 0 9 (re_dp_port ?e) ?rm p))
             (filter (other_active (re_dp_port ?e)) (dp_table_entries (sv_tb demo_active) (Some 0) (Some 9))),
         sv_ack_q := sv_ack_q demo_active @ [(int_to_string (rm_id ?rm), PortConfig (rm_id ?rm) (rm_vm_port ?rm) PCT_ROUTEMOD_ACK)]\<rparr>, True)"
  proof (rule route_to_flows [OF 1, where tr = "new_translator DefaultRouteModTranslator 9 0"])
    show "\<forall>p \<in> set (dp_table_entries (sv_tb demo_active) (Some 0) (Some 9)).
        other_active (re_dp_port ?e) p \<longrightarrow> port_fits (te_dp_port p) \<and> addr_fits (te_eth_addr p)"
      unfolding es using demo_addr by (simp add: port_fits_def)
  qed (simp_all add: demo_simps RouteMod_init_def)
  then show ?thesis unfolding es by (simp add: demo_simps)
qed

text \<open>
  C27: a route for a virtual machine port that is not registered, or is registered but not associated,
  which the server means to drop, ends the thread that serves the virtual machines: from then on the
  server is as if it had been sent none of the messages of its clients.
\<close>

theorem unplaced_route_ends_client:
  assumes "sv_client_alive s"
    and "case get_entry_by_vm_port (rm_id rm) (rm_vm_port rm) (rftable s) of
           None \<Rightarrow> True | Some e \<Rightarrow> get_status e = RFENTRY_IDLE_VM_PORT"
  shows "fold server_step (Received RFCLIENT_RFSERVER_CHANNEL (RouteMod rm) # evs) s
    = fold server_step (filter (\<lambda>ev. \<not> from_client ev) evs) (s\<lparr>sv_client_alive := False\<rparr>)"
proof -
  have "register_route_mod rm s = (s, False)"
    using assms(2) not_idle_with_dp by (auto simp: register_route_mod_def split: option.splits)
  then have "server_step (Received RFCLIENT_RFSERVER_CHANNEL (RouteMod rm)) s = s\<lparr>sv_client_alive := False\<rparr>"
    using assms(1) by (simp add: process_def)
  then show ?thesis using dead_client [of "s\<lparr>sv_client_alive := False\<rparr>" evs] by simp
qed

theorem unplaced_route_ends_client_witness:
  "fold server_step [Received RFCLIENT_RFSERVER_CHANNEL (RouteMod (RouteMod_init RMT_ADD 12)),
       Received RFCLIENT_RFSERVER_CHANNEL (PortRegister 12 1 ''02:00'')] demo_active
   = demo_active\<lparr>sv_client_alive := False\<rparr>"
proof -
  have "get_entry_by_vm_port (rm_id (RouteMod_init RMT_ADD 12)) (rm_vm_port (RouteMod_init RMT_ADD 12)) (rftable demo_active) = None"
    by (simp add: demo_simps RouteMod_init_def)
  moreover have "sv_client_alive demo_active" by (simp add: demo_active_def)
  ultimately show ?thesis
    using unplaced_route_ends_client [of demo_active "RouteMod_init RMT_ADD 12"
        "[Received RFCLIENT_RFSERVER_CHANNEL (PortRegister 12 1 ''02:00'')]"] by simp
qed

text \<open>
  C37: the translator of a satellite sends, for the far end of a link that it has not sent before, flows
  for IPv4 only, one for each active port but the one of the link; for one that it has sent before it
  sends nothing. The flows for IPv6 that its loop goes on to prepare are never sent.
\<close>

theorem satellite_sends_ipv4_only:
  assumes "tr_class tr = SatelliteRouteModTranslator"
    and "port_fits (is_dp_port r)" and "addr_fits (is_eth_addr r)" and "addr_fits (is_rem_eth_addr r)"
    and "\<forall>p \<in> set (isl_ports tb r). other_active (is_dp_port r) p \<longrightarrow> port_fits (te_dp_port p) \<and> addr_fits (te_eth_addr p)"
  shows "\<exists>tr' rms. satellite_isl_route_mod tb tr r rm = (tr', Some rms)
    \<and> map rm_matches rms = map (\<lambda>p. [the (Match_ETHERTYPE ETHERTYPE_IP), the (Match_ETHERNET (te_eth_addr p)), the (Match_IN_PORT (te_dp_port p))])
        (if is_rem_eth_addr r \<in> set (tr_sent_isl_dl tr) then [] else filter (other_active (is_dp_port r)) (isl_ports tb r))
    \<and> the (Match_ETHERTYPE ETHERTYPE_IP) \<noteq> the (Match_ETHERTYPE ETHERTYPE_IPV6)"
proof -
  obtain t t6 p where t: "Match_ETHERTYPE ETHERTYPE_IP = Some t" "Match_ETHERTYPE ETHERTYPE_IPV6 = Some t6" "DEFAULT_PRIORITY = Some p"
    using ethertypes by blast
  let ?tr = "tr\<lparr>tr_sent_isl_dl := is_rem_eth_addr r # tr_sent_isl_dl tr\<rparr>"
  let ?rm = "rm\<lparr>rm_matches := [t], rm_options := [p], rm_id := tr_dp_id tr, rm_table := 0\<rparr>"
  note turns = satellite_turn [OF t(1,3)] satellite_turn [OF t(2,3)]
  show ?thesis
  proof (cases "is_rem_eth_addr r \<in> set (tr_sent_isl_dl tr)")
    case True
    then show ?thesis using ethertypes(3) by (simp add: satellite_isl_route_mod_def turns Let_def)
  next
    case False
    from isl_actions_fit [OF assms(2-4), of ?rm] obtain rm2 where rm2: "isl_actions r ?rm = Some rm2" "rm_matches rm2 = [t]" by auto
    have "send_rm_with_matches ?tr rm2 (is_dp_port r) (isl_ports tb r)
        = Some (map (\<lambda>p. rm2\<lparr>rm_matches := rm_matches rm2 @ [the (Match_ETHERNET (te_eth_addr p)), the (Match_IN_PORT (te_dp_port p))]\<rparr>)
            (filter (other_active (is_dp_port r)) (isl_ports tb r)))"
      using with_matches [of ?tr "isl_ports tb r" "is_dp_port r" rm2] assms(1,5) by simp
    then show ?thesis
      using False rm2 t(1) ethertypes(3) by (simp add: satellite_isl_route_mod_def turns Let_def comp_def)
  qed
qed

theorem satellite_sends_ipv4_only_witness:
  "\<exists>tr' rms. satellite_isl_route_mod demo_tables (new_translator SatelliteRouteModTranslator 9 0) demo_link (RouteMod_init RMT_ADD 9)
       = (tr', Some rms)
     \<and> map rm_matches rms = [[the (Match_ETHERTYPE ETHERTYPE_IP), the (Match_ETHERNET (Some ''02:00:00:00:00:02'')),
         the (Match_IN_PORT (Some 4))]]"
proof -
  let ?tr = "new_translator SatelliteRouteModTranslator 9 0"
  have ps: "isl_ports demo_tables demo_link
      = [RFE (active_entry 1 10 3 ''02:00:00:00:00:01''), RFE (active_entry 2 11 4 ''02:00:00:00:00:02'')]"
    by (simp add: demo_simps)
  have fits: "\<forall>p \<in> set (isl_ports demo_tables demo_link).
      other_active (is_dp_port demo_link) p \<longrightarrow> port_fits (te_dp_port p) \<and> addr_fits (te_eth_addr p)"
    unfolding ps using demo_addr by (simp add: port_fits_def)
  have "tr_class ?tr = SatelliteRouteModTranslator" "port_fits (is_dp_port demo_link)" by (simp_all add: new_translator_def port_fits_def)
  from satellite_sends_ipv4_only [OF this _ _ fits, of "RouteMod_init RMT_ADD 9"] demo_addr
  obtain tr' rms where r: "satellite_isl_route_mod demo_tables ?tr demo_link (RouteMod_init RMT_ADD 9) = (tr', Some rms)"
    "map rm_matches rms = map (\<lambda>p. [the (Match_ETHERTYPE ETHERTYPE_IP), the (Match_ETHERNET (te_eth_addr p)), the (Match_IN_PORT (te_dp_port p))])
        (if is_rem_eth_addr demo_link \<in> set (tr_sent_isl_dl ?tr) then [] else filter (other_active (is_dp_port demo_link)) (isl_ports demo_tables demo_link))"
    by auto
  from r(2) have "map rm_matches rms = [[the (Match_ETHERTYPE ETHERTYPE_IP), the (Match_ETHERNET (Some ''02:00:00:00:00:02'')),
         the (Match_IN_PORT (Some 4))]]"
    unfolding ps by (simp add: demo_simps)
  with r(1) show ?thesis by (intro exI conjI)
qed

end
