(* ===== verification/RF_Datapaths.thy ===== *)
theory RF_Datapaths
  imports RF_Down RF_Routes
begin

text \<open>
  When a datapath gets its translator and its first flows: at the first registration of a port that finds
  the datapath registered already, that is, not before its second port.
\<close>

section \<open>Datapaths no entry mentions\<close>

definition unseen :: "int \<Rightarrow> server \<Rightarrow> bool" where
  "unseen dp s \<longleftrightarrow> (\<forall>i e. entry_rows (rftable s) i = Some e \<longrightarrow> re_dp_id e \<noteq> Some dp)
     \<and> (\<forall>i l. entry_rows (isltable s) i = Some l \<longrightarrow> is_dp_id l \<noteq> Some dp)"

lemma unseen_tb: "sv_tb s' = sv_tb s \<Longrightarrow> unseen dp s' = unseen dp s"
  by (simp add: unseen_def)

lemma unseen_save_rf:
  assumes "server_ok s" "unseen dp s" "re_dp_id e \<noteq> Some dp" "storable e (rftable s)"
  shows "unseen dp (save_rf e s)"
proof -
  obtain x where "snd (set_entry e (rftable s)) = e\<lparr>e_id := x\<rparr>" using snd_set_entry by blast
  then have "re_dp_id (snd (set_entry e (rftable s))) \<noteq> Some dp" using assms(3) by simp
  from memory.put_all [where P = "\<lambda>e. re_dp_id e \<noteq> Some dp", OF server_okD(1) [OF assms(1)] _ this] assms(2,4)
  have "\<forall>i e'. entry_rows (fst (set_entry e (rftable s))) i = Some e' \<longrightarrow> re_dp_id e' \<noteq> Some dp"
    by (simp add: unseen_def storable_def)
  then show ?thesis using assms(2) by (simp add: unseen_def)
qed

lemma unseen_save_isl:
  assumes "server_ok s" "unseen dp s" "is_dp_id l \<noteq> Some dp" "storable l (isltable s)"
  shows "unseen dp (save_isl l s)"
proof -
  obtain x where "snd (set_entry l (isltable s)) = l\<lparr>e_id := x\<rparr>" using snd_set_entry by blast
  then have "is_dp_id (snd (set_entry l (isltable s))) \<noteq> Some dp" using assms(3) by simp
  from memory.put_all [where P = "\<lambda>l. is_dp_id l \<noteq> Some dp", OF server_okD(2) [OF assms(1)] _ this] assms(2,4)
  have "\<forall>i e'. entry_rows (fst (set_entry l (isltable s))) i = Some e' \<longrightarrow> is_dp_id e' \<noteq> Some dp"
    by (simp add: unseen_def storable_def)
  then show ?thesis using assms(2) by (simp add: unseen_def)
qed

lemma found_entry:
  assumes "server_ok s" "first_entry (get_entries p (rftable s)) = Some e" "unseen dp s"
  shows "re_dp_id e \<noteq> Some dp" "\<And>g. e_id g = e_id e \<Longrightarrow> storable g (rftable s)"
  using first_entry_row(2) [OF server_okD(1) [OF assms(1)] assms(2)] assms(3) by (auto simp: unseen_def storable_def)

lemma found_link:
  assumes "server_ok s" "first_entry (get_entries p (isltable s)) = Some l" "unseen dp s"
  shows "is_dp_id l \<noteq> Some dp"
  using first_entry_row(2) [OF server_okD(2) [OF assms(1)] assms(2)] assms(3) by (auto simp: unseen_def)

lemma unseen_vm_port:
  assumes "server_ok s" "unseen dp s"
  shows "unseen dp (fst (register_vm_port vm port addr s))"
proof (cases "vm_port_action vm port s")
  case REGISTER_IDLE
  have "unseen dp (save_rf (RFEntry\<lparr>re_vm_id := Some vm, re_vm_port := Some port, re_eth_addr := Some addr\<rparr>) s)"
    by (rule unseen_save_rf [OF assms]) (simp_all add: RFEntry_def storable_def)
  then show ?thesis using REGISTER_IDLE by (simp add: register_vm_port_def apply_vm_port_def)
next
  case (REGISTER_ASSOCIATED e)
  then obtain p where p: "first_entry (get_entries p (rftable s)) = Some e" and st: "get_status e = RFENTRY_IDLE_DP_PORT"
    by (auto simp: vm_port_action_def get_entry_by_dp_port_def split: option.splits if_splits)
  have "re_dp_id e' \<noteq> Some dp \<and> e_id e' = e_id e" if "associate vm port None (Some addr) e = Some e'" for e'
    using that st found_entry(1) [OF assms(1) p assms(2)] by (auto simp: associate_def get_status_def split: if_splits)
  then have "unseen dp (save_rf e' s)" if "associate vm port None (Some addr) e = Some e'" for e'
    using that unseen_save_rf [OF assms] found_entry(2) [OF assms(1) p assms(2)] by blast
  then show ?thesis using REGISTER_ASSOCIATED assms(2) by (simp add: register_vm_port_def apply_vm_port_def split: option.split)
qed (simp_all add: register_vm_port_def apply_vm_port_def assms(2))

lemma isl_associate_dp: "is_dp_id (isl_associate ct d port addr l) \<in> {is_dp_id l, Some d}"
  by (simp add: isl_associate_def)

lemma unseen_connect_isl:
  assumes "server_ok s" "unseen dp s" "d \<noteq> dp" "first_entry (get_entries p (isltable s)) = Some l"
    and "isl_idle_dp_port l"
  shows "unseen dp (connect_isl ct d port (Some addr) l s)"
proof -
  note l = isl_entry_ok [OF assms(1,4)] and fl = found_link [OF assms(1,4,2)]
  let ?l = "isl_associate ct d port (Some addr) l" let ?s = "save_isl ?l s"
  have l': "isl_row_ok ?l" "e_id ?l = e_id l" "is_dp_id ?l \<noteq> Some dp"
    using isl_associate_ok [OF l(2)] isl_associate_dp [of ct d port "Some addr" l] fl assms(3) by auto
  have ok: "server_ok ?s" "unseen dp ?s"
    using save_isl_ok [OF assms(1) l'(1) l(3) [OF l'(2)]] unseen_save_isl [OF assms(1,2) l'(3) l(3) [OF l'(2)]] by auto
  show ?thesis
  proof (cases "get_entry_by_remote (is_ct_id ?l) (is_dp_id ?l) (is_dp_port ?l) (is_eth_addr ?l) (isltable ?s)")
    case None
    have "unseen dp (save_isl ((RFISLEntry (is_vm_id ?l) ct d port (is_rem_eth_addr ?l))
      \<lparr>is_rem_ct := is_ct_id ?l, is_rem_id := is_dp_id ?l, is_rem_port := is_dp_port ?l, is_rem_eth_addr := is_eth_addr ?l\<rparr>) ?s)"
      by (rule unseen_save_isl [OF ok]) (simp_all add: RFISLEntry_def storable_def assms(3))
    then show ?thesis using None by (simp only: connect_isl_def option.case Let_def)
  next
    case (Some n)
    note n = isl_entry_ok [OF ok(1) Some [unfolded get_entry_by_remote_def]]
      and fn = found_link [OF ok(1) Some [unfolded get_entry_by_remote_def] ok(2)]
    have "unseen dp (save_isl (isl_associate ct d port (Some addr) n) ?s)"
      using unseen_save_isl [OF ok] isl_associate_ok [OF n(2)] isl_associate_dp [of ct d port "Some addr" n] n(3) fn assms(3)
      by (metis insert_iff option.inject singletonD)
    then show ?thesis using Some by (simp only: connect_isl_def option.case Let_def)
  qed
qed

lemma unseen_islconf:
  assumes "server_ok s" "unseen dp s" "d \<noteq> dp"
  shows "unseen dp (register_islconf ct d port conf s)"
proof -
  have new: "unseen dp (save_isl (RFISLEntry (Some v) ct d port (Some addr)) s)" for v addr
    by (rule unseen_save_isl [OF assms(1,2)]) (simp_all add: RFISLEntry_def storable_def assms(3))
  have "unseen dp (case get_entry_by_addr a b c e (isltable s) of
        None \<Rightarrow> save_isl (RFISLEntry (Some (ic_vm_id conf)) ct d port (Some addr)) s
      | Some entry \<Rightarrow> if isl_get_status entry = RFISL_IDLE_DP_PORT then connect_isl ct d port (Some addr) entry s else s)"
    for a b c e addr
  proof (cases "get_entry_by_addr a b c e (isltable s)")
    case (Some l)
    then show ?thesis
      using unseen_connect_isl [OF assms Some [unfolded get_entry_by_addr_def]] assms(2)
      by (simp add: isl_get_status_def split: if_splits)
  qed (simp add: new)
  then show ?thesis by (simp add: register_islconf_def)
qed

lemma unseen_apply_dp_port:
  assumes "server_ok s" "unseen dp s" "d \<noteq> dp"
  shows "unseen dp (fst (apply_dp_port ct d port (dp_port_action ct d port s) s))"
proof (cases "dp_port_action ct d port s")
  case REGISTER_IDLE
  have "unseen dp (save_rf (RFEntry\<lparr>re_ct_id := Some ct, re_dp_id := Some d, re_dp_port := Some port\<rparr>) s)"
    by (rule unseen_save_rf [OF assms(1,2)]) (simp_all add: RFEntry_def storable_def assms(3))
  then show ?thesis using REGISTER_IDLE by (simp add: apply_dp_port_def)
next
  case (REGISTER_ASSOCIATED e)
  then obtain p where p: "first_entry (get_entries p (rftable s)) = Some e"
    by (auto simp: dp_port_action_def get_entry_by_vm_port_def Let_def split: option.splits if_splits)
  have "re_dp_id e' \<noteq> Some dp \<and> e_id e' = e_id e" if "associate d port (Some ct) None e = Some e'" for e'
    using that found_entry(1) [OF assms(1) p assms(2)] assms(3) by (auto simp: associate_def split: if_splits)
  then have "unseen dp (save_rf e' s)" if "associate d port (Some ct) None e = Some e'" for e'
    using that unseen_save_rf [OF assms(1,2)] found_entry(2) [OF assms(1) p assms(2)] by blast
  then show ?thesis using REGISTER_ASSOCIATED assms(2) by (simp add: apply_dp_port_def split: option.split)
next
  case (REGISTER_ISL confs)
  have "server_ok (fold (register_islconf ct d port) confs s) \<and> unseen dp (fold (register_islconf ct d port) confs s)"
    by (rule fold_invariant [where Q = "\<lambda>_. True"]) (use assms register_islconf_ok unseen_islconf in simp_all)
  then show ?thesis using REGISTER_ISL by (simp add: apply_dp_port_def)
qed (simp_all add: apply_dp_port_def assms(2))

lemma unseen_dp_port:
  assumes "server_ok s" "unseen dp s" "d \<noteq> dp"
  shows "unseen dp (fst (register_dp_port ct d port s))"
proof -
  obtain u ok stop where u: "config_dp ct d s = (u, ok, stop)" by (metis prod_cases3)
  have "server_ok u" "unseen dp u" using config_dp_parts [OF u] server_ok_tb unseen_tb assms by metis+
  then show ?thesis using u unseen_apply_dp_port [OF _ _ assms(3), of u ct port] by (simp add: register_dp_port_def)
qed

lemma unseen_dp_down:
  assumes "server_ok s" "unseen dp s"
  shows "unseen dp (set_dp_down ct d s)"
proof -
  have "re_dp_id e = Some dp" if "re_dp_id (forget_datapath ct d e) = Some dp" for e
    using that by (simp add: forget_datapath_def split: if_splits)
  moreover have "is_dp_id l = Some dp" if "is_dp_id (forget_remote ct d (forget_local ct d l)) = Some dp" for l
    using that by (simp add: forget_local_def forget_remote_def split: if_splits)
  ultimately show ?thesis
    using assms(2) unfolding unseen_def dp_down_parts(1,2) [OF assms(1)] map_option_eq_Some by blast
qed

lemma unseen_map_port:
  assumes "server_ok s" "unseen dp s"
  shows "unseen dp (map_port vm port vs vs_port s)"
proof (cases "get_entry_by_vm_port vm port (rftable s)")
  case (Some e)
  note e = found_entry [OF assms(1) Some [unfolded get_entry_by_vm_port_def] assms(2)]
  have "unseen dp (save_rf (activate vs vs_port e) s)"
    by (rule unseen_save_rf [OF assms]) (use e in \<open>simp_all add: activate_def\<close>)
  moreover have "sv_tb (map_port vm port vs vs_port s) = (if get_status e = RFENTRY_ASSOCIATED then sv_tb (save_rf (activate vs vs_port e) s) else sv_tb s)"
    using Some by (simp add: map_port_def Let_def)
  ultimately show ?thesis using assms(2) unseen_tb by metis
qed (simp add: map_port_def assms(2))

fun registers :: "int \<Rightarrow> event \<Rightarrow> bool" where
  "registers dp (Received RFSERVER_RFPROXY_CHANNEL (DatapathPortRegister ct d port)) \<longleftrightarrow> d = dp"
| "registers dp _ \<longleftrightarrow> False"

lemma unseen_process:
  assumes "server_ok s" "unseen dp s" "\<not> registers dp (Received ch msg)"
  shows "unseen dp (fst (process ch msg s))"
proof -
  have rm: "unseen dp (fst (register_route_mod rm s))" for rm
    using register_route_mod_parts [of rm s] unseen_tb assms(2) by (metis prod.collapse)
  have acks: "unseen dp (send_routemod_acks s)" using assms(2) by (simp add: send_routemod_acks_def unseen_def)
  show ?thesis
    using assms by (cases ch; cases msg)
      (simp_all add: process_def rm acks unseen_vm_port unseen_dp_port unseen_dp_down unseen_map_port)
qed

lemma unseen_alive [simp]: "unseen dp (s\<lparr>sv_client_alive := b\<rparr>) = unseen dp s" "unseen dp (s\<lparr>sv_proxy_alive := b\<rparr>) = unseen dp s"
  by (simp_all add: unseen_def)

lemma unseen_step: "server_ok s \<Longrightarrow> unseen dp s \<Longrightarrow> \<not> registers dp ev \<Longrightarrow> unseen dp (server_step ev s)"
proof (induction ev s rule: server_step.induct)
  case (1 msg s)
  then show ?case using unseen_process [of s dp RFCLIENT_RFSERVER_CHANNEL msg] by (simp add: case_prod_unfold Let_def)
next
  case (2 msg s)
  then show ?case using unseen_process [of s dp RFSERVER_RFPROXY_CHANNEL msg] by (simp add: case_prod_unfold Let_def)
next
  case (3 s)
  have "sv_tb (dp_worker s) = sv_tb s" by (simp add: dp_worker_def split: list.splits prod.splits)
  then show ?case using 3 unseen_tb by (metis server_step.simps(3))
qed

section \<open>Datapaths with a translator\<close>

lemma config_dp_translators:
  assumes "config_dp ct dp s = (s', ok, stop)"
  shows "dom (map_of (sv_translator s)) \<subseteq> dom (map_of (sv_translator s'))"
proof (cases "\<not> is_rfvs_dp dp \<and> (is_dp_registered ct dp (rftable s) \<or> isl_is_dp_registered ct dp (isltable s))
    \<and> map_of (sv_translator s) dp = None")
  case False
  then have "s' = s" using assms by (auto simp: config_dp_def split: if_splits)
  then show ?thesis by simp
next
  case True
  let ?tr = "new_translator (translator_for dp s) dp ct"
  obtain v ok' where v: "send_datapath_config_messages ct ?tr (set_translator dp ?tr s) = (v, ok')" by force
  have "s' = v" using assms True v by (simp add: config_dp_def Let_def)
  moreover have "sv_translator v = sv_translator (set_translator dp ?tr s)"
    using v send_route_mods_parts [of "Some ct" _ "set_translator dp ?tr s" v ok']
    by (auto simp: send_datapath_config_messages_def split: option.splits)
  ultimately show ?thesis by (auto simp: set_translator_def update_conv')
qed

definition known_dps :: "server \<Rightarrow> int set" where
  "known_dps s = dom (map_of (sv_translator s))"

interpretation translator_view: server_view sv_translator
  by unfold_locales simp_all

lemma known_dp_port: "known_dps (fst (register_dp_port ct d port s)) \<subseteq> insert d (known_dps s)"
proof -
  obtain u ok stop where u: "config_dp ct d s = (u, ok, stop)" by (metis prod_cases3)
  have "sv_translator (fst (register_dp_port ct d port s)) = sv_translator u"
    using u by (simp add: register_dp_port_def translator_view.view_apply_dp_port)
  then show ?thesis using config_dp_parts [OF u] by (auto simp: known_dps_def)
qed

lemma known_process:
  assumes "dp \<notin> known_dps s" "\<not> registers dp (Received ch msg)"
  shows "dp \<notin> known_dps (fst (process ch msg s))"
proof -
  have rm: "known_dps (fst (register_route_mod rm s)) = known_dps s" for rm
    using register_route_mod_parts [of rm s] unfolding known_dps_def by (metis prod.collapse)
  have dp: "dp \<notin> known_dps (fst (register_dp_port ct d p s))" if "d \<noteq> dp" for ct d p
    using that assms(1) known_dp_port [of ct d p s] by auto
  have other: "known_dps (fst (register_vm_port vm p addr s)) = known_dps s" "known_dps (set_dp_down ct d s) = known_dps s"
    "known_dps (map_port vm p vs vs_port s) = known_dps s" "known_dps (send_routemod_acks s) = known_dps s"
    for vm p addr ct d vs vs_port
    by (simp_all add: known_dps_def translator_view.view_vm_port translator_view.view_dp_down translator_view.view_map_port send_routemod_acks_def)
  show ?thesis using assms by (cases ch; cases msg) (simp_all add: process_def rm dp other)
qed

lemma known_alive [simp]:
  "known_dps (s\<lparr>sv_client_alive := b\<rparr>) = known_dps s" "known_dps (s\<lparr>sv_proxy_alive := b\<rparr>) = known_dps s"
  by (simp_all add: known_dps_def)

lemma known_step: "dp \<notin> known_dps s \<Longrightarrow> \<not> registers dp ev \<Longrightarrow> dp \<notin> known_dps (server_step ev s)"
proof (induction ev s rule: server_step.induct)
  case (1 msg s)
  then show ?case using known_process [of dp s RFCLIENT_RFSERVER_CHANNEL msg] by (simp add: case_prod_unfold Let_def)
next
  case (2 msg s)
  then show ?case using known_process [of dp s RFSERVER_RFPROXY_CHANNEL msg] by (simp add: case_prod_unfold Let_def)
next
  case (3 s)
  then show ?case by (simp add: dp_worker_def known_dps_def split: list.split)
qed

lemma known_run: "dp \<notin> known_dps s \<Longrightarrow> filter (registers dp) evs = [] \<Longrightarrow> dp \<notin> known_dps (fold server_step evs s)"
proof (induction evs arbitrary: s)
  case (Cons ev evs)
  then show ?case using known_step [of dp s ev] by (auto split: if_splits)
qed simp

text \<open>A translator is never removed.\<close>

lemma known_dp_port_mono: "known_dps s \<subseteq> known_dps (fst (register_dp_port ct d port s))"
proof -
  obtain u ok stop where u: "config_dp ct d s = (u, ok, stop)" by (metis prod_cases3)
  have "dom (map_of (sv_translator s)) \<subseteq> dom (map_of (sv_translator u))" using u by (rule config_dp_translators)
  then show ?thesis using u by (simp add: register_dp_port_def translator_view.view_apply_dp_port known_dps_def)
qed

lemma known_process_mono: "known_dps s \<subseteq> known_dps (fst (process ch msg s))"
proof -
  have rm: "known_dps (fst (register_route_mod rm s)) = known_dps s" for rm
    using register_route_mod_parts [of rm s] unfolding known_dps_def by (metis prod.collapse)
  have other: "known_dps (fst (register_vm_port vm p addr s)) = known_dps s" "known_dps (set_dp_down ct d s) = known_dps s"
    "known_dps (map_port vm p vs vs_port s) = known_dps s" "known_dps (send_routemod_acks s) = known_dps s"
    for vm p addr ct d vs vs_port
    by (simp_all add: known_dps_def translator_view.view_vm_port translator_view.view_dp_down translator_view.view_map_port send_routemod_acks_def)
  show ?thesis by (cases ch; cases msg) (simp_all add: process_def rm other known_dp_port_mono)
qed

lemma known_step_mono: "known_dps s \<subseteq> known_dps (server_step ev s)"
proof (induction ev s rule: server_step.induct)
  case (1 msg s)
  then show ?case using known_process_mono [of s RFCLIENT_RFSERVER_CHANNEL msg] by (simp add: case_prod_unfold Let_def)
next
  case (2 msg s)
  then show ?case using known_process_mono [of s RFSERVER_RFPROXY_CHANNEL msg] by (simp add: case_prod_unfold Let_def)
next
  case (3 s)
  then show ?case by (simp add: dp_worker_def known_dps_def split: list.split)
qed

lemma known_run_mono: "known_dps s \<subseteq> known_dps (fold server_step evs s)"
proof (induction evs arbitrary: s)
  case (Cons ev evs)
  then show ?case using known_step_mono [of s ev] by fastforce
qed simp

lemma registered_again:
  assumes "map_of (sv_translator s) dp \<noteq> None" "\<not> is_rfvs_dp dp"
  shows "sv_dp_q (fst (register_dp_port ct dp port s)) = sv_dp_q s"
proof -
  have "config_dp ct dp s = (s, True, False)" using assms by (intro config_dp_idle) simp_all
  then have "flows (fst (register_dp_port ct dp port s)) = flows s"
    by (simp add: register_dp_port_def queue_view.view_apply_dp_port)
  then show ?thesis by (simp add: flows_def)
qed

text \<open>The first registration of a datapath finds nothing of it in the tables.\<close>

lemma first_registration:
  assumes "server_ok s" "unseen dp s" "dp \<notin> known_dps s" "registers dp ev"
  shows "dp \<notin> known_dps (server_step ev s)"
proof -
  obtain ct port where ev: "ev = Received RFSERVER_RFPROXY_CHANNEL (DatapathPortRegister ct dp port)"
    using assms(4) by (cases "(dp, ev)" rule: registers.cases) auto
  have "get_entries (\<lambda>e. re_ct_id e = Some ct \<and> re_dp_id e = Some dp) (rftable s) = []"
    using assms(2) set_get_entries [OF server_okD(1) [OF assms(1)]] by (force simp: unseen_def ran_def simp flip: set_empty)
  moreover have "get_entries (\<lambda>e. is_ct_id e = Some ct \<and> is_dp_id e = Some dp) (isltable s) = []"
    using assms(2) set_get_entries [OF server_okD(2) [OF assms(1)]] by (force simp: unseen_def ran_def simp flip: set_empty)
  ultimately have "config_dp ct dp s \<in> {(s, True, True), (s, True, False)}"
    by (simp add: config_dp_def is_dp_registered_def get_dp_entries_def isl_is_dp_registered_def isl_get_dp_entries_def)
  then have "sv_translator (fst (register_dp_port ct dp port s)) = sv_translator s"
    by (auto simp: register_dp_port_def translator_view.view_apply_dp_port)
  then show ?thesis using assms(3) by (simp add: ev process_def known_dps_def case_prod_unfold Let_def)
qed

lemma one_registration:
  assumes "server_ok s" "unseen dp s" "dp \<notin> known_dps s" "length (filter (registers dp) evs) \<le> 1"
  shows "dp \<notin> known_dps (fold server_step evs s)"
  using assms
proof (induction evs arbitrary: s)
  case (Cons ev evs)
  show ?case
  proof (cases "registers dp ev")
    case True
    then show ?thesis using first_registration [OF Cons.prems(1-3) True] Cons.prems(4) known_run by simp
  next
    case False
    then show ?thesis
      using Cons.IH [OF server_step_ok [OF Cons.prems(1)] unseen_step [OF Cons.prems(1,2) False] known_step [OF Cons.prems(3) False]]
        Cons.prems(4) by simp
  qed
qed simp

section \<open>The first flows of a datapath\<close>

text \<open>Every rule carries its priority and, as its last option, the controller.\<close>

definition setup_rule :: "int \<Rightarrow> int \<Rightarrow> int \<Rightarrow> tlv option \<Rightarrow> string \<times> route_mod" where
  "setup_rule ct dp ty priority =
     (int_to_string ct, (RouteMod_init RMT_ADD dp)\<lparr>rm_matches := [the (Match_ETHERTYPE ty)],
        rm_actions := [the Action_CONTROLLER], rm_options := [the priority, the (Option_CT_ID (Some ct))]\<rparr>)"

definition setup_flows :: "int \<Rightarrow> int \<Rightarrow> (string \<times> route_mod) list" where
  "setup_flows ct dp =
     [(int_to_string ct, (RouteMod_init RMT_DELETE_GROUP dp)\<lparr>rm_options := [the (Option_CT_ID (Some ct))]\<rparr>),
      (int_to_string ct, (RouteMod_init RMT_DELETE dp)\<lparr>rm_options := [the (Option_CT_ID (Some ct))]\<rparr>),
      setup_rule ct dp ETHERTYPE_IP ESTABLISH_PRIORITY, setup_rule ct dp ETHERTYPE_IPV6 ESTABLISH_PRIORITY,
      (int_to_string ct, (RouteMod_init RMT_ADD dp)\<lparr>rm_options := [the DROP_PRIORITY, the (Option_CT_ID (Some ct))]\<rparr>),
      setup_rule ct dp ETHERTYPE_ARP CONTROLLER_PRIORITY]"

lemma setup_packs:
  "\<exists>t. Action_CONTROLLER = Some t" "\<exists>t. DROP_PRIORITY = Some t" "\<exists>t. ESTABLISH_PRIORITY = Some t"
  "\<exists>t. CONTROLLER_PRIORITY = Some t" "\<exists>t. Match_ETHERTYPE ETHERTYPE_ARP = Some t"
proof -
  have "Action_CONTROLLER \<noteq> None"
    unfolding Action_CONTROLLER_def by (rule packed_values) (simp add: fits_action_def ACTION_BIN_def fits_width_def)
  then show "\<exists>t. Action_CONTROLLER = Some t" by blast
qed (use packs(5) [of ETHERTYPE_ARP] packs(6) in \<open>simp_all add: DROP_PRIORITY_def ESTABLISH_PRIORITY_def CONTROLLER_PRIORITY_def\<close>)

lemma ethertype_rule_fits:
  assumes "\<exists>t. Match_ETHERTYPE ty = Some t" "\<exists>p. priority = Some p" "\<not> tb_fp_enabled tb"
    "tr_class tr \<noteq> NoviFlowMultitableRouteModTranslator"
  shows "do { rm \<leftarrow> ethertype_rule ty priority tr; handle_controller_route_mod tb tr rm }
    = Some [(RouteMod_init RMT_ADD (tr_dp_id tr))\<lparr>rm_matches := [the (Match_ETHERTYPE ty)], rm_actions := [the Action_CONTROLLER],
              rm_options := [the priority]\<rparr>]"
proof -
  obtain c where c: "Action_init RFAT_OUTPUT (PyInt OFPP_CONTROLLER) = Some c" using setup_packs(1) by (auto simp: Action_CONTROLLER_def)
  show ?thesis
    using assms c by (auto simp: ethertype_rule_def add_option_def add_match_def add_action_def handle_controller_route_mod_def
        default_controller_route_mod_def RouteMod_init_def Action_CONTROLLER_def)
qed

lemma default_setup:
  assumes "\<not> tb_fp_enabled tb" "tr_class tr \<noteq> NoviFlowMultitableRouteModTranslator" "Option_CT_ID (Some ct) = Some t"
  shows "\<exists>rms. configure_datapath tb tr = Some rms
    \<and> map (\<lambda>rm. (int_to_string ct, rm\<lparr>rm_options := rm_options rm @ [t]\<rparr>)) rms = setup_flows ct (tr_dp_id tr)"
proof -
  note rules = ethertype_rule_fits [OF ethertypes(1) setup_packs(3) assms(1,2)] ethertype_rule_fits [OF ethertypes(2) setup_packs(3) assms(1,2)]
    ethertype_rule_fits [OF setup_packs(5,4) assms(1,2)]
  obtain d where d: "Option_PRIORITY (PRIORITY_LOWEST + PRIORITY_BAND) = Some d" using setup_packs(2) by (auto simp: DROP_PRIORITY_def)
  obtain ip ip6 arp where r: "ethertype_rule ETHERTYPE_IP ESTABLISH_PRIORITY tr = Some ip"
    "ethertype_rule ETHERTYPE_IPV6 ESTABLISH_PRIORITY tr = Some ip6" "ethertype_rule ETHERTYPE_ARP CONTROLLER_PRIORITY tr = Some arp"
    using rules by (auto simp: bind_eq_Some_conv)
  show ?thesis
    using rules r d assms by (simp add: configure_datapath_def default_configure_def add_option_def DROP_PRIORITY_def
        setup_flows_def setup_rule_def RouteMod_init_def)
qed

lemma first_flows:
  assumes "\<not> is_rfvs_dp dp" and "is_dp_registered ct dp (rftable s) \<or> isl_is_dp_registered ct dp (isltable s)"
    and "map_of (sv_translator s) dp = None" and "dp \<notin> set (sv_multitabledps s)" and "\<not> tb_fp_enabled (sv_tb s)"
    and "0 \<le> ct" and "ct < 2 ^ 64"
  shows "sv_dp_q (fst (register_dp_port ct dp port s)) = sv_dp_q s @ setup_flows ct dp"
    "dp \<in> known_dps (fst (register_dp_port ct dp port s))"
    "routes_sent (fst (register_dp_port ct dp port s)) = routes_sent s"
proof -
  let ?tr = "new_translator (translator_for dp s) dp ct"
  have cls: "tr_class ?tr \<noteq> NoviFlowMultitableRouteModTranslator" "tr_dp_id ?tr = dp"
    using assms(4) by (simp_all add: new_translator_def translator_for_def)
  obtain t where t: "Option_CT_ID (Some ct) = Some t" using packs(4) [OF assms(6,7)] by blast
  obtain rms where rms: "configure_datapath (sv_tb s) ?tr = Some rms"
    "map (\<lambda>rm. (int_to_string ct, rm\<lparr>rm_options := rm_options rm @ [t]\<rparr>)) rms = setup_flows ct dp"
    using default_setup [OF assms(5) cls(1) t] cls(2) by auto
  let ?u = "(set_translator dp ?tr s)\<lparr>sv_dp_q := sv_dp_q s @ setup_flows ct dp\<rparr>"
  have "config_dp ct dp s = (?u, True, False)"
    using assms(1-3) rms t by (simp add: config_dp_def send_datapath_config_messages_def send_route_mods_all Let_def)
  then have r: "register_dp_port ct dp port s = apply_dp_port ct dp port (dp_port_action ct dp port ?u) ?u"
    by (simp add: register_dp_port_def)
  let ?v = "fst (register_dp_port ct dp port s)"
  have q: "sv_dp_q ?v = sv_dp_q s @ setup_flows ct dp" "sv_translator ?v = sv_translator (set_translator dp ?tr s)"
    "routes_sent ?v = routes_sent s"
    using queue_view.view_apply_dp_port [of ct dp port "dp_port_action ct dp port ?u" ?u]
      translator_view.view_apply_dp_port [of ct dp port "dp_port_action ct dp port ?u" ?u] by (simp_all add: r flows_def routes_sent_def set_translator_def)
  then show "sv_dp_q ?v = sv_dp_q s @ setup_flows ct dp" "dp \<in> known_dps ?v" "routes_sent ?v = routes_sent s"
    by (simp_all add: known_dps_def set_translator_def update_conv')
qed

section \<open>Properties\<close>

text \<open>
  C17: whatever else happens, a datapath of which the server has been told at most one port has no
  translator, so that a route of the virtual machine associated with that port is not translated but
  raises: the datapath is configured before the port is entered in the table, and only when the table
  has it already.
\<close>

theorem single_port_datapath_unconfigured:
  assumes "good_order ord" and "RFServer ord cf isl_file fp_file multi sat = Some (Some s\<^sub>0)"
    and "length (filter (registers dp) evs) \<le> 1"
    and "get_entry_by_vm_port (rm_id rm) (rm_vm_port rm) (rftable (fold server_step evs s\<^sub>0)) = Some e" and "re_dp_id e = Some dp"
  shows "map_of (sv_translator (fold server_step evs s\<^sub>0)) dp = None
    \<and> register_route_mod rm (fold server_step evs s\<^sub>0) = (fold server_step evs s\<^sub>0, False)"
proof -
  note i = RFServer_init [OF assms(1,2)]
  have "unseen dp s\<^sub>0" "dp \<notin> known_dps s\<^sub>0" using i(2-4) by (simp_all add: unseen_def known_dps_def)
  from one_registration [OF i(1) this assms(3)]
  have "map_of (sv_translator (fold server_step evs s\<^sub>0)) dp = None" by (auto simp: known_dps_def)
  then show ?thesis using assms(4,5) by (simp add: register_route_mod_def)
qed

theorem single_port_datapath_unconfigured_witness:
  "\<exists>s. RFServer (\<lambda>ks. ks) demo_config None None [] [] = Some (Some s)
     \<and> map_of (sv_translator (fold server_step [Received RFCLIENT_RFSERVER_CHANNEL (PortRegister 10 1 ''02:00''),
          Received RFSERVER_RFPROXY_CHANNEL (DatapathPortRegister 0 9 3)] s)) 9 = None
     \<and> \<not> snd (register_route_mod ((RouteMod_init RMT_ADD 10)\<lparr>rm_vm_port := 1\<rparr>)
          (fold server_step [Received RFCLIENT_RFSERVER_CHANNEL (PortRegister 10 1 ''02:00''),
            Received RFSERVER_RFPROXY_CHANNEL (DatapathPortRegister 0 9 3)] s))"
proof -
  let ?rm = "(RouteMod_init RMT_ADD 10)\<lparr>rm_vm_port := 1\<rparr>" and ?a = "associated_entry 10 1 ''02:00'' 0 9 3"
  let ?evs = "[Received RFCLIENT_RFSERVER_CHANNEL (PortRegister 10 1 ''02:00''),
          Received RFSERVER_RFPROXY_CHANNEL (DatapathPortRegister 0 9 3)]"
  from demo_loads obtain s where s: "RFServer (\<lambda>ks. ks) demo_config None None [] [] = Some (Some s)"
    "config s = \<lparr>mt_next = 1001, mt_data = [(1001, \<lparr>e_id = Some 1001, cf_vm_id = 10, cf_vm_port = 1, cf_ct_id = 0,
         cf_dp_id = 9, cf_dp_port = 3, cf_fp_label = None\<rparr>)], mt_order = (\<lambda>ks. ks)\<rparr>" by blast
  note f = demo_fresh [OF s] and i = RFServer_init [OF identity_order s(1)]
  have run: "fold server_step ?evs s = save_rf ?a s"
    using vm_first(2) [OF f] vm_then_dp [OF f, of "''02:00''"] i(5,6) by (simp add: process_def alive_same)
  have e: "get_entry_by_vm_port (rm_id ?rm) (rm_vm_port ?rm) (rftable (fold server_step ?evs s))
      = Some (?a\<lparr>e_id := Some (mt_next (rftable s) + 1)\<rparr>)"
    unfolding run using associated_state(2) [OF f, of "''02:00''"] by (simp add: RouteMod_init_def)
  have "length (filter (registers 9) ?evs) \<le> 1" "re_dp_id (?a\<lparr>e_id := Some (mt_next (rftable s) + 1)\<rparr>) = Some 9"
    by (simp_all add: associated_entry_def)
  from single_port_datapath_unconfigured [OF identity_order s(1) this(1) e this(2)] s(1) show ?thesis by auto
qed

text \<open>
  C26: the first registration of a port that finds its datapath registered makes the server create
  the translator of the datapath and, for a datapath with one table in a server without fast paths,
  queue six flow changes: delete all groups, delete all flows, send IPv4 and IPv6 to the controller,
  drop the rest, and send ARP to the controller. It does so only once: whatever events follow, the
  going down of the datapath included, no later registration of a port of it queues anything.
\<close>

theorem datapath_configured_once:
  assumes "\<not> is_rfvs_dp dp" and "is_dp_registered ct dp (rftable s) \<or> isl_is_dp_registered ct dp (isltable s)"
    and "map_of (sv_translator s) dp = None" and "dp \<notin> set (sv_multitabledps s)" and "\<not> tb_fp_enabled (sv_tb s)"
    and "0 \<le> ct" and "ct < 2 ^ 64"
    and "after = fold server_step evs (fst (register_dp_port ct dp port s))"
  shows "sv_dp_q (fst (register_dp_port ct dp port s)) = sv_dp_q s @ setup_flows ct dp
    \<and> map_of (sv_translator after) dp \<noteq> None
    \<and> sv_dp_q (fst (register_dp_port ct' dp port' after)) = sv_dp_q after"
proof -
  let ?v = "fst (register_dp_port ct dp port s)"
  note first = first_flows [OF assms(1-7), of port]
  have "dp \<in> known_dps after" using first(2) known_run_mono [of ?v evs] assms(8) by blast
  then have known: "map_of (sv_translator after) dp \<noteq> None" by (auto simp: known_dps_def)
  show ?thesis using first(1) known registered_again [OF known assms(1)] by blast
qed

theorem datapath_configured_once_witness:
  "sv_dp_q (fst (register_dp_port 0 9 5 (demo_active\<lparr>sv_translator := []\<rparr>))) = setup_flows 0 9
   \<and> length (setup_flows 0 9) = 6
   \<and> (\<exists>after. after = fold server_step [Received RFSERVER_RFPROXY_CHANNEL (DatapathDown 0 9),
          Received RFSERVER_RFPROXY_CHANNEL (DatapathPortRegister 0 9 4)]
        (fst (register_dp_port 0 9 5 (demo_active\<lparr>sv_translator := []\<rparr>)))
      \<and> sv_dp_q (fst (register_dp_port 0 9 5 after)) = sv_dp_q after)"
proof -
  let ?s = "demo_active\<lparr>sv_translator := []\<rparr>"
  have "\<not> is_rfvs_dp 9" by (simp add: is_rfvs_dp_def RFVS_DP_PREFIX_def)
  moreover have "is_dp_registered 0 9 (rftable ?s)" by (simp add: is_dp_registered_def get_dp_entries_def demo_simps)
  ultimately have "sv_dp_q (fst (register_dp_port 0 9 5 ?s)) = sv_dp_q ?s @ setup_flows 0 9
      \<and> sv_dp_q (fst (register_dp_port 0 9 5 (fold server_step evs (fst (register_dp_port 0 9 5 ?s)))))
        = sv_dp_q (fold server_step evs (fst (register_dp_port 0 9 5 ?s)))" for evs
    using datapath_configured_once [of 9 0 ?s _ evs 5 0 5] by (simp add: demo_simps)
  moreover have "sv_dp_q ?s = []" "length (setup_flows 0 9) = 6" by (simp_all add: demo_active_def setup_flows_def)
  ultimately show ?thesis by (metis append_Nil)
qed

text \<open>
  The property of the queues, on a server that is told two ports of a datapath: the six flow changes
  that the second one queues are sent, in their order, by six turns of the sending thread.
\<close>

theorem queues_in_order_witness:
  "\<exists>s\<^sub>0 s. RFServer (\<lambda>ks. ks) demo_config None None [] [] = Some (Some s\<^sub>0)
     \<and> s = fold server_step [Received RFSERVER_RFPROXY_CHANNEL (DatapathPortRegister 0 9 3),
          Received RFSERVER_RFPROXY_CHANNEL (DatapathPortRegister 0 9 4)] s\<^sub>0
     \<and> sv_dp_q s = setup_flows 0 9 \<and> length (sv_dp_q s) = 6
     \<and> routes_sent (fold server_step (replicate 6 Worker) s) = setup_flows 0 9
     \<and> prefix (setup_flows 0 9) (routes_sent (fold server_step [Worker, Worker] s) @ sv_dp_q (fold server_step [Worker, Worker] s))"
proof -
  from demo_loads obtain s\<^sub>0 where s: "RFServer (\<lambda>ks. ks) demo_config None None [] [] = Some (Some s\<^sub>0)"
    "config s\<^sub>0 = \<lparr>mt_next = 1001, mt_data = [(1001, \<lparr>e_id = Some 1001, cf_vm_id = 10, cf_vm_port = 1, cf_ct_id = 0,
         cf_dp_id = 9, cf_dp_port = 3, cf_fp_label = None\<rparr>)], mt_order = (\<lambda>ks. ks)\<rparr>" by blast
  note f = demo_fresh [OF s] and i = RFServer_init [OF identity_order s(1)]
  let ?e = "dp_entry 0 9 3" let ?u = "save_rf ?e s\<^sub>0"
  let ?evs = "[Received RFSERVER_RFPROXY_CHANNEL (DatapathPortRegister 0 9 3),
    Received RFSERVER_RFPROXY_CHANNEL (DatapathPortRegister 0 9 4)]"
  have start: "sv_dp_q s\<^sub>0 = []" "sv_sent s\<^sub>0 = []" "sv_multitabledps s\<^sub>0 = []" "\<not> tb_fp_enabled (sv_tb s\<^sub>0)"
  proof -
    have "parse_dps [] = []" by code_simp
    moreover have "get_entries_all (MemoryTable (\<lambda>ks. ks)) = ([] :: fp_conf list)" by (simp add: get_entries_all_def get_entries_def MemoryTable_def)
    ultimately show "sv_dp_q s\<^sub>0 = []" "sv_sent s\<^sub>0 = []" "sv_multitabledps s\<^sub>0 = []" "\<not> tb_fp_enabled (sv_tb s\<^sub>0)"
      using s(1) by (auto simp: RFServer_def RFFPConf_def split: option.splits)
  qed
  have one: "fold server_step ?evs s\<^sub>0 = server_step (Received RFSERVER_RFPROXY_CHANNEL (DatapathPortRegister 0 9 4)) ?u"
    using dp_first(2) [OF f] i(6) by (simp add: process_def alive_same)
  have id: "e_id ?e = None" by (simp add: RFEntry_def)
  note new = set_entry_new [OF server_okD(1) [OF i(1)] id]
  have tok: "table_ok (rftable ?u)" "entry_rows (rftable ?u) (mt_next (rftable s\<^sub>0) + 1) = Some (?e\<lparr>e_id := Some (mt_next (rftable s\<^sub>0) + 1)\<rparr>)"
    using new(1,2) by simp_all
  have "?e\<lparr>e_id := Some (mt_next (rftable s\<^sub>0) + 1)\<rparr> \<in> set (get_entries (\<lambda>e. re_ct_id e = Some 0 \<and> re_dp_id e = Some 9) (rftable ?u))"
    unfolding set_get_entries [OF tok(1)] using ranI [of "entry_rows (rftable ?u)", OF tok(2)] by simp
  then have "is_dp_registered 0 9 (rftable ?u)"
    unfolding is_dp_registered_def get_dp_entries_def by (metis empty_iff empty_set)
  moreover have "\<not> is_rfvs_dp 9" by (simp add: is_rfvs_dp_def RFVS_DP_PREFIX_def)
  ultimately have q: "sv_dp_q (fst (register_dp_port 0 9 4 ?u)) = setup_flows 0 9" "routes_sent (fst (register_dp_port 0 9 4 ?u)) = []"
    using first_flows(1,3) [of 9 0 ?u 4] start i(4) by (simp_all add: save_rf_def upd_rf_def routes_sent_def List.map_filter_simps)
  let ?s = "fold server_step ?evs s\<^sub>0"
  have s2: "sv_dp_q ?s = setup_flows 0 9" "length (sv_dp_q ?s) = 6" "routes_sent ?s = []"
    unfolding one using q i(6) by (simp_all add: process_def case_prod_unfold Let_def setup_flows_def routes_sent_def)
  note w = queues_in_order [OF s(1), of ?evs]
  show ?thesis
    using s(1) s2 w [of "[Worker, Worker]"] by (intro exI [of _ s\<^sub>0] exI [of _ ?s]) simp
qed

end
