(* ===== verification/RF_Links.thy ===== *)
theory RF_Links
  imports RF_ServerProps
begin

text \<open>
  Links between switches: when both ends of a configured link have registered, the table has one active
  entry for each direction, whichever end came first. And associations: when the virtual plane is mapped, the
  association of the port is activated and both sides are told.
\<close>

section \<open>One end of a link\<close>

text \<open>
  What registering an end does: with the other end unknown an entry waits for it; with the other end
  waiting the two are connected.
\<close>

definition register_end :: "int option \<Rightarrow> int \<Rightarrow> int \<Rightarrow> int \<Rightarrow> string \<Rightarrow> int \<Rightarrow> int \<Rightarrow> int \<Rightarrow> string \<Rightarrow> server \<Rightarrow> server" where
  "register_end vm ct dp port addr rct rdp rport raddr s =
     (case get_entry_by_addr rct rdp rport (Some raddr) (isltable s) of
        None \<Rightarrow> save_isl (RFISLEntry vm ct dp port (Some addr)) s
      | Some e \<Rightarrow> if isl_get_status e = RFISL_IDLE_DP_PORT then connect_isl ct dp port (Some addr) e s else s)"

lemma register_islconf_ends:
  assumes "ic_rem_id c \<noteq> ic_dp_id c \<or> ic_rem_ct c \<noteq> ic_ct_id c"
  shows "register_islconf (ic_ct_id c) (ic_dp_id c) (ic_dp_port c) c s
      = register_end (Some (ic_vm_id c)) (ic_ct_id c) (ic_dp_id c) (ic_dp_port c) (ic_eth_addr c)
          (ic_rem_ct c) (ic_rem_id c) (ic_rem_port c) (ic_rem_eth_addr c) s"
    "register_islconf (ic_rem_ct c) (ic_rem_id c) (ic_rem_port c) c s
      = register_end (Some (ic_vm_id c)) (ic_rem_ct c) (ic_rem_id c) (ic_rem_port c) (ic_rem_eth_addr c)
          (ic_ct_id c) (ic_dp_id c) (ic_dp_port c) (ic_eth_addr c) s"
  using assms by (simp_all add: register_islconf_def register_end_def)

definition link_entry :: "int option \<Rightarrow> int \<Rightarrow> int \<Rightarrow> int \<Rightarrow> string \<Rightarrow> int \<Rightarrow> int \<Rightarrow> int \<Rightarrow> string \<Rightarrow> nat \<Rightarrow> isl_entry" where
  "link_entry vm ct dp port addr rct rdp rport raddr i =
     \<lparr>e_id = Some i, is_vm_id = vm, is_ct_id = Some ct, is_dp_id = Some dp, is_dp_port = Some port, is_eth_addr = Some addr,
      is_rem_ct = Some rct, is_rem_id = Some rdp, is_rem_port = Some rport, is_rem_eth_addr = Some raddr\<rparr>"

text \<open>No entry has the end, near or far.\<close>

definition fresh_end :: "int \<Rightarrow> int \<Rightarrow> int \<Rightarrow> string \<Rightarrow> server \<Rightarrow> bool" where
  "fresh_end ct dp port addr s \<longleftrightarrow>
     get_entry_by_addr ct dp port (Some addr) (isltable s) = None
     \<and> get_entry_by_remote (Some ct) (Some dp) (Some port) (Some addr) (isltable s) = None"

lemma fresh_end_rows:
  assumes "server_ok s" "fresh_end ct dp port addr s" "entry_rows (isltable s) j = Some l"
  shows "\<not> (is_ct_id l = Some ct \<and> is_dp_id l = Some dp \<and> is_dp_port l = Some port \<and> is_eth_addr l = Some addr)"
    "\<not> (is_rem_ct l = Some ct \<and> is_rem_id l = Some dp \<and> is_rem_port l = Some port \<and> is_rem_eth_addr l = Some addr)"
  using assms memory.first_None [OF server_okD(2) [OF assms(1)] _ assms(3)]
  by (auto simp: fresh_end_def get_entry_by_addr_def get_entry_by_remote_def)

lemma both_ends:
  assumes "server_ok s" "fresh_end ct dp port addr s" "fresh_end rct rdp rport raddr s" "(rct, rdp) \<noteq> (ct, dp)"
  defines "n \<equiv> mt_next (isltable s)"
  shows "entry_rows (isltable (register_end vm rct rdp rport raddr ct dp port addr (register_end vm ct dp port addr rct rdp rport raddr s)))
    = (entry_rows (isltable s))(n + 1 \<mapsto> link_entry vm ct dp port addr rct rdp rport raddr (n + 1),
         n + 2 \<mapsto> link_entry vm rct rdp rport raddr ct dp port addr (n + 2))"
proof -
  let ?w = "RFISLEntry vm ct dp port (Some addr)" let ?u = "save_isl ?w s" let ?wi = "?w\<lparr>e_id := Some (n + 1)\<rparr>"
  note tok = server_okD(2) [OF assms(1)]
  have first: "register_end vm ct dp port addr rct rdp rport raddr s = ?u"
    using assms(3) by (simp add: register_end_def fresh_end_def)
  have w: "e_id ?w = None" by (simp add: RFISLEntry_def)
  note u = set_entry_new [OF tok w, folded n_def]
  have nu: "mt_next (isltable ?u) = n + 1" using w by (simp add: set_entry_def Let_def n_def)
  have "get_entry_by_addr ct dp port (Some addr) (isltable ?u) = Some ?wi"
    unfolding get_entry_by_addr_def
    by (rule first_entry_unique [of _ "n + 1"])
      (use u fresh_end_rows(1) [OF assms(1,2)] in \<open>auto simp: RFISLEntry_def split: if_splits\<close>)
  then have second: "register_end vm rct rdp rport raddr ct dp port addr ?u = connect_isl rct rdp rport (Some raddr) ?wi ?u"
    by (simp add: register_end_def isl_get_status_def isl_idle_dp_port_def RFISLEntry_def)
  let ?a = "link_entry vm ct dp port addr rct rdp rport raddr (n + 1)" let ?v = "save_isl ?a ?u"
  have a: "isl_associate rct rdp rport (Some raddr) ?wi = ?a" "e_id ?a = Some (n + 1)"
    by (simp_all add: isl_associate_def isl_idle_dp_port_def RFISLEntry_def link_entry_def)
  have tu: "table_ok (isltable ?u)" "entry_rows (isltable ?u) = (entry_rows (isltable s))(n + 1 \<mapsto> ?wi)" using u by simp_all
  have v: "table_ok (isltable ?v)" "entry_rows (isltable ?v) = (entry_rows (isltable s))(n + 1 \<mapsto> ?a)"
    using memory.put_known [OF tu(1) a(2)] tu(2) by simp_all
  have nv: "mt_next (isltable ?v) = n + 1" using nu a(2) by (simp add: set_entry_def)
  have none: "get_entry_by_remote (Some ct) (Some dp) (Some port) (Some addr) (isltable ?v) = None"
    unfolding get_entry_by_remote_def
    by (rule first_entry_none [OF v(1)])
      (use v(2) fresh_end_rows(2) [OF assms(1,2)] assms(4) in \<open>auto simp: link_entry_def split: if_splits\<close>)
  let ?b = "(RFISLEntry vm rct rdp rport (Some raddr))\<lparr>is_rem_ct := Some ct, is_rem_id := Some dp, is_rem_port := Some port, is_rem_eth_addr := Some addr\<rparr>"
  have ends: "is_ct_id ?a = Some ct" "is_dp_id ?a = Some dp" "is_dp_port ?a = Some port" "is_eth_addr ?a = Some addr"
    "is_vm_id ?a = vm" "is_rem_eth_addr ?a = Some raddr" by (simp_all add: link_entry_def)
  have "connect_isl rct rdp rport (Some raddr) ?wi ?u = save_isl ?b ?v"
    unfolding connect_isl_def Let_def a(1) ends none by simp
  moreover have "entry_rows (isltable (save_isl ?b ?v)) = (entry_rows (isltable ?v))(n + 2 \<mapsto> ?b\<lparr>e_id := Some (n + 2)\<rparr>)"
    using set_entry_new(2) [OF v(1), of ?b] nv by (simp add: RFISLEntry_def)
  moreover have "?b\<lparr>e_id := Some (n + 2)\<rparr> = link_entry vm rct rdp rport raddr ct dp port addr (n + 2)"
    by (simp add: RFISLEntry_def link_entry_def)
  ultimately show ?thesis using first second v(2) by simp
qed

section \<open>Properties\<close>

text \<open>
  C24: when the two ends of a configured link between different datapaths register, neither of them
  known before, the table of links gets exactly two entries, one for each direction, both active;
  the order in which the ends register decides only which entry is stored first.
\<close>

theorem link_has_both_directions:
  assumes "server_ok s" and "(ic_rem_ct c, ic_rem_id c) \<noteq> (ic_ct_id c, ic_dp_id c)"
    and "fresh_end (ic_ct_id c) (ic_dp_id c) (ic_dp_port c) (ic_eth_addr c) s"
    and "fresh_end (ic_rem_ct c) (ic_rem_id c) (ic_rem_port c) (ic_rem_eth_addr c) s"
  shows "\<exists>n near far. near \<noteq> far
    \<and> (\<forall>i. isl_get_status (near i) = RFISL_ACTIVE \<and> isl_get_status (far i) = RFISL_ACTIVE
         \<and> is_dp_id (near i) = Some (ic_dp_id c) \<and> is_rem_id (near i) = Some (ic_rem_id c)
         \<and> is_dp_id (far i) = Some (ic_rem_id c) \<and> is_rem_id (far i) = Some (ic_dp_id c))
    \<and> entry_rows (isltable (register_islconf (ic_rem_ct c) (ic_rem_id c) (ic_rem_port c) c
          (register_islconf (ic_ct_id c) (ic_dp_id c) (ic_dp_port c) c s)))
        = (entry_rows (isltable s))(n + 1 \<mapsto> near (n + 1), n + 2 \<mapsto> far (n + 2))
    \<and> entry_rows (isltable (register_islconf (ic_ct_id c) (ic_dp_id c) (ic_dp_port c) c
          (register_islconf (ic_rem_ct c) (ic_rem_id c) (ic_rem_port c) c s)))
        = (entry_rows (isltable s))(n + 1 \<mapsto> far (n + 1), n + 2 \<mapsto> near (n + 2))"
proof -
  let ?near = "link_entry (Some (ic_vm_id c)) (ic_ct_id c) (ic_dp_id c) (ic_dp_port c) (ic_eth_addr c)
    (ic_rem_ct c) (ic_rem_id c) (ic_rem_port c) (ic_rem_eth_addr c)"
  let ?far = "link_entry (Some (ic_vm_id c)) (ic_rem_ct c) (ic_rem_id c) (ic_rem_port c) (ic_rem_eth_addr c)
    (ic_ct_id c) (ic_dp_id c) (ic_dp_port c) (ic_eth_addr c)"
  have d: "ic_rem_id c \<noteq> ic_dp_id c \<or> ic_rem_ct c \<noteq> ic_ct_id c" using assms(2) by auto
  have "?near 0 \<noteq> ?far 0" using assms(2) by (auto simp: link_entry_def)
  then have "?near \<noteq> ?far" by metis
  then show ?thesis
    using both_ends [OF assms(1,3,4,2)] both_ends [OF assms(1,4,3)] assms(2)
    by (intro exI [of _ "mt_next (isltable s)"] exI [of _ ?near] exI [of _ ?far])
      (auto simp: register_islconf_ends [OF d] link_entry_def isl_get_status_def isl_idle_dp_port_def isl_idle_remote_def)
qed

theorem link_has_both_directions_witness:
  "\<exists>s c i l. RFServer (\<lambda>ks. ks) demo_config None None [] [] = Some (Some s) \<and> ic_dp_id c = 9 \<and> ic_rem_id c = 8
     \<and> entry_rows (isltable (register_islconf 0 8 2 c (register_islconf 0 9 1 c s))) i = Some l
     \<and> isl_get_status l = RFISL_ACTIVE \<and> is_dp_id l = Some 8 \<and> is_rem_id l = Some 9"
proof -
  from demo_loads obtain s where s: "RFServer (\<lambda>ks. ks) demo_config None None [] [] = Some (Some s)" by blast
  let ?c = "\<lparr>e_id = None, ic_vm_id = 1, ic_ct_id = 0, ic_dp_id = 9, ic_dp_port = 1, ic_eth_addr = ''02:01'',
    ic_rem_ct = 0, ic_rem_id = 8, ic_rem_port = 2, ic_rem_eth_addr = ''02:02'', ic_fp_master = None, ic_fast_paths = None\<rparr>"
  note i = RFServer_init [OF identity_order s]
  have fresh: "fresh_end ct dp port addr s" for ct dp port addr
    using first_entry_none [OF server_okD(2) [OF i(1)]] i(3)
    by (simp add: fresh_end_def get_entry_by_addr_def get_entry_by_remote_def)
  have "(ic_rem_ct ?c, ic_rem_id ?c) \<noteq> (ic_ct_id ?c, ic_dp_id ?c)" by simp
  from link_has_both_directions [OF i(1) this fresh fresh] obtain n near far where
    "\<forall>i. isl_get_status (far i) = RFISL_ACTIVE \<and> is_dp_id (far i) = Some 8 \<and> is_rem_id (far i) = Some 9"
    "entry_rows (isltable (register_islconf 0 8 2 ?c (register_islconf 0 9 1 ?c s)))
        = (entry_rows (isltable s))(n + 1 \<mapsto> near (n + 1), n + 2 \<mapsto> far (n + 2))" by auto
  then show ?thesis using s by (intro exI [of _ s] exI [of _ ?c] exI [of _ "n + 2"] exI [of _ "far (n + 2)"]) simp
qed

text \<open>
  C25: mapping a virtual machine port to the virtual switch activates its association when it is associated
  but not yet active: that entry, and no other, gets the virtual switch port; the controller of the
  datapath is told of the mapping and then the virtual machine of its success. In any other case nothing
  happens.
\<close>

theorem mapping_activates:
  assumes "server_ok s"
  shows "case get_entry_by_vm_port vm port (rftable s) of
      None \<Rightarrow> map_port vm port vs vs_port s = s
    | Some e \<Rightarrow>
        if get_status e = RFENTRY_ASSOCIATED then
          (\<exists>i ct dp dp_port. entry_rows (rftable s) i = Some e \<and> re_ct_id e = Some ct \<and> re_dp_id e = Some dp \<and> re_dp_port e = Some dp_port
             \<and> entry_rows (rftable (map_port vm port vs vs_port s))
                 = (entry_rows (rftable s))(i \<mapsto> e\<lparr>re_vs_id := Some vs, re_vs_port := Some vs_port\<rparr>)
             \<and> get_status (e\<lparr>re_vs_id := Some vs, re_vs_port := Some vs_port\<rparr>) = RFENTRY_ACTIVE
             \<and> sv_sent (map_port vm port vs vs_port s) = sv_sent s
                 @ [(RFSERVER_RFPROXY_CHANNEL, int_to_string ct, DataPlaneMap ct dp dp_port vs vs_port),
                    (RFCLIENT_RFSERVER_CHANNEL, int_to_string vm, PortConfig vm port PCT_MAP_SUCCESS)])
        else map_port vm port vs vs_port s = s"
proof (cases "get_entry_by_vm_port vm port (rftable s)")
  case (Some e)
  note e = first_entry_row [OF server_okD(1) [OF assms] Some [unfolded get_entry_by_vm_port_def]]
  then obtain i where i: "e_id e = Some i" "entry_rows (rftable s) i = Some e" by blast
  let ?e = "e\<lparr>re_vs_id := Some vs, re_vs_port := Some vs_port\<rparr>"
  show ?thesis
  proof (cases "get_status e = RFENTRY_ASSOCIATED")
    case True
    then have "configured (config s) e" using status_row(3) [OF server_okD(5) [OF assms i(2)]] e(1) by (auto simp: blank_def)
    then obtain ct dp dp_port where c: "re_ct_id e = Some ct" "re_dp_id e = Some dp" "re_dp_port e = Some dp_port"
      by (auto simp: configured_def)
    have "entry_rows (fst (set_entry ?e (rftable s))) = (entry_rows (rftable s))(i \<mapsto> ?e)"
      using memory.put_known [OF server_okD(1) [OF assms], of ?e i] i by simp
    then show ?thesis
      using Some True e(1) c i(2)
      by (simp add: map_port_def activate_def Let_def num_or_0_def get_status_def is_idle_vm_port_def is_idle_dp_port_def) blast
  qed (simp add: Some map_port_def)
qed (simp add: map_port_def)

theorem mapping_activates_witness:
  "\<exists>s i e. entry_rows (rftable (map_port 10 1 7 3 s)) i = Some e \<and> get_status e = RFENTRY_ACTIVE
     \<and> (RFSERVER_RFPROXY_CHANNEL, int_to_string 0, DataPlaneMap 0 9 3 7 3) \<in> set (sv_sent (map_port 10 1 7 3 s))"
proof -
  from demo_loads obtain s where s: "RFServer (\<lambda>ks. ks) demo_config None None [] [] = Some (Some s)"
    "config s = \<lparr>mt_next = 1001, mt_data = [(1001, \<lparr>e_id = Some 1001, cf_vm_id = 10, cf_vm_port = 1, cf_ct_id = 0,
         cf_dp_id = 9, cf_dp_port = 3, cf_fp_label = None\<rparr>)], mt_order = (\<lambda>ks. ks)\<rparr>" by blast
  note a = associated_state [OF demo_fresh [OF s], of "''02:00''"]
  let ?u = "save_rf (associated_entry 10 1 ''02:00'' 0 9 3) s"
    and ?e = "(associated_entry 10 1 ''02:00'' 0 9 3)\<lparr>e_id := Some (mt_next (rftable s) + 1)\<rparr>"
  have st: "get_status ?e = RFENTRY_ASSOCIATED" "re_ct_id ?e = Some 0" "re_dp_id ?e = Some 9" "re_dp_port ?e = Some 3"
    using associated_status [of 10 1 "''02:00''" 0 9 3] by (simp_all add: associated_entry_def)
  from mapping_activates [OF a(1), of 10 1 7 3, unfolded a(2) option.case if_P [OF st(1)] st(2-4)] obtain i where
    "entry_rows (rftable (map_port 10 1 7 3 ?u)) = (entry_rows (rftable ?u))(i \<mapsto> ?e\<lparr>re_vs_id := Some 7, re_vs_port := Some 3\<rparr>)"
    "get_status (?e\<lparr>re_vs_id := Some 7, re_vs_port := Some 3\<rparr>) = RFENTRY_ACTIVE"
    "(RFSERVER_RFPROXY_CHANNEL, int_to_string 0, DataPlaneMap 0 9 3 7 3) \<in> set (sv_sent (map_port 10 1 7 3 ?u))" by auto
  then show ?thesis by (intro exI [of _ ?u] exI [of _ i] exI conjI) auto
qed

end
