(* ===== verification/Spec2Isabelle.thy ===== *)
theory Spec2Isabelle
  imports RF_Utils RF_Pages RF_Network Jit_Core Jit_Anim Jit_Geometry Jit_Helpers Jit_Graph
    Jit_GraphUtil Jit_Levels Jit_Loader Jit_Radial Jit_Sectors Jit_RGraph Jit_Canvas Jit_Extras
    Jit_Shapes Jit_Boxes Jit_Treemap Jit_TreemapTiling Jit_TreemapRatios Jit_Slices Jit_TreemapView
    Jit_Op Jit_OpGraph Jit_OpProps Jit_OpFade Jit_OpHide
    RF_NetworkView PY_Prelude RF_Types RF_Protocol RF_Table RF_FastPath RF_Labels
    RF_Translate RF_Server RF_Associations RF_ServerProps RF_Down RF_Queues RF_Routes
    RF_Datapaths RF_Links
begin

text \<open>
  \<^bold>\<open>RouteFlow: the server, the web interface and its graph library\<close>

  RouteFlow runs routing software in virtual machines and copies their routes into OpenFlow
  switches. Clients in the virtual machines and proxies in the controllers send messages to a
  server (\<^verbatim>\<open>src/rfserver\<close>, with the shared types and messages of \<^verbatim>\<open>src/rflib\<close>), which associates the
  ports of both sides as its configuration says and turns routes into flows. The web interface
  (\<^verbatim>\<open>src/rfweb/js\<close>) shows the state of the system: a table of the associations, a log of the messages,
  and a live picture of the network. The picture is a radial graph drawn by the JavaScript InfoVis
  Toolkit, which is part of the sources (\<^verbatim>\<open>src/rfweb/js/jit/jit.js\<close>). This development models the
  server, the pages, the parts of the toolkit the pages run, and its treemaps, icicles and graph operations.

  \<^bold>\<open>How the program is modelled.\<close> A JavaScript object is a list of properties in insertion
  order, since \<^verbatim>\<open>for in\<close> visits them in this order; the values of such objects are the
  datatype \<open>jsval\<close>. Numbers are exact: reals where the program computes with coordinates,
  integers and naturals for depths and indices; rounding is not modelled. An exception is
  \<open>None\<close>, or a flag beside the state reached when it is thrown. Methods that change an object
  return the changed object; references to adjacence objects, which the two end points share,
  are indices into a list. Callbacks given to a method are arguments or a trace of the calls.
  What the browser does is an argument: the time of a timer tick, the element and position of
  an event, the answer of the server.

  The server is modelled by explicit state: a record with the tables, the translators of the datapaths, the
  queues and the messages sent. A handler returns the new state and whether it ended without
  exception; a Python object with attributes is a record, an attribute that may be \<^verbatim>\<open>None\<close> an option. What the
  threads do is a sequence of events: a message received on a channel, handled as one step, or a turn
  of the thread that sends route modifications. The order in which a Python dictionary yields its
  entries is an argument of the tables, of which the lemmas only assume that it is a
  permutation (\<open>good_order\<close>); \<^verbatim>\<open>inet_pton\<close> and \<^verbatim>\<open>inet_ntop\<close> are arguments too.

  \<^bold>\<open>The theories\<close>, in the order of the code they model:
  \<^item> \<open>JS_Prelude\<close>: values, objects, sorting with a comparator (locale \<open>comparator\<close>), string
    replacement and number printing of the standard library, with the shared lemmas.
  \<^item> \<open>RF_Utils\<close>: \<^verbatim>\<open>rf/utils.js\<close>. Templates are filled completely, identifiers print and read back.
  \<^item> \<open>RF_Pages\<close>: \<^verbatim>\<open>rf/rftable.js\<close> and \<^verbatim>\<open>rf/messages.js\<close>. The rows shown and the requests sent.
  \<^item> \<open>RF_Network\<close>: the information panel and the preparation of the topology in \<^verbatim>\<open>rf/network.js\<close>.
  \<^item> \<open>Jit_Core\<close>, \<open>Jit_Anim\<close>: \<^verbatim>\<open>$.merge\<close> and its relatives, colours, JSON trees, the options;
    transitions (locales \<open>easing\<close>, \<open>mono_easing\<close>) and the animation loop, which ends and visits its
    end value.
  \<^item> \<open>Jit_Geometry\<close>, \<open>Jit_Helpers\<close>: complex and polar coordinates (locale \<open>position\<close>), their round
    trips, interpolation along the shorter arc and M\"obius transformations as automorphisms of the
    disc; the shapes drawn for nodes and edges and their hit tests (locale \<open>hit_area\<close>).
  \<^item> \<open>Jit_Graph\<close>: \<^verbatim>\<open>Graph\<close>, \<^verbatim>\<open>Graph.Node\<close>, \<^verbatim>\<open>Graph.Adjacence\<close> and their data accessors. The graph
    operations keep the invariant \<open>wf_graph\<close> and refine operations on sets of vertices and edges
    (locale \<open>implementation\<close>); accessors obey the laws of a store (locale \<open>data_store\<close>).
  \<^item> \<open>Jit_GraphUtil\<close>, \<open>Jit_Levels\<close>: \<^verbatim>\<open>Graph.Util\<close>. The breadth-first loop ends, gives every node its
    distance from the root (locale \<open>level_search\<close>), and the visits by level are complete.
  \<^item> \<open>Jit_Loader\<close>: \<^verbatim>\<open>Loader\<close>. The graph built from JSON has exactly its nodes and links, and what is
    saved loads back.
  \<^item> \<open>Jit_Radial\<close>, \<open>Jit_Sectors\<close>: \<^verbatim>\<open>Layouts.Radial\<close>. The layout puts each node on the circle of its
    distance and the children of a node in its sector (locale \<open>breadth_first\<close>). Angles are real
    numbers, unspecified where JavaScript computes \<^verbatim>\<open>NaN\<close> or an infinite number (\<open>js_quot\<close>, \<open>fin\<close>).
  \<^item> \<open>Jit_RGraph\<close>: \<^verbatim>\<open>RGraph\<close>: moving the root to a clicked node.
  \<^item> \<open>Jit_Canvas\<close>, \<open>Jit_Extras\<close>, \<open>Jit_Shapes\<close>: the canvas with its transformation, mouse events, tips,
    panning and zooming, node styles, node and edge types.
  \<^item> \<open>Jit_Boxes\<close>, \<open>Jit_Treemap\<close>, \<open>Jit_TreemapTiling\<close>, \<open>Jit_TreemapRatios\<close>: the boxes of nodes and the treemap
    layouts with rows, \<^verbatim>\<open>Layouts.TM.Squarified\<close> and \<^verbatim>\<open>Layouts.TM.Strip\<close>. Laying out rows is proved
    for any kind of row (locale \<open>rows\<close>) and the recursion for any way to place the children of a
    node (locale \<open>area_layout\<close>, on trees with the locale \<open>leveled_kids\<close>): the boxes of children tile the
    rectangle of their parent. The two ratings of a row are compared with the boxes it gives.
  \<^item> \<open>Jit_Slices\<close>: \<^verbatim>\<open>Layouts.TM.SliceAndDice\<close> and \<^verbatim>\<open>Layouts.Icicle\<close>, whose slices tile in the same sense.
  \<^item> \<open>Jit_TreemapView\<close>: \<^verbatim>\<open>TM.Base\<close> and \<^verbatim>\<open>TM.Geom\<close>: the levels shown, entering a node and leaving it.
  \<^item> \<open>Jit_Op\<close>: \<^verbatim>\<open>Graph.Op\<close> on the radial graph: removing nodes and edges, adding a graph, morphing,
    contracting and expanding, with the exceptions of the layouts they run. \<open>Jit_OpGraph\<close> simulates
    their loops on sets of vertices and edges and states when a layout succeeds and what it keeps
    (locale \<open>viz_layout\<close>, interpreted for \<^verbatim>\<open>refresh\<close> and \<^verbatim>\<open>reposition\<close> of the radial graph);
    \<open>Jit_OpProps\<close>, \<open>Jit_OpFade\<close> and \<open>Jit_OpHide\<close> give the graph that each operation leaves, when it
    raises an exception, and the nodes it hides.
  \<^item> \<open>RF_NetworkView\<close>: the live graph of \<^verbatim>\<open>rf/network.js\<close> on top of all of these: timers, updates,
    dragging and clicks as a sequence of events.

  The theories of the server:
  \<^item> \<open>PY_Prelude\<close>: integers, text and byte strings of the Python library.
  \<^item> \<open>RF_Types\<close>: \<^verbatim>\<open>rflib/defs.py\<close> and \<^verbatim>\<open>rflib/types\<close>: matches, actions and options are packed without loss
    (locale \<open>tlv_class\<close>).
  \<^item> \<open>RF_Protocol\<close>: \<^verbatim>\<open>rflib/ipc/RFProtocol.py\<close>: which fields of a message survive being sent.
  \<^item> \<open>RF_Table\<close>: \<^verbatim>\<open>MemoryTable.py\<close> and \<^verbatim>\<open>rftable.py\<close>: the tables with their contract (locale \<open>entry_table\<close>) and
    the configuration files.
  \<^item> \<open>RF_FastPath\<close>, \<open>RF_Labels\<close>: \<^verbatim>\<open>rffastpath.py\<close>: the search for fast paths ends and its labels differ.
  \<^item> \<open>RF_Translate\<close>, \<open>RF_Server\<close>: the translators and the class \<^verbatim>\<open>RFServer\<close> of \<^verbatim>\<open>rfserver.py\<close>, and the
    turns of its threads, which an exception of a handler ends (\<^verbatim>\<open>rflib/ipc/ZeroMQIPC.py\<close>).
  \<^item> \<open>RF_Associations\<close>: the invariant \<open>server_ok\<close> of the tables, kept by every event, what the handlers
    leave alone (locale \<open>server_view\<close>, interpreted for the configuration, the queues, the translators and the
    state of the client thread), and so that the configuration is never changed.
  \<^item> \<open>RF_ServerProps\<close>: associations follow the configuration; the two registrations of a pair commute,
    and what happens when they race.
  \<^item> \<open>RF_Down\<close>: what a datapath that goes down leaves. \<open>RF_Queues\<close>: nothing queued is lost or overtaken.
  \<^item> \<open>RF_Routes\<close>: how routes become flows, and which routes end a thread. \<open>RF_Datapaths\<close>: when a
    datapath is configured. \<open>RF_Links\<close>: both directions of links, and the activation of associations.

  This theory adds how the server and the pages recognise virtual switches.

  \<^bold>\<open>Termination.\<close> Loops are recursive functions with proved measures, or the number of steps is
  bounded by the data. Two loops are partial functions into \<open>option\<close>, and their termination is
  proved: the loop that numbers the children of a clicked node, under the condition that the node is
  among its parent's children, which the callers establish, and the recursion of the search for fast
  paths, for every configuration that loads.

  \<^bold>\<open>Not modelled.\<close> jQuery and the minified \<^verbatim>\<open>jit-yc.js\<close> (third-party and generated), the charts,
  space trees, sunbursts and force-directed graphs of the toolkit (no page uses
  them), the animated transitions and the requests for more nodes of the treemaps, the drawing of pixels, log messages, the interleaving of handlers within their steps (except for
  the two halves of registration), the translator for Corsa switches (never used by the server), the main
  program of \<^verbatim>\<open>rffastpath.py\<close>, which runs \<^verbatim>\<open>ovs-ofctl\<close>, the tables in MongoDB, the web server
  \<^verbatim>\<open>rfweb.py\<close>, the C++ client, the transports but for the end of a thread, the operations of \<^verbatim>\<open>Graph.Op\<close>
  on visualizations other than the radial graph, and the tests.
\<close>

section \<open>Virtual switches\<close>

text \<open>
  C19: the pages take a datapath for a virtual switch when the text of its identifier begins with the
  prefix of virtual switches, the server when the upper half of the identifier is the prefix. So the pages
  recognise every virtual switch of the server, and for identifiers of sixteen hexadecimal digits the two
  agree; but a shorter identifier that begins with the same digits is a virtual switch to the pages only.
\<close>

theorem virtual_switch_ids:
  assumes "0 \<le> dp"
  shows "(is_rfvs (format_id dp) \<longleftrightarrow> (\<exists>k. dp div 16 ^ k = RFVS_DP_PREFIX))
    \<and> (is_rfvs_dp dp \<longrightarrow> is_rfvs (format_id dp))
    \<and> (2 ^ 60 \<le> dp \<and> dp < 2 ^ 64 \<longrightarrow> is_rfvs (format_id dp) = is_rfvs_dp dp)"
proof -
  have "map digit_char [7, 2, 6, 6, 7, 6, 7, 3] = ''72667673''" by code_simp
  then have p: "digits_base 16 0x72667673 = ''72667673''" by (simp add: digits_base.simps)
  have "is_rfvs (format_id dp) \<longleftrightarrow> take 8 (digits_base 16 (nat dp)) = ''72667673''"
    unfolding format_id_digits [OF assms] by (simp add: is_rfvs_def RFVS_PREFIX_def substr_def eval_nat_numeral)
  also have "\<dots> \<longleftrightarrow> (\<exists>k. nat dp div 16 ^ k = 0x72667673)"
    using first_digits [of "0x72667673" "nat dp"] by (simp add: p)
  also have "\<dots> \<longleftrightarrow> (\<exists>k. dp div 16 ^ k = RFVS_DP_PREFIX)"
  proof -
    have "nat dp div 16 ^ k = 0x72667673 \<longleftrightarrow> dp div 16 ^ k = RFVS_DP_PREFIX" for k
    proof -
      have e: "dp div 16 ^ k = int (nat dp div 16 ^ k)" using assms by (simp add: zdiv_int)
      show ?thesis unfolding e RFVS_DP_PREFIX_def by (rule int_eq_iff_numeral [symmetric])
    qed
    then show ?thesis by simp
  qed
  finally have page: "is_rfvs (format_id dp) \<longleftrightarrow> (\<exists>k. dp div 16 ^ k = RFVS_DP_PREFIX)" .
  have server: "is_rfvs_dp dp \<longleftrightarrow> dp div 16 ^ 8 = RFVS_DP_PREFIX" by (simp add: is_rfvs_dp_def)
  show ?thesis unfolding page server using sixteen_digits [of dp] by blast
qed

theorem virtual_switch_ids_witness:
  "is_rfvs (format_id 0x7266767300000007) \<and> is_rfvs_dp 0x7266767300000007
   \<and> is_rfvs (format_id 0x72667673) \<and> \<not> is_rfvs_dp 0x72667673"
proof -
  have s: "is_rfvs_dp 0x7266767300000007" "\<not> is_rfvs_dp 0x72667673"
    "(0x72667673 :: int) div 16 ^ 0 = RFVS_DP_PREFIX" by (simp_all add: RFVS_DP_PREFIX_def is_rfvs_dp_def)
  have "is_rfvs (format_id 0x7266767300000007)"
    using virtual_switch_ids [of "0x7266767300000007"] s(1) by (metis zero_le_numeral)
  moreover have "is_rfvs (format_id 0x72667673)"
    using virtual_switch_ids [of "0x72667673"] s(3) by (metis zero_le_numeral)
  ultimately show ?thesis using s by blast
qed

end
